(* ===== verification/Rumsh_Prelude.thy ===== *)
theory Rumsh_Prelude
  imports Main "HOL-Library.Word" "HOL-Library.AList" "HOL-Library.Multiset" "HOL-Library.Sublist"
begin

text \<open>
  The vocabulary every component theory of the rumsh development shares.

  \<^item> Machine integers are words of the source's width; \<open>+\<close>, \<open>-\<close> and \<open>*\<close> wrap, as they do in
    the release build the README asks for (no overflow checks in \<open>Cargo.toml\<close>).  \<open>usize\<close> is
    \<open>nat\<close>: it counts bytes and elements held in memory.
  \<^item> \<open>Instant\<close> and \<open>Duration\<close> are nanosecond counts of type \<open>nat\<close>; \<open>duration_since\<close> saturates
    at zero, as the standard library's does.
  \<^item> A fallible function returns \<open>'a res\<close>: \<open>Inl\<close> one of the errors the source can raise
    (panics included), \<open>Inr\<close> the value.  A fallible \<open>&mut self\<close> method returns the state it
    leaves behind together with its result, since Rust keeps partial updates on an error path.
  \<^item> \<open>Vec\<close> and \<open>VecDeque\<close> are lists with checked reads and writes.  A \<open>BTreeMap\<close> is an
    association list strictly sorted by key (its iteration order), a \<open>HashMap\<close> one with distinct
    keys; both meet the interface \<open>key_map\<close> below.
\<close>

unbundle bit_operations_syntax

section \<open>Types\<close>

type_synonym u8 = "8 word"
type_synonym u16 = "16 word"
type_synonym u32 = "32 word"
type_synonym u64 = "64 word"
type_synonym bytes = "u8 list"
type_synonym instant = nat
type_synonym duration = nat

text \<open>Every error value and every panic of the modelled source.\<close>

datatype err =
    EncodeError
  | DecodeError
  | EncryptError
  | DecryptError
  | DecompressError
  | EmptyPayload
  | UnknownFlag u8
  | SessionMismatch u64 u64
  | RowOutOfBounds nat u16
  | CellOutOfBounds nat u16
  | TerminalError
  | PtyError
  | IndexPanic
  | UnreachablePanic
  | UnwrapPanic
  | CharBoundaryPanic
  | ParseIntError
  | ParseAddrError
  | PortFormat
  | PortOrder
  | BindError
  | ReceiveError
  | HandshakeTimeout
  | TerminatedBySignal
  | TokenMissing
  | TargetMissing
  | KeyLength
  | SshFailed
  | ResolveFailed
  | EmptyShell
  | ExitFailure
  | IoError

type_synonym 'a res = "err + 'a"

definition is_panic :: "err \<Rightarrow> bool" where
  "is_panic e \<longleftrightarrow> e \<in> {IndexPanic, UnreachablePanic, UnwrapPanic, CharBoundaryPanic}"

named_theorems rumsh_inv \<open>facts that an operation keeps an invariant\<close>
named_theorems rumsh_frame \<open>facts that an operation leaves a field alone\<close>

section \<open>Results\<close>

definition and_then :: "'a res \<Rightarrow> ('a \<Rightarrow> 'b res) \<Rightarrow> 'b res" where
  "and_then r f = (case r of Inl e \<Rightarrow> Inl e | Inr x \<Rightarrow> f x)"

definition ok_or :: "err \<Rightarrow> 'a option \<Rightarrow> 'a res" where
  "ok_or e x = (case x of None \<Rightarrow> Inl e | Some v \<Rightarrow> Inr v)"

lemma and_then_simps [simp]:
  "and_then (Inl e) f = Inl e"
  "and_then (Inr x) f = f x"
  by (simp_all add: and_then_def)

lemma and_then_Inr_iff [simp]:
  "and_then r f = Inr y \<longleftrightarrow> (\<exists>x. r = Inr x \<and> f x = Inr y)"
  by (cases r) simp_all

lemma ok_or_simps [simp]:
  "ok_or e None = Inl e"
  "ok_or e (Some v) = Inr v"
  by (simp_all add: ok_or_def)

lemma ok_or_Inr_iff [simp]: "ok_or e x = Inr v \<longleftrightarrow> x = Some v"
  by (cases x) simp_all

text \<open>Sequencing for methods that return the state they leave behind with their result.\<close>

definition st_then :: "'s \<times> 'a res \<Rightarrow> ('s \<Rightarrow> 'a \<Rightarrow> 's \<times> 'b res) \<Rightarrow> 's \<times> 'b res" where
  "st_then m k = (case m of (s, Inl e) \<Rightarrow> (s, Inl e) | (s, Inr x) \<Rightarrow> k s x)"

lemma st_then_simps [simp]:
  "st_then (s, Inl e) k = (s, Inl e)"
  "st_then (s, Inr x) k = k s x"
  by (simp_all add: st_then_def)

lemma st_then_Inr: "snd m = Inr x \<Longrightarrow> st_then m k = k (fst m) x"
  by (cases m) simp

lemma option_eqI: "(\<And>v. a = Some v \<longleftrightarrow> b = Some v) \<Longrightarrow> a = b"
  by (cases a; cases b) auto

section \<open>Words\<close>

lemma unat_of_nat_below: "k < unat (n :: 'a::len word) \<Longrightarrow> unat (of_nat k :: 'a word) = k"
proof -
  assume "k < unat n"
  then have "k < 2 ^ LENGTH('a)" by (rule less_trans) (rule unsigned_less)
  then show ?thesis by (simp add: unat_of_nat)
qed

lemma of_nat_below: "k < unat (n :: 'a::len word) \<Longrightarrow> of_nat k < n"
  by (simp add: word_less_nat_alt unat_of_nat_below)

definition saturating_sub :: "'a::len word \<Rightarrow> 'a word \<Rightarrow> 'a word" where
  "saturating_sub a b = (if a < b then 0 else a - b)"

section \<open>Time\<close>

definition duration_since :: "instant \<Rightarrow> instant \<Rightarrow> duration" where
  "duration_since now earlier = now - earlier"

definition from_millis :: "nat \<Rightarrow> duration" where
  "from_millis n = n * 1000000"

definition from_secs :: "nat \<Rightarrow> duration" where
  "from_secs n = n * 1000000000"

definition as_millis :: "duration \<Rightarrow> nat" where
  "as_millis d = d div 1000000"

lemma duration_since_self [simp]: "duration_since t t = 0"
  by (simp add: duration_since_def)

lemma duration_mono:
  "from_millis a \<le> from_millis b \<longleftrightarrow> a \<le> b"
  "from_millis a < from_millis b \<longleftrightarrow> a < b"
  "from_secs a \<le> from_secs b \<longleftrightarrow> a \<le> b"
  "from_secs a = from_millis (1000 * a)"
  by (simp_all add: from_millis_def from_secs_def)

section \<open>Vectors\<close>

definition vec_get :: "'a list \<Rightarrow> nat \<Rightarrow> 'a res" where
  "vec_get xs i = (if i < length xs then Inr (xs ! i) else Inl IndexPanic)"

definition vec_set :: "'a list \<Rightarrow> nat \<Rightarrow> 'a \<Rightarrow> 'a list res" where
  "vec_set xs i v = (if i < length xs then Inr (xs[i := v]) else Inl IndexPanic)"

lemma vec_get_ok [simp]: "i < length xs \<Longrightarrow> vec_get xs i = Inr (xs ! i)"
  by (simp add: vec_get_def)

lemma vec_set_ok [simp]: "i < length xs \<Longrightarrow> vec_set xs i v = Inr (xs[i := v])"
  by (simp add: vec_set_def)

lemma vec_get_Inr_iff: "vec_get xs i = Inr v \<longleftrightarrow> i < length xs \<and> v = xs ! i"
  by (auto simp: vec_get_def)

lemma vec_set_Inr_iff: "vec_set xs i v = Inr ys \<longleftrightarrow> i < length xs \<and> ys = xs[i := v]"
  by (auto simp: vec_set_def)

text \<open>Writing a list of \<open>(index, value)\<close> pairs, in order.\<close>

definition write_all :: "(nat \<times> 'a) list \<Rightarrow> 'a list \<Rightarrow> 'a list" where
  "write_all us xs = fold (\<lambda>(i, v) ys. ys[i := v]) us xs"

lemma write_all_simps [simp]:
  "write_all [] xs = xs"
  "write_all ((i, v) # us) xs = write_all us (xs[i := v])"
  "write_all (us @ vs) xs = write_all vs (write_all us xs)"
  by (simp_all add: write_all_def)

lemma length_write_all [simp]: "length (write_all us xs) = length xs"
  by (induction us arbitrary: xs) (auto simp: write_all_def split: prod.splits)

text \<open>
  Writes that agree with a target list move a list towards the target, whatever their order:
  an index is either written (and then holds the target's value) or unchanged.
\<close>

lemma nth_write_all_agree:
  assumes "\<forall>(i, v) \<in> set us. i < length xs \<and> v = new ! i" and "j < length xs"
  shows "write_all us xs ! j = (if j \<in> fst ` set us then new ! j else xs ! j)"
  using assms
proof (induction us arbitrary: xs)
  case Nil
  then show ?case by simp
next
  case (Cons u us)
  obtain i v where u: "u = (i, v)" by (cases u)
  with Cons.prems have "\<forall>(k, w) \<in> set us. k < length (xs[i := v]) \<and> w = new ! k"
    and "j < length (xs[i := v])" by auto
  from Cons.IH [OF this] Cons.prems u show ?case
    by (auto simp: nth_list_update)
qed

lemma write_all_reaches:
  assumes "length xs = length new"
    and "\<forall>(i, v) \<in> set us. i < length new \<and> v = new ! i"
    and "\<And>j. j < length new \<Longrightarrow> xs ! j \<noteq> new ! j \<Longrightarrow> j \<in> fst ` set us"
  shows "write_all us xs = new"
proof (rule nth_equalityI)
  show "length (write_all us xs) = length new"
    using assms(1) by simp
next
  fix j assume "j < length (write_all us xs)"
  then have j: "j < length xs" by simp
  have "write_all us xs ! j = (if j \<in> fst ` set us then new ! j else xs ! j)"
    using nth_write_all_agree [of us xs new j] assms(1,2) j by simp
  with assms(1,3) j show "write_all us xs ! j = new ! j" by auto
qed

section \<open>Slices in chunks\<close>

text \<open>\<open>slice::chunks(n)\<close> for \<open>n > 0\<close>: full pieces of \<open>n\<close> elements and a shorter last one.\<close>

function chunks :: "nat \<Rightarrow> 'a list \<Rightarrow> 'a list list" where
  "chunks n xs = (if xs = [] \<or> n = 0 then [] else take n xs # chunks n (drop n xs))"
  by pat_completeness auto
termination
  by (relation "measure (\<lambda>(n, xs). length xs)") auto

declare chunks.simps [simp del]

lemma chunks_Nil [simp]: "chunks n [] = []"
  by (simp add: chunks.simps)

lemma concat_chunks [simp]: "0 < n \<Longrightarrow> concat (chunks n xs) = xs"
proof (induction n xs rule: chunks.induct)
  case (1 n xs)
  then show ?case
    by (cases "xs = []") (simp_all add: chunks.simps [of n xs])
qed

lemma length_chunks: "0 < n \<Longrightarrow> length (chunks n xs) = (length xs + n - 1) div n"
proof (induction n xs rule: chunks.induct)
  case (1 n xs)
  show ?case
  proof (cases "xs = []")
    case True
    with "1.prems" show ?thesis by simp
  next
    case False
    then have "length (chunks n xs) = Suc ((length xs - n + n - 1) div n)"
      using "1" by (simp add: chunks.simps [of n xs])
    also have "\<dots> = (length xs + n - 1) div n"
    proof (cases "length xs \<le> n")
      case True
      with False have "(length xs + n - 1) div n = Suc 0"
        by (cases xs) (auto intro!: div_nat_eqI)
      moreover have "(n - 1) div n = 0" using "1.prems" by simp
      ultimately show ?thesis using True by simp
    next
      case False
      then have "length xs + n - 1 = (length xs - 1) + n" by simp
      then have "(length xs + n - 1) div n = Suc ((length xs - 1) div n)"
        using "1.prems" by (simp only: div_add_self2)
      with False show ?thesis by simp
    qed
    finally show ?thesis .
  qed
qed

lemma chunks_bounds: "c \<in> set (chunks n xs) \<Longrightarrow> c \<noteq> [] \<and> length c \<le> n"
proof (induction n xs rule: chunks.induct)
  case (1 n xs)
  then show ?case
    by (cases "xs = [] \<or> n = 0") (auto simp: chunks.simps [of n xs])
qed

end
