(* ===== verification/Rumsh_Grid.thy ===== *)
theory Rumsh_Grid
  imports Rumsh_Prelude
begin

text \<open>
  \<open>src/protocol/grid.rs\<close>: the terminal grid, its diffs and patches.  A \<open>&str\<close> is its UTF-8 byte
  list.  \<open>diff_from\<close> computes its cell index in \<open>u16\<close> arithmetic, so the model does too; vector
  reads and writes are checked, an index out of range being the panic \<open>IndexPanic\<close>.
\<close>

section \<open>Data\<close>

definition STYLE_BOLD :: u8 where "STYLE_BOLD = push_bit 0 1"
definition STYLE_ITALIC :: u8 where "STYLE_ITALIC = push_bit 1 1"
definition STYLE_UNDERLINE :: u8 where "STYLE_UNDERLINE = push_bit 2 1"
definition STYLE_INVERSE :: u8 where "STYLE_INVERSE = push_bit 3 1"

record RgbColorUpdate =
  rgb_r :: u8
  rgb_g :: u8
  rgb_b :: u8

record CompactGrapheme =
  cg_bytes :: bytes
  cg_len :: u8

record LocalCellData =
  graphemes :: CompactGrapheme
  fg :: "RgbColorUpdate option"
  bg :: "RgbColorUpdate option"
  style_flags :: u8

record CellUpdate =
  cu_x :: u16
  cu_cell :: LocalCellData

record RowUpdate =
  ru_y :: u16
  ru_cells :: "CellUpdate list"
  ru_is_wrapped :: bool

record FrameUpdate =
  fu_ref_seq :: u64
  fu_cols :: u16
  fu_rows :: u16
  fu_cursor_x :: u16
  fu_cursor_y :: u16
  fu_cursor_visible :: bool
  fu_row_updates :: "RowUpdate list"
  fu_is_echo_enabled :: bool

record GridState =
  gs_cols :: u16
  gs_rows :: u16
  gs_cursor_x :: u16
  gs_cursor_y :: u16
  gs_cursor_visible :: bool
  gs_cells :: "LocalCellData list"
  gs_row_wrapped :: "bool list"

section \<open>Graphemes\<close>

definition is_continuation :: "u8 \<Rightarrow> bool" where
  "is_continuation b \<longleftrightarrow> 128 \<le> b \<and> b < 192"

text \<open>\<open>str::is_char_boundary\<close>\<close>

definition is_char_boundary :: "bytes \<Rightarrow> nat \<Rightarrow> bool" where
  "is_char_boundary s i \<longleftrightarrow>
     i = 0 \<or> i = length s \<or> (i < length s \<and> \<not> is_continuation (s ! i))"

text \<open>The loop \<open>while !s.is_char_boundary(len) { len -= 1; }\<close>.\<close>

fun floor_boundary :: "bytes \<Rightarrow> nat \<Rightarrow> nat" where
  "floor_boundary s 0 = 0"
| "floor_boundary s (Suc len) =
     (if is_char_boundary s (Suc len) then Suc len else floor_boundary s len)"

definition CompactGrapheme_new :: "bytes \<Rightarrow> CompactGrapheme" where
  "CompactGrapheme_new s =
     (let len = (if length s > 15 then floor_boundary s 15 else length s)
      in \<lparr>cg_bytes = take len s @ replicate (15 - len) 0, cg_len = of_nat len\<rparr>)"

definition as_str :: "CompactGrapheme \<Rightarrow> bytes res" where
  "as_str g =
     (if unat (cg_len g) \<le> length (cg_bytes g) then Inr (take (unat (cg_len g)) (cg_bytes g))
      else Inl IndexPanic)"

text \<open>The blank cell the source writes out at every (re)allocation of a cell vector.\<close>

definition default_cell :: LocalCellData where
  "default_cell =
     \<lparr>graphemes = CompactGrapheme_new [32], fg = None, bg = None, style_flags = 0\<rparr>"

section \<open>Diffing\<close>

definition cell_index :: "u16 \<Rightarrow> u16 \<Rightarrow> u16 \<Rightarrow> nat" where
  "cell_index cols y x = unat (y * cols + x)"

definition u16_range :: "u16 \<Rightarrow> u16 list" where
  "u16_range n = map of_nat [0..<unat n]"

definition from_cell :: "GridState option \<Rightarrow> nat \<Rightarrow> LocalCellData res" where
  "from_cell use_ref idx =
     (case use_ref of Some r \<Rightarrow> vec_get (gs_cells r) idx | None \<Rightarrow> Inr default_cell)"

fun diff_cells :: "GridState \<Rightarrow> GridState option \<Rightarrow> u16 \<Rightarrow> u16 list \<Rightarrow> CellUpdate list res" where
  "diff_cells g use_ref y [] = Inr []"
| "diff_cells g use_ref y (x # xs) =
     (let idx = cell_index (gs_cols g) y x in
      and_then (vec_get (gs_cells g) idx) (\<lambda>to_cell.
      and_then (from_cell use_ref idx) (\<lambda>old.
      and_then (diff_cells g use_ref y xs) (\<lambda>rest.
        Inr (if to_cell \<noteq> old then \<lparr>cu_x = x, cu_cell = to_cell\<rparr> # rest else rest)))))"

definition wrapping_changed :: "GridState \<Rightarrow> GridState option \<Rightarrow> nat \<Rightarrow> bool res" where
  "wrapping_changed g use_ref y =
     and_then (vec_get (gs_row_wrapped g) y) (\<lambda>w.
       (case use_ref of
          Some r \<Rightarrow> and_then (vec_get (gs_row_wrapped r) y) (\<lambda>w'. Inr (w \<noteq> w'))
        | None \<Rightarrow> Inr w))"

fun diff_rows :: "GridState \<Rightarrow> GridState option \<Rightarrow> u16 list \<Rightarrow> RowUpdate list res" where
  "diff_rows g use_ref [] = Inr []"
| "diff_rows g use_ref (y # ys) =
     and_then (diff_cells g use_ref y (u16_range (gs_cols g))) (\<lambda>cells.
     and_then (wrapping_changed g use_ref (unat y)) (\<lambda>changed.
     and_then (vec_get (gs_row_wrapped g) (unat y)) (\<lambda>w.
     and_then (diff_rows g use_ref ys) (\<lambda>rest.
       Inr (if cells \<noteq> [] \<or> changed
            then \<lparr>ru_y = y, ru_cells = cells, ru_is_wrapped = w\<rparr> # rest else rest)))))"

definition use_ref_of :: "GridState \<Rightarrow> GridState option \<Rightarrow> GridState option" where
  "use_ref_of g ref_state =
     (case ref_state of
        Some r \<Rightarrow> if gs_cols r = gs_cols g \<and> gs_rows r = gs_rows g then Some r else None
      | None \<Rightarrow> None)"

definition diff_from :: "GridState \<Rightarrow> GridState option \<Rightarrow> u64 \<Rightarrow> bool \<Rightarrow> FrameUpdate res" where
  "diff_from g ref_state ref_seq is_echo_enabled =
     and_then (diff_rows g (use_ref_of g ref_state) (u16_range (gs_rows g))) (\<lambda>row_updates.
       Inr \<lparr>fu_ref_seq = ref_seq, fu_cols = gs_cols g, fu_rows = gs_rows g,
            fu_cursor_x = gs_cursor_x g, fu_cursor_y = gs_cursor_y g,
            fu_cursor_visible = gs_cursor_visible g, fu_row_updates = row_updates,
            fu_is_echo_enabled = is_echo_enabled\<rparr>)"

section \<open>Patching\<close>

fun patch_cells :: "GridState \<Rightarrow> nat \<Rightarrow> CellUpdate list \<Rightarrow> GridState \<times> unit res" where
  "patch_cells g y [] = (g, Inr ())"
| "patch_cells g y (cu # cus) =
     (let x = unat (cu_x cu) in
      if x \<ge> unat (gs_cols g) then (g, Inl (CellOutOfBounds x (gs_cols g)))
      else (case vec_set (gs_cells g) (y * unat (gs_cols g) + x) (cu_cell cu) of
              Inl e \<Rightarrow> (g, Inl e)
            | Inr cells \<Rightarrow> patch_cells (g\<lparr>gs_cells := cells\<rparr>) y cus))"

fun patch_rows :: "GridState \<Rightarrow> RowUpdate list \<Rightarrow> GridState \<times> unit res" where
  "patch_rows g [] = (g, Inr ())"
| "patch_rows g (ru # rus) =
     (let y = unat (ru_y ru) in
      if y \<ge> unat (gs_rows g) then (g, Inl (RowOutOfBounds y (gs_rows g)))
      else (case vec_set (gs_row_wrapped g) y (ru_is_wrapped ru) of
              Inl e \<Rightarrow> (g, Inl e)
            | Inr ws \<Rightarrow>
                (case patch_cells (g\<lparr>gs_row_wrapped := ws\<rparr>) y (ru_cells ru) of
                   (g', Inl e) \<Rightarrow> (g', Inl e)
                 | (g', Inr _) \<Rightarrow> patch_rows g' rus)))"

definition resize_for :: "GridState \<Rightarrow> FrameUpdate \<Rightarrow> GridState" where
  "resize_for g diff =
     (if gs_cols g \<noteq> fu_cols diff \<or> gs_rows g \<noteq> fu_rows diff
      then g\<lparr>gs_cols := fu_cols diff, gs_rows := fu_rows diff,
             gs_cells := replicate (unat (fu_cols diff) * unat (fu_rows diff)) default_cell,
             gs_row_wrapped := replicate (unat (fu_rows diff)) False\<rparr>
      else g)"

definition patch :: "GridState \<Rightarrow> FrameUpdate \<Rightarrow> GridState \<times> unit res" where
  "patch g diff =
     (case patch_rows (resize_for g diff) (fu_row_updates diff) of
        (g', Inl e) \<Rightarrow> (g', Inl e)
      | (g', Inr _) \<Rightarrow>
          (g'\<lparr>gs_cursor_x := fu_cursor_x diff, gs_cursor_y := fu_cursor_y diff,
              gs_cursor_visible := fu_cursor_visible diff\<rparr>, Inr ()))"

definition apply_diff :: "GridState \<Rightarrow> FrameUpdate \<Rightarrow> GridState \<times> unit res" where
  "apply_diff g diff = patch g diff"

section \<open>Well-formed grids\<close>

definition grid_wf :: "GridState \<Rightarrow> bool" where
  "grid_wf g \<longleftrightarrow>
     length (gs_cells g) = unat (gs_cols g) * unat (gs_rows g)
     \<and> length (gs_row_wrapped g) = unat (gs_rows g)"

text \<open>The grids whose every cell has an index that fits in the \<open>u16\<close> of \<open>diff_from\<close>.\<close>

definition grid_fits :: "GridState \<Rightarrow> bool" where
  "grid_fits g \<longleftrightarrow> unat (gs_cols g) * unat (gs_rows g) \<le> 65536"

definition blank_grid :: "u16 \<Rightarrow> u16 \<Rightarrow> GridState" where
  "blank_grid cols rows =
     \<lparr>gs_cols = cols, gs_rows = rows, gs_cursor_x = 0, gs_cursor_y = 0, gs_cursor_visible = False,
      gs_cells = replicate (unat cols * unat rows) default_cell,
      gs_row_wrapped = replicate (unat rows) False\<rparr>"

lemma blank_grid_wf [simp]: "grid_wf (blank_grid cols rows)"
  by (simp add: grid_wf_def blank_grid_def)

lemma blank_grid_sel [simp]:
  "gs_cols (blank_grid cols rows) = cols" "gs_rows (blank_grid cols rows) = rows"
  by (simp_all add: blank_grid_def)

section \<open>Grapheme lemmas\<close>

lemma floor_boundary_le: "floor_boundary s n \<le> n"
  by (induction n) auto

lemma floor_boundary_boundary: "is_char_boundary s (floor_boundary s n)"
  by (induction n) (auto simp: is_char_boundary_def)

lemma floor_boundary_greatest: "m \<le> n \<Longrightarrow> is_char_boundary s m \<Longrightarrow> m \<le> floor_boundary s n"
  by (induction n) (auto simp: le_Suc_eq)

definition stored_len :: "bytes \<Rightarrow> nat" where
  "stored_len s = (if length s > 15 then floor_boundary s 15 else length s)"

lemma stored_len_le: "stored_len s \<le> 15" "stored_len s \<le> length s"
  using floor_boundary_le [of s 15] by (auto simp: stored_len_def)

lemma as_str_new: "as_str (CompactGrapheme_new s) = Inr (take (stored_len s) s)"
proof -
  have "unat (of_nat (stored_len s) :: u8) = stored_len s"
    using stored_len_le(1) [of s] by (simp add: unat_of_nat)
  then show ?thesis
    using stored_len_le [of s]
    by (simp add: as_str_def CompactGrapheme_new_def stored_len_def [symmetric] Let_def min_def)
qed

text \<open>
  Well-formed UTF-8, after the table of byte ranges of the Unicode standard: the continuation
  bytes a lead byte asks for, and the range of the first of them.
\<close>

definition utf8_tail :: "u8 \<Rightarrow> nat option" where
  "utf8_tail b =
     (if b < 128 then Some 0 else if 194 \<le> b \<and> b \<le> 223 then Some 1
      else if 224 \<le> b \<and> b \<le> 239 then Some 2 else if 240 \<le> b \<and> b \<le> 244 then Some 3 else None)"

definition utf8_second :: "u8 \<Rightarrow> u8 \<Rightarrow> bool" where
  "utf8_second b c \<longleftrightarrow>
     (b = 224 \<longrightarrow> 160 \<le> c) \<and> (b = 237 \<longrightarrow> c \<le> 159) \<and> (b = 240 \<longrightarrow> 144 \<le> c) \<and> (b = 244 \<longrightarrow> c \<le> 143)"

function utf8 :: "bytes \<Rightarrow> bool" where
  "utf8 [] = True"
| "utf8 (b # bs) =
     (case utf8_tail b of
        None \<Rightarrow> False
      | Some n \<Rightarrow> n \<le> length bs \<and> list_all is_continuation (take n bs)
          \<and> (n > 0 \<longrightarrow> utf8_second b (hd bs)) \<and> utf8 (drop n bs))"
  by pat_completeness auto
termination
  by (relation "measure length") auto

lemma utf8_tail_props:
  "utf8_tail b = Some n \<Longrightarrow> n \<le> 3 \<and> \<not> is_continuation b"
  by (auto simp: utf8_tail_def is_continuation_def not_less not_le split: if_splits)
     (unat_arith)+

lemma utf8_head: "utf8 (b # bs) \<Longrightarrow> \<not> is_continuation b"
  by (auto dest: utf8_tail_props split: option.splits)

lemma utf8_boundary_shift:
  assumes "utf8 (b # bs)" "utf8_tail b = Some n" "m \<le> length bs - n"
  shows "is_char_boundary (b # bs) (Suc (n + m)) \<longleftrightarrow> is_char_boundary (drop n bs) m"
proof (cases "m = 0")
  case True
  have "\<not> is_continuation (bs ! n)" if "n < length bs"
    using assms that utf8_head [of "bs ! n" "drop (Suc n) bs"] by (simp add: Cons_nth_drop_Suc)
  with True assms show ?thesis by (auto simp: is_char_boundary_def)
next
  case False
  with assms show ?thesis by (auto simp: is_char_boundary_def)
qed

lemma utf8_inside_not_boundary:
  assumes "utf8 (b # bs)" "utf8_tail b = Some n" "j < n"
  shows "\<not> is_char_boundary (b # bs) (Suc j)"
proof -
  from assms have "j < length bs" and "list_all is_continuation (take n bs)" by auto
  with assms(3) show ?thesis
    by (auto simp: is_char_boundary_def list_all_length)
qed

lemma utf8_take_boundary: "utf8 s \<Longrightarrow> is_char_boundary s i \<Longrightarrow> utf8 (take i s)"
proof (induction s arbitrary: i rule: utf8.induct)
  case 1
  then show ?case by simp
next
  case (2 b bs)
  from "2.prems"(1) obtain n where n: "utf8_tail b = Some n" and le: "n \<le> length bs"
    by (auto split: option.splits)
  show ?case
  proof (cases i)
    case (Suc j)
    with utf8_inside_not_boundary [OF "2.prems"(1) n, of j] "2.prems"(2) have j: "n \<le> j"
      by (cases "j < n") auto
    have "is_char_boundary (drop n bs) (j - n)"
      using utf8_boundary_shift [OF "2.prems"(1) n, of "j - n"] "2.prems"(2) Suc j
      by (auto simp: is_char_boundary_def)
    with "2.IH" [OF n] "2.prems"(1) n have "utf8 (take (j - n) (drop n bs))" by simp
    then show ?thesis
      using "2.prems" n Suc j by (cases bs) (auto simp: min_def drop_take is_char_boundary_def)
  qed simp
qed

lemma utf8_boundary_near: "utf8 s \<Longrightarrow> i \<le> length s \<Longrightarrow> \<exists>m \<le> i. i \<le> m + 3 \<and> is_char_boundary s m"
proof (induction s arbitrary: i rule: utf8.induct)
  case 1
  then show ?case by (auto simp: is_char_boundary_def)
next
  case (2 b bs)
  from "2.prems"(1) obtain n where n: "utf8_tail b = Some n" and le: "n \<le> length bs"
    by (auto split: option.splits)
  show ?case
  proof (cases "i \<le> n")
    case True
    with utf8_tail_props [OF n] show ?thesis
      by (intro exI [of _ 0]) (auto simp: is_char_boundary_def)
  next
    case False
    then obtain j where i: "i = Suc (n + j)"
      by (metis add_Suc_right less_imp_Suc_add linorder_not_le)
    with "2.prems" n have "utf8 (drop n bs)" "j \<le> length (drop n bs)" by auto
    from "2.IH" [OF n this] obtain m
      where "m \<le> j" "j \<le> m + 3" "is_char_boundary (drop n bs) m" by blast
    moreover have "is_char_boundary (b # bs) (Suc (n + m))"
      using calculation utf8_boundary_shift [OF "2.prems"(1) n, of m] "2.prems"(2) i by simp
    ultimately show ?thesis
      using i by (intro exI [of _ "Suc (n + m)"]) auto
  qed
qed

section \<open>Diff lemmas\<close>

text \<open>What \<open>diff_from\<close> compares a cell with, and the updates of one row, without the checks.\<close>

definition old_cell :: "GridState option \<Rightarrow> nat \<Rightarrow> LocalCellData" where
  "old_cell use_ref i = (case use_ref of Some r \<Rightarrow> gs_cells r ! i | None \<Rightarrow> default_cell)"

definition old_wrapped :: "GridState option \<Rightarrow> nat \<Rightarrow> bool" where
  "old_wrapped use_ref y = (case use_ref of Some r \<Rightarrow> gs_row_wrapped r ! y | None \<Rightarrow> False)"

definition ref_fits :: "GridState \<Rightarrow> GridState option \<Rightarrow> bool" where
  "ref_fits g use_ref \<longleftrightarrow>
     (\<forall>r. use_ref = Some r \<longrightarrow> grid_wf r \<and> gs_cols r = gs_cols g \<and> gs_rows r = gs_rows g)"

definition row_diff :: "GridState \<Rightarrow> GridState option \<Rightarrow> u16 \<Rightarrow> CellUpdate list" where
  "row_diff g use_ref y =
     map (\<lambda>x. \<lparr>cu_x = x, cu_cell = gs_cells g ! (unat y * unat (gs_cols g) + unat x)\<rparr>)
       (filter (\<lambda>x. gs_cells g ! (unat y * unat (gs_cols g) + unat x)
                     \<noteq> old_cell use_ref (unat y * unat (gs_cols g) + unat x))
         (u16_range (gs_cols g)))"

definition row_changed :: "GridState \<Rightarrow> GridState option \<Rightarrow> u16 \<Rightarrow> bool" where
  "row_changed g use_ref y \<longleftrightarrow>
     row_diff g use_ref y \<noteq> [] \<or> gs_row_wrapped g ! unat y \<noteq> old_wrapped use_ref (unat y)"

definition frame_diff :: "GridState \<Rightarrow> GridState option \<Rightarrow> RowUpdate list" where
  "frame_diff g use_ref =
     map (\<lambda>y. \<lparr>ru_y = y, ru_cells = row_diff g use_ref y, ru_is_wrapped = gs_row_wrapped g ! unat y\<rparr>)
       (filter (row_changed g use_ref) (u16_range (gs_rows g)))"

lemma set_u16_range [simp]: "set (u16_range n) = {x. x < n}"
proof -
  have "x \<in> of_nat ` {0..<unat n}" if "x < n" for x :: u16
    using that by (intro image_eqI [of _ _ "unat x"]) (auto simp: word_less_nat_alt)
  moreover have "(of_nat k :: u16) < n" if "k < unat n" for k
    using that by (rule of_nat_below)
  ultimately show ?thesis by (auto simp: u16_range_def)
qed

lemma length_u16_range [simp]: "length (u16_range n) = unat n"
  by (simp add: u16_range_def)

lemma distinct_u16_range [simp]: "distinct (u16_range n)"
proof -
  have "inj_on (of_nat :: nat \<Rightarrow> u16) {0..<unat n}"
  proof (rule inj_onI)
    fix a b assume ab: "a \<in> {0..<unat n}" "b \<in> {0..<unat n}" "(of_nat a :: u16) = of_nat b"
    have "unat (of_nat a :: u16) = a" "unat (of_nat b :: u16) = b"
      using ab(1,2) by (simp_all add: unat_of_nat_below)
    with ab(3) show "a = b" by metis
  qed
  then show ?thesis by (simp add: u16_range_def distinct_map)
qed

lemma grid_index_bound:
  assumes "x < cols" "y < rows"
  shows "y * cols + x < cols * (rows::nat)"
proof -
  from assms have "y * cols + x < Suc y * cols" by simp
  also have "\<dots> \<le> rows * cols" using assms(2) by (intro mult_le_mono1) simp
  finally show ?thesis by (simp add: mult.commute)
qed

lemma cell_index_fits:
  assumes "grid_fits g" "x < gs_cols g" "y < gs_rows g"
  shows "cell_index (gs_cols g) y x = unat y * unat (gs_cols g) + unat x"
proof -
  have "unat y * unat (gs_cols g) + unat x < 2 ^ LENGTH(16)"
    using assms grid_index_bound [of "unat x" "unat (gs_cols g)" "unat y" "unat (gs_rows g)"]
    by (simp add: grid_fits_def word_less_nat_alt)
  then show ?thesis
    by (simp only: cell_index_def unat_word_ariths mod_add_left_eq mod_less)
qed

lemma grid_cell_bound:
  assumes "grid_wf g" "x < gs_cols g" "y < gs_rows g"
  shows "unat y * unat (gs_cols g) + unat x < length (gs_cells g)"
  using assms grid_index_bound [of "unat x" "unat (gs_cols g)" "unat y" "unat (gs_rows g)"]
  by (simp add: grid_wf_def word_less_nat_alt)

lemma from_cell_ok:
  "ref_fits g use_ref \<Longrightarrow> i < unat (gs_cols g) * unat (gs_rows g) \<Longrightarrow>
     from_cell use_ref i = Inr (old_cell use_ref i)"
  by (cases use_ref) (simp_all add: from_cell_def old_cell_def ref_fits_def grid_wf_def)

lemma diff_cells_ok:
  assumes "grid_wf g" "grid_fits g" "ref_fits g use_ref" "y < gs_rows g"
    and "\<forall>x \<in> set xs. x < gs_cols g"
  shows "diff_cells g use_ref y xs =
    Inr (map (\<lambda>x. \<lparr>cu_x = x, cu_cell = gs_cells g ! (unat y * unat (gs_cols g) + unat x)\<rparr>)
       (filter (\<lambda>x. gs_cells g ! (unat y * unat (gs_cols g) + unat x)
                     \<noteq> old_cell use_ref (unat y * unat (gs_cols g) + unat x)) xs))"
  using assms(5)
proof (induction xs)
  case (Cons x xs)
  let ?i = "unat y * unat (gs_cols g) + unat x"
  have x: "x < gs_cols g" using Cons.prems by simp
  have i: "?i < length (gs_cells g)" using grid_cell_bound [OF assms(1) x assms(4)] .
  have "cell_index (gs_cols g) y x = ?i" using cell_index_fits [OF assms(2) x assms(4)] .
  moreover have "from_cell use_ref ?i = Inr (old_cell use_ref ?i)"
    using from_cell_ok [OF assms(3), of ?i] i assms(1) by (simp add: grid_wf_def)
  ultimately show ?case using Cons i by simp
qed simp

lemma wrapping_changed_ok:
  "grid_wf g \<Longrightarrow> ref_fits g use_ref \<Longrightarrow> y < unat (gs_rows g) \<Longrightarrow>
     wrapping_changed g use_ref y = Inr (gs_row_wrapped g ! y \<noteq> old_wrapped use_ref y)"
  by (cases use_ref) (simp_all add: wrapping_changed_def old_wrapped_def ref_fits_def grid_wf_def)

lemma diff_rows_ok:
  assumes "grid_wf g" "grid_fits g" "ref_fits g use_ref" and "\<forall>y \<in> set ys. y < gs_rows g"
  shows "diff_rows g use_ref ys =
    Inr (map (\<lambda>y. \<lparr>ru_y = y, ru_cells = row_diff g use_ref y, ru_is_wrapped = gs_row_wrapped g ! unat y\<rparr>)
       (filter (row_changed g use_ref) ys))"
  using assms(4)
proof (induction ys)
  case (Cons y ys)
  then have y: "y < gs_rows g" and y': "unat y < unat (gs_rows g)"
    by (simp_all add: word_less_nat_alt)
  have "diff_cells g use_ref y (u16_range (gs_cols g)) = Inr (row_diff g use_ref y)"
    unfolding row_diff_def by (rule diff_cells_ok) (use assms y in auto)
  moreover have "vec_get (gs_row_wrapped g) (unat y) = Inr (gs_row_wrapped g ! unat y)"
    using assms(1) y' by (simp add: grid_wf_def)
  ultimately show ?case
    using Cons wrapping_changed_ok [OF assms(1,3) y'] by (simp add: row_changed_def)
qed simp

lemma ref_fits_use_ref_of:
  "(\<And>r. ref_state = Some r \<Longrightarrow> grid_wf r) \<Longrightarrow> ref_fits g (use_ref_of g ref_state)"
  by (cases ref_state) (simp_all add: ref_fits_def use_ref_of_def)

lemma diff_from_ok:
  assumes "grid_wf g" "grid_fits g" "\<And>r. ref_state = Some r \<Longrightarrow> grid_wf r"
  shows "diff_from g ref_state ref_seq echo =
    Inr \<lparr>fu_ref_seq = ref_seq, fu_cols = gs_cols g, fu_rows = gs_rows g,
         fu_cursor_x = gs_cursor_x g, fu_cursor_y = gs_cursor_y g,
         fu_cursor_visible = gs_cursor_visible g,
         fu_row_updates = frame_diff g (use_ref_of g ref_state), fu_is_echo_enabled = echo\<rparr>"
proof -
  have "ref_fits g (use_ref_of g ref_state)" using assms(3) by (rule ref_fits_use_ref_of)
  from diff_rows_ok [OF assms(1,2) this, of "u16_range (gs_rows g)"] show ?thesis
    by (simp add: diff_from_def frame_diff_def)
qed

section \<open>Patch lemmas\<close>

definition cell_writes :: "u16 \<Rightarrow> nat \<Rightarrow> CellUpdate list \<Rightarrow> (nat \<times> LocalCellData) list" where
  "cell_writes cols y cus = map (\<lambda>cu. (y * unat cols + unat (cu_x cu), cu_cell cu)) cus"

definition cells_in_bounds :: "u16 \<Rightarrow> CellUpdate list \<Rightarrow> bool" where
  "cells_in_bounds cols cus \<longleftrightarrow> (\<forall>cu \<in> set cus. cu_x cu < cols)"

definition rows_in_bounds :: "u16 \<Rightarrow> u16 \<Rightarrow> RowUpdate list \<Rightarrow> bool" where
  "rows_in_bounds cols rows rus \<longleftrightarrow>
     (\<forall>ru \<in> set rus. ru_y ru < rows \<and> cells_in_bounds cols (ru_cells ru))"

lemma in_bounds_simps [simp]:
  "cells_in_bounds cols []" "rows_in_bounds cols rows []"
  "cells_in_bounds cols (cu # cus) \<longleftrightarrow> cu_x cu < cols \<and> cells_in_bounds cols cus"
  "rows_in_bounds cols rows (ru # rus) \<longleftrightarrow>
     ru_y ru < rows \<and> cells_in_bounds cols (ru_cells ru) \<and> rows_in_bounds cols rows rus"
  by (auto simp: cells_in_bounds_def rows_in_bounds_def)

lemma grid_wf_upd [simp]:
  "grid_wf g \<Longrightarrow> length cs = length (gs_cells g) \<Longrightarrow> grid_wf (g\<lparr>gs_cells := cs\<rparr>)"
  "grid_wf g \<Longrightarrow> length ws = length (gs_row_wrapped g) \<Longrightarrow> grid_wf (g\<lparr>gs_row_wrapped := ws\<rparr>)"
  "grid_wf (g\<lparr>gs_cursor_x := a, gs_cursor_y := b, gs_cursor_visible := c\<rparr>) = grid_wf g"
  by (simp_all add: grid_wf_def)

lemma patch_cells_ok:
  assumes "grid_wf g" "y < unat (gs_rows g)" "cells_in_bounds (gs_cols g) cus"
  shows "patch_cells g y cus =
    (g\<lparr>gs_cells := write_all (cell_writes (gs_cols g) y cus) (gs_cells g)\<rparr>, Inr ())"
  using assms
proof (induction g y cus rule: patch_cells.induct)
  case (2 g y cu cus)
  let ?i = "y * unat (gs_cols g) + unat (cu_x cu)"
  have x: "unat (cu_x cu) < unat (gs_cols g)" using "2.prems"(3) by (simp add: word_less_nat_alt)
  then have i: "?i < length (gs_cells g)"
    using grid_index_bound [OF x "2.prems"(2)] "2.prems"(1) by (simp add: grid_wf_def)
  have IH: "patch_cells (g\<lparr>gs_cells := (gs_cells g)[?i := cu_cell cu]\<rparr>) y cus =
    (g\<lparr>gs_cells := write_all (cell_writes (gs_cols g) y cus) ((gs_cells g)[?i := cu_cell cu])\<rparr>, Inr ())"
    using "2.IH" [OF refl _ vec_set_ok [OF i]] "2.prems" x by simp
  show ?case using x i IH by (simp add: cell_writes_def)
qed (simp add: cell_writes_def)

definition row_writes :: "u16 \<Rightarrow> RowUpdate list \<Rightarrow> (nat \<times> LocalCellData) list" where
  "row_writes cols rus = concat (map (\<lambda>ru. cell_writes cols (unat (ru_y ru)) (ru_cells ru)) rus)"

definition wrap_writes :: "RowUpdate list \<Rightarrow> (nat \<times> bool) list" where
  "wrap_writes rus = map (\<lambda>ru. (unat (ru_y ru), ru_is_wrapped ru)) rus"

lemma patch_rows_ok:
  assumes "grid_wf g" "rows_in_bounds (gs_cols g) (gs_rows g) rus"
  shows "patch_rows g rus =
    (g\<lparr>gs_cells := write_all (row_writes (gs_cols g) rus) (gs_cells g),
       gs_row_wrapped := write_all (wrap_writes rus) (gs_row_wrapped g)\<rparr>, Inr ())"
  using assms
proof (induction rus arbitrary: g)
  case (Cons ru rus)
  let ?y = "unat (ru_y ru)"
  let ?ws = "(gs_row_wrapped g)[?y := ru_is_wrapped ru]"
  let ?g = "g\<lparr>gs_row_wrapped := ?ws\<rparr>"
  let ?cs = "write_all (cell_writes (gs_cols g) ?y (ru_cells ru)) (gs_cells g)"
  have y: "?y < unat (gs_rows g)" using Cons.prems(2) by (simp add: word_less_nat_alt)
  have cells: "patch_cells ?g ?y (ru_cells ru) = (?g\<lparr>gs_cells := ?cs\<rparr>, Inr ())"
    using patch_cells_ok [of ?g ?y "ru_cells ru"] Cons.prems y by simp
  have "grid_wf (?g\<lparr>gs_cells := ?cs\<rparr>)" using Cons.prems(1) by simp
  from Cons.IH [OF this] Cons.prems(2) cells y Cons.prems(1) show ?case
    by (simp add: row_writes_def wrap_writes_def grid_wf_def Let_def)
qed (simp add: row_writes_def wrap_writes_def)

lemma resize_for_wf: "grid_wf g \<Longrightarrow> grid_wf (resize_for g d)"
  by (simp add: resize_for_def grid_wf_def)

lemma resize_for_dims [simp]:
  "gs_cols (resize_for g d) = fu_cols d" "gs_rows (resize_for g d) = fu_rows d"
  by (auto simp: resize_for_def)

lemma patch_ok:
  assumes "grid_wf g" "rows_in_bounds (fu_cols d) (fu_rows d) (fu_row_updates d)"
  shows "patch g d =
    ((resize_for g d)\<lparr>
        gs_cells := write_all (row_writes (fu_cols d) (fu_row_updates d)) (gs_cells (resize_for g d)),
        gs_row_wrapped := write_all (wrap_writes (fu_row_updates d)) (gs_row_wrapped (resize_for g d)),
        gs_cursor_x := fu_cursor_x d, gs_cursor_y := fu_cursor_y d,
        gs_cursor_visible := fu_cursor_visible d\<rparr>, Inr ())"
  using patch_rows_ok [OF resize_for_wf [OF assms(1)], of d "fu_row_updates d"] assms(2)
  by (simp add: patch_def)

lemma patch_cells_wf: "grid_wf g \<Longrightarrow> grid_wf (fst (patch_cells g y cus))
    \<and> gs_cols (fst (patch_cells g y cus)) = gs_cols g
    \<and> gs_rows (fst (patch_cells g y cus)) = gs_rows g"
proof (induction cus arbitrary: g)
  case (Cons cu cus)
  let ?g = "g\<lparr>gs_cells := (gs_cells g)[y * unat (gs_cols g) + unat (cu_x cu) := cu_cell cu]\<rparr>"
  from Cons.IH [of ?g] Cons.prems show ?case
    by (simp add: Let_def vec_set_def)
qed simp

lemma patch_rows_wf: "grid_wf g \<Longrightarrow> grid_wf (fst (patch_rows g rus))"
proof (induction rus arbitrary: g)
  case (Cons ru rus)
  let ?y = "unat (ru_y ru)"
  let ?g = "g\<lparr>gs_row_wrapped := (gs_row_wrapped g)[?y := ru_is_wrapped ru]\<rparr>"
  have "grid_wf (fst (patch_cells ?g ?y (ru_cells ru)))"
    using patch_cells_wf [of ?g ?y "ru_cells ru"] Cons.prems by simp
  with Cons show ?case
    by (auto simp: Let_def vec_set_def split: sum.splits prod.splits)
qed simp

lemma patch_wf [rumsh_inv]: "grid_wf g \<Longrightarrow> grid_wf (fst (patch g d))"
  using patch_rows_wf [OF resize_for_wf, of g d "fu_row_updates d"]
  by (auto simp: patch_def split: prod.splits sum.splits)

lemma patch_cells_err:
  assumes "grid_wf g" "y < unat (gs_rows g)" "\<not> cells_in_bounds (gs_cols g) cus"
  shows "\<exists>x. snd (patch_cells g y cus) = Inl (CellOutOfBounds x (gs_cols g)) \<and> unat (gs_cols g) \<le> x"
  using assms
proof (induction cus arbitrary: g)
  case (Cons cu cus)
  let ?i = "y * unat (gs_cols g) + unat (cu_x cu)"
  show ?case
  proof (cases "cu_x cu < gs_cols g")
    case True
    then have x: "unat (cu_x cu) < unat (gs_cols g)" by (simp add: word_less_nat_alt)
    then have i: "?i < length (gs_cells g)"
      using grid_index_bound [OF x Cons.prems(2)] Cons.prems(1) by (simp add: grid_wf_def)
    let ?g = "g\<lparr>gs_cells := (gs_cells g)[?i := cu_cell cu]\<rparr>"
    have "\<exists>x. snd (patch_cells ?g y cus) = Inl (CellOutOfBounds x (gs_cols ?g)) \<and> unat (gs_cols ?g) \<le> x"
      by (rule Cons.IH) (use Cons.prems True in auto)
    with x i show ?thesis by simp
  qed (simp add: word_less_nat_alt)
qed simp

lemma patch_rows_err:
  assumes "grid_wf g" "\<not> rows_in_bounds (gs_cols g) (gs_rows g) rus"
  shows "(\<exists>y. snd (patch_rows g rus) = Inl (RowOutOfBounds y (gs_rows g)))
    \<or> (\<exists>x. snd (patch_rows g rus) = Inl (CellOutOfBounds x (gs_cols g)))"
  using assms
proof (induction rus arbitrary: g)
  case (Cons ru rus)
  let ?y = "unat (ru_y ru)"
  let ?g = "g\<lparr>gs_row_wrapped := (gs_row_wrapped g)[?y := ru_is_wrapped ru]\<rparr>"
  show ?case
  proof (cases "ru_y ru < gs_rows g")
    case True
    then have y: "?y < unat (gs_rows ?g)" "?y < length (gs_row_wrapped g)"
      using Cons.prems(1) by (simp_all add: word_less_nat_alt grid_wf_def)
    have wf: "grid_wf ?g" using Cons.prems(1) by simp
    show ?thesis
    proof (cases "cells_in_bounds (gs_cols g) (ru_cells ru)")
      case True
      obtain g' where g': "patch_cells ?g ?y (ru_cells ru) = (g', Inr ())"
        using patch_cells_ok [OF wf y(1)] True by simp
      have "gs_cols g' = gs_cols g \<and> gs_rows g' = gs_rows g \<and> grid_wf g'"
        using patch_cells_wf [OF wf, of ?y "ru_cells ru"] g' by simp
      moreover have "\<not> rows_in_bounds (gs_cols g) (gs_rows g) rus"
        using Cons.prems(2) True \<open>ru_y ru < gs_rows g\<close> by simp
      ultimately have "(\<exists>y. snd (patch_rows g' rus) = Inl (RowOutOfBounds y (gs_rows g)))
          \<or> (\<exists>x. snd (patch_rows g' rus) = Inl (CellOutOfBounds x (gs_cols g)))"
        using Cons.IH [of g'] by simp
      with y g' show ?thesis by (simp add: Let_def)
    next
      case False
      then obtain x where "snd (patch_cells ?g ?y (ru_cells ru)) = Inl (CellOutOfBounds x (gs_cols g))"
        using patch_cells_err [OF wf y(1), of "ru_cells ru"] by auto
      with y show ?thesis by (auto simp: Let_def split: prod.splits)
    qed
  qed (simp add: word_less_nat_alt)
qed simp

text \<open>A patch either applies, exactly when its updates are in bounds, or reports the bound.\<close>

lemma patch_result:
  assumes "grid_wf g"
  shows "snd (patch g d) = Inr () \<longleftrightarrow> rows_in_bounds (fu_cols d) (fu_rows d) (fu_row_updates d)"
    and "snd (patch g d) = Inr () \<or> (\<exists>y. snd (patch g d) = Inl (RowOutOfBounds y (fu_rows d)))
      \<or> (\<exists>x. snd (patch g d) = Inl (CellOutOfBounds x (fu_cols d)))"
proof -
  have wf: "grid_wf (resize_for g d)" using assms by (rule resize_for_wf)
  note ok = patch_rows_ok [OF wf, of "fu_row_updates d"]
  note er = patch_rows_err [OF wf, of "fu_row_updates d"]
  show "snd (patch g d) = Inr () \<longleftrightarrow> rows_in_bounds (fu_cols d) (fu_rows d) (fu_row_updates d)"
    using ok er
    by (cases "rows_in_bounds (fu_cols d) (fu_rows d) (fu_row_updates d)")
       (auto simp: patch_def split: prod.splits sum.splits)
  show "snd (patch g d) = Inr () \<or> (\<exists>y. snd (patch g d) = Inl (RowOutOfBounds y (fu_rows d)))
      \<or> (\<exists>x. snd (patch g d) = Inl (CellOutOfBounds x (fu_cols d)))"
    using ok er
    by (cases "rows_in_bounds (fu_cols d) (fu_rows d) (fu_row_updates d)")
       (auto simp: patch_def split: prod.splits sum.splits)
qed

section \<open>Properties\<close>

text \<open>The grid a diff is meant for: the reference, or a blank grid when there is none.\<close>

definition diff_base :: "GridState \<Rightarrow> GridState option \<Rightarrow> GridState" where
  "diff_base g ref_state = (case ref_state of Some r \<Rightarrow> r | None \<Rightarrow> blank_grid (gs_cols g) (gs_rows g))"

lemma diff_base_wf: "(\<And>r. ref_state = Some r \<Longrightarrow> grid_wf r) \<Longrightarrow> grid_wf (diff_base g ref_state)"
  by (simp add: diff_base_def split: option.splits)

lemma resize_diff_base:
  assumes "fu_cols d = gs_cols g" "fu_rows d = gs_rows g" "\<And>r. ref_state = Some r \<Longrightarrow> grid_wf r"
  shows "i < unat (gs_cols g) * unat (gs_rows g) \<Longrightarrow>
      gs_cells (resize_for (diff_base g ref_state) d) ! i = old_cell (use_ref_of g ref_state) i"
    and "y < unat (gs_rows g) \<Longrightarrow>
      gs_row_wrapped (resize_for (diff_base g ref_state) d) ! y = old_wrapped (use_ref_of g ref_state) y"
  using assms(1,2)
  by (auto simp: diff_base_def resize_for_def use_ref_of_def old_cell_def old_wrapped_def blank_grid_def
        split: option.splits)

lemma frame_diff_in_bounds: "rows_in_bounds (gs_cols g) (gs_rows g) (frame_diff g u)"
  by (auto simp: rows_in_bounds_def cells_in_bounds_def frame_diff_def row_diff_def)

lemma set_row_writes:
  "set (row_writes (gs_cols g) (frame_diff g u)) =
     {(unat y * unat (gs_cols g) + unat x, gs_cells g ! (unat y * unat (gs_cols g) + unat x)) | x y.
        x < gs_cols g \<and> y < gs_rows g
        \<and> gs_cells g ! (unat y * unat (gs_cols g) + unat x)
            \<noteq> old_cell u (unat y * unat (gs_cols g) + unat x)}"
proof -
  have "row_changed g u y"
    if "x < gs_cols g" "gs_cells g ! (unat y * unat (gs_cols g) + unat x)
        \<noteq> old_cell u (unat y * unat (gs_cols g) + unat x)" for x y
    using that by (auto simp: row_changed_def row_diff_def filter_empty_conv)
  then show ?thesis
    by (fastforce simp: row_writes_def cell_writes_def frame_diff_def row_diff_def)
qed

lemma set_wrap_writes:
  "set (wrap_writes (frame_diff g u)) =
     {(unat y, gs_row_wrapped g ! unat y) | y. y < gs_rows g \<and> row_changed g u y}"
  by (force simp: wrap_writes_def frame_diff_def)

lemma grid_coords:
  fixes cols rows :: u16
  assumes "i < unat cols * unat rows"
  obtains x y where "x < cols" "y < rows" "i = unat y * unat cols + unat x"
proof -
  let ?c = "unat cols"
  from assms have c: "0 < ?c" by (cases "?c = 0") auto
  have d: "i div ?c < unat rows" using assms c by (simp add: less_mult_imp_div_less mult.commute)
  have m: "i mod ?c < ?c" using c by simp
  show thesis
  proof
    show "of_nat (i mod ?c) < cols" "of_nat (i div ?c) < rows"
      using m d by (simp_all add: of_nat_below)
    show "i = unat (of_nat (i div ?c) :: u16) * ?c + unat (of_nat (i mod ?c) :: u16)"
      using m d by (simp add: unat_of_nat_below)
  qed
qed

lemma patched_cells:
  assumes "grid_wf g" "\<And>r. ref_state = Some r \<Longrightarrow> grid_wf r"
    and "fu_cols d = gs_cols g" "fu_rows d = gs_rows g"
  shows "write_all (row_writes (gs_cols g) (frame_diff g (use_ref_of g ref_state)))
           (gs_cells (resize_for (diff_base g ref_state) d)) = gs_cells g"
proof (rule write_all_reaches)
  let ?u = "use_ref_of g ref_state"
  have wf: "grid_wf (resize_for (diff_base g ref_state) d)"
    using assms(2) by (intro resize_for_wf diff_base_wf)
  then show "length (gs_cells (resize_for (diff_base g ref_state) d)) = length (gs_cells g)"
    using assms by (simp add: grid_wf_def)
  show "\<forall>(i, v) \<in> set (row_writes (gs_cols g) (frame_diff g ?u)). i < length (gs_cells g) \<and> v = gs_cells g ! i"
    using grid_cell_bound [OF assms(1)] by (auto simp: set_row_writes)
  fix j
  assume j: "j < length (gs_cells g)" "gs_cells (resize_for (diff_base g ref_state) d) ! j \<noteq> gs_cells g ! j"
  then have "old_cell ?u j \<noteq> gs_cells g ! j"
    using resize_diff_base(1) [OF assms(3,4,2)] assms(1) by (simp add: grid_wf_def)
  moreover obtain x y where "x < gs_cols g" "y < gs_rows g" "j = unat y * unat (gs_cols g) + unat x"
    using grid_coords j(1) assms(1) by (metis grid_wf_def)
  ultimately show "j \<in> fst ` set (row_writes (gs_cols g) (frame_diff g ?u))"
    by (force simp: set_row_writes)
qed

lemma patched_wraps:
  assumes "grid_wf g" "\<And>r. ref_state = Some r \<Longrightarrow> grid_wf r"
    and "fu_cols d = gs_cols g" "fu_rows d = gs_rows g"
  shows "write_all (wrap_writes (frame_diff g (use_ref_of g ref_state)))
           (gs_row_wrapped (resize_for (diff_base g ref_state) d)) = gs_row_wrapped g"
proof (rule write_all_reaches)
  let ?u = "use_ref_of g ref_state"
  have wf: "grid_wf (resize_for (diff_base g ref_state) d)"
    using assms(2) by (intro resize_for_wf diff_base_wf)
  then show "length (gs_row_wrapped (resize_for (diff_base g ref_state) d)) = length (gs_row_wrapped g)"
    using assms by (simp add: grid_wf_def)
  show "\<forall>(i, v) \<in> set (wrap_writes (frame_diff g ?u)). i < length (gs_row_wrapped g) \<and> v = gs_row_wrapped g ! i"
    using assms(1) by (auto simp: set_wrap_writes grid_wf_def word_less_nat_alt)
  fix j
  assume j: "j < length (gs_row_wrapped g)"
    "gs_row_wrapped (resize_for (diff_base g ref_state) d) ! j \<noteq> gs_row_wrapped g ! j"
  then have "old_wrapped ?u j \<noteq> gs_row_wrapped g ! j"
    using resize_diff_base(2) [OF assms(3,4,2)] assms(1) by (simp add: grid_wf_def)
  moreover have "unat (of_nat j :: u16) = j" and "(of_nat j :: u16) < gs_rows g"
    using j(1) assms(1) by (auto simp: grid_wf_def of_nat_below intro: unat_of_nat_below)
  ultimately show "j \<in> fst ` set (wrap_writes (frame_diff g ?u))"
    by (force simp: set_wrap_writes row_changed_def intro!: exI [of _ "of_nat j"])
qed

lemma diff_patch:
  assumes "grid_wf g" "grid_fits g" "\<And>r. ref_state = Some r \<Longrightarrow> grid_wf r"
  obtains d where "diff_from g ref_state ref_seq echo = Inr d"
    and "patch (diff_base g ref_state) d = (g, Inr ())"
    and "fu_ref_seq d = ref_seq" "fu_cols d = gs_cols g" "fu_rows d = gs_rows g"
    and "fu_is_echo_enabled d = echo"
proof -
  define d where "d = \<lparr>fu_ref_seq = ref_seq, fu_cols = gs_cols g, fu_rows = gs_rows g,
    fu_cursor_x = gs_cursor_x g, fu_cursor_y = gs_cursor_y g,
    fu_cursor_visible = gs_cursor_visible g,
    fu_row_updates = frame_diff g (use_ref_of g ref_state), fu_is_echo_enabled = echo\<rparr>"
  have d: "diff_from g ref_state ref_seq echo = Inr d"
    using diff_from_ok [OF assms(1,2), of ref_state ref_seq echo] assms(3) by (simp add: d_def)
  have sel: "fu_cols d = gs_cols g" "fu_rows d = gs_rows g"
    "fu_row_updates d = frame_diff g (use_ref_of g ref_state)"
    "fu_cursor_x d = gs_cursor_x g" "fu_cursor_y d = gs_cursor_y g"
    "fu_cursor_visible d = gs_cursor_visible g"
    "fu_ref_seq d = ref_seq" "fu_is_echo_enabled d = echo"
    by (simp_all add: d_def)
  have wf: "grid_wf (diff_base g ref_state)" using assms(3) by (rule diff_base_wf)
  have "patch (diff_base g ref_state) d = (g, Inr ())"
    using patch_ok [OF wf, of d] frame_diff_in_bounds [of g "use_ref_of g ref_state"] sel
      patched_cells [OF assms(1,3) sel(1,2)] patched_wraps [OF assms(1,3) sel(1,2)]
    by (cases g) (auto simp: resize_for_def)
  with d sel that show thesis by blast
qed

text \<open>C4: Patching the reference grid with \<open>diff_from\<close>'s output yields exactly the new grid, for every
  well-formed pair of grids (equal or different dimensions, or no reference at all) whose cell
  indices fit in \<open>u16\<close>; neither function fails or panics there.\<close>

theorem diff_patch_roundtrip:
  assumes "grid_wf g" "grid_fits g" "\<forall>r. ref_state = Some r \<longrightarrow> grid_wf r"
  shows "\<exists>d. diff_from g ref_state ref_seq echo = Inr d
           \<and> apply_diff (diff_base g ref_state) d = (g, Inr ())"
  using diff_patch [OF assms(1,2)] assms(3) unfolding apply_diff_def by metis

definition sample_grid :: GridState where
  "sample_grid = (blank_grid 2 2)\<lparr>gs_cells := (gs_cells (blank_grid 2 2))[3 := default_cell\<lparr>style_flags := 1\<rparr>],
     gs_cursor_x := 1\<rparr>"

lemma sample_grid_wf: "grid_wf sample_grid" "grid_fits sample_grid"
  by (simp_all add: sample_grid_def grid_wf_def grid_fits_def blank_grid_def)

theorem diff_patch_roundtrip_witness:
  "\<exists>d. diff_from sample_grid (Some (blank_grid 2 2)) 7 True = Inr d
     \<and> apply_diff (diff_base sample_grid (Some (blank_grid 2 2))) d = (sample_grid, Inr ())"
  by (rule diff_patch_roundtrip) (use sample_grid_wf in simp_all)

text \<open>The cells a frame updates, in the order it lists them.\<close>

definition frame_cells :: "FrameUpdate \<Rightarrow> (u16 \<times> u16 \<times> LocalCellData) list" where
  "frame_cells d =
     concat (map (\<lambda>ru. map (\<lambda>cu. (ru_y ru, cu_x cu, cu_cell cu)) (ru_cells ru)) (fu_row_updates d))"

definition new_cell :: "GridState \<Rightarrow> u16 \<Rightarrow> u16 \<Rightarrow> LocalCellData" where
  "new_cell g y x = gs_cells g ! (unat y * unat (gs_cols g) + unat x)"

definition ref_cell :: "GridState \<Rightarrow> GridState option \<Rightarrow> u16 \<Rightarrow> u16 \<Rightarrow> LocalCellData" where
  "ref_cell g ref_state y x = old_cell (use_ref_of g ref_state) (unat y * unat (gs_cols g) + unat x)"

definition changed_cols :: "GridState \<Rightarrow> GridState option \<Rightarrow> u16 \<Rightarrow> u16 list" where
  "changed_cols g ref_state y =
     filter (\<lambda>x. new_cell g y x \<noteq> ref_cell g ref_state y x) (u16_range (gs_cols g))"

lemma row_diff_changed_cols:
  "row_diff g (use_ref_of g ref_state) y =
     map (\<lambda>x. \<lparr>cu_x = x, cu_cell = new_cell g y x\<rparr>) (changed_cols g ref_state y)"
  by (simp add: row_diff_def changed_cols_def new_cell_def ref_cell_def)

lemma concat_map_filter:
  "(\<And>x. x \<in> set xs \<Longrightarrow> \<not> P x \<Longrightarrow> f x = []) \<Longrightarrow> concat (map f (filter P xs)) = concat (map f xs)"
  by (induction xs) auto

text \<open>C35: The diff is minimal.  It lists the cells that differ from the reference (from the blank cell
  when there is no usable reference), each once, in row-major order, with the new grid's value, and no
  other cell; and it lists a row exactly when a cell or the wrap flag of that row changed.\<close>

theorem diff_from_minimal:
  assumes "grid_wf g" "grid_fits g" "\<forall>r. ref_state = Some r \<longrightarrow> grid_wf r"
    and "diff_from g ref_state ref_seq echo = Inr d"
  shows "frame_cells d =
      concat (map (\<lambda>y. map (\<lambda>x. (y, x, new_cell g y x)) (changed_cols g ref_state y)) (u16_range (gs_rows g)))
    \<and> map ru_y (fu_row_updates d) =
      filter (\<lambda>y. changed_cols g ref_state y \<noteq> []
                \<or> gs_row_wrapped g ! unat y \<noteq> old_wrapped (use_ref_of g ref_state) (unat y))
        (u16_range (gs_rows g))"
proof -
  let ?u = "use_ref_of g ref_state"
  let ?f = "\<lambda>y. map (\<lambda>x. (y, x, new_cell g y x)) (changed_cols g ref_state y)"
  have d: "fu_row_updates d = frame_diff g ?u"
    using diff_from_ok [OF assms(1,2), of ref_state ref_seq echo] assms(3,4) by auto
  have rows: "row_changed g ?u = (\<lambda>y. changed_cols g ref_state y \<noteq> []
      \<or> gs_row_wrapped g ! unat y \<noteq> old_wrapped ?u (unat y))"
    by (rule ext) (simp add: row_changed_def row_diff_changed_cols)
  have "frame_cells d = concat (map ?f (filter (row_changed g ?u) (u16_range (gs_rows g))))"
    unfolding frame_cells_def d by (simp add: frame_diff_def row_diff_changed_cols comp_def)
  also have "\<dots> = concat (map ?f (u16_range (gs_rows g)))"
    by (rule concat_map_filter) (simp add: rows)
  finally show ?thesis
    unfolding d by (simp add: frame_diff_def comp_def rows)
qed

theorem diff_from_minimal_witness:
  "\<exists>d. diff_from sample_grid None 7 True = Inr d \<and> frame_cells d =
      concat (map (\<lambda>y. map (\<lambda>x. (y, x, new_cell sample_grid y x)) (changed_cols sample_grid None y))
        (u16_range (gs_rows sample_grid)))"
proof -
  obtain d where d: "diff_from sample_grid None 7 True = Inr d"
    using diff_patch [OF sample_grid_wf, of None 7 True] by auto
  from diff_from_minimal [OF sample_grid_wf _ d] d show ?thesis by auto
qed

text \<open>C36: On a well-formed grid \<open>patch\<close> never panics, whatever the frame holds: it succeeds exactly when
  every row and column of the frame lies in the frame's own dimensions, otherwise it returns one of the two
  bounds errors, and it leaves a well-formed grid behind in either case.\<close>

theorem patch_safe:
  assumes "grid_wf g"
  shows "grid_wf (fst (patch g d))
    \<and> (snd (patch g d) = Inr () \<longleftrightarrow>
         (\<forall>ru \<in> set (fu_row_updates d). ru_y ru < fu_rows d \<and> (\<forall>cu \<in> set (ru_cells ru). cu_x cu < fu_cols d)))
    \<and> (snd (patch g d) = Inr () \<or> (\<exists>y. snd (patch g d) = Inl (RowOutOfBounds y (fu_rows d)))
         \<or> (\<exists>x. snd (patch g d) = Inl (CellOutOfBounds x (fu_cols d))))"
  using patch_wf [OF assms, of d] patch_result [OF assms, of d]
  unfolding rows_in_bounds_def cells_in_bounds_def by blast

theorem patch_safe_witness:
  "snd (patch (blank_grid 2 2) \<lparr>fu_ref_seq = 1, fu_cols = 2, fu_rows = 2, fu_cursor_x = 0, fu_cursor_y = 0,
      fu_cursor_visible = False, fu_row_updates = [\<lparr>ru_y = 5, ru_cells = [], ru_is_wrapped = False\<rparr>],
      fu_is_echo_enabled = True\<rparr>) \<noteq> Inr ()"
  using patch_safe [OF blank_grid_wf, of 2 2 "\<lparr>fu_ref_seq = 1, fu_cols = 2, fu_rows = 2, fu_cursor_x = 0,
      fu_cursor_y = 0, fu_cursor_visible = False,
      fu_row_updates = [\<lparr>ru_y = 5, ru_cells = [], ru_is_wrapped = False\<rparr>],
      fu_is_echo_enabled = True\<rparr>"]
  by simp

definition tall_grid :: GridState where
  "tall_grid = (blank_grid 256 257)\<lparr>gs_cells := (gs_cells (blank_grid 256 257))[65536 := default_cell\<lparr>style_flags := 1\<rparr>]\<rparr>"

lemma diff_cells_unseen:
  assumes "\<And>x. x \<in> set xs \<Longrightarrow> cell_index (gs_cols g) y x < length (gs_cells g)
             \<and> gs_cells g ! cell_index (gs_cols g) y x = default_cell"
  shows "diff_cells g None y xs = Inr []"
  using assms by (induction xs) (simp_all add: Let_def from_cell_def)

lemma diff_rows_unseen:
  assumes "\<And>y x. cell_index (gs_cols g) y x < length (gs_cells g)
             \<and> gs_cells g ! cell_index (gs_cols g) y x = default_cell"
    and "\<And>y. y \<in> set ys \<Longrightarrow> unat y < length (gs_row_wrapped g) \<and> \<not> gs_row_wrapped g ! unat y"
  shows "diff_rows g None ys = Inr []"
  using assms(2)
  by (induction ys) (simp_all add: diff_cells_unseen [OF assms(1)] wrapping_changed_def)

lemma tall_grid_cells:
  "cell_index (gs_cols tall_grid) y x < length (gs_cells tall_grid)
   \<and> gs_cells tall_grid ! cell_index (gs_cols tall_grid) y x = default_cell"
proof -
  have "cell_index (gs_cols tall_grid) y x < 65536"
    unfolding cell_index_def using unsigned_less [of "y * gs_cols tall_grid + x"] by simp
  then show ?thesis
    by (simp add: tall_grid_def blank_grid_def nth_list_update)
qed

lemma diff_rows_tall: "diff_rows tall_grid None (u16_range (gs_rows tall_grid)) = Inr []"
proof (rule diff_rows_unseen)
  show "cell_index (gs_cols tall_grid) y x < length (gs_cells tall_grid)
     \<and> gs_cells tall_grid ! cell_index (gs_cols tall_grid) y x = default_cell" for y x
    by (rule tall_grid_cells)
  show "y \<in> set (u16_range (gs_rows tall_grid)) \<Longrightarrow>
     unat y < length (gs_row_wrapped tall_grid) \<and> \<not> gs_row_wrapped tall_grid ! unat y" for y
    by (simp add: tall_grid_def blank_grid_def word_less_nat_alt)
qed

text \<open>\<open>diff_from\<close> computes the cell index in \<open>u16\<close>, so beyond 65536 cells it reads the wrong cells: on
  a 256 by 257 grid that is blank but for the first cell of the last row, the diff is empty and patching a blank
  grid with it does not reproduce the grid.\<close>

theorem diff_from_u16_wraps:
  "grid_wf tall_grid
   \<and> (\<exists>d. diff_from tall_grid None 0 echo = Inr d \<and> frame_cells d = []
        \<and> apply_diff (blank_grid (gs_cols tall_grid) (gs_rows tall_grid)) d \<noteq> (tall_grid, Inr ()))"
proof -
  let ?b = "blank_grid (gs_cols tall_grid) (gs_rows tall_grid)"
  obtain d where d: "diff_from tall_grid None 0 echo = Inr d" "fu_row_updates d = []"
      "fu_cols d = gs_cols tall_grid" "fu_rows d = gs_rows tall_grid"
    using diff_rows_tall by (simp add: diff_from_def use_ref_of_def)
  have "gs_cells (fst (patch ?b d)) ! 65536 = default_cell"
    using d(2-4) by (simp add: patch_def resize_for_def) (simp add: blank_grid_def tall_grid_def)
  moreover have "gs_cells tall_grid ! 65536 \<noteq> default_cell"
    by (simp add: tall_grid_def blank_grid_def) (simp add: default_cell_def)
  ultimately have "apply_diff ?b d \<noteq> (tall_grid, Inr ())"
    unfolding apply_diff_def by (metis fst_conv)
  moreover have "grid_wf tall_grid"
    by (simp add: tall_grid_def blank_grid_def grid_wf_def)
  ultimately show ?thesis using d by (auto simp: frame_cells_def)
qed

text \<open>C37: \<open>CompactGrapheme::new\<close> keeps any string of at most 15 bytes whole, and truncates a longer one
  to a prefix of 12 to 15 bytes that is still valid UTF-8, so the unchecked conversion in \<open>as_str\<close> is sound
  for every grapheme made from a \<open>&str\<close>.\<close>

theorem grapheme_truncation:
  assumes "utf8 s"
  shows "\<exists>t. as_str (CompactGrapheme_new s) = Inr t \<and> utf8 t \<and> prefix t s
    \<and> (length s \<le> 15 \<longrightarrow> t = s) \<and> (15 < length s \<longrightarrow> 12 \<le> length t \<and> length t \<le> 15)"
proof (cases "length s \<le> 15")
  case True
  with assms show ?thesis by (simp add: as_str_new stored_len_def)
next
  case False
  let ?t = "take (floor_boundary s 15) s"
  have le: "floor_boundary s 15 \<le> 15" by (rule floor_boundary_le)
  obtain m where "m \<le> 15" "15 \<le> m + 3" "is_char_boundary s m"
    using utf8_boundary_near [OF assms, of 15] False by auto
  then have "12 \<le> floor_boundary s 15" using floor_boundary_greatest [of m 15 s] by simp
  moreover have "utf8 ?t" using assms floor_boundary_boundary by (rule utf8_take_boundary)
  ultimately show ?thesis
    using False le by (simp add: as_str_new stored_len_def take_is_prefix min_def)
qed

theorem grapheme_truncation_witness:
  "\<exists>t. as_str (CompactGrapheme_new [206, 177, 98]) = Inr t \<and> utf8 t \<and> t = [206, 177, 98]"
proof -
  have "utf8 [206, 177, 98]"
    by (simp add: utf8_tail_def utf8_second_def is_continuation_def)
  from grapheme_truncation [OF this] show ?thesis by auto
qed

end
