(* ===== verification/Rumsh_Protocol.thy ===== *)
theory Rumsh_Protocol
  imports Rumsh_Grid
begin

text \<open>
  \<open>src/protocol.rs\<close>: payloads, packets and the (de)serialisation helpers.  The wire format itself is
  the crate \<open>bincode\<close>, compression is \<open>lz4_flex\<close> and authenticated encryption is
  \<open>chacha20poly1305\<close>; none of them is part of the repository, so they are the fields of the record
  \<open>codec_lib\<close>, an argument \<open>L\<close> of every definition that calls them.  What the code relies on is the
  locale \<open>wire_lib\<close>: decoding inverts encoding (and reports the bytes it consumed), decompression
  inverts compression, and decryption accepts exactly what encryption under the same key and nonce
  produces.
\<close>

section \<open>Payloads and packets\<close>

datatype ClientPayload =
    Handshake u32 u16 u16
  | Keystrokes bytes
  | Resize u16 u16
  | C_KeepAlive
  | C_Ack
  | FragmentNack u64 "u64 list"

datatype ServerPayload =
    HandshakeAck u64
  | Frame FrameUpdate
  | S_KeepAlive
  | S_Shutdown

record EncryptedClientPacket =
  ecp_session_id :: u64
  ecp_seq_num :: u64
  ecp_ack_seq_num :: u64
  ecp_ciphertext :: bytes

record EncryptedServerPacket =
  esp_seq_num :: u64
  esp_ack_seq_num :: u64
  esp_frag_idx :: u16
  esp_total_frags :: u16
  esp_ciphertext :: bytes

definition TARGET_MTU :: nat where "TARGET_MTU = 1200"

definition FRAGMENT_PAYLOAD_SIZE :: nat where "FRAGMENT_PAYLOAD_SIZE = 1024"

section \<open>The library parameters\<close>

text \<open>\<open>bincode\<close>'s encoder and decoder at one type: the decoder returns the value and the number of
  bytes it read.\<close>

record 'a serde =
  enc :: "'a \<Rightarrow> bytes option"
  dec :: "bytes \<Rightarrow> ('a \<times> nat) option"

record codec_lib =
  client_payload :: "ClientPayload serde"
  server_payload :: "ServerPayload serde"
  client_packet :: "EncryptedClientPacket serde"
  server_packet :: "EncryptedServerPacket serde"
  lz4_compress :: "bytes \<Rightarrow> bytes"
  lz4_decompress :: "bytes \<Rightarrow> bytes option"
  aead_seal :: "bytes \<Rightarrow> bytes \<Rightarrow> bytes \<Rightarrow> bytes option"
  aead_open :: "bytes \<Rightarrow> bytes \<Rightarrow> bytes \<Rightarrow> bytes option"

definition serde_ok :: "'a serde \<Rightarrow> bool" where
  "serde_ok S \<longleftrightarrow> (\<forall>x b rest. enc S x = Some b \<longrightarrow> dec S (b @ rest) = Some (x, length b))"

locale wire_lib =
  fixes L :: codec_lib
  assumes client_payload_ok: "serde_ok (client_payload L)"
    and server_payload_ok: "serde_ok (server_payload L)"
    and client_packet_ok: "serde_ok (client_packet L)"
    and server_packet_ok: "serde_ok (server_packet L)"
    and lz4_ok: "lz4_decompress L (lz4_compress L p) = Some p"
    and aead_ok: "aead_open L k n c = Some p \<longleftrightarrow> aead_seal L k n p = Some c"

section \<open>Serialisation helpers\<close>

definition serialize :: "'a serde \<Rightarrow> 'a \<Rightarrow> bytes res" where
  "serialize S value = ok_or EncodeError (enc S value)"

definition deserialize :: "'a serde \<Rightarrow> bytes \<Rightarrow> 'a res" where
  "deserialize S bs = ok_or DecodeError (map_option fst (dec S bs))"

definition serialize_compressed :: "codec_lib \<Rightarrow> 'a serde \<Rightarrow> 'a \<Rightarrow> bytes res" where
  "serialize_compressed L S value =
     and_then (serialize S value) (\<lambda>plain.
       if length plain < 256 then Inr (0 # plain)
       else Inr (1 # lz4_compress L plain))"

definition deserialize_compressed_get_sizes ::
    "codec_lib \<Rightarrow> 'a serde \<Rightarrow> bytes \<Rightarrow> ('a \<times> nat \<times> nat) res" where
  "deserialize_compressed_get_sizes L S bs =
     (case bs of
        [] \<Rightarrow> Inl EmptyPayload
      | flag # payload \<Rightarrow>
          if flag = 0 then
            and_then (deserialize S payload) (\<lambda>val. Inr (val, length bs, length payload))
          else if flag = 1 then
            and_then (ok_or DecompressError (lz4_decompress L payload)) (\<lambda>decompressed.
            and_then (deserialize S decompressed) (\<lambda>val.
              Inr (val, length bs, length decompressed)))
          else Inl (UnknownFlag flag))"

definition deserialize_compressed :: "codec_lib \<Rightarrow> 'a serde \<Rightarrow> bytes \<Rightarrow> 'a res" where
  "deserialize_compressed L S bs =
     and_then (deserialize_compressed_get_sizes L S bs) (\<lambda>(val, _, _). Inr val)"

section \<open>Round trips\<close>

lemma deserialize_serialize [simp]:
  "serde_ok S \<Longrightarrow> enc S x = Some b \<Longrightarrow> deserialize S (b @ rest) = Inr x"
  by (simp add: serde_ok_def deserialize_def)

lemma deserialize_serialize' [simp]:
  "serde_ok S \<Longrightarrow> enc S x = Some b \<Longrightarrow> deserialize S b = Inr x"
  using deserialize_serialize [of S x b "[]"] by simp

lemma serialize_Inr_iff [simp]: "serialize S x = Inr b \<longleftrightarrow> enc S x = Some b"
  by (simp add: serialize_def)

lemma deserialize_serialize_compressed:
  assumes "serde_ok S" "\<And>p. lz4_decompress L (lz4_compress L p) = Some p"
    and "serialize_compressed L S x = Inr b"
  shows "\<exists>plain. enc S x = Some plain \<and> deserialize_compressed_get_sizes L S b = Inr (x, length b, length plain)"
  using assms
  by (auto simp: serialize_compressed_def deserialize_compressed_get_sizes_def split: if_splits)

end
