(* ===== verification/Rumsh_Crypto.thy ===== *)
theory Rumsh_Crypto
  imports Rumsh_Protocol
begin

text \<open>
  \<open>src/crypto.rs\<close>: the session cipher.  A nonce is the first four bytes of the session id followed by
  the packet's sequence number, both big-endian.
\<close>

section \<open>Definitions\<close>

definition to_be_bytes :: "u64 \<Rightarrow> bytes" where
  "to_be_bytes w = map (\<lambda>i. ucast (drop_bit (8 * (7 - i)) w)) [0..<8]"

record CryptoManager =
  cm_key :: bytes
  cm_salt :: bytes

definition CryptoManager_new :: "bytes \<Rightarrow> u64 \<Rightarrow> CryptoManager" where
  "CryptoManager_new key_bytes session_id =
     \<lparr>cm_key = key_bytes, cm_salt = take 4 (to_be_bytes session_id)\<rparr>"

definition make_nonce :: "CryptoManager \<Rightarrow> u64 \<Rightarrow> bytes" where
  "make_nonce cm seq_num = cm_salt cm @ to_be_bytes seq_num"

definition encrypt :: "codec_lib \<Rightarrow> CryptoManager \<Rightarrow> u64 \<Rightarrow> bytes \<Rightarrow> bytes res" where
  "encrypt L cm seq_num plaintext =
     ok_or EncryptError (aead_seal L (cm_key cm) (make_nonce cm seq_num) plaintext)"

definition decrypt :: "codec_lib \<Rightarrow> CryptoManager \<Rightarrow> u64 \<Rightarrow> bytes \<Rightarrow> bytes res" where
  "decrypt L cm seq_num ciphertext =
     ok_or DecryptError (aead_open L (cm_key cm) (make_nonce cm seq_num) ciphertext)"

section \<open>Lemmas\<close>

lemma length_to_be_bytes [simp]: "length (to_be_bytes w) = 8"
  by (simp add: to_be_bytes_def)

lemma to_be_bytes_bit: "n < 64 \<Longrightarrow> bit w n = bit (to_be_bytes w ! (7 - n div 8)) (n mod 8)"
proof -
  assume n: "n < 64"
  then have "8 * (7 - (7 - n div 8)) + n mod 8 = n" by simp
  moreover have "7 - n div 8 < 8" by simp
  ultimately show ?thesis
    using n by (simp add: to_be_bytes_def bit_ucast_iff bit_drop_bit_eq)
qed

lemma to_be_bytes_inj: "to_be_bytes a = to_be_bytes b \<longleftrightarrow> a = b"
proof
  assume eq: "to_be_bytes a = to_be_bytes b"
  show "a = b"
  proof (rule bit_word_eqI)
    fix n assume "n < LENGTH(64)"
    then show "bit a n = bit b n" using to_be_bytes_bit [of n a] to_be_bytes_bit [of n b] eq by simp
  qed
qed simp

lemma make_nonce_inj: "make_nonce cm a = make_nonce cm b \<longleftrightarrow> a = b"
  by (simp add: make_nonce_def to_be_bytes_inj)

lemma make_nonce_new:
  "make_nonce (CryptoManager_new k s) a = make_nonce (CryptoManager_new k s') b \<longleftrightarrow>
     take 4 (to_be_bytes s) = take 4 (to_be_bytes s') \<and> a = b"
  by (simp add: make_nonce_def CryptoManager_new_def to_be_bytes_inj)

lemma length_make_nonce [simp]: "length (make_nonce (CryptoManager_new k s) a) = 12"
  by (simp add: make_nonce_def CryptoManager_new_def)

context wire_lib
begin

lemma decrypt_iff: "decrypt L cm seq c = Inr p \<longleftrightarrow> encrypt L cm seq p = Inr c"
  by (simp add: decrypt_def encrypt_def aead_ok)

lemma decrypt_encrypt [simp]: "encrypt L cm seq p = Inr c \<Longrightarrow> decrypt L cm seq c = Inr p"
  by (simp add: decrypt_iff)

end

end
