(* ===== verification/Rumsh_Maps.thy ===== *)
theory Rumsh_Maps
  imports Rumsh_Prelude
begin

text \<open>
  The two map types of the source.  \<open>BTreeMap\<close> iterates in key order, so it is an association
  list strictly sorted by key; \<open>HashMap\<close> iterates in an unspecified order, so it is an association
  list with distinct keys and every result that depends on its order takes that order from the
  list.  Both provide the interface \<open>key_map\<close>: what a lookup returns after an insert, a removal
  or a \<open>retain\<close>, and how the number of entries changes.  The components use the facts of the two
  interpretations \<open>btree\<close> and \<open>hash\<close>.
\<close>

section \<open>Operations\<close>

fun bt_insert :: "'k::linorder \<Rightarrow> 'v \<Rightarrow> ('k \<times> 'v) list \<Rightarrow> ('k \<times> 'v) list" where
  "bt_insert k v [] = [(k, v)]"
| "bt_insert k v ((k', v') # m) =
     (if k < k' then (k, v) # (k', v') # m
      else if k = k' then (k, v) # m
      else (k', v') # bt_insert k v m)"

definition map_remove :: "'k \<Rightarrow> ('k \<times> 'v) list \<Rightarrow> ('k \<times> 'v) list" where
  "map_remove k m = filter (\<lambda>e. fst e \<noteq> k) m"

definition map_retain :: "('k \<Rightarrow> 'v \<Rightarrow> bool) \<Rightarrow> ('k \<times> 'v) list \<Rightarrow> ('k \<times> 'v) list" where
  "map_retain P m = filter (\<lambda>e. P (fst e) (snd e)) m"

definition bt_wf :: "('k::linorder \<times> 'v) list \<Rightarrow> bool" where
  "bt_wf m \<longleftrightarrow> sorted_wrt (<) (map fst m)"

definition hm_wf :: "('k \<times> 'v) list \<Rightarrow> bool" where
  "hm_wf m \<longleftrightarrow> distinct (map fst m)"

lemma map_of_retain:
  "distinct (map fst m) \<Longrightarrow> map_of (map_retain P m) k =
     (case map_of m k of None \<Rightarrow> None | Some v \<Rightarrow> if P k v then Some v else None)"
proof (induction m)
  case (Cons e m)
  then have "map_of m (fst e) = None" by (auto simp: map_of_eq_None_iff)
  with Cons show ?case by (auto simp: map_retain_def split: option.splits)
qed (simp add: map_retain_def)

section \<open>The interface\<close>

locale key_map =
  fixes insert_kv :: "'k \<Rightarrow> 'v \<Rightarrow> ('k \<times> 'v) list \<Rightarrow> ('k \<times> 'v) list"
    and invar :: "('k \<times> 'v) list \<Rightarrow> bool"
  assumes invar_empty [simp]: "invar []"
    and invar_distinct: "invar m \<Longrightarrow> distinct (map fst m)"
    and invar_insert [simp]: "invar m \<Longrightarrow> invar (insert_kv k v m)"
    and invar_filter [simp]: "invar m \<Longrightarrow> invar (filter P m)"
    and set_insert: "invar m \<Longrightarrow> set (insert_kv k v m) = insert (k, v) {e \<in> set m. fst e \<noteq> k}"
begin

lemma invar_remove [simp]: "invar m \<Longrightarrow> invar (map_remove k m)"
  by (simp add: map_remove_def)

lemma invar_retain [simp]: "invar m \<Longrightarrow> invar (map_retain P m)"
  by (simp add: map_retain_def)

lemma lookup_iff: "invar m \<Longrightarrow> map_of m k = Some v \<longleftrightarrow> (k, v) \<in> set m"
  by (simp add: invar_distinct)

lemma lookup_insert:
  assumes "invar m"
  shows "map_of (insert_kv k v m) k' = (if k' = k then Some v else map_of m k')"
proof (rule option_eqI)
  fix w
  show "map_of (insert_kv k v m) k' = Some w \<longleftrightarrow>
      (if k' = k then Some v else map_of m k') = Some w"
    using assms lookup_iff [of "insert_kv k v m" k' w] lookup_iff [of m k' w]
    by (auto simp: set_insert)
qed

lemma lookup_remove: "map_of (map_remove k m) k' = (if k' = k then None else map_of m k')"
  by (induction m) (auto simp: map_remove_def)

lemma lookup_retain:
  "invar m \<Longrightarrow> map_of (map_retain P m) k =
     (case map_of m k of None \<Rightarrow> None | Some v \<Rightarrow> if P k v then Some v else None)"
  by (rule map_of_retain) (rule invar_distinct)

lemma length_card: "invar m \<Longrightarrow> length m = card (fst ` set m)"
  using distinct_card [of "map fst m"] invar_distinct by fastforce

lemma length_insert:
  assumes "invar m"
  shows "length (insert_kv k v m) = (if map_of m k = None then Suc (length m) else length m)"
proof -
  have "fst ` set (insert_kv k v m) = insert k (fst ` set m)"
    using assms by (auto simp: set_insert image_iff)
  then show ?thesis
    using assms by (auto simp: length_card map_of_eq_None_iff card_insert_if)
qed

lemma length_remove_less: "k \<in> fst ` set m \<Longrightarrow> length (map_remove k m) < length m"
  by (auto simp: map_remove_def intro!: length_filter_less)

end

section \<open>The two implementations\<close>

lemma bt_insert_keys: "set (map fst (bt_insert k v m)) = insert k (set (map fst m))"
  by (induction k v m rule: bt_insert.induct) auto

lemma map_remove_bt_insert [simp]: "map_remove k (bt_insert k v m) = map_remove k m"
  by (induction k v m rule: bt_insert.induct) (auto simp: map_remove_def)

lemma bt_insert_sorted: "bt_wf m \<Longrightarrow> bt_wf (bt_insert k v m)"
proof (induction k v m rule: bt_insert.induct)
  case (1 k v)
  then show ?case by (simp add: bt_wf_def)
next
  case (2 k v k' v' m)
  then show ?case
    using bt_insert_keys [of k v m] by (auto simp: bt_wf_def)
qed

lemma bt_insert_set: "bt_wf m \<Longrightarrow> set (bt_insert k v m) = insert (k, v) {e \<in> set m. fst e \<noteq> k}"
proof (induction k v m rule: bt_insert.induct)
  case (1 k v)
  then show ?case by simp
next
  case (2 k v k' v' m)
  then show ?case by (force simp: bt_wf_def)
qed

lemma bt_wf_filter: "bt_wf m \<Longrightarrow> bt_wf (filter P m)"
  unfolding bt_wf_def by (induction m) auto

interpretation btree: key_map bt_insert bt_wf
proof unfold_locales
  fix m :: "('a \<times> 'b) list"
  show "bt_wf m \<Longrightarrow> distinct (map fst m)"
    unfolding bt_wf_def using strict_sorted_iff by blast
qed (auto simp: bt_wf_def [of "[]"] bt_insert_sorted bt_wf_filter bt_insert_set)

interpretation hash: key_map AList.update hm_wf
proof unfold_locales
  fix m :: "('a \<times> 'b) list" and k :: 'a and v :: 'b
  assume "hm_wf m"
  then show "set (AList.update k v m) = insert (k, v) {e \<in> set m. fst e \<noteq> k}"
    unfolding hm_wf_def by (induction m) (force split: if_splits)+
qed (auto simp: hm_wf_def distinct_update distinct_map_filter)

text \<open>The first entry of a well-formed \<open>BTreeMap\<close> has the least key.\<close>

lemma bt_first_least: "bt_wf ((k, v) # m) \<Longrightarrow> e \<in> set m \<Longrightarrow> k < fst e"
  by (auto simp: bt_wf_def)

lemma bt_wf_Cons [simp]: "bt_wf (e # m) \<longleftrightarrow> (\<forall>e' \<in> set m. fst e < fst e') \<and> bt_wf m"
  by (auto simp: bt_wf_def)

lemma map_remove_first: "bt_wf (e # m) \<Longrightarrow> map_remove (fst e) (e # m) = m"
  by (auto simp: map_remove_def filter_id_conv)

lemma bt_insert_not_Nil [simp]: "bt_insert k v m \<noteq> []"
  by (induction k v m rule: bt_insert.induct) auto

lemma update_not_Nil [simp]: "AList.update k v m \<noteq> []"
  by (induction m) auto

text \<open>Removing the entries before a key by popping the front, as the pruning loops do.\<close>

lemma dropWhile_retain: "bt_wf m \<Longrightarrow> dropWhile (\<lambda>e. fst e < k) m = map_retain (\<lambda>k' _. \<not> k' < k) m"
  unfolding map_retain_def
proof (induction m)
  case (Cons e m)
  show ?case
  proof (cases "fst e < k")
    case False
    with Cons.prems have "\<forall>e' \<in> set m. \<not> fst e' < k" by force
    with False show ?thesis by simp
  qed (use Cons in simp)
qed simp

end
