(* ===== verification/Rumsh_Codec.thy ===== *)
theory Rumsh_Codec
  imports Rumsh_Crypto Rumsh_Maps
begin

text \<open>
  \<open>src/protocol/codec.rs\<close>: the packet codecs and the fragment reassembly buffer.  The trait
  \<open>PacketCodec\<close> is a record of functions over the codec's state; \<open>chacha_codec\<close> and \<open>null_codec\<close> are its
  two implementations.  The buffer's \<open>Mutex\<close> is never held across a panic, so \<open>lock().unwrap()\<close> does
  not fail and the codec's state is passed explicitly.
\<close>

section \<open>The fragment buffer\<close>

record CodecStats =
  wire_len :: nat
  comp_len :: nat
  decomp_len :: nat

type_synonym fragments = "(u16 \<times> bytes) list"
type_synonym frame_fragments = "u16 \<times> nat \<times> fragments"
type_synonym fragment_buffer = "(u64 \<times> frame_fragments) list"

text \<open>\<open>for idx in 0..total_frags { if let Some(mut piece) = frags.remove(&idx) { .. } }\<close>\<close>

fun reassemble :: "u16 list \<Rightarrow> fragments \<Rightarrow> bytes" where
  "reassemble [] frags = []"
| "reassemble (idx # idxs) frags =
     (case map_of frags idx of
        Some piece \<Rightarrow> piece @ reassemble idxs (map_remove idx frags)
      | None \<Rightarrow> reassemble idxs frags)"

text \<open>The loop that removes the first frame while it is older than \<open>seq\<close>.\<close>

function prune_superseded :: "u64 \<Rightarrow> fragment_buffer \<Rightarrow> fragment_buffer" where
  "prune_superseded seq frames =
     (case frames of
        [] \<Rightarrow> []
      | (old_seq, _) # _ \<Rightarrow>
          if old_seq < seq then prune_superseded seq (map_remove old_seq frames) else frames)"
  by pat_completeness auto
termination
proof (relation "measure (\<lambda>(seq, frames). length frames)")
  fix seq :: u64 and frames p frames' old_seq e
  assume "frames = (p :: u64 \<times> frame_fragments) # frames'" and "(old_seq, e) = p"
  then have "old_seq \<in> fst ` set frames" by force
  then show "((seq, map_remove old_seq frames), seq, frames) \<in> measure (\<lambda>(seq, frames). length frames)"
    by (simp add: btree.length_remove_less)
qed simp

declare prune_superseded.simps [simp del]

definition FragmentBuffer_insert ::
    "fragment_buffer \<Rightarrow> EncryptedServerPacket \<Rightarrow> nat
      \<Rightarrow> fragment_buffer \<times> (EncryptedServerPacket \<times> bytes \<times> nat) option" where
  "FragmentBuffer_insert frames packet wlen =
     (if esp_total_frags packet \<le> 1 then (frames, Some (packet, esp_ciphertext packet, wlen))
      else
        (let seq = esp_seq_num packet;
             (total_frags, wire_acc, old_frags) =
               (case map_of frames seq of Some e \<Rightarrow> e | None \<Rightarrow> (esp_total_frags packet, 0, []));
             total_wire_len = wire_acc + wlen;
             frags = AList.update (esp_frag_idx packet) (esp_ciphertext packet) old_frags;
             frames1 = bt_insert seq (total_frags, total_wire_len, frags) frames
         in if length frags = unat total_frags then
              (prune_superseded seq (map_remove seq frames1),
               Some (\<lparr>esp_seq_num = esp_seq_num packet, esp_ack_seq_num = esp_ack_seq_num packet,
                      esp_frag_idx = 0, esp_total_frags = 1, esp_ciphertext = []\<rparr>,
                     reassemble (u16_range total_frags) frags, total_wire_len))
            else
              (if length frames1 > 32 then map_remove (fst (hd frames1)) frames1 else frames1, None)))"

definition mask_set :: "u64 list \<Rightarrow> u16 \<Rightarrow> u64 list" where
  "mask_set m idx =
     (let word_idx = unat idx div 64; bit_idx = unat idx mod 64 in
      if word_idx < length m then m[word_idx := m ! word_idx OR push_bit bit_idx 1] else m)"

definition received_mask :: "u16 \<Rightarrow> fragments \<Rightarrow> u64 list" where
  "received_mask total_frags frags =
     fold (\<lambda>idx m. mask_set m idx) (map fst frags) (replicate ((unat total_frags + 63) div 64) 0)"

fun get_incomplete_frames :: "fragment_buffer \<Rightarrow> (u64 \<times> u64 list) list" where
  "get_incomplete_frames [] = []"
| "get_incomplete_frames ((seq, total_frags, _, frags) # frames) =
     (if total_frags = 0 \<or> length frags \<ge> unat total_frags then get_incomplete_frames frames
      else (seq, received_mask total_frags frags) # get_incomplete_frames frames)"

section \<open>The codec trait\<close>

type_synonym opened_client = "EncryptedClientPacket \<times> ClientPayload \<times> CodecStats"
type_synonym opened_server = "EncryptedServerPacket \<times> ServerPayload \<times> CodecStats"

record 'c PacketCodec =
  seal_client :: "'c \<Rightarrow> u64 \<Rightarrow> u64 \<Rightarrow> u64 \<Rightarrow> ClientPayload \<Rightarrow> bytes res"
  open_client :: "'c \<Rightarrow> bytes \<Rightarrow> opened_client res"
  seal_server :: "'c \<Rightarrow> u64 \<Rightarrow> u64 \<Rightarrow> ServerPayload \<Rightarrow> bytes list res"
  open_server :: "'c \<Rightarrow> bytes \<Rightarrow> 'c \<times> opened_server option res"
  incomplete_frames :: "'c \<Rightarrow> (u64 \<times> u64 list) list"

text \<open>Serialising a list of packets, stopping at the first error.\<close>

fun serialize_all :: "'a serde \<Rightarrow> 'a list \<Rightarrow> bytes list res" where
  "serialize_all S [] = Inr []"
| "serialize_all S (p # ps) =
     and_then (serialize S p) (\<lambda>b. and_then (serialize_all S ps) (\<lambda>bs. Inr (b # bs)))"

text \<open>The common tail of the two \<open>seal_server\<close> methods: one packet, or one per chunk.\<close>

definition fragment_packets :: "u64 \<Rightarrow> u64 \<Rightarrow> bytes \<Rightarrow> EncryptedServerPacket list" where
  "fragment_packets seq ack ciphertext =
     (if length ciphertext \<le> FRAGMENT_PAYLOAD_SIZE then
        [\<lparr>esp_seq_num = seq, esp_ack_seq_num = ack, esp_frag_idx = 0, esp_total_frags = 1,
          esp_ciphertext = ciphertext\<rparr>]
      else
        (let cs = chunks FRAGMENT_PAYLOAD_SIZE ciphertext in
         map (\<lambda>(idx, chunk).
                \<lparr>esp_seq_num = seq, esp_ack_seq_num = ack, esp_frag_idx = of_nat idx,
                 esp_total_frags = of_nat (length cs), esp_ciphertext = chunk\<rparr>)
           (enumerate 0 cs)))"

section \<open>ChaChaCodec\<close>

record ChaChaCodec =
  cc_crypto :: CryptoManager
  cc_handshake_crypto :: CryptoManager
  cc_session_id :: u64
  cc_fragment_buffer :: fragment_buffer

definition ChaChaCodec_new :: "bytes \<Rightarrow> u64 \<Rightarrow> ChaChaCodec" where
  "ChaChaCodec_new key session_id =
     \<lparr>cc_crypto = CryptoManager_new key session_id, cc_handshake_crypto = CryptoManager_new key 0,
      cc_session_id = session_id, cc_fragment_buffer = []\<rparr>"

definition chacha_seal_client ::
    "codec_lib \<Rightarrow> ChaChaCodec \<Rightarrow> u64 \<Rightarrow> u64 \<Rightarrow> u64 \<Rightarrow> ClientPayload \<Rightarrow> bytes res" where
  "chacha_seal_client L c session_id seq ack payload =
     and_then (serialize (client_payload L) payload) (\<lambda>payload_bytes.
       (let crypto_to_use = (if session_id = 0 then cc_handshake_crypto c else cc_crypto c) in
        and_then (encrypt L crypto_to_use seq payload_bytes) (\<lambda>ciphertext.
          serialize (client_packet L)
            \<lparr>ecp_session_id = session_id, ecp_seq_num = seq, ecp_ack_seq_num = ack,
             ecp_ciphertext = ciphertext\<rparr>)))"

definition chacha_open_client :: "codec_lib \<Rightarrow> ChaChaCodec \<Rightarrow> bytes \<Rightarrow> opened_client res" where
  "chacha_open_client L c bs =
     and_then (deserialize (client_packet L) bs) (\<lambda>wire_packet.
     and_then
       (if ecp_session_id wire_packet = 0 then Inr (cc_handshake_crypto c)
        else if ecp_session_id wire_packet = cc_session_id c then Inr (cc_crypto c)
        else Inl (SessionMismatch (cc_session_id c) (ecp_session_id wire_packet))) (\<lambda>crypto_to_use.
     and_then (decrypt L crypto_to_use (ecp_seq_num wire_packet) (ecp_ciphertext wire_packet))
       (\<lambda>payload_bytes.
     and_then (deserialize (client_payload L) payload_bytes) (\<lambda>payload.
       Inr (wire_packet, payload,
            \<lparr>wire_len = length bs, comp_len = length payload_bytes,
             decomp_len = length payload_bytes\<rparr>)))))"

definition chacha_seal_server ::
    "codec_lib \<Rightarrow> ChaChaCodec \<Rightarrow> u64 \<Rightarrow> u64 \<Rightarrow> ServerPayload \<Rightarrow> bytes list res" where
  "chacha_seal_server L c seq ack payload =
     and_then (serialize_compressed L (server_payload L) payload) (\<lambda>payload_bytes.
     and_then (encrypt L (cc_crypto c) seq payload_bytes) (\<lambda>ciphertext.
       serialize_all (server_packet L) (fragment_packets seq ack ciphertext)))"

definition chacha_open_server ::
    "codec_lib \<Rightarrow> ChaChaCodec \<Rightarrow> bytes \<Rightarrow> ChaChaCodec \<times> opened_server option res" where
  "chacha_open_server L c bs =
     (case deserialize (server_packet L) bs of
        Inl e \<Rightarrow> (c, Inl e)
      | Inr wire_packet \<Rightarrow>
          (case FragmentBuffer_insert (cc_fragment_buffer c) wire_packet (length bs) of
             (buf, None) \<Rightarrow> (c\<lparr>cc_fragment_buffer := buf\<rparr>, Inr None)
           | (buf, Some (completed_packet, full_ciphertext, total_wire_len)) \<Rightarrow>
               (c\<lparr>cc_fragment_buffer := buf\<rparr>,
                and_then (decrypt L (cc_crypto c) (esp_seq_num completed_packet) full_ciphertext)
                  (\<lambda>payload_bytes.
                and_then (deserialize_compressed_get_sizes L (server_payload L) payload_bytes)
                  (\<lambda>(payload, comp, decomp).
                  Inr (Some (completed_packet, payload,
                    \<lparr>wire_len = total_wire_len, comp_len = comp, decomp_len = decomp\<rparr>)))))))"

definition chacha_codec :: "codec_lib \<Rightarrow> ChaChaCodec PacketCodec" where
  "chacha_codec L =
     \<lparr>seal_client = chacha_seal_client L, open_client = chacha_open_client L,
      seal_server = chacha_seal_server L, open_server = chacha_open_server L,
      incomplete_frames = (\<lambda>c. get_incomplete_frames (cc_fragment_buffer c))\<rparr>"

section \<open>NullCodec\<close>

record NullCodec =
  nc_session_id :: u64
  nc_fragment_buffer :: fragment_buffer

definition NullCodec_new :: "u64 \<Rightarrow> NullCodec" where
  "NullCodec_new session_id = \<lparr>nc_session_id = session_id, nc_fragment_buffer = []\<rparr>"

definition null_seal_client ::
    "codec_lib \<Rightarrow> NullCodec \<Rightarrow> u64 \<Rightarrow> u64 \<Rightarrow> u64 \<Rightarrow> ClientPayload \<Rightarrow> bytes res" where
  "null_seal_client L c session_id seq ack payload =
     and_then (serialize (client_payload L) payload) (\<lambda>payload_bytes.
       serialize (client_packet L)
         \<lparr>ecp_session_id = session_id, ecp_seq_num = seq, ecp_ack_seq_num = ack,
          ecp_ciphertext = payload_bytes\<rparr>)"

definition null_open_client :: "codec_lib \<Rightarrow> NullCodec \<Rightarrow> bytes \<Rightarrow> opened_client res" where
  "null_open_client L c bs =
     and_then (deserialize (client_packet L) bs) (\<lambda>wire_packet.
       if ecp_session_id wire_packet \<noteq> 0 \<and> ecp_session_id wire_packet \<noteq> nc_session_id c
       then Inl (SessionMismatch (nc_session_id c) (ecp_session_id wire_packet))
       else
         and_then (deserialize (client_payload L) (ecp_ciphertext wire_packet)) (\<lambda>payload.
           Inr (wire_packet, payload,
                \<lparr>wire_len = length bs, comp_len = length (ecp_ciphertext wire_packet),
                 decomp_len = length (ecp_ciphertext wire_packet)\<rparr>)))"

definition null_seal_server ::
    "codec_lib \<Rightarrow> NullCodec \<Rightarrow> u64 \<Rightarrow> u64 \<Rightarrow> ServerPayload \<Rightarrow> bytes list res" where
  "null_seal_server L c seq ack payload =
     and_then (serialize (server_payload L) payload) (\<lambda>payload_bytes.
       serialize_all (server_packet L) (fragment_packets seq ack payload_bytes))"

definition null_open_server ::
    "codec_lib \<Rightarrow> NullCodec \<Rightarrow> bytes \<Rightarrow> NullCodec \<times> opened_server option res" where
  "null_open_server L c bs =
     (case deserialize (server_packet L) bs of
        Inl e \<Rightarrow> (c, Inl e)
      | Inr wire_packet \<Rightarrow>
          (case FragmentBuffer_insert (nc_fragment_buffer c) wire_packet (length bs) of
             (buf, None) \<Rightarrow> (c\<lparr>nc_fragment_buffer := buf\<rparr>, Inr None)
           | (buf, Some (completed_packet, full_ciphertext, total_wire_len)) \<Rightarrow>
               (c\<lparr>nc_fragment_buffer := buf\<rparr>,
                and_then (deserialize (server_payload L) full_ciphertext) (\<lambda>payload.
                  Inr (Some (completed_packet, payload,
                    \<lparr>wire_len = total_wire_len, comp_len = length full_ciphertext,
                     decomp_len = length full_ciphertext\<rparr>))))))"

definition null_codec :: "codec_lib \<Rightarrow> NullCodec PacketCodec" where
  "null_codec L =
     \<lparr>seal_client = null_seal_client L, open_client = null_open_client L,
      seal_server = null_seal_server L, open_server = null_open_server L,
      incomplete_frames = (\<lambda>c. get_incomplete_frames (nc_fragment_buffer c))\<rparr>"

section \<open>Reassembly lemmas\<close>

lemma reassemble_concat:
  assumes "distinct idxs" "\<And>i. i \<in> set idxs \<Longrightarrow> map_of frags i = Some (piece i)"
  shows "reassemble idxs frags = concat (map piece idxs)"
  using assms
proof (induction idxs arbitrary: frags)
  case (Cons i idxs)
  have "map_of (map_remove i frags) j = Some (piece j)" if "j \<in> set idxs" for j
    using Cons.prems that by (auto simp: hash.lookup_remove)
  with Cons show ?case by simp
qed simp

lemma prune_superseded_retain:
  "bt_wf frames \<Longrightarrow> prune_superseded seq frames = map_retain (\<lambda>k _. \<not> k < seq) frames"
proof (induction seq frames rule: prune_superseded.induct)
  case (1 seq frames)
  show ?case
  proof (cases frames)
    case Nil
    then show ?thesis by (simp add: prune_superseded.simps map_retain_def)
  next
    case (Cons e m)
    obtain k v where e: "e = (k, v)" by (cases e)
    have rem: "map_remove k frames = m"
      using map_remove_first [of e m] "1.prems" Cons e by simp
    show ?thesis
    proof (cases "k < seq")
      case True
      have "prune_superseded seq frames = prune_superseded seq (map_remove k frames)"
        using Cons e True by (subst prune_superseded.simps) simp
      also have "\<dots> = map_retain (\<lambda>k _. \<not> k < seq) (map_remove k frames)"
        by (rule "1.IH" [OF Cons _ True]) (use e "1.prems" in \<open>auto simp: map_remove_def bt_wf_filter\<close>)
      finally show ?thesis unfolding rem using Cons e True by (simp add: map_retain_def)
    next
      case False
      then have "map_retain (\<lambda>k _. \<not> k < seq) frames = frames"
        using "1.prems" Cons e by (force simp: map_retain_def filter_id_conv)
      with False Cons e show ?thesis by (subst prune_superseded.simps) simp
    qed
  qed
qed

section \<open>The buffer's invariant\<close>

definition entry_wf :: "frame_fragments \<Rightarrow> bool" where
  "entry_wf e \<longleftrightarrow>
     hm_wf (snd (snd e)) \<and> snd (snd e) \<noteq> [] \<and> length (snd (snd e)) < unat (fst e)"

definition buffer_wf :: "fragment_buffer \<Rightarrow> bool" where
  "buffer_wf frames \<longleftrightarrow> bt_wf frames \<and> length frames \<le> 32 \<and> (\<forall>e \<in> set frames. entry_wf (snd e))"

text \<open>The entry a fragment goes into, and that entry with the fragment added.\<close>

definition entry_for :: "fragment_buffer \<Rightarrow> EncryptedServerPacket \<Rightarrow> frame_fragments" where
  "entry_for frames p =
     (case map_of frames (esp_seq_num p) of Some e \<Rightarrow> e | None \<Rightarrow> (esp_total_frags p, 0, []))"

definition entry_add :: "frame_fragments \<Rightarrow> EncryptedServerPacket \<Rightarrow> nat \<Rightarrow> frame_fragments" where
  "entry_add e p wlen =
     (fst e, fst (snd e) + wlen, AList.update (esp_frag_idx p) (esp_ciphertext p) (snd (snd e)))"

definition entry_complete :: "frame_fragments \<Rightarrow> bool" where
  "entry_complete e \<longleftrightarrow> length (snd (snd e)) = unat (fst e)"

lemma FragmentBuffer_insert_cases:
  assumes "1 < esp_total_frags p"
  shows "FragmentBuffer_insert frames p wlen =
    (let e = entry_add (entry_for frames p) p wlen;
         frames1 = bt_insert (esp_seq_num p) e frames
     in if entry_complete e then
          (prune_superseded (esp_seq_num p) (map_remove (esp_seq_num p) frames1),
           Some (\<lparr>esp_seq_num = esp_seq_num p, esp_ack_seq_num = esp_ack_seq_num p,
                  esp_frag_idx = 0, esp_total_frags = 1, esp_ciphertext = []\<rparr>,
                 reassemble (u16_range (fst e)) (snd (snd e)), fst (snd e)))
        else (if length frames1 > 32 then map_remove (fst (hd frames1)) frames1 else frames1, None))"
  using assms [folded not_le]
  by (cases "entry_for frames p")
     (simp add: FragmentBuffer_insert_def entry_add_def entry_for_def entry_complete_def Let_def
        split: option.splits)

lemma entry_for_props:
  assumes "buffer_wf frames" "1 < esp_total_frags p"
  shows "hm_wf (snd (snd (entry_for frames p)))"
    and "length (snd (snd (entry_for frames p))) < unat (fst (entry_for frames p))"
proof -
  have "entry_wf (entry_for frames p) \<or> entry_for frames p = (esp_total_frags p, 0, [])"
    using assms(1)
    by (cases "map_of frames (esp_seq_num p)") (fastforce simp: buffer_wf_def entry_for_def dest: map_of_SomeD)+
  moreover have "0 < unat (esp_total_frags p)"
    using assms(2) by (simp add: word_less_nat_alt)
  ultimately show "hm_wf (snd (snd (entry_for frames p)))"
    and "length (snd (snd (entry_for frames p))) < unat (fst (entry_for frames p))"
    by (auto simp: entry_wf_def)
qed

lemma entry_add_wf:
  assumes "buffer_wf frames" "1 < esp_total_frags p"
    and "\<not> entry_complete (entry_add (entry_for frames p) p wlen)"
  shows "entry_wf (entry_add (entry_for frames p) p wlen)"
proof -
  note e = entry_for_props [OF assms(1,2)]
  have "length (AList.update (esp_frag_idx p) (esp_ciphertext p) (snd (snd (entry_for frames p))))
      \<le> Suc (length (snd (snd (entry_for frames p))))"
    using hash.length_insert [OF e(1)] by simp
  then show ?thesis
    using e assms(3) by (simp add: entry_wf_def entry_add_def entry_complete_def)
qed

lemma buffer_wf_filter: "buffer_wf frames \<Longrightarrow> buffer_wf (filter P frames)"
  unfolding buffer_wf_def
  by (auto simp: bt_wf_filter intro: le_trans [OF length_filter_le])

lemma length_remove_hd: "bt_wf m \<Longrightarrow> m \<noteq> [] \<Longrightarrow> length (map_remove (fst (hd m)) m) = length m - 1"
  by (cases m) (simp_all add: map_remove_first del: bt_wf_Cons)

lemma FragmentBuffer_insert_wf [rumsh_inv]:
  assumes "buffer_wf frames"
  shows "buffer_wf (fst (FragmentBuffer_insert frames p wlen))"
proof (cases "1 < esp_total_frags p")
  case False
  with assms show ?thesis by (simp add: FragmentBuffer_insert_def not_less)
next
  case True
  define e where "e = entry_add (entry_for frames p) p wlen"
  define m where "m = bt_insert (esp_seq_num p) e frames"
  have bt: "bt_wf frames" using assms by (simp add: buffer_wf_def)
  then have m: "bt_wf m" "length m \<le> 33" "m \<noteq> []"
    using assms btree.length_insert [OF bt, of "esp_seq_num p" e] unfolding m_def buffer_wf_def
    by (auto simp: bt_insert_sorted)
  have old: "\<forall>x \<in> set m. x = (esp_seq_num p, e) \<or> x \<in> set frames"
    using bt by (auto simp: m_def btree.set_insert)
  show ?thesis
  proof (cases "entry_complete e")
    case True
    have "fst (FragmentBuffer_insert frames p wlen) =
        map_retain (\<lambda>k _. \<not> k < esp_seq_num p) (map_remove (esp_seq_num p) frames)"
      using FragmentBuffer_insert_cases [OF \<open>1 < esp_total_frags p\<close>, of frames wlen] True bt
      by (simp add: Let_def e_def [symmetric] prune_superseded_retain)
    then show ?thesis
      using assms by (simp add: map_retain_def map_remove_def buffer_wf_filter)
  next
    case False
    have "\<forall>x \<in> set m. entry_wf (snd x)"
      using old assms False entry_add_wf [OF assms \<open>1 < esp_total_frags p\<close>]
      by (auto simp: buffer_wf_def e_def)
    moreover have "bt_wf (map_remove k m)" for k using m(1) by (simp add: btree.invar_remove)
    ultimately show ?thesis
      using FragmentBuffer_insert_cases [OF \<open>1 < esp_total_frags p\<close>, of frames wlen] False m
        length_remove_hd [OF m(1,3)]
      by (auto simp: Let_def e_def [symmetric] m_def [symmetric] buffer_wf_def map_remove_def)
  qed
qed

section \<open>Buffers filled by an honest sender\<close>

text \<open>
  \<open>ct seq\<close> is the ciphertext the sender fragmented under sequence number \<open>seq\<close>.  A buffer is honest
  when each of its entries holds pieces of that ciphertext, at their own index.
\<close>

abbreviation frag_chunks :: "bytes \<Rightarrow> bytes list" where
  "frag_chunks c \<equiv> chunks FRAGMENT_PAYLOAD_SIZE c"

definition sendable :: "bytes \<Rightarrow> bool" where
  "sendable c \<longleftrightarrow> length (frag_chunks c) < 65536"

definition honest_entry :: "bytes \<Rightarrow> frame_fragments \<Rightarrow> bool" where
  "honest_entry c e \<longleftrightarrow> unat (fst e) = length (frag_chunks c)
     \<and> (\<forall>(i, b) \<in> set (snd (snd e)). unat i < length (frag_chunks c) \<and> b = frag_chunks c ! unat i)"

definition honest_buffer :: "(u64 \<Rightarrow> bytes) \<Rightarrow> fragment_buffer \<Rightarrow> bool" where
  "honest_buffer ct frames \<longleftrightarrow> (\<forall>(seq, e) \<in> set frames. honest_entry (ct seq) e)"

lemma concat_frag_chunks [simp]: "concat (frag_chunks c) = c"
  by (simp add: FRAGMENT_PAYLOAD_SIZE_def)

lemma frag_chunks_many: "FRAGMENT_PAYLOAD_SIZE < length c \<Longrightarrow> 1 < length (frag_chunks c)"
  by (simp add: length_chunks FRAGMENT_PAYLOAD_SIZE_def)

lemma fragment_packets_small:
  "length c \<le> FRAGMENT_PAYLOAD_SIZE \<Longrightarrow> fragment_packets seq ack c =
     [\<lparr>esp_seq_num = seq, esp_ack_seq_num = ack, esp_frag_idx = 0, esp_total_frags = 1, esp_ciphertext = c\<rparr>]"
  by (simp add: fragment_packets_def)

lemma fragment_packets_large:
  assumes "FRAGMENT_PAYLOAD_SIZE < length c" "sendable c" "p \<in> set (fragment_packets seq ack c)"
  shows "esp_seq_num p = seq" "esp_ack_seq_num p = ack"
    and "unat (esp_total_frags p) = length (frag_chunks c)"
    and "unat (esp_frag_idx p) < length (frag_chunks c)"
    and "esp_ciphertext p = frag_chunks c ! unat (esp_frag_idx p)"
    and "1 < esp_total_frags p"
proof -
  from assms obtain i where i: "i < length (frag_chunks c)"
    and p: "p = \<lparr>esp_seq_num = seq, esp_ack_seq_num = ack, esp_frag_idx = of_nat i,
      esp_total_frags = of_nat (length (frag_chunks c)), esp_ciphertext = frag_chunks c ! i\<rparr>"
    by (auto simp: fragment_packets_def Let_def in_set_enumerate_eq)
  have "unat (of_nat i :: u16) = i" "unat (of_nat (length (frag_chunks c)) :: u16) = length (frag_chunks c)"
    using i assms(2) by (simp_all add: sendable_def unat_of_nat)
  with i p frag_chunks_many [OF assms(1)]
  show "esp_seq_num p = seq" "esp_ack_seq_num p = ack"
    "unat (esp_total_frags p) = length (frag_chunks c)"
    "unat (esp_frag_idx p) < length (frag_chunks c)"
    "esp_ciphertext p = frag_chunks c ! unat (esp_frag_idx p)" "1 < esp_total_frags p"
    by (simp_all add: word_less_nat_alt)
qed

lemma fragment_packets_indices:
  assumes "FRAGMENT_PAYLOAD_SIZE < length c" "sendable c"
  shows "(\<lambda>p. unat (esp_frag_idx p)) ` set (fragment_packets seq ack c) = {0..<length (frag_chunks c)}"
proof -
  have "\<exists>p \<in> set (fragment_packets seq ack c). unat (esp_frag_idx p) = i"
    if "i < length (frag_chunks c)" for i
    using that assms
    by (intro bexI [of _ "\<lparr>esp_seq_num = seq, esp_ack_seq_num = ack, esp_frag_idx = of_nat i,
        esp_total_frags = of_nat (length (frag_chunks c)), esp_ciphertext = frag_chunks c ! i\<rparr>"])
       (auto simp: fragment_packets_def Let_def in_set_enumerate_eq image_iff sendable_def unat_of_nat
          intro!: bexI [of _ "(i, frag_chunks c ! i)"])
  then show ?thesis using fragment_packets_large(4) [OF assms] by (fastforce simp: image_iff)
qed

lemma honest_reassemble:
  assumes "honest_entry c e" "hm_wf (snd (snd e))" "entry_complete e"
  shows "reassemble (u16_range (fst e)) (snd (snd e)) = c"
proof -
  let ?frags = "snd (snd e)" and ?n = "fst e"
  have sub: "fst ` set ?frags \<subseteq> {i. i < ?n}"
    using assms(1) by (auto simp: honest_entry_def word_less_nat_alt)
  have "card {i. i < ?n} = unat ?n"
    using distinct_card [OF distinct_u16_range [of ?n]] by simp
  moreover have "card (fst ` set ?frags) = unat ?n"
    using assms(2,3) hash.length_card [of ?frags] by (simp add: entry_complete_def)
  ultimately have keys: "fst ` set ?frags = {i. i < ?n}"
    using sub by (intro card_subset_eq) auto
  have "map_of ?frags i = Some (frag_chunks c ! unat i)" if "i < ?n" for i
  proof -
    from that keys have "i \<in> fst ` set ?frags" by simp
    then obtain b where b: "(i, b) \<in> set ?frags" by force
    with assms(1) have "b = frag_chunks c ! unat i" by (auto simp: honest_entry_def)
    with b assms(2) show ?thesis by (simp add: hash.lookup_iff)
  qed
  then have "reassemble (u16_range ?n) ?frags = concat (map (\<lambda>i. frag_chunks c ! unat i) (u16_range ?n))"
    by (intro reassemble_concat) auto
  also have "map (\<lambda>i. frag_chunks c ! unat i) (u16_range ?n) = map ((!) (frag_chunks c)) [0..<unat ?n]"
    by (simp add: u16_range_def unat_of_nat_below)
  also have "\<dots> = frag_chunks c"
    using assms(1) by (simp add: honest_entry_def map_nth)
  finally show ?thesis by simp
qed

lemma honest_entry_add:
  assumes "buffer_wf frames" "honest_buffer ct frames"
    and "FRAGMENT_PAYLOAD_SIZE < length (ct seq)" "sendable (ct seq)"
    and "p \<in> set (fragment_packets seq ack (ct seq))"
  shows "honest_entry (ct seq) (entry_add (entry_for frames p) p wlen)"
    and "hm_wf (snd (snd (entry_add (entry_for frames p) p wlen)))"
proof -
  note p = fragment_packets_large [OF assms(3,4,5)]
  have e: "honest_entry (ct seq) (entry_for frames p)"
    using assms(2) p
    by (auto simp: honest_buffer_def entry_for_def honest_entry_def split: option.splits dest!: map_of_SomeD)
       fastforce+
  have wf: "hm_wf (snd (snd (entry_for frames p)))" using entry_for_props [OF assms(1) p(6)] by simp
  then show "hm_wf (snd (snd (entry_add (entry_for frames p) p wlen)))"
    by (simp add: entry_add_def hash.invar_insert)
  show "honest_entry (ct seq) (entry_add (entry_for frames p) p wlen)"
    using e wf p by (auto simp: honest_entry_def entry_add_def hash.set_insert)
qed

lemma honest_buffer_filter: "honest_buffer ct frames \<Longrightarrow> honest_buffer ct (filter P frames)"
  by (auto simp: honest_buffer_def)

lemma honest_buffer_remove: "honest_buffer ct frames \<Longrightarrow> honest_buffer ct (map_remove k frames)"
  by (simp add: map_remove_def honest_buffer_filter)

text \<open>One honest fragment: the buffer stays honest, and a completed frame is the ciphertext sent.\<close>

lemma FragmentBuffer_insert_honest:
  assumes "buffer_wf frames" "honest_buffer ct frames" "sendable (ct seq)"
    and "p \<in> set (fragment_packets seq ack (ct seq))"
  shows "honest_buffer ct (fst (FragmentBuffer_insert frames p wlen))"
    and "snd (FragmentBuffer_insert frames p wlen) = Some (q, c, w) \<Longrightarrow>
           c = ct seq \<and> esp_seq_num q = seq \<and> esp_ack_seq_num q = ack"
proof -
  have "honest_buffer ct (fst (FragmentBuffer_insert frames p wlen))
    \<and> (snd (FragmentBuffer_insert frames p wlen) = Some (q, c, w) \<longrightarrow>
           c = ct seq \<and> esp_seq_num q = seq \<and> esp_ack_seq_num q = ack)"
  proof (cases "length (ct seq) \<le> FRAGMENT_PAYLOAD_SIZE")
    case True
    with assms show ?thesis
      by (auto simp: fragment_packets_small FragmentBuffer_insert_def)
  next
    case False
    then have large: "FRAGMENT_PAYLOAD_SIZE < length (ct seq)" by simp
    note p = fragment_packets_large [OF large assms(3,4)]
    define e where "e = entry_add (entry_for frames p) p wlen"
    have e: "honest_entry (ct seq) e" "hm_wf (snd (snd e))"
      unfolding e_def using honest_entry_add [OF assms(1,2) large assms(3,4)] by auto
    have bt: "bt_wf frames" using assms(1) by (simp add: buffer_wf_def)
    have ins: "honest_buffer ct (bt_insert seq e frames)"
      using assms(2) e(1) bt by (auto simp: honest_buffer_def btree.set_insert)
    have "honest_buffer ct (prune_superseded seq (map_remove seq frames))"
      using assms(2) bt
      by (simp add: prune_superseded_retain map_retain_def map_remove_def bt_wf_filter honest_buffer_filter)
    with ins e show ?thesis
      using FragmentBuffer_insert_cases [OF p(6), of frames wlen] p(1,2)
      by (auto simp: Let_def e_def [symmetric] honest_buffer_remove honest_reassemble)
  qed
  then show "honest_buffer ct (fst (FragmentBuffer_insert frames p wlen))"
    and "snd (FragmentBuffer_insert frames p wlen) = Some (q, c, w) \<Longrightarrow>
           c = ct seq \<and> esp_seq_num q = seq \<and> esp_ack_seq_num q = ack"
    by auto
qed

section \<open>Complete delivery\<close>

fun deliver :: "fragment_buffer \<Rightarrow> (EncryptedServerPacket \<times> nat) list
    \<Rightarrow> (EncryptedServerPacket \<times> bytes \<times> nat) option list" where
  "deliver frames [] = []"
| "deliver frames ((p, w) # ps) =
     (case FragmentBuffer_insert frames p w of (frames', r) \<Rightarrow> r # deliver frames' ps)"

text \<open>The fragment indices a buffer holds for a frame, and the room it needs to keep the frame.\<close>

definition held :: "fragment_buffer \<Rightarrow> u64 \<Rightarrow> nat set" where
  "held frames seq = (case map_of frames seq of None \<Rightarrow> {} | Some e \<Rightarrow> unat ` fst ` set (snd (snd e)))"

definition has_room :: "fragment_buffer \<Rightarrow> u64 \<Rightarrow> bool" where
  "has_room frames seq \<longleftrightarrow> map_of frames seq \<noteq> None \<or> length frames < 32"

lemma held_entry_add:
  assumes "hm_wf (snd (snd (entry_for frames p)))"
  shows "unat ` fst ` set (snd (snd (entry_add (entry_for frames p) p w)))
    = insert (unat (esp_frag_idx p)) (held frames (esp_seq_num p))"
  using assms
  by (fastforce simp: entry_add_def hash.set_insert held_def entry_for_def image_iff split: option.splits)

lemma insert_partial:
  assumes "buffer_wf frames" "has_room frames (esp_seq_num p)" "1 < esp_total_frags p"
    and "snd (FragmentBuffer_insert frames p w) = None"
  shows "held (fst (FragmentBuffer_insert frames p w)) (esp_seq_num p)
      = insert (unat (esp_frag_idx p)) (held frames (esp_seq_num p))"
    and "has_room (fst (FragmentBuffer_insert frames p w)) (esp_seq_num p)"
proof -
  define e where "e = entry_add (entry_for frames p) p w"
  have bt: "bt_wf frames" and len: "length frames \<le> 32" using assms(1) by (simp_all add: buffer_wf_def)
  have "length (bt_insert (esp_seq_num p) e frames) \<le> 32"
    using btree.length_insert [OF bt, of "esp_seq_num p" e] assms(2) len by (auto simp: has_room_def)
  then have fr: "fst (FragmentBuffer_insert frames p w) = bt_insert (esp_seq_num p) e frames"
    using FragmentBuffer_insert_cases [OF assms(3), of frames w] assms(4)
    by (auto simp: Let_def e_def [symmetric] split: if_splits)
  show "has_room (fst (FragmentBuffer_insert frames p w)) (esp_seq_num p)"
    unfolding fr has_room_def by (simp add: btree.lookup_insert [OF bt])
  show "held (fst (FragmentBuffer_insert frames p w)) (esp_seq_num p)
      = insert (unat (esp_frag_idx p)) (held frames (esp_seq_num p))"
    using held_entry_add [of frames p w] entry_for_props(1) [OF assms(1,3)]
    unfolding fr by (simp add: held_def [of "bt_insert _ _ _"] btree.lookup_insert [OF bt] e_def)
qed

lemma held_not_all:
  assumes "buffer_wf frames" "honest_buffer ct frames" "1 < length (frag_chunks (ct seq))"
  shows "held frames seq \<noteq> {0..<length (frag_chunks (ct seq))}"
proof (cases "map_of frames seq")
  case None
  then show ?thesis using assms(3) by (auto simp: held_def)
next
  case (Some e)
  then have "(seq, e) \<in> set frames" by (rule map_of_SomeD)
  with assms(1,2) have e: "entry_wf e" "honest_entry (ct seq) e"
    by (force simp: buffer_wf_def honest_buffer_def)+
  have "card (unat ` fst ` set (snd (snd e))) \<le> length (snd (snd e))"
    by (metis card_image_le card_length finite_imageI finite_set le_trans length_map list.set_map)
  also have "\<dots> < length (frag_chunks (ct seq))"
    using e by (simp add: entry_wf_def honest_entry_def)
  finally show ?thesis using Some by (auto simp: held_def)
qed

lemma deliver_completes:
  assumes "buffer_wf frames" "honest_buffer ct frames" "has_room frames seq" "sendable (ct seq)"
    and "FRAGMENT_PAYLOAD_SIZE < length (ct seq)"
    and "fst ` set ps \<subseteq> set (fragment_packets seq ack (ct seq))"
    and "held frames seq \<union> (\<lambda>x. unat (esp_frag_idx (fst x))) ` set ps = {0..<length (frag_chunks (ct seq))}"
  shows "\<exists>r \<in> set (deliver frames ps). r \<noteq> None"
  using assms
proof (induction ps arbitrary: frames)
  case Nil
  then show ?case using held_not_all [of frames ct seq] frag_chunks_many by force
next
  case (Cons x ps)
  obtain p w where x: "x = (p, w)" by (cases x)
  then have p: "p \<in> set (fragment_packets seq ack (ct seq))" using Cons.prems(6) by simp
  note q = fragment_packets_large [OF Cons.prems(5,4) p]
  obtain frames' r where step: "FragmentBuffer_insert frames p w = (frames', r)" by force
  show ?case
  proof (cases r)
    case (Some a)
    then show ?thesis using x step by (cases a) simp
  next
    case None
    have "held frames' seq = insert (unat (esp_frag_idx p)) (held frames seq)" "has_room frames' seq"
      using insert_partial [of frames p w] Cons.prems(1,3) q(1,6) step None by auto
    moreover have "buffer_wf frames'" "honest_buffer ct frames'"
      using FragmentBuffer_insert_wf [OF Cons.prems(1), of p w]
        FragmentBuffer_insert_honest(1) [OF Cons.prems(1,2,4) p, of w] step by auto
    ultimately have "\<exists>r \<in> set (deliver frames' ps). r \<noteq> None"
      using Cons.IH [of frames'] Cons.prems(4-7) x by auto
    then show ?thesis using x step by auto
  qed
qed

lemma deliver_honest:
  assumes "buffer_wf frames" "honest_buffer ct frames" "sendable (ct seq)"
    and "fst ` set ps \<subseteq> set (fragment_packets seq ack (ct seq))"
    and "Some (q, c, w) \<in> set (deliver frames ps)"
  shows "c = ct seq \<and> esp_seq_num q = seq \<and> esp_ack_seq_num q = ack"
  using assms
proof (induction ps arbitrary: frames)
  case (Cons x ps)
  obtain p wl where x: "x = (p, wl)" by (cases x)
  then have p: "p \<in> set (fragment_packets seq ack (ct seq))" using Cons.prems(4) by simp
  obtain frames' r where step: "FragmentBuffer_insert frames p wl = (frames', r)" by force
  note h = FragmentBuffer_insert_honest [OF Cons.prems(1,2,3) p, of wl]
  have "buffer_wf frames'" "honest_buffer ct frames'"
    using FragmentBuffer_insert_wf [OF Cons.prems(1), of p wl] h(1) step by auto
  from Cons.IH [OF this Cons.prems(3)] Cons.prems(4,5) x step h(2) [of q c w] show ?case
    by auto
qed simp

section \<open>The received mask\<close>

definition mask_bit :: "u64 list \<Rightarrow> nat \<Rightarrow> bool" where
  "mask_bit m i \<longleftrightarrow> i div 64 < length m \<and> bit (m ! (i div 64)) (i mod 64)"

lemma length_mask_set [simp]: "length (mask_set m idx) = length m"
  by (simp add: mask_set_def Let_def)

lemma mask_bit_set:
  "mask_bit (mask_set m idx) i \<longleftrightarrow> mask_bit m i \<or> (i = unat idx \<and> i div 64 < length m)"
proof -
  have "i = unat idx \<longleftrightarrow> i div 64 = unat idx div 64 \<and> i mod 64 = unat idx mod 64"
    by (metis div_mult_mod_eq)
  moreover have "bit (push_bit (unat idx mod 64) 1 :: u64) (i mod 64) \<longleftrightarrow> i mod 64 = unat idx mod 64"
    unfolding bit_push_bit_iff by (auto simp: bit_1_iff)
  ultimately show ?thesis
    by (auto simp: mask_bit_def mask_set_def Let_def nth_list_update bit_or_iff simp del: push_bit_of_1)
qed

lemma mask_bit_fold:
  "mask_bit (fold (\<lambda>idx m. mask_set m idx) idxs m) i \<longleftrightarrow>
     mask_bit m i \<or> (i \<in> unat ` set idxs \<and> i div 64 < length m)"
  by (induction idxs arbitrary: m) (auto simp: mask_bit_set)

lemma mask_bit_received:
  assumes "i < unat tot"
  shows "mask_bit (received_mask tot frags) i \<longleftrightarrow> i \<in> unat ` fst ` set frags"
proof -
  have "i div 64 < (unat tot + 63) div 64" using assms by linarith
  then show ?thesis
    by (auto simp: received_mask_def mask_bit_fold mask_bit_def [of "replicate _ _"] image_image)
qed

lemma mask_bit_received_word:
  assumes "i < unat tot"
  shows "mask_bit (received_mask tot frags) i \<longleftrightarrow> of_nat i \<in> fst ` set frags"
proof -
  have "i \<in> unat ` fst ` set frags \<longleftrightarrow> (of_nat i :: u16) \<in> fst ` set frags"
    using unat_of_nat_below [OF assms] by (metis (no_types, lifting) image_iff unsigned_word_eqI)
  with assms show ?thesis by (simp add: mask_bit_received)
qed

lemma missing_fragment:
  assumes "entry_wf e"
  shows "\<exists>i < unat (fst e). i \<notin> unat ` fst ` set (snd (snd e))"
proof (rule ccontr)
  assume "\<not> ?thesis"
  then have "{0..<unat (fst e)} \<subseteq> unat ` fst ` set (snd (snd e))" by auto
  from card_mono [OF _ this] have "unat (fst e) \<le> card (unat ` fst ` set (snd (snd e)))" by simp
  also have "\<dots> \<le> length (snd (snd e))"
    by (metis card_image_le card_length finite_imageI finite_set le_trans length_map list.set_map)
  finally show False using assms by (simp add: entry_wf_def)
qed

lemma length_received_mask [simp]: "length (received_mask tot frags) = (unat tot + 63) div 64"
proof -
  have "length (fold (\<lambda>idx m. mask_set m idx) idxs m) = length m" for idxs m
    by (induction idxs arbitrary: m) auto
  then show ?thesis by (simp add: received_mask_def)
qed

lemma get_incomplete_frames_map:
  assumes "\<forall>e \<in> set frames. entry_wf (snd e)"
  shows "get_incomplete_frames frames = map (\<lambda>(seq, tot, _, frags). (seq, received_mask tot frags)) frames"
  using assms
  by (induction frames rule: get_incomplete_frames.induct) (auto simp: entry_wf_def)

section \<open>Sealing lemmas\<close>

lemma serialize_all_list_all2:
  "serialize_all S ps = Inr bs \<Longrightarrow> list_all2 (\<lambda>p b. enc S p = Some b) ps bs"
  by (induction S ps arbitrary: bs rule: serialize_all.induct) auto

lemma serialize_all_Inr:
  assumes "serialize_all S ps = Inr bs"
  shows "length bs = length ps" "\<And>b. b \<in> set bs \<Longrightarrow> \<exists>p \<in> set ps. enc S p = Some b"
    "\<And>p. p \<in> set ps \<Longrightarrow> \<exists>b \<in> set bs. enc S p = Some b"
proof -
  note all = serialize_all_list_all2 [OF assms]
  then show "length bs = length ps" by (simp add: list_all2_lengthD)
  show "\<And>b. b \<in> set bs \<Longrightarrow> \<exists>p \<in> set ps. enc S p = Some b"
    using all by (auto simp: in_set_conv_nth list_all2_conv_all_nth Bex_def)
  show "\<And>p. p \<in> set ps \<Longrightarrow> \<exists>b \<in> set bs. enc S p = Some b"
    using all by (auto simp: in_set_conv_nth list_all2_conv_all_nth Bex_def)
qed

lemma length_fragment_packets:
  "length (fragment_packets seq ack c) = (if length c \<le> FRAGMENT_PAYLOAD_SIZE then 1 else length (frag_chunks c))"
  by (simp add: fragment_packets_def Let_def)

lemma sendable_iff:
  assumes "serialize_all S (fragment_packets seq ack c) = Inr bs" "length bs < 65536"
  shows "sendable c"
proof (cases "length c \<le> FRAGMENT_PAYLOAD_SIZE")
  case True
  then show ?thesis by (simp add: sendable_def length_chunks FRAGMENT_PAYLOAD_SIZE_def)
next
  case False
  with assms serialize_all_Inr(1) [OF assms(1)] show ?thesis
    by (simp add: sendable_def length_fragment_packets)
qed

section \<open>The interface the sessions use\<close>

text \<open>
  \<open>cfg\<close> is the part of a codec that never changes (keys and session id), \<open>sid\<close> its session id.
  \<open>honest S c\<close> says that everything buffered in \<open>c\<close> came from packets sealed for the log \<open>S\<close>, which maps a
  server sequence number to the acknowledgement and payload sent under it.
\<close>

locale packet_codec =
  fixes C :: "'c PacketCodec"
    and cfg :: "'c \<Rightarrow> 'k"
    and sid :: "'c \<Rightarrow> u64"
    and honest :: "(u64 \<rightharpoonup> u64 \<times> ServerPayload) \<Rightarrow> 'c \<Rightarrow> bool"
  assumes open_seal_client:
    "seal_client C c session seq ack cpl = Inr bs \<Longrightarrow> cfg c' = cfg c \<Longrightarrow>
     session = 0 \<or> session = sid c' \<Longrightarrow>
     \<exists>cpkt stats. open_client C c' bs = Inr (cpkt, cpl, stats) \<and> ecp_session_id cpkt = session
       \<and> ecp_seq_num cpkt = seq \<and> ecp_ack_seq_num cpkt = ack"
    and open_client_session:
    "open_client C c bs = Inr (cpkt, cpl, stats) \<Longrightarrow> ecp_session_id cpkt = 0 \<or> ecp_session_id cpkt = sid c"
    and open_seal_server:
    "seal_server C c seq ack spl = Inr packets \<Longrightarrow> length packets < 65536 \<Longrightarrow> bs \<in> set packets \<Longrightarrow>
     cfg c' = cfg c \<Longrightarrow> S seq = Some (ack, spl) \<Longrightarrow> honest S c' \<Longrightarrow>
     \<exists>c'' r. open_server C c' bs = (c'', Inr r) \<and> honest S c'' \<and>
       (\<forall>spkt p stats. r = Some (spkt, p, stats) \<longrightarrow>
          p = spl \<and> esp_seq_num spkt = seq \<and> esp_ack_seq_num spkt = ack)"
    and open_server_cfg: "cfg (fst (open_server C c bs)) = cfg c"
    and honest_mono: "honest S c \<Longrightarrow> S \<subseteq>\<^sub>m S' \<Longrightarrow> honest S' c"

text \<open>The ciphertext each codec fragments for a log entry, and honesty of a codec's buffer.\<close>

definition log_ct :: "(ServerPayload \<Rightarrow> u64 \<Rightarrow> bytes res) \<Rightarrow> (u64 \<rightharpoonup> u64 \<times> ServerPayload) \<Rightarrow> u64 \<Rightarrow> bytes" where
  "log_ct f S seq =
     (case S seq of None \<Rightarrow> [] | Some (_, payload) \<Rightarrow> (case f payload seq of Inl _ \<Rightarrow> [] | Inr c \<Rightarrow> c))"

definition null_ct :: "codec_lib \<Rightarrow> ServerPayload \<Rightarrow> u64 \<Rightarrow> bytes res" where
  "null_ct L payload seq = serialize (server_payload L) payload"

definition chacha_ct :: "codec_lib \<Rightarrow> CryptoManager \<Rightarrow> ServerPayload \<Rightarrow> u64 \<Rightarrow> bytes res" where
  "chacha_ct L cm payload seq =
     and_then (serialize_compressed L (server_payload L) payload) (encrypt L cm seq)"

definition buffer_honest ::
    "(ServerPayload \<Rightarrow> u64 \<Rightarrow> bytes res) \<Rightarrow> (u64 \<rightharpoonup> u64 \<times> ServerPayload) \<Rightarrow> fragment_buffer \<Rightarrow> bool" where
  "buffer_honest f S buf \<longleftrightarrow> buffer_wf buf \<and> honest_buffer (log_ct f S) buf"

definition null_honest :: "codec_lib \<Rightarrow> (u64 \<rightharpoonup> u64 \<times> ServerPayload) \<Rightarrow> NullCodec \<Rightarrow> bool" where
  "null_honest L S c \<longleftrightarrow> buffer_honest (null_ct L) S (nc_fragment_buffer c)"

definition chacha_honest :: "codec_lib \<Rightarrow> (u64 \<rightharpoonup> u64 \<times> ServerPayload) \<Rightarrow> ChaChaCodec \<Rightarrow> bool" where
  "chacha_honest L S c \<longleftrightarrow> buffer_honest (chacha_ct L (cc_crypto c)) S (cc_fragment_buffer c)"

definition chacha_cfg :: "ChaChaCodec \<Rightarrow> CryptoManager \<times> CryptoManager \<times> u64" where
  "chacha_cfg c = (cc_crypto c, cc_handshake_crypto c, cc_session_id c)"

lemma buffer_honest_empty [simp]: "buffer_honest f S []"
  by (simp add: buffer_honest_def buffer_wf_def bt_wf_def honest_buffer_def)

lemma buffer_honest_mono:
  assumes "buffer_honest f S buf" "S \<subseteq>\<^sub>m S'"
  shows "buffer_honest f S' buf"
proof -
  have "honest_entry (log_ct f S' seq) e" if e: "(seq, e) \<in> set buf" for seq e
  proof (cases "S seq")
    case None
    from e assms(1) have "honest_entry (log_ct f S seq) e" "entry_wf e"
      by (force simp: buffer_honest_def honest_buffer_def buffer_wf_def)+
    with None show ?thesis by (simp add: log_ct_def honest_entry_def entry_wf_def)
  next
    case (Some a)
    with assms(2) have "S' seq = S seq" by (force simp: map_le_def)
    with e assms(1) show ?thesis by (auto simp: buffer_honest_def honest_buffer_def log_ct_def)
  qed
  with assms(1) show ?thesis by (auto simp: buffer_honest_def honest_buffer_def)
qed

lemma buffer_honest_insert:
  assumes "buffer_honest f S buf" "S seq = Some (ack, payload)" "f payload seq = Inr c" "sendable c"
    and "p \<in> set (fragment_packets seq ack c)"
  shows "buffer_honest f S (fst (FragmentBuffer_insert buf p w))"
    and "snd (FragmentBuffer_insert buf p w) = Some (q, c', wl) \<Longrightarrow>
      c' = c \<and> esp_seq_num q = seq \<and> esp_ack_seq_num q = ack"
  using FragmentBuffer_insert_honest [of buf "log_ct f S" seq p ack w] FragmentBuffer_insert_wf [of buf p w]
    assms by (auto simp: buffer_honest_def log_ct_def)

context wire_lib
begin

sublocale null: packet_codec "null_codec L" nc_session_id nc_session_id "null_honest L"
proof unfold_locales
  fix c c' :: NullCodec and session seq ack cpl bs
  assume "seal_client (null_codec L) c session seq ack cpl = Inr bs"
    "nc_session_id c' = nc_session_id c" "session = 0 \<or> session = nc_session_id c'"
  moreover from this obtain pb where "enc (client_payload L) cpl = Some pb"
    "enc (client_packet L) \<lparr>ecp_session_id = session, ecp_seq_num = seq, ecp_ack_seq_num = ack,
      ecp_ciphertext = pb\<rparr> = Some bs"
    by (auto simp: null_codec_def null_seal_client_def)
  ultimately show "\<exists>cpkt stats. open_client (null_codec L) c' bs = Inr (cpkt, cpl, stats)
      \<and> ecp_session_id cpkt = session \<and> ecp_seq_num cpkt = seq \<and> ecp_ack_seq_num cpkt = ack"
    by (cases "session = 0")
       (simp_all add: null_codec_def null_open_client_def client_payload_ok client_packet_ok)
next
  fix c :: NullCodec and bs cpkt cpl stats
  assume "open_client (null_codec L) c bs = Inr (cpkt, cpl, stats)"
  then show "ecp_session_id cpkt = 0 \<or> ecp_session_id cpkt = nc_session_id c"
    by (auto simp: null_codec_def null_open_client_def split: if_splits)
next
  fix c c' :: NullCodec and seq ack spl packets bs S
  assume h: "seal_server (null_codec L) c seq ack spl = Inr packets" "length packets < 65536"
    "bs \<in> set packets" "S seq = Some (ack, spl)" "null_honest L S c'"
  then obtain ct where ct: "null_ct L spl seq = Inr ct"
    and ser: "serialize_all (server_packet L) (fragment_packets seq ack ct) = Inr packets"
    by (auto simp: null_codec_def null_seal_server_def null_ct_def)
  then obtain p where p: "p \<in> set (fragment_packets seq ack ct)" "enc (server_packet L) p = Some bs"
    using serialize_all_Inr(2) [OF ser h(3)] by blast
  note ins = buffer_honest_insert [where f = "null_ct L" and S = S, OF _ h(4) ct sendable_iff [OF ser h(2)] p(1)]
  show "\<exists>c'' r. open_server (null_codec L) c' bs = (c'', Inr r) \<and> null_honest L S c'' \<and>
       (\<forall>spkt p stats. r = Some (spkt, p, stats) \<longrightarrow>
          p = spl \<and> esp_seq_num spkt = seq \<and> esp_ack_seq_num spkt = ack)"
    using h(5) ins [of "nc_fragment_buffer c'" "length bs"] p(2) ct
    by (cases "FragmentBuffer_insert (nc_fragment_buffer c') p (length bs)")
       (auto simp: null_codec_def null_open_server_def null_honest_def server_packet_ok server_payload_ok null_ct_def
          split: option.splits)
next
  fix c :: NullCodec and bs
  show "nc_session_id (fst (open_server (null_codec L) c bs)) = nc_session_id c"
    by (auto simp: null_codec_def null_open_server_def split: sum.splits prod.splits option.splits)
qed (auto simp: null_honest_def intro: buffer_honest_mono)

sublocale chacha: packet_codec "chacha_codec L" chacha_cfg cc_session_id "chacha_honest L"
proof unfold_locales
  fix c c' :: ChaChaCodec and session seq ack cpl bs
  assume h: "seal_client (chacha_codec L) c session seq ack cpl = Inr bs"
    "chacha_cfg c' = chacha_cfg c" "session = 0 \<or> session = cc_session_id c'"
  let ?pkt = "\<lambda>ct. \<lparr>ecp_session_id = session, ecp_seq_num = seq, ecp_ack_seq_num = ack, ecp_ciphertext = ct\<rparr>"
  let ?cm = "if session = 0 then cc_handshake_crypto c' else cc_crypto c'"
  from h(1,2) obtain pb ct where pb: "enc (client_payload L) cpl = Some pb"
    and ct: "encrypt L ?cm seq pb = Inr ct" and bs: "enc (client_packet L) (?pkt ct) = Some bs"
    by (cases "session = 0")
       (auto simp: chacha_codec_def chacha_seal_client_def chacha_cfg_def Let_def)
  have "decrypt L ?cm seq ct = Inr pb" using ct by (rule decrypt_encrypt)
  with h(3) bs pb show "\<exists>cpkt stats. open_client (chacha_codec L) c' bs = Inr (cpkt, cpl, stats)
      \<and> ecp_session_id cpkt = session \<and> ecp_seq_num cpkt = seq \<and> ecp_ack_seq_num cpkt = ack"
    by (cases "session = 0")
       (simp_all add: chacha_codec_def chacha_open_client_def client_payload_ok client_packet_ok)
next
  fix c :: ChaChaCodec and bs cpkt cpl stats
  assume "open_client (chacha_codec L) c bs = Inr (cpkt, cpl, stats)"
  then show "ecp_session_id cpkt = 0 \<or> ecp_session_id cpkt = cc_session_id c"
    by (auto simp: chacha_codec_def chacha_open_client_def split: if_splits)
next
  fix c c' :: ChaChaCodec and seq ack spl packets bs S
  assume h: "seal_server (chacha_codec L) c seq ack spl = Inr packets" "length packets < 65536"
    "bs \<in> set packets" "chacha_cfg c' = chacha_cfg c" "S seq = Some (ack, spl)" "chacha_honest L S c'"
  then obtain pb ct where pb: "serialize_compressed L (server_payload L) spl = Inr pb"
    and en: "encrypt L (cc_crypto c') seq pb = Inr ct"
    and ser: "serialize_all (server_packet L) (fragment_packets seq ack ct) = Inr packets"
    by (auto simp: chacha_codec_def chacha_seal_server_def chacha_cfg_def)
  then have ct: "chacha_ct L (cc_crypto c') spl seq = Inr ct" by (simp add: chacha_ct_def)
  obtain p where p: "p \<in> set (fragment_packets seq ack ct)" "enc (server_packet L) p = Some bs"
    using serialize_all_Inr(2) [OF ser h(3)] by blast
  note ins = buffer_honest_insert [where f = "chacha_ct L (cc_crypto c')" and S = S, OF _ h(5) ct sendable_iff [OF ser h(2)] p(1)]
  obtain plain :: bytes where "deserialize_compressed_get_sizes L (server_payload L) pb = Inr (spl, length pb, length plain)"
    using deserialize_serialize_compressed [OF server_payload_ok lz4_ok pb] by blast
  then show "\<exists>c'' r. open_server (chacha_codec L) c' bs = (c'', Inr r) \<and> chacha_honest L S c'' \<and>
       (\<forall>spkt p stats. r = Some (spkt, p, stats) \<longrightarrow>
          p = spl \<and> esp_seq_num spkt = seq \<and> esp_ack_seq_num spkt = ack)"
    using h(6) ins [of "cc_fragment_buffer c'" "length bs"] p(2) en
    by (cases "FragmentBuffer_insert (cc_fragment_buffer c') p (length bs)")
       (auto simp: chacha_codec_def chacha_open_server_def chacha_honest_def server_packet_ok
          split: option.splits)
next
  fix c :: ChaChaCodec and bs
  show "chacha_cfg (fst (open_server (chacha_codec L) c bs)) = chacha_cfg c"
    by (auto simp: chacha_codec_def chacha_open_server_def chacha_cfg_def split: sum.splits prod.splits option.splits)
qed (auto simp: chacha_honest_def intro: buffer_honest_mono)

end

end
