(* ===== verification/Rumsh_Server_State.thy ===== *)
theory Rumsh_Server_State
  imports Rumsh_Grid
begin

text \<open>
  \<open>src/server/state.rs\<close>: the authoritative terminal.  The emulator itself is the crate \<open>libghostty_vt\<close>,
  which is not part of the repository: its operations are the fields of \<open>ghostty\<close>, a parameter over an
  arbitrary emulator state \<open>'v\<close>.  What the source reads from it (a snapshot of rows and cells) is
  data, and how the source turns that data into a \<open>GridState\<close> is modelled here.
\<close>

section \<open>The emulator's interface\<close>

text \<open>A cell's accessors are all called before the cell is stored, so one failing accessor fails the cell.\<close>

record vt_cell =
  vc_chars :: "u32 list"
  vc_fg :: "RgbColorUpdate option"
  vc_bg :: "RgbColorUpdate option"
  vc_bold :: bool
  vc_italic :: bool
  vc_inverse :: bool
  vc_underline :: bool

record vt_row =
  vr_dirty :: "bool res"
  vr_wrapped :: "bool res"
  vr_cells :: "vt_cell res list res"

record vt_snapshot =
  sn_cols :: u16
  sn_rows :: u16
  sn_cursor_visible :: bool
  sn_cursor_viewport :: "(u16 \<times> u16) option"
  sn_row_list :: "vt_row list"

record 'v ghostty =
  vt_new :: "u16 \<Rightarrow> u16 \<Rightarrow> 'v res"
  vt_write :: "'v \<Rightarrow> bytes \<Rightarrow> 'v \<times> bytes list"
  vt_resize :: "'v \<Rightarrow> u16 \<Rightarrow> u16 \<Rightarrow> 'v \<times> unit res"
  vt_snapshot_of :: "'v \<Rightarrow> 'v \<times> vt_snapshot res"
  vt_clean_row :: "'v \<Rightarrow> nat \<Rightarrow> 'v \<times> unit res"
  vt_clean :: "'v \<Rightarrow> 'v \<times> unit res"

section \<open>Definitions\<close>

record 'v ServerTerminalState =
  st_terminal :: 'v
  st_cols :: u16
  st_rows :: u16
  st_grid_state :: GridState
  st_force_full :: bool

definition ServerTerminalState_new :: "'v ghostty \<Rightarrow> u16 \<Rightarrow> u16 \<Rightarrow> 'v ServerTerminalState res" where
  "ServerTerminalState_new G cols rows =
     and_then (vt_new G cols rows) (\<lambda>terminal.
       Inr \<lparr>st_terminal = terminal, st_cols = cols, st_rows = rows,
            st_grid_state = blank_grid cols rows, st_force_full = True\<rparr>)"

text \<open>The second component is what the emulator writes back to the PTY through its callback.\<close>

definition st_write :: "'v ghostty \<Rightarrow> 'v ServerTerminalState \<Rightarrow> bytes \<Rightarrow> 'v ServerTerminalState \<times> bytes list" where
  "st_write G s data =
     (case vt_write G (st_terminal s) data of (v, replies) \<Rightarrow> (s\<lparr>st_terminal := v\<rparr>, replies))"

text \<open>The assignments \<open>resize\<close> and \<open>update_and_get_state\<close> make for new dimensions.\<close>

definition set_dimensions :: "'v ServerTerminalState \<Rightarrow> u16 \<Rightarrow> u16 \<Rightarrow> 'v ServerTerminalState" where
  "set_dimensions s cols rows =
     s\<lparr>st_cols := cols, st_rows := rows,
       st_grid_state := (st_grid_state s)\<lparr>gs_cols := cols, gs_rows := rows,
         gs_cells := replicate (unat cols * unat rows) default_cell,
         gs_row_wrapped := replicate (unat rows) False\<rparr>,
       st_force_full := True\<rparr>"

definition st_resize :: "'v ghostty \<Rightarrow> 'v ServerTerminalState \<Rightarrow> u16 \<Rightarrow> u16 \<Rightarrow> 'v ServerTerminalState \<times> unit res" where
  "st_resize G s cols rows =
     (case vt_resize G (st_terminal s) cols rows of
        (v, Inl e) \<Rightarrow> (s\<lparr>st_terminal := v\<rparr>, Inl e)
      | (v, Inr _) \<Rightarrow> (set_dimensions (s\<lparr>st_terminal := v\<rparr>) cols rows, Inr ()))"

definition is_control :: "u32 \<Rightarrow> bool" where
  "is_control c \<longleftrightarrow> c < 0x20 \<or> (0x7f \<le> c \<and> c \<le> 0x9f)"

definition encode_utf8 :: "u32 \<Rightarrow> bytes" where
  "encode_utf8 c =
     (if c < 0x80 then [ucast c]
      else if c < 0x800 then [ucast (0xc0 OR drop_bit 6 c), ucast (0x80 OR (c AND 0x3f))]
      else if c < 0x10000 then
        [ucast (0xe0 OR drop_bit 12 c), ucast (0x80 OR (drop_bit 6 c AND 0x3f)), ucast (0x80 OR (c AND 0x3f))]
      else
        [ucast (0xf0 OR drop_bit 18 c), ucast (0x80 OR (drop_bit 12 c AND 0x3f)),
         ucast (0x80 OR (drop_bit 6 c AND 0x3f)), ucast (0x80 OR (c AND 0x3f))])"

definition clean_char :: "u32 \<Rightarrow> u32" where
  "clean_char c = (if is_control c then 32 else c)"

text \<open>The three branches on the number of code points of a cell; the middle one stops at a NUL.\<close>

definition cell_graphemes :: "u32 list \<Rightarrow> CompactGrapheme" where
  "cell_graphemes chars =
     (if chars = [] then CompactGrapheme_new [32]
      else if length chars \<le> 16 then
        CompactGrapheme_new (concat (map (\<lambda>c. encode_utf8 (clean_char c)) (takeWhile (\<lambda>c. c \<noteq> 0) chars)))
      else CompactGrapheme_new (concat (map (\<lambda>c. encode_utf8 (clean_char c)) chars)))"

definition cell_style_flags :: "vt_cell \<Rightarrow> u8" where
  "cell_style_flags c =
     (if vc_bold c then STYLE_BOLD else 0) OR (if vc_italic c then STYLE_ITALIC else 0)
     OR (if vc_inverse c then STYLE_INVERSE else 0) OR (if vc_underline c then STYLE_UNDERLINE else 0)"

definition cell_data_of :: "vt_cell \<Rightarrow> LocalCellData" where
  "cell_data_of c =
     \<lparr>graphemes = cell_graphemes (vc_chars c), fg = vc_fg c, bg = vc_bg c, style_flags = cell_style_flags c\<rparr>"

fun read_cells :: "LocalCellData list \<Rightarrow> nat \<Rightarrow> vt_cell res list \<Rightarrow> LocalCellData list \<times> unit res" where
  "read_cells cells idx [] = (cells, Inr ())"
| "read_cells cells idx (Inl e # vcs) = (cells, Inl e)"
| "read_cells cells idx (Inr vc # vcs) =
     read_cells (if idx < length cells then cells[idx := cell_data_of vc] else cells) (Suc idx) vcs"

definition set_cells :: "'v ServerTerminalState \<Rightarrow> LocalCellData list \<Rightarrow> 'v ServerTerminalState" where
  "set_cells s cells = s\<lparr>st_grid_state := (st_grid_state s)\<lparr>gs_cells := cells\<rparr>\<rparr>"

definition set_wrapped :: "'v ServerTerminalState \<Rightarrow> bool list \<Rightarrow> 'v ServerTerminalState" where
  "set_wrapped s wrapped = s\<lparr>st_grid_state := (st_grid_state s)\<lparr>gs_row_wrapped := wrapped\<rparr>\<rparr>"

text \<open>One row of the iteration; the index of its first cell is \<open>y * cols\<close>.\<close>

definition read_row :: "'v ghostty \<Rightarrow> 'v ServerTerminalState \<Rightarrow> nat \<Rightarrow> vt_row \<Rightarrow> 'v ServerTerminalState \<times> unit res" where
  "read_row G s y row =
     (case (if st_force_full s then Inr True else vr_dirty row) of
        Inl e \<Rightarrow> (s, Inl e)
      | Inr False \<Rightarrow> (s, Inr ())
      | Inr True \<Rightarrow>
          (case and_then (vr_wrapped row) (vec_set (gs_row_wrapped (st_grid_state s)) y) of
             Inl e \<Rightarrow> (s, Inl e)
           | Inr wrapped \<Rightarrow>
               (let s1 = set_wrapped s wrapped in
                (case vr_cells row of
                   Inl e \<Rightarrow> (s1, Inl e)
                 | Inr vcs \<Rightarrow>
                     (case read_cells (gs_cells (st_grid_state s1)) (y * unat (st_cols s1)) vcs of
                        (cells, Inl e) \<Rightarrow> (set_cells s1 cells, Inl e)
                      | (cells, Inr _) \<Rightarrow>
                          (let s2 = set_cells s1 cells in
                           (case vt_clean_row G (st_terminal s2) y of
                              (v, r) \<Rightarrow> (s2\<lparr>st_terminal := v\<rparr>, r))))))))"

fun read_rows :: "'v ghostty \<Rightarrow> 'v ServerTerminalState \<Rightarrow> nat \<Rightarrow> vt_row list \<Rightarrow> 'v ServerTerminalState \<times> unit res" where
  "read_rows G s y [] = (s, Inr ())"
| "read_rows G s y (row # rows) = st_then (read_row G s y row) (\<lambda>s1 _. read_rows G s1 (Suc y) rows)"

definition set_cursor :: "'v ServerTerminalState \<Rightarrow> vt_snapshot \<Rightarrow> 'v ServerTerminalState" where
  "set_cursor s sn =
     (case (case sn_cursor_viewport sn of Some c \<Rightarrow> c | None \<Rightarrow> (0, 0)) of
        (x, y) \<Rightarrow> s\<lparr>st_grid_state := (st_grid_state s)\<lparr>gs_cursor_x := x, gs_cursor_y := y,
                     gs_cursor_visible := sn_cursor_visible sn\<rparr>\<rparr>)"

definition update_and_get_state :: "'v ghostty \<Rightarrow> 'v ServerTerminalState \<Rightarrow> 'v ServerTerminalState \<times> GridState res" where
  "update_and_get_state G s =
     (case vt_snapshot_of G (st_terminal s) of
        (v, Inl e) \<Rightarrow> (s\<lparr>st_terminal := v\<rparr>, Inl e)
      | (v, Inr sn) \<Rightarrow>
          (let s0 = s\<lparr>st_terminal := v\<rparr>;
               s1 = (if st_cols s0 \<noteq> sn_cols sn \<or> st_rows s0 \<noteq> sn_rows sn
                     then set_dimensions s0 (sn_cols sn) (sn_rows sn) else s0)
           in st_then (read_rows G s1 0 (sn_row_list sn)) (\<lambda>s2 _.
                (let s3 = s2\<lparr>st_force_full := False\<rparr> in
                 (case vt_clean G (st_terminal s3) of
                    (v, Inl e) \<Rightarrow> (s3\<lparr>st_terminal := v\<rparr>, Inl e)
                  | (v, Inr _) \<Rightarrow>
                      (let s4 = set_cursor (s3\<lparr>st_terminal := v\<rparr>) sn in (s4, Inr (st_grid_state s4))))))))"

section \<open>The invariant\<close>

definition st_wf :: "'v ServerTerminalState \<Rightarrow> bool" where
  "st_wf s \<longleftrightarrow> grid_wf (st_grid_state s) \<and> gs_cols (st_grid_state s) = st_cols s \<and> gs_rows (st_grid_state s) = st_rows s"

lemma ServerTerminalState_new_wf [rumsh_inv]: "ServerTerminalState_new G cols rows = Inr s \<Longrightarrow> st_wf s"
  by (auto simp: ServerTerminalState_new_def st_wf_def blank_grid_def grid_wf_def)

lemma set_dimensions_wf [rumsh_inv]: "st_wf (set_dimensions s cols rows)"
  by (simp add: st_wf_def set_dimensions_def grid_wf_def)

lemma st_write_wf [rumsh_inv]: "st_wf s \<Longrightarrow> st_wf (fst (st_write G s data))"
  by (simp add: st_wf_def st_write_def split: prod.splits)

lemma st_resize_wf [rumsh_inv]: "st_wf s \<Longrightarrow> st_wf (fst (st_resize G s cols rows))"
  by (auto simp: st_resize_def set_dimensions_wf split: prod.splits sum.splits) (simp add: st_wf_def)

lemma length_read_cells [simp]: "length (fst (read_cells cells idx vcs)) = length cells"
  by (induction cells idx vcs rule: read_cells.induct) auto

lemma set_cells_wf: "st_wf s \<Longrightarrow> length cells = length (gs_cells (st_grid_state s)) \<Longrightarrow> st_wf (set_cells s cells)"
  by (simp add: st_wf_def set_cells_def grid_wf_def)

lemma set_wrapped_wf: "st_wf s \<Longrightarrow> length w = length (gs_row_wrapped (st_grid_state s)) \<Longrightarrow> st_wf (set_wrapped s w)"
  by (simp add: st_wf_def set_wrapped_def grid_wf_def)

lemma st_terminal_wf [simp]: "st_wf (s\<lparr>st_terminal := v\<rparr>) \<longleftrightarrow> st_wf s"
  by (simp add: st_wf_def)

lemma read_row_wf:
  assumes "st_wf s"
  shows "st_wf (fst (read_row G s y row)) \<and> st_cols (fst (read_row G s y row)) = st_cols s
    \<and> st_rows (fst (read_row G s y row)) = st_rows s \<and> st_force_full (fst (read_row G s y row)) = st_force_full s"
proof (cases "\<exists>w vcs. (if st_force_full s then Inr True else vr_dirty row) = Inr True
    \<and> and_then (vr_wrapped row) (vec_set (gs_row_wrapped (st_grid_state s)) y) = Inr w \<and> vr_cells row = Inr vcs")
  case False
  have "st_wf (set_wrapped s w)" if "and_then (vr_wrapped row) (vec_set (gs_row_wrapped (st_grid_state s)) y) = Inr w" for w
    using that assms by (auto intro!: set_wrapped_wf simp: vec_set_Inr_iff)
  with False assms show ?thesis
    by (auto simp: read_row_def Let_def set_wrapped_def split: sum.splits bool.splits)
next
  case True
  then obtain w vcs where dirty: "(if st_force_full s then Inr True else vr_dirty row) = Inr True"
    and w: "and_then (vr_wrapped row) (vec_set (gs_row_wrapped (st_grid_state s)) y) = Inr w"
    and vcs: "vr_cells row = Inr vcs" by blast
  have wf1: "st_wf (set_wrapped s w)" using w assms by (auto intro!: set_wrapped_wf simp: vec_set_Inr_iff)
  let ?c = "read_cells (gs_cells (st_grid_state (set_wrapped s w))) (y * unat (st_cols (set_wrapped s w))) vcs"
  have wf2: "st_wf (set_cells (set_wrapped s w) (fst ?c))" by (rule set_cells_wf [OF wf1]) simp
  have eq: "read_row G s y row = (case ?c of
      (cells, Inl e) \<Rightarrow> (set_cells (set_wrapped s w) cells, Inl e)
    | (cells, Inr _) \<Rightarrow> (let s2 = set_cells (set_wrapped s w) cells in
         (case vt_clean_row G (st_terminal s2) y of (v, r) \<Rightarrow> (s2\<lparr>st_terminal := v\<rparr>, r))))"
    unfolding read_row_def dirty w vcs Let_def by simp
  show ?thesis
  proof (cases ?c)
    case (Pair cells r)
    with wf2 show ?thesis unfolding eq
      by (cases r) (auto simp: Let_def set_cells_def set_wrapped_def split: prod.splits)
  qed
qed

lemma read_rows_wf:
  "st_wf s \<Longrightarrow> st_wf (fst (read_rows G s y rows)) \<and> st_cols (fst (read_rows G s y rows)) = st_cols s
     \<and> st_rows (fst (read_rows G s y rows)) = st_rows s"
proof (induction G s y rows rule: read_rows.induct)
  case (2 G s y row rows)
  from read_row_wf [OF "2.prems", of G y row] "2.IH" show ?case
    by (cases "read_row G s y row") (auto simp: st_then_def split: sum.splits)
qed simp

lemma set_cursor_wf: "st_wf s \<Longrightarrow> st_wf (set_cursor s sn)"
  by (auto simp: set_cursor_def st_wf_def grid_wf_def split: prod.splits option.splits)

text \<open>The state the rows are read into.\<close>

definition sized_for :: "'v ServerTerminalState \<Rightarrow> 'v \<Rightarrow> vt_snapshot \<Rightarrow> 'v ServerTerminalState" where
  "sized_for s v sn = (if st_cols s \<noteq> sn_cols sn \<or> st_rows s \<noteq> sn_rows sn
     then set_dimensions (s\<lparr>st_terminal := v\<rparr>) (sn_cols sn) (sn_rows sn) else s\<lparr>st_terminal := v\<rparr>)"

lemma sized_for_wf: "st_wf s \<Longrightarrow> st_wf (sized_for s v sn)"
  by (simp add: sized_for_def set_dimensions_wf)

lemma update_and_get_state_eq:
  assumes "vt_snapshot_of G (st_terminal s) = (v, Inr sn)" "read_rows G (sized_for s v sn) 0 (sn_row_list sn) = (s2, r)"
  shows "update_and_get_state G s = st_then (s2, r) (\<lambda>s2 _.
    (let s3 = s2\<lparr>st_force_full := False\<rparr> in
     (case vt_clean G (st_terminal s3) of
        (v, Inl e) \<Rightarrow> (s3\<lparr>st_terminal := v\<rparr>, Inl e)
      | (v, Inr _) \<Rightarrow> (let s4 = set_cursor (s3\<lparr>st_terminal := v\<rparr>) sn in (s4, Inr (st_grid_state s4))))))"
  using assms by (simp add: update_and_get_state_def sized_for_def Let_def)

lemma update_and_get_state_wf [rumsh_inv]:
  assumes "st_wf s"
  shows "st_wf (fst (update_and_get_state G s))"
    and "snd (update_and_get_state G s) = Inr g \<Longrightarrow> g = st_grid_state (fst (update_and_get_state G s))"
proof -
  have wf: "st_wf (fst (update_and_get_state G s)) \<and> (\<forall>g. snd (update_and_get_state G s) = Inr g \<longrightarrow>
      g = st_grid_state (fst (update_and_get_state G s)))"
  proof (cases "vt_snapshot_of G (st_terminal s)")
    case (Pair v r)
    show ?thesis
    proof (cases r)
      case (Inl e)
      with Pair assms show ?thesis by (simp add: update_and_get_state_def)
    next
      case (Inr sn)
      have s1: "st_wf (sized_for s v sn)" using assms by (rule sized_for_wf)
      obtain s2 r2 where rr: "read_rows G (sized_for s v sn) 0 (sn_row_list sn) = (s2, r2)" by force
      with read_rows_wf [OF s1, of G 0 "sn_row_list sn"] have s2: "st_wf s2" by simp
      then have "st_wf (s2\<lparr>st_force_full := False, st_terminal := v'\<rparr>)" for v' by (simp add: st_wf_def)
      with s2 show ?thesis unfolding update_and_get_state_eq [OF Pair [unfolded Inr] rr]
        by (cases r2; cases "vt_clean G (st_terminal s2)") (auto simp: Let_def set_cursor_wf split: sum.splits)
    qed
  qed
  then show "st_wf (fst (update_and_get_state G s))" by blast
  from wf show "snd (update_and_get_state G s) = Inr g \<Longrightarrow> g = st_grid_state (fst (update_and_get_state G s))" by blast
qed

section \<open>The grid is the snapshot\<close>

text \<open>A row whose accessors all succeed and that has one cell per column, and what it says.\<close>

definition row_ok :: "nat \<Rightarrow> vt_row \<Rightarrow> bool" where
  "row_ok cols row \<longleftrightarrow> (\<exists>d. vr_dirty row = Inr d) \<and> (\<exists>w. vr_wrapped row = Inr w)
     \<and> (\<exists>vcs. vr_cells row = Inr (map Inr vcs) \<and> length vcs = cols)"

definition row_cells :: "vt_row \<Rightarrow> LocalCellData list" where
  "row_cells row =
     (case vr_cells row of Inl _ \<Rightarrow> [] | Inr vcs \<Rightarrow> concat (map (\<lambda>c. case c of Inl _ \<Rightarrow> [] | Inr vc \<Rightarrow> [cell_data_of vc]) vcs))"

definition row_wrap :: "vt_row \<Rightarrow> bool" where
  "row_wrap row = (vr_wrapped row = Inr True)"

definition grid_of :: "vt_snapshot \<Rightarrow> GridState" where
  "grid_of sn =
     \<lparr>gs_cols = sn_cols sn, gs_rows = sn_rows sn,
      gs_cursor_x = (case sn_cursor_viewport sn of Some (x, _) \<Rightarrow> x | None \<Rightarrow> 0),
      gs_cursor_y = (case sn_cursor_viewport sn of Some (_, y) \<Rightarrow> y | None \<Rightarrow> 0),
      gs_cursor_visible = sn_cursor_visible sn,
      gs_cells = concat (map row_cells (sn_row_list sn)),
      gs_row_wrapped = map row_wrap (sn_row_list sn)\<rparr>"

definition snapshot_ok :: "vt_snapshot \<Rightarrow> bool" where
  "snapshot_ok sn \<longleftrightarrow> length (sn_row_list sn) = unat (sn_rows sn)
     \<and> (\<forall>row \<in> set (sn_row_list sn). row_ok (unat (sn_cols sn)) row)"

lemma read_cells_ok:
  "idx + length vcs \<le> length cells \<Longrightarrow>
   read_cells cells idx (map Inr vcs) =
     (take idx cells @ map cell_data_of vcs @ drop (idx + length vcs) cells, Inr ())"
proof (induction vcs arbitrary: cells idx)
  case (Cons vc vcs)
  have "take (Suc idx) (cells[idx := cell_data_of vc]) = take idx cells @ [cell_data_of vc]"
    using Cons.prems by (simp add: take_Suc_conv_app_nth)
  with Cons show ?case by simp
qed simp

lemma row_cells_ok: "vr_cells row = Inr (map Inr vcs) \<Longrightarrow> row_cells row = map cell_data_of vcs"
  by (simp add: row_cells_def comp_def concat_map_singleton)

text \<open>The cells of row \<open>y\<close> of a grid.\<close>

definition grid_row :: "GridState \<Rightarrow> nat \<Rightarrow> LocalCellData list" where
  "grid_row g y = take (unat (gs_cols g)) (drop (y * unat (gs_cols g)) (gs_cells g))"

lemma concat_blocks:
  "length xs = n * c \<Longrightarrow> concat (map (\<lambda>y. take c (drop (y * c) xs)) [0..<n]) = xs"
proof (induction n arbitrary: xs)
  case (Suc n)
  have "map (\<lambda>y. take c (drop (y * c) xs)) [0..<Suc n] =
      take c xs # map (\<lambda>y. take c (drop (y * c) (drop c xs))) [0..<n]"
    by (simp only: map_upt_Suc) (simp add: add.commute)
  moreover have "concat (map (\<lambda>y. take c (drop (y * c) (drop c xs))) [0..<n]) = drop c xs"
    by (rule Suc.IH) (use Suc.prems in simp)
  ultimately show ?case by simp
qed simp

lemma grid_row_nth:
  assumes "grid_wf g" "y < unat (gs_rows g)"
  shows "grid_row g y = map (\<lambda>x. gs_cells g ! (y * unat (gs_cols g) + x)) [0..<unat (gs_cols g)]"
proof (rule nth_equalityI)
  have le: "Suc y * unat (gs_cols g) \<le> length (gs_cells g)"
    using assms mult_le_mono1 [of "Suc y" "unat (gs_rows g)" "unat (gs_cols g)"] by (simp add: grid_wf_def mult.commute)
  then show "length (grid_row g y) = length (map (\<lambda>x. gs_cells g ! (y * unat (gs_cols g) + x)) [0..<unat (gs_cols g)])"
    by (simp add: grid_row_def)
  fix i assume "i < length (grid_row g y)"
  with le show "grid_row g y ! i = map (\<lambda>x. gs_cells g ! (y * unat (gs_cols g) + x)) [0..<unat (gs_cols g)] ! i"
    by (simp add: grid_row_def)
qed

definition grid_line :: "GridState \<Rightarrow> nat \<Rightarrow> LocalCellData list \<times> bool" where
  "grid_line g y = (grid_row g y, gs_row_wrapped g ! y)"

lemma grid_eq_lines:
  assumes "grid_wf g" "snapshot_ok sn" "gs_cols g = sn_cols sn" "gs_rows g = sn_rows sn"
    and "\<forall>y < unat (sn_rows sn). grid_line g y = (row_cells (sn_row_list sn ! y), row_wrap (sn_row_list sn ! y))"
  shows "gs_cells g = concat (map row_cells (sn_row_list sn))" "gs_row_wrapped g = map row_wrap (sn_row_list sn)"
proof -
  let ?n = "unat (sn_rows sn)"
  have len: "length (sn_row_list sn) = ?n" using assms(2) by (simp add: snapshot_ok_def)
  have "map (grid_row g) [0..<?n] = map row_cells (sn_row_list sn)"
    using assms(5) len by (intro nth_equalityI) (simp_all add: grid_line_def)
  moreover have "gs_cells g = concat (map (grid_row g) [0..<?n])"
    using concat_blocks [of "gs_cells g" ?n "unat (sn_cols sn)"] assms(1,3,4)
    by (simp add: grid_row_def [abs_def] grid_wf_def mult.commute)
  ultimately show "gs_cells g = concat (map row_cells (sn_row_list sn))" by simp
  show "gs_row_wrapped g = map row_wrap (sn_row_list sn)"
    using assms(1,4,5) len by (intro nth_equalityI) (simp_all add: grid_line_def grid_wf_def)
qed

lemma read_cells_outside:
  "i < idx \<or> idx + length vcs \<le> i \<Longrightarrow> fst (read_cells cells idx vcs) ! i = cells ! i"
  by (induction cells idx vcs rule: read_cells.induct) auto

lemma read_cells_Inr:
  "snd (read_cells cells idx vcs) = Inr u \<Longrightarrow> \<exists>vs. vcs = map Inr vs"
proof (induction cells idx vcs rule: read_cells.induct)
  case (3 cells idx vc vcs)
  then obtain vs where "vcs = map Inr vs" by auto
  then show ?case by (intro exI [of _ "vc # vs"]) simp
qed simp_all

text \<open>Replacing cells of row \<open>y\<close> only leaves the other rows, and reading all of them gives the row.\<close>

lemma read_cells_rows:
  assumes "grid_wf g" "y < unat (gs_rows g)" "length vcs = unat (gs_cols g)"
    and "read_cells (gs_cells g) (y * unat (gs_cols g)) vcs = (cells, r)"
  shows "z < unat (gs_rows g) \<Longrightarrow> z \<noteq> y \<Longrightarrow> grid_row (g\<lparr>gs_cells := cells\<rparr>) z = grid_row g z"
    and "r = Inr () \<Longrightarrow> \<exists>vs. vcs = map Inr vs \<and> grid_row (g\<lparr>gs_cells := cells\<rparr>) y = map cell_data_of vs"
proof -
  let ?c = "unat (gs_cols g)"
  have len: "length cells = length (gs_cells g)" using assms(4) length_read_cells [of "gs_cells g" "y * ?c" vcs] by simp
  then have wf: "grid_wf (g\<lparr>gs_cells := cells\<rparr>)" using assms(1) by (simp add: grid_wf_def)
  have fit: "y * ?c + ?c \<le> length (gs_cells g)"
    using assms(1,2) mult_le_mono1 [of "Suc y" "unat (gs_rows g)" ?c] by (simp add: grid_wf_def mult.commute)
  { assume z: "z < unat (gs_rows g)" "z \<noteq> y"
    have "cells ! (z * ?c + x) = gs_cells g ! (z * ?c + x)" if "x < ?c" for x
    proof -
      have "z * ?c + x < y * ?c \<or> y * ?c + ?c \<le> z * ?c + x"
      proof (cases "z < y")
        case True
        then have "Suc z * ?c \<le> y * ?c" by (intro mult_le_mono1) simp
        with that show ?thesis by simp
      next
        case False
        with z(2) have "Suc y * ?c \<le> z * ?c" by (intro mult_le_mono1) simp
        then show ?thesis by simp
      qed
      with read_cells_outside [of "z * ?c + x" "y * ?c" vcs "gs_cells g"] assms(3,4) show ?thesis by simp
    qed
    with grid_row_nth [OF wf, of z] grid_row_nth [OF assms(1), of z] z show "grid_row (g\<lparr>gs_cells := cells\<rparr>) z = grid_row g z" by simp }
  assume "r = Inr ()"
  then obtain vs where vs: "vcs = map Inr vs" using assms(4) read_cells_Inr [of "gs_cells g" "y * ?c" vcs] by auto
  then have "cells = take (y * ?c) (gs_cells g) @ map cell_data_of vs @ drop (y * ?c + ?c) (gs_cells g)"
    using read_cells_ok [of "y * ?c" vs "gs_cells g"] assms(3,4) fit by simp
  with vs assms(3) fit show "\<exists>vs. vcs = map Inr vs \<and> grid_row (g\<lparr>gs_cells := cells\<rparr>) y = map cell_data_of vs"
    by (intro exI [of _ vs]) (simp add: grid_row_def)
qed

text \<open>One row of a read: skipped, failed before it was cleaned, or stored and cleaned (which may fail).\<close>

definition other_lines_kept :: "'v ServerTerminalState \<Rightarrow> 'v ServerTerminalState \<Rightarrow> nat \<Rightarrow> bool" where
  "other_lines_kept s s' y \<longleftrightarrow>
     (\<forall>z < unat (st_rows s). z \<noteq> y \<longrightarrow> grid_line (st_grid_state s') z = grid_line (st_grid_state s) z)"

lemma set_wrapped_line:
  assumes "st_wf s" "y < unat (st_rows s)" "s1 = set_wrapped s ((gs_row_wrapped (st_grid_state s))[y := w])"
  shows "st_wf s1" "other_lines_kept s s1 y" "gs_row_wrapped (st_grid_state s1) ! y = w"
    and "st_terminal s1 = st_terminal s" "st_cols s1 = st_cols s" "st_rows s1 = st_rows s"
proof -
  have "length (gs_row_wrapped (st_grid_state s)) = unat (st_rows s)" using assms(1) by (simp add: st_wf_def grid_wf_def)
  then show "gs_row_wrapped (st_grid_state s1) ! y = w" using assms(2,3) by (simp add: set_wrapped_def)
  show "other_lines_kept s s1 y" by (simp add: other_lines_kept_def grid_line_def grid_row_def assms(3) set_wrapped_def)
qed (use assms in \<open>simp_all add: st_wf_def grid_wf_def set_wrapped_def\<close>)

lemma set_cells_line:
  assumes "st_wf s" "y < unat (st_rows s)" "length vcs = unat (st_cols s)"
    and "read_cells (gs_cells (st_grid_state s)) (y * unat (st_cols s)) vcs = (cells, r)"
  shows "other_lines_kept s (set_cells s cells) y" "gs_row_wrapped (st_grid_state (set_cells s cells)) = gs_row_wrapped (st_grid_state s)"
    and "r = Inr () \<Longrightarrow> \<exists>vs. vcs = map Inr vs \<and> grid_row (st_grid_state (set_cells s cells)) y = map cell_data_of vs"
proof -
  let ?g = "st_grid_state s"
  have g: "grid_wf ?g" "gs_cols ?g = st_cols s" "gs_rows ?g = st_rows s" using assms(1) by (simp_all add: st_wf_def)
  have g': "st_grid_state (set_cells s cells) = ?g\<lparr>gs_cells := cells\<rparr>" by (simp add: set_cells_def)
  note rows = read_cells_rows [of ?g y vcs cells r, unfolded g(2,3), OF g(1) assms(2-4)]
  from rows(1) show "other_lines_kept s (set_cells s cells) y" by (simp add: other_lines_kept_def grid_line_def g')
  show "r = Inr () \<Longrightarrow> \<exists>vs. vcs = map Inr vs \<and> grid_row (st_grid_state (set_cells s cells)) y = map cell_data_of vs"
    using rows(2) by (simp add: g')
qed (simp add: set_cells_def)

lemma other_lines_kept_trans:
  "other_lines_kept s s1 y \<Longrightarrow> other_lines_kept s1 s2 y \<Longrightarrow> st_rows s1 = st_rows s \<Longrightarrow> other_lines_kept s s2 y"
  by (simp add: other_lines_kept_def)

text \<open>The row is read when all is forced or the emulator reports it dirty.\<close>

lemma read_dirty_row:
  assumes "st_wf s" "y < unat (st_rows s)" "\<forall>vcs. vr_cells row = Inr vcs \<longrightarrow> length vcs = unat (st_cols s)"
    and "read_row G s y row = (s', r)" "(if st_force_full s then Inr True else vr_dirty row) = Inr True"
  shows "other_lines_kept s s' y \<and>
    ((\<exists>e. r = Inl e \<and> st_terminal s' = st_terminal s)
     \<or> (\<exists>w vs. vr_wrapped row = Inr w \<and> vr_cells row = Inr (map Inr vs)
          \<and> grid_line (st_grid_state s') y = (map cell_data_of vs, w) \<and> vt_clean_row G (st_terminal s) y = (st_terminal s', r)))"
proof (cases "vr_wrapped row")
  case (Inl e)
  with assms(4,5) have "s' = s" "r = Inl e" by (simp_all add: read_row_def)
  then show ?thesis by (simp add: other_lines_kept_def)
next
  case w: (Inr w)
  define s1 where "s1 = set_wrapped s ((gs_row_wrapped (st_grid_state s))[y := w])"
  note s1 = set_wrapped_line [OF assms(1,2) s1_def]
  have "y < length (gs_row_wrapped (st_grid_state s))" using assms(1,2) by (simp add: st_wf_def grid_wf_def)
  then have wr: "and_then (vr_wrapped row) (vec_set (gs_row_wrapped (st_grid_state s)) y) = Inr ((gs_row_wrapped (st_grid_state s))[y := w])"
    by (simp add: w vec_set_Inr_iff)
  note read = assms(4) [unfolded read_row_def assms(5) wr, simplified, folded s1_def]
  show ?thesis
  proof (cases "vr_cells row")
    case (Inl e)
    with read s1(2,4) show ?thesis by (auto simp: Let_def)
  next
    case vcs: (Inr vcs)
    obtain cells r1 where rc: "read_cells (gs_cells (st_grid_state s1)) (y * unat (st_cols s1)) vcs = (cells, r1)" by force
    have "y < unat (st_rows s1)" "length vcs = unat (st_cols s1)" using assms(2,3) vcs s1(5,6) by simp_all
    note s2 = set_cells_line [OF s1(1) this rc]
    have kept: "other_lines_kept s (set_cells s1 cells) y" by (rule other_lines_kept_trans [OF s1(2) s2(1) s1(6)])
    have v: "st_terminal (set_cells s1 cells) = st_terminal s" by (simp add: set_cells_def s1(4))
    show ?thesis
    proof (cases r1)
      case (Inl e)
      with read vcs rc kept v show ?thesis by (auto simp: Let_def)
    next
      case r1: (Inr u)
      with s2(3) obtain vs where vs: "vcs = map Inr vs" "grid_row (st_grid_state (set_cells s1 cells)) y = map cell_data_of vs" by auto
      obtain v' rv where cl: "vt_clean_row G (st_terminal s) y = (v', rv)" by force
      with read vcs rc r1 v have s': "s' = (set_cells s1 cells)\<lparr>st_terminal := v'\<rparr>" "r = rv" by (simp_all add: Let_def)
      have "grid_line (st_grid_state s') y = (map cell_data_of vs, w)" using vs(2) s1(3) s2(2) by (simp add: grid_line_def s'(1))
      moreover have "other_lines_kept s s' y" using kept by (simp add: other_lines_kept_def s'(1))
      ultimately show ?thesis using w vcs vs(1) cl s' by simp
    qed
  qed
qed

lemma read_row_cases:
  assumes "st_wf s" "y < unat (st_rows s)" "\<forall>vcs. vr_cells row = Inr vcs \<longrightarrow> length vcs = unat (st_cols s)"
    and "read_row G s y row = (s', r)"
  obtains (skipped) "\<not> st_force_full s" "vr_dirty row = Inr False" "s' = s" "r = Inr ()"
  | (failed) e where "r = Inl e" "st_terminal s' = st_terminal s" "other_lines_kept s s' y"
      "s' = s \<or> st_force_full s \<or> vr_dirty row = Inr True"
  | (stored) w vs where "st_force_full s \<or> vr_dirty row = Inr True" "vr_wrapped row = Inr w" "vr_cells row = Inr (map Inr vs)"
      "grid_line (st_grid_state s') y = (map cell_data_of vs, w)" "vt_clean_row G (st_terminal s) y = (st_terminal s', r)"
      "other_lines_kept s s' y"
proof (cases "if st_force_full s then Inr True else vr_dirty row")
  case (Inl e)
  with assms(4) have "s' = s" "r = Inl e" by (simp_all add: read_row_def)
  then show thesis by (intro failed) (simp_all add: other_lines_kept_def)
next
  case (Inr d)
  show thesis
  proof (cases d)
    case False
    with Inr have "\<not> st_force_full s" "vr_dirty row = Inr False" by (simp_all split: if_splits)
    with assms(4) show thesis by (intro skipped) (simp_all add: read_row_def)
  next
    case True
    with Inr have "st_force_full s \<or> vr_dirty row = Inr True" by (simp split: if_splits)
    moreover have "(if st_force_full s then Inr True else vr_dirty row) = Inr True" using Inr True by simp
    note read_dirty_row [OF assms this]
    ultimately show thesis using failed stored by blast
  qed
qed

lemma cursor_grid_of:
  assumes "st_wf s" "st_rows s = sn_rows sn" "st_cols s = sn_cols sn" "snapshot_ok sn"
    and "\<forall>y < unat (sn_rows sn). grid_line (st_grid_state s) y = (row_cells (sn_row_list sn ! y), row_wrap (sn_row_list sn ! y))"
  shows "st_grid_state (set_cursor (s\<lparr>st_force_full := False, st_terminal := v\<rparr>) sn) = grid_of sn"
proof -
  have g: "grid_wf (st_grid_state s)" "gs_cols (st_grid_state s) = sn_cols sn" "gs_rows (st_grid_state s) = sn_rows sn"
    using assms(1-3) by (simp_all add: st_wf_def)
  from grid_eq_lines [OF g(1) assms(4) g(2,3) assms(5)] g(2,3) show ?thesis
    by (cases "sn_cursor_viewport sn") (auto simp: set_cursor_def grid_of_def)
qed

text \<open>What the session does with its terminal, in any order.\<close>

datatype terminal_event = St_write bytes | St_resize u16 u16 | St_read

fun st_event :: "'v ghostty \<Rightarrow> terminal_event \<Rightarrow> 'v ServerTerminalState \<Rightarrow> 'v ServerTerminalState" where
  "st_event G (St_write data) s = fst (st_write G s data)"
| "st_event G (St_resize cols rows) s = fst (st_resize G s cols rows)"
| "st_event G St_read s = fst (update_and_get_state G s)"

lemma st_event_wf [rumsh_inv]: "st_wf s \<Longrightarrow> st_wf (st_event G e s)"
  by (cases e) (simp_all add: st_write_wf st_resize_wf update_and_get_state_wf(1))

lemma read_row_succeeds:
  assumes "st_wf s" "y < unat (st_rows s)" "row_ok (unat (st_cols s)) row" "\<forall>v y. snd (vt_clean_row G v y) = Inr ()"
  shows "snd (read_row G s y row) = Inr ()"
proof -
  obtain d w vcs where row: "vr_dirty row = Inr d" "vr_wrapped row = Inr w" "vr_cells row = Inr (map Inr vcs)" "length vcs = unat (st_cols s)"
    using assms(3) by (auto simp: row_ok_def)
  have g: "length (gs_row_wrapped (st_grid_state s)) = unat (st_rows s)" "length (gs_cells (st_grid_state s)) = unat (st_rows s) * unat (st_cols s)"
    using assms(1) by (simp_all add: st_wf_def grid_wf_def mult.commute)
  have fit: "y * unat (st_cols s) + unat (st_cols s) \<le> unat (st_rows s) * unat (st_cols s)"
    using assms(2) mult_le_mono1 [of "Suc y" "unat (st_rows s)" "unat (st_cols s)"] by simp
  have wr: "and_then (vr_wrapped row) (vec_set (gs_row_wrapped (st_grid_state s)) y) = Inr ((gs_row_wrapped (st_grid_state s))[y := w])"
    using assms(2) g by (simp add: row vec_set_Inr_iff)
  have "snd (read_cells (gs_cells (st_grid_state s)) (y * unat (st_cols s)) (map Inr vcs)) = Inr ()"
    using fit g row(4) by (simp add: read_cells_ok)
  with assms(4) row wr show ?thesis
    by (auto simp: read_row_def Let_def set_wrapped_def set_cells_def split: prod.splits sum.splits bool.splits) (metis snd_conv)+
qed

lemma read_rows_succeed:
  assumes "\<forall>v y. snd (vt_clean_row G v y) = Inr ()"
  shows "st_wf s \<Longrightarrow> y + length rows \<le> unat (st_rows s) \<Longrightarrow> \<forall>row \<in> set rows. row_ok (unat (st_cols s)) row \<Longrightarrow>
    snd (read_rows G s y rows) = Inr ()"
proof (induction rows arbitrary: s y)
  case (Cons row rows)
  obtain s1 r where row: "read_row G s y row = (s1, r)" by force
  have "r = Inr ()" using read_row_succeeds [OF Cons.prems(1) _ _ assms, of y row] Cons.prems(2,3) row by simp
  moreover note read_row_wf [OF Cons.prems(1), of G y row, unfolded row fst_conv]
  ultimately show ?case using Cons.IH [of s1 "Suc y"] Cons.prems row by simp
qed simp

lemma update_succeeds:
  assumes "st_wf s" "vt_snapshot_of G (st_terminal s) = (v, Inr sn)" "snapshot_ok sn"
    and "\<forall>v y. snd (vt_clean_row G v y) = Inr ()" "\<forall>v. snd (vt_clean G v) = Inr ()"
  shows "\<exists>g. snd (update_and_get_state G s) = Inr g"
proof -
  obtain s2 r where rr: "read_rows G (sized_for s v sn) 0 (sn_row_list sn) = (s2, r)" by force
  have "r = Inr ()"
    using read_rows_succeed [OF assms(4) sized_for_wf [OF assms(1)], of 0 "sn_row_list sn" v sn] assms(3) rr
    by (simp add: snapshot_ok_def sized_for_def set_dimensions_def split: if_splits)
  moreover obtain v2 where "vt_clean G (st_terminal s2) = (v2, Inr ())" using assms(5) by (metis prod.collapse)
  ultimately show ?thesis unfolding update_and_get_state_eq [OF assms(2) rr] by (simp add: Let_def)
qed

section \<open>Incremental reading\<close>

text \<open>What holds between two rows of a read: \<open>content v y\<close> is what the emulator's row \<open>y\<close> shows (its cells and whether it is
  wrapped) and \<open>dirty v y\<close> its flag.  The rows to come report both; the rows before \<open>y\<close> are stored as shown, and
  unless all rows are being read so are those that are not dirty.\<close>

definition lines_stored ::
    "('v \<Rightarrow> nat \<Rightarrow> LocalCellData list \<times> bool) \<Rightarrow> ('v \<Rightarrow> nat \<Rightarrow> bool) \<Rightarrow> 'v ServerTerminalState \<Rightarrow> nat \<Rightarrow> bool" where
  "lines_stored content dirty s y \<longleftrightarrow>
     (\<forall>z < unat (st_rows s). z < y \<or> (\<not> st_force_full s \<and> \<not> dirty (st_terminal s) z) \<longrightarrow>
        grid_line (st_grid_state s) z = content (st_terminal s) z)"

definition rows_report ::
    "('v \<Rightarrow> nat \<Rightarrow> LocalCellData list \<times> bool) \<Rightarrow> ('v \<Rightarrow> nat \<Rightarrow> bool) \<Rightarrow> 'v ServerTerminalState \<Rightarrow> nat \<Rightarrow> vt_row list \<Rightarrow> bool" where
  "rows_report content dirty s y rows \<longleftrightarrow>
     y + length rows = unat (st_rows s)
     \<and> (\<forall>i < length rows.
          (\<forall>vcs. vr_cells (rows ! i) = Inr vcs \<longrightarrow> length vcs = unat (st_cols s))
          \<and> (\<forall>d. vr_dirty (rows ! i) = Inr d \<longrightarrow> dirty (st_terminal s) (y + i) = d)
          \<and> (\<forall>w vs. vr_wrapped (rows ! i) = Inr w \<longrightarrow> vr_cells (rows ! i) = Inr (map Inr vs) \<longrightarrow>
               content (st_terminal s) (y + i) = (map cell_data_of vs, w)))"

lemma rows_report_Cons:
  "rows_report content dirty s y (row # rows) \<longleftrightarrow>
     y < unat (st_rows s) \<and> (\<forall>vcs. vr_cells row = Inr vcs \<longrightarrow> length vcs = unat (st_cols s))
     \<and> (\<forall>d. vr_dirty row = Inr d \<longrightarrow> dirty (st_terminal s) y = d)
     \<and> (\<forall>w vs. vr_wrapped row = Inr w \<longrightarrow> vr_cells row = Inr (map Inr vs) \<longrightarrow> content (st_terminal s) y = (map cell_data_of vs, w))
     \<and> rows_report content dirty s (Suc y) rows"
  by (auto simp: rows_report_def All_less_Suc2)

text \<open>An emulator that tracks changed rows.  \<open>content v y\<close> is what row \<open>y\<close> shows (its cells and whether it is wrapped) and
  \<open>dirty v y\<close> its flag.  A snapshot reports both; only cleaning a row clears its flag; whatever else
  happens to the emulator, a row that is not dirty afterwards was not dirty before and has not changed.
  A snapshot has as many rows and cells as it says, but any accessor may fail, and so may any operation.\<close>

locale dirty_emulator =
  fixes G :: "'v ghostty" and content :: "'v \<Rightarrow> nat \<Rightarrow> LocalCellData list \<times> bool" and dirty :: "'v \<Rightarrow> nat \<Rightarrow> bool"
  assumes write_tracks: "vt_write G v data = (v', replies) \<Longrightarrow> \<not> dirty v' y \<Longrightarrow> \<not> dirty v y \<and> content v' y = content v y"
    and resize_tracks: "vt_resize G v cols rows = (v', Inl e) \<Longrightarrow> \<not> dirty v' y \<Longrightarrow> \<not> dirty v y \<and> content v' y = content v y"
    and snapshot_tracks: "vt_snapshot_of G v = (v', r) \<Longrightarrow> \<not> dirty v' y \<Longrightarrow> \<not> dirty v y \<and> content v' y = content v y"
    and snapshot_shape: "vt_snapshot_of G v = (v', Inr sn) \<Longrightarrow> length (sn_row_list sn) = unat (sn_rows sn)
      \<and> (\<forall>row \<in> set (sn_row_list sn). \<forall>vcs. vr_cells row = Inr vcs \<longrightarrow> length vcs = unat (sn_cols sn))"
    and snapshot_flags: "vt_snapshot_of G v = (v', Inr sn) \<Longrightarrow> y < unat (sn_rows sn) \<Longrightarrow>
      vr_dirty (sn_row_list sn ! y) = Inr d \<Longrightarrow> dirty v' y = d"
    and snapshot_content: "vt_snapshot_of G v = (v', Inr sn) \<Longrightarrow> y < unat (sn_rows sn) \<Longrightarrow>
      vr_wrapped (sn_row_list sn ! y) = Inr w \<Longrightarrow> vr_cells (sn_row_list sn ! y) = Inr (map Inr vs) \<Longrightarrow>
      content v' y = (map cell_data_of vs, w)"
    and clean_row_clears: "vt_clean_row G v y = (v', Inr ()) \<Longrightarrow>
      content v' = content v \<and> (\<forall>z. dirty v' z \<longleftrightarrow> z \<noteq> y \<and> dirty v z)"
    and clean_row_fails: "vt_clean_row G v y = (v', Inl e) \<Longrightarrow> content v' = content v \<and> dirty v' = dirty v"
    and clean_content: "vt_clean G v = (v', r') \<Longrightarrow> content v' = content v"
begin

text \<open>One row: the invariant holds for the rest of the rows, or the read ends here and nothing is lost.\<close>

lemma read_row_lines:
  assumes "st_wf s" "rows_report content dirty s y (row # rows)" "lines_stored content dirty s y" "read_row G s y row = (s1, r)"
  shows "(r = Inr () \<longrightarrow> rows_report content dirty s1 (Suc y) rows \<and> lines_stored content dirty s1 (Suc y))
    \<and> lines_stored content dirty s1 0 \<and> content (st_terminal s1) = content (st_terminal s)"
proof -
  have row: "y < unat (st_rows s)" "\<forall>vcs. vr_cells row = Inr vcs \<longrightarrow> length vcs = unat (st_cols s)"
    "\<And>d. vr_dirty row = Inr d \<Longrightarrow> dirty (st_terminal s) y = d"
    "\<And>w vs. vr_wrapped row = Inr w \<Longrightarrow> vr_cells row = Inr (map Inr vs) \<Longrightarrow> content (st_terminal s) y = (map cell_data_of vs, w)"
    and rest: "rows_report content dirty s (Suc y) rows"
    using assms(2) by (simp_all add: rows_report_Cons)
  note dims = read_row_wf [OF assms(1), of G y row, unfolded assms(4) fst_conv]
  show ?thesis
  proof (cases rule: read_row_cases [OF assms(1) row(1,2) assms(4), case_names skipped failed stored])
    case skipped
    then show ?thesis using assms(3) rest row(3) by (auto simp: lines_stored_def less_Suc_eq)
  next
    case (failed e)
    then show ?thesis using assms(3) dims row(3) [of True] by (auto simp: lines_stored_def other_lines_kept_def)
  next
    case (stored w vs)
    have eq: "content (st_terminal s1) = content (st_terminal s)"
      and flags: "dirty (st_terminal s1) z \<Longrightarrow> dirty (st_terminal s) z"
        "dirty (st_terminal s) z \<Longrightarrow> z \<noteq> y \<Longrightarrow> dirty (st_terminal s1) z"
        "r \<noteq> Inr () \<Longrightarrow> dirty (st_terminal s1) = dirty (st_terminal s)" for z
      using clean_row_clears [of "st_terminal s" y "st_terminal s1"] clean_row_fails [of "st_terminal s" y "st_terminal s1"] stored(5)
      by (cases r; auto)+
    have line: "grid_line (st_grid_state s1) y = content (st_terminal s) y" using stored(2-4) row(4) by simp
    have "lines_stored content dirty s1 (Suc y)"
      using assms(3) stored(6) dims line flags(2)
      by (auto simp: lines_stored_def other_lines_kept_def eq less_Suc_eq) metis
    moreover from this have "lines_stored content dirty s1 0" by (auto simp: lines_stored_def)
    moreover have "rows_report content dirty s1 (Suc y) rows"
      using rest dims flags(1,2) by (auto simp: rows_report_def eq)
    ultimately show ?thesis using eq by blast
  qed
qed

lemma read_rows_lines:
  "st_wf s \<Longrightarrow> rows_report content dirty s y rows \<Longrightarrow> lines_stored content dirty s y \<Longrightarrow> read_rows G s y rows = (s', r) \<Longrightarrow>
   (r = Inr () \<longrightarrow> lines_stored content dirty s' (unat (st_rows s)))
   \<and> lines_stored content dirty s' 0 \<and> content (st_terminal s') = content (st_terminal s) \<and> st_force_full s' = st_force_full s"
proof (induction rows arbitrary: s y)
  case Nil
  then show ?case by (auto simp: rows_report_def lines_stored_def)
next
  case (Cons row rows)
  obtain s1 r1 where row: "read_row G s y row = (s1, r1)" by force
  note dims = read_row_wf [OF Cons.prems(1), of G y row, unfolded row fst_conv]
  note lines = read_row_lines [OF Cons.prems(1-3) row]
  show ?case
  proof (cases r1)
    case (Inl e)
    with Cons.prems(4) row lines dims show ?thesis by auto
  next
    case (Inr u)
    with Cons.prems(4) row have "read_rows G s1 (Suc y) rows = (s', r)" by simp
    with Cons.IH [of s1 "Suc y"] lines dims Inr show ?thesis by auto
  qed
qed

text \<open>The rows of a snapshot, read from the start.\<close>

lemma sized_for_lines:
  assumes "lines_stored content dirty s 0" "vt_snapshot_of G (st_terminal s) = (v, Inr sn)"
  shows "lines_stored content dirty (sized_for s v sn) 0" "rows_report content dirty (sized_for s v sn) 0 (sn_row_list sn)"
proof -
  show "lines_stored content dirty (sized_for s v sn) 0"
    using assms(1) snapshot_tracks [OF assms(2)] by (auto simp: lines_stored_def sized_for_def set_dimensions_def)
  have "st_terminal (sized_for s v sn) = v" "st_rows (sized_for s v sn) = sn_rows sn" "st_cols (sized_for s v sn) = sn_cols sn"
    by (simp_all add: sized_for_def set_dimensions_def)
  with snapshot_shape [OF assms(2)] snapshot_flags [OF assms(2)] snapshot_content [OF assms(2)]
  show "rows_report content dirty (sized_for s v sn) 0 (sn_row_list sn)" by (auto simp: rows_report_def dest: nth_mem)
qed

lemma snapshot_ok_content:
  assumes "vt_snapshot_of G v = (v', Inr sn)" "snapshot_ok sn" "y < unat (sn_rows sn)"
  shows "content v' y = (row_cells (sn_row_list sn ! y), row_wrap (sn_row_list sn ! y))"
proof -
  let ?row = "sn_row_list sn ! y"
  have "row_ok (unat (sn_cols sn)) ?row" using assms(2,3) by (simp add: snapshot_ok_def)
  then obtain w vcs where "vr_wrapped ?row = Inr w" "vr_cells ?row = Inr (map Inr vcs)" by (auto simp: row_ok_def)
  with snapshot_content [OF assms(1,3)] show ?thesis by (simp add: row_cells_ok row_wrap_def)
qed

text \<open>A read keeps the invariant, whether it succeeds or fails, and what it returns is the snapshot.\<close>

lemma update_lines:
  assumes "st_wf s" "lines_stored content dirty s 0" "update_and_get_state G s = (s', r)"
  shows "lines_stored content dirty s' 0"
    and "vt_snapshot_of G (st_terminal s) = (v, Inr sn) \<Longrightarrow> snapshot_ok sn \<Longrightarrow> r = Inr g \<Longrightarrow> g = grid_of sn"
proof -
  obtain v1 rs where snap: "vt_snapshot_of G (st_terminal s) = (v1, rs)" by force
  have "lines_stored content dirty s' 0 \<and> (\<forall>sn g. rs = Inr sn \<longrightarrow> snapshot_ok sn \<longrightarrow> r = Inr g \<longrightarrow> g = grid_of sn)"
  proof (cases rs)
    case (Inl e)
    with assms(2,3) snap snapshot_tracks [OF snap] show ?thesis by (auto simp: update_and_get_state_def lines_stored_def)
  next
    case (Inr sn)
    note snap = snap [unfolded Inr]
    obtain s2 r2 where rr: "read_rows G (sized_for s v1 sn) 0 (sn_row_list sn) = (s2, r2)" by force
    note sized = sized_for_wf [OF assms(1), of v1 sn]
    note lines = read_rows_lines [OF sized sized_for_lines(2,1) [OF assms(2) snap] rr]
    note upd = assms(3) [unfolded update_and_get_state_eq [OF snap rr]]
    have dims: "st_wf s2" "st_rows s2 = sn_rows sn" "st_cols s2 = sn_cols sn" "content (st_terminal (sized_for s v1 sn)) = content v1"
      using read_rows_wf [OF sized, of G 0 "sn_row_list sn"] rr by (auto simp: sized_for_def set_dimensions_def)
    show ?thesis
    proof (cases r2)
      case (Inl e)
      with upd lines show ?thesis by auto
    next
      case r2: (Inr u)
      obtain v2 rc where cl: "vt_clean G (st_terminal s2) = (v2, rc)" by force
      have all: "grid_line (st_grid_state s2) z = content v1 z" if "z < unat (sn_rows sn)" for z
        using lines r2 dims that by (auto simp: lines_stored_def sized_for_def set_dimensions_def)
      have eq: "content v2 = content v1" using clean_content [OF cl] lines dims(4) by simp
      show ?thesis
      proof (cases rc)
        case (Inl e)
        with upd r2 cl all eq dims show ?thesis by (auto simp: Let_def lines_stored_def)
      next
        case (Inr w)
        let ?s4 = "set_cursor (s2\<lparr>st_force_full := False, st_terminal := v2\<rparr>) sn"
        have s': "s' = ?s4" "r = Inr (st_grid_state ?s4)" using upd r2 cl Inr by (auto simp: Let_def)
        have line: "grid_line (st_grid_state ?s4) z = grid_line (st_grid_state s2) z" "st_terminal ?s4 = v2" "st_rows ?s4 = sn_rows sn" for z
          using dims(2) by (simp_all add: set_cursor_def grid_line_def grid_row_def split: prod.split)
        have "lines_stored content dirty s' 0" using all eq s'(1) line by (simp add: lines_stored_def)
        moreover have "st_grid_state ?s4 = grid_of sn" if "snapshot_ok sn"
          using cursor_grid_of [OF dims(1-3) that] all snapshot_ok_content [OF snap that] by simp
        ultimately show ?thesis using s'(2) \<open>rs = Inr sn\<close> by simp
      qed
    qed
  qed
  with snap show "lines_stored content dirty s' 0"
    "vt_snapshot_of G (st_terminal s) = (v, Inr sn) \<Longrightarrow> snapshot_ok sn \<Longrightarrow> r = Inr g \<Longrightarrow> g = grid_of sn" by auto
qed

lemma st_event_lines:
  assumes "st_wf s" "lines_stored content dirty s 0"
  shows "lines_stored content dirty (st_event G e s) 0"
proof (cases e)
  case (St_write data)
  obtain v replies where w: "vt_write G (st_terminal s) data = (v, replies)" by force
  then show ?thesis using assms(2) write_tracks [OF w] St_write by (auto simp: st_write_def lines_stored_def)
next
  case (St_resize cols rows)
  obtain v r where rs: "vt_resize G (st_terminal s) cols rows = (v, r)" by force
  show ?thesis
  proof (cases r)
    case (Inl err)
    with rs assms(2) resize_tracks [OF rs [unfolded Inl]] St_resize show ?thesis by (auto simp: st_resize_def lines_stored_def)
  next
    case (Inr u)
    with rs St_resize show ?thesis by (simp add: st_resize_def lines_stored_def set_dimensions_def)
  qed
next
  case St_read
  then show ?thesis using update_lines(1) [OF assms] by (metis prod.collapse st_event.simps(3))
qed

lemma st_run_lines:
  assumes "ServerTerminalState_new G cols rows = Inr s0"
  shows "st_wf (fold (st_event G) es s0) \<and> lines_stored content dirty (fold (st_event G) es s0) 0"
proof (induction es rule: rev_induct)
  case Nil
  then show ?case using assms ServerTerminalState_new_wf [OF assms] by (auto simp: ServerTerminalState_new_def lines_stored_def)
next
  case (snoc e es)
  then show ?case by (simp add: st_event_lines st_event_wf)
qed

end

section \<open>Properties\<close>

text \<open>C10: Reading only the changed rows never loses one.  The emulator tracks changes (\<open>dirty_emulator\<close>: it never reports a row
  clean that changed since that row was cleaned); any of its operations and accessors may fail.  After
  any sequence of output, resizes and reads on a new terminal state, failed ones included, a read that
  returns a grid returns the full conversion of the snapshot it took, although it reads only the
  dirty rows; and if the cleaning calls succeed, a read of a complete snapshot does return.\<close>

theorem incremental_read_faithful:
  assumes "dirty_emulator G content dirty" "ServerTerminalState_new G cols rows = Inr s0" "s = fold (st_event G) es s0"
    and "vt_snapshot_of G (st_terminal s) = (v, Inr sn)" "snapshot_ok sn"
  shows "(\<forall>g. snd (update_and_get_state G s) = Inr g \<longrightarrow> g = grid_of sn)
    \<and> ((\<forall>v y. snd (vt_clean_row G v y) = Inr ()) \<and> (\<forall>v. snd (vt_clean G v) = Inr ()) \<longrightarrow>
         snd (update_and_get_state G s) = Inr (grid_of sn))"
proof -
  have s: "st_wf s" "lines_stored content dirty s 0" using dirty_emulator.st_run_lines [OF assms(1,2), of es] assms(3) by simp_all
  have ret: "\<forall>g. snd (update_and_get_state G s) = Inr g \<longrightarrow> g = grid_of sn"
    using dirty_emulator.update_lines(2) [OF assms(1) s _ assms(4,5)] by (metis prod.collapse)
  with update_succeeds [OF s(1) assms(4,5)] show ?thesis by metis
qed

text \<open>A one-cell emulator that always shows its last byte.\<close>

definition tiny_cell :: "u8 \<Rightarrow> vt_cell" where
  "tiny_cell b = \<lparr>vc_chars = [ucast b], vc_fg = None, vc_bg = None, vc_bold = False, vc_italic = False,
     vc_inverse = False, vc_underline = False\<rparr>"

definition tiny_snapshot :: "u8 \<Rightarrow> vt_snapshot" where
  "tiny_snapshot b = \<lparr>sn_cols = 1, sn_rows = 1, sn_cursor_visible = True, sn_cursor_viewport = Some (0, 0),
     sn_row_list = [\<lparr>vr_dirty = Inr True, vr_wrapped = Inr False, vr_cells = Inr [Inr (tiny_cell b)]\<rparr>]\<rparr>"

definition tiny_vt :: "u8 ghostty" where
  "tiny_vt = \<lparr>vt_new = \<lambda>_ _. Inr 32, vt_write = \<lambda>v bs. (if bs = [] then v else last bs, []),
     vt_resize = \<lambda>v _ _. (v, Inr ()), vt_snapshot_of = \<lambda>v. (v, Inr (tiny_snapshot v)),
     vt_clean_row = \<lambda>v _. (v, Inr ()), vt_clean = \<lambda>v. (v, Inr ())\<rparr>"

text \<open>A two-line emulator with dirty flags: output goes to the first line, the second never changes.\<close>

type_synonym pair_state = "(u8 \<times> bool) \<times> (u8 \<times> bool)"

definition pair_row :: "u8 \<times> bool \<Rightarrow> vt_row" where
  "pair_row line = \<lparr>vr_dirty = Inr (snd line), vr_wrapped = Inr False, vr_cells = Inr [Inr (tiny_cell (fst line))]\<rparr>"

definition pair_snapshot :: "pair_state \<Rightarrow> vt_snapshot" where
  "pair_snapshot v = \<lparr>sn_cols = 1, sn_rows = 2, sn_cursor_visible = True, sn_cursor_viewport = Some (0, 0),
     sn_row_list = [pair_row (fst v), pair_row (snd v)]\<rparr>"

definition pair_vt :: "pair_state ghostty" where
  "pair_vt = \<lparr>vt_new = \<lambda>_ _. Inr ((32, True), (46, True)),
     vt_write = \<lambda>v bs. (if bs = [] then v else ((last bs, True), snd v), []),
     vt_resize = \<lambda>v _ _. (v, Inr ()), vt_snapshot_of = \<lambda>v. (v, Inr (pair_snapshot v)),
     vt_clean_row = \<lambda>v y. (if y = 0 then ((fst (fst v), False), snd v) else if y = 1 then (fst v, (fst (snd v), False)) else v, Inr ()),
     vt_clean = \<lambda>v. (v, Inr ())\<rparr>"

definition pair_content :: "pair_state \<Rightarrow> nat \<Rightarrow> LocalCellData list \<times> bool" where
  "pair_content v y = ([cell_data_of (tiny_cell (if y = 0 then fst (fst v) else fst (snd v)))], False)"

definition pair_dirty :: "pair_state \<Rightarrow> nat \<Rightarrow> bool" where
  "pair_dirty v y = (if y = 0 then snd (fst v) else y = 1 \<and> snd (snd v))"

interpretation pair: dirty_emulator pair_vt pair_content pair_dirty
proof unfold_locales
  fix v v' :: pair_state and sn y d w vs
  assume sn: "vt_snapshot_of pair_vt v = (v', Inr sn)" "y < unat (sn_rows sn)"
  then have "sn = pair_snapshot v" and "v' = v" by (auto simp: pair_vt_def)
  moreover from this sn(2) have "y = 0 \<or> y = 1" by (auto simp: pair_snapshot_def)
  ultimately have v: "v' = v" "sn_row_list sn ! y = pair_row (if y = 0 then fst v else snd v)" "y = 0 \<or> y = 1"
    by (auto simp: pair_snapshot_def)
  show "vr_dirty (sn_row_list sn ! y) = Inr d \<Longrightarrow> pair_dirty v' y = d" using v by (auto simp: pair_row_def pair_dirty_def)
  show "vr_wrapped (sn_row_list sn ! y) = Inr w \<Longrightarrow> vr_cells (sn_row_list sn ! y) = Inr (map Inr vs) \<Longrightarrow>
    pair_content v' y = (map cell_data_of vs, w)" using v by (auto simp: pair_row_def pair_content_def Cons_eq_map_conv)
qed (auto simp: pair_vt_def pair_snapshot_def pair_row_def pair_content_def pair_dirty_def fun_eq_iff split: if_splits)

lemma pair_row_ok: "row_ok (Suc 0) (pair_row line)"
  by (auto simp: row_ok_def pair_row_def intro!: exI [of _ "[tiny_cell (fst line)]"])

text \<open>Two outputs, each followed by a read: at the second read the lower line is clean and is not read again.\<close>

theorem incremental_read_faithful_witness:
  "\<exists>s0 s. ServerTerminalState_new pair_vt 1 2 = Inr s0 \<and> s = fold (st_event pair_vt) [St_write [97], St_read, St_write [98]] s0
    \<and> \<not> st_force_full s \<and> st_terminal s = ((98, True), (46, False))
    \<and> snd (update_and_get_state pair_vt s) = Inr (grid_of (pair_snapshot ((98, True), (46, False))))"
proof -
  let ?s0 = "\<lparr>st_terminal = ((32, True), (46, True)), st_cols = 1, st_rows = 2, st_grid_state = blank_grid 1 2, st_force_full = True\<rparr>"
  let ?es = "[St_write [97], St_read, St_write [98]]" and ?v = "((98, True), (46, False)) :: pair_state"
  define s where "s = fold (st_event pair_vt) ?es ?s0"
  have new: "ServerTerminalState_new pair_vt 1 2 = Inr ?s0" by (simp add: ServerTerminalState_new_def pair_vt_def)
  have s: "st_terminal s = ?v" "\<not> st_force_full s"
    by (simp_all add: s_def st_write_def update_and_get_state_def pair_vt_def pair_snapshot_def pair_row_def read_row_def Let_def
        set_wrapped_def set_cells_def set_cursor_def blank_grid_def vec_set_def)
  have sn: "vt_snapshot_of pair_vt (st_terminal s) = (?v, Inr (pair_snapshot ?v))" by (simp add: s pair_vt_def)
  have ok: "snapshot_ok (pair_snapshot ?v)"
    by (simp add: snapshot_ok_def pair_snapshot_def pair_row_ok)
  have "\<forall>v y. snd (vt_clean_row pair_vt v y) = Inr ()" "\<forall>v. snd (vt_clean pair_vt v) = Inr ()" by (simp_all add: pair_vt_def)
  with incremental_read_faithful [OF pair.dirty_emulator_axioms new s_def sn ok]
  have "snd (update_and_get_state pair_vt s) = Inr (grid_of (pair_snapshot ?v))" by blast
  with new s s_def show ?thesis by blast
qed

end
