(* ===== verification/Rumsh_Server_Session.thy ===== *)
theory Rumsh_Server_Session
  imports Rumsh_Codec Rumsh_Server_State
begin

text \<open>
  \<open>src/server/session.rs\<close>: \<open>AuthoritativeSession\<close>, the server's protocol state machine.  Its parameters are
  the codec \<open>C\<close>, the terminal emulator \<open>G\<close> and the PTY backend \<open>P\<close> (the trait \<open>PtyBackend\<close> over a state
  \<open>'p\<close>).  The PTY's mutex is only held inside one call, so locking it succeeds.  A socket address is
  an IP address (its octets) and a port.
\<close>

section \<open>State\<close>

type_synonym socket_addr = "bytes \<times> u16"

record 'p pty_backend =
  pty_write :: "'p \<Rightarrow> bytes \<Rightarrow> 'p \<times> unit res"
  pty_resize :: "'p \<Rightarrow> u16 \<Rightarrow> u16 \<Rightarrow> 'p \<times> unit res"
  pty_echo_recommended :: "'p \<Rightarrow> 'p \<times> bool"

record 'c UpdateJob =
  job_seq :: u64
  job_ack_seq :: u64
  job_ref_seq :: u64
  job_ref_state :: "GridState option"
  job_current_state :: GridState
  job_codec :: 'c
  job_is_echo_recommended :: bool

datatype 'c SessionAction =
    Send_packet bytes socket_addr
  | OffloadDiffJob "'c UpdateJob" socket_addr
  | ResendFragments u64 "u64 list" socket_addr
  | Shutdown_action

definition UpdateJob_run :: "'c PacketCodec \<Rightarrow> 'c UpdateJob \<Rightarrow> bytes list res" where
  "UpdateJob_run C job =
     and_then (diff_from (job_current_state job) (job_ref_state job) (job_ref_seq job) (job_is_echo_recommended job))
       (\<lambda>update. seal_server C (job_codec job) (job_seq job) (job_ack_seq job) (Frame update))"

record ('c, 'v, 'p) AuthoritativeSession =
  as_session_id :: u64
  as_seq_num :: u64
  as_ack_seq_num :: u64
  as_expected_client_seq :: u64
  as_out_of_order_packets :: "(u64 \<times> ClientPayload) list"
  as_client_ack_seq :: u64
  as_last_sent_ack_seq :: u64
  as_state_history :: "(u64 \<times> GridState) list"
  as_codec :: 'c
  as_current_client_addr :: socket_addr
  as_last_recv_time :: instant
  as_last_sync_time :: instant
  as_last_pty_bytes_time :: instant
  as_pty_bytes_acc :: nat
  as_dirty :: bool
  as_term_state :: "'v ServerTerminalState"
  as_pty :: 'p

definition AuthoritativeSession_new ::
    "'v ghostty \<Rightarrow> u64 \<Rightarrow> 'c \<Rightarrow> u64 \<Rightarrow> socket_addr \<Rightarrow> u16 \<Rightarrow> u16 \<Rightarrow> 'p \<Rightarrow> instant
      \<Rightarrow> ('c, 'v, 'p) AuthoritativeSession res" where
  "AuthoritativeSession_new G session_id codec client_start_seq addr cols rows pty now =
     and_then (ServerTerminalState_new G cols rows) (\<lambda>term_state.
       Inr \<lparr>as_session_id = session_id, as_seq_num = 0, as_ack_seq_num = client_start_seq,
            as_expected_client_seq = client_start_seq + 1, as_out_of_order_packets = [],
            as_client_ack_seq = 0, as_last_sent_ack_seq = 0, as_state_history = [], as_codec = codec,
            as_current_client_addr = addr, as_last_recv_time = now, as_last_sync_time = now,
            as_last_pty_bytes_time = now, as_pty_bytes_acc = 0, as_dirty = False,
            as_term_state = term_state, as_pty = pty\<rparr>)"

section \<open>Frame synchronisation\<close>

text \<open>The history loop: drop states older than the client's acknowledgement while more than 100 remain.\<close>

fun trim_history :: "u64 \<Rightarrow> (u64 \<times> GridState) list \<Rightarrow> (u64 \<times> GridState) list" where
  "trim_history client_ack [] = []"
| "trim_history client_ack ((seq, g) # h) =
     (if seq < client_ack \<and> length ((seq, g) # h) > 100 then trim_history client_ack h else (seq, g) # h)"

definition is_flooding :: "('c, 'v, 'p) AuthoritativeSession \<Rightarrow> instant \<Rightarrow> bool" where
  "is_flooding s now \<longleftrightarrow>
     as_pty_bytes_acc s > 2048 \<and> duration_since now (as_last_pty_bytes_time s) < from_millis 50"

definition min_interval :: "('c, 'v, 'p) AuthoritativeSession \<Rightarrow> instant \<Rightarrow> duration" where
  "min_interval s now = (if is_flooding s now then from_millis 150 else from_millis 16)"

definition ref_state_for :: "('c, 'v, 'p) AuthoritativeSession \<Rightarrow> GridState option" where
  "ref_state_for s =
     (if saturating_sub (as_seq_num s) (as_client_ack_seq s) > 5 then None
      else map_of (as_state_history s) (as_client_ack_seq s))"

text \<open>The part of \<open>check_sync\<close> after the decision to send \<open>latest_grid\<close>.\<close>

definition queue_frame ::
    "'p pty_backend \<Rightarrow> ('c, 'v, 'p) AuthoritativeSession \<Rightarrow> GridState \<Rightarrow> instant
      \<Rightarrow> ('c, 'v, 'p) AuthoritativeSession \<times> 'c SessionAction list" where
  "queue_frame P s latest_grid now =
     (let s1 = s\<lparr>as_last_sent_ack_seq := as_ack_seq_num s, as_dirty := False, as_last_sync_time := now,
                 as_state_history := trim_history (as_client_ack_seq s) (as_state_history s)\<rparr>;
          ref_state = ref_state_for s1;
          ref_seq = (if ref_state \<noteq> None then as_client_ack_seq s1 else 0);
          seq = as_seq_num s1 + 1;
          h = as_state_history s1 @ [(seq, latest_grid)]
      in (case pty_echo_recommended P (as_pty s1) of
            (pty, is_echo) \<Rightarrow>
              (s1\<lparr>as_seq_num := seq, as_state_history := (if length h > 200 then tl h else h), as_pty := pty\<rparr>,
               [OffloadDiffJob
                  \<lparr>job_seq = seq, job_ack_seq = as_ack_seq_num s1, job_ref_seq = ref_seq, job_ref_state = ref_state,
                   job_current_state = latest_grid, job_codec = as_codec s1, job_is_echo_recommended = is_echo\<rparr>
                  (as_current_client_addr s1)])))"

text \<open>An error of the emulator is logged and dropped; only a panic leaves \<open>check_sync\<close>.\<close>

definition check_sync ::
    "'v ghostty \<Rightarrow> 'p pty_backend \<Rightarrow> ('c, 'v, 'p) AuthoritativeSession \<Rightarrow> instant
      \<Rightarrow> ('c, 'v, 'p) AuthoritativeSession \<times> 'c SessionAction list res" where
  "check_sync G P s now =
     (if as_seq_num s > 0 \<and> duration_since now (as_last_sync_time s) < min_interval s now then (s, Inr [])
      else
        (let s1 = (if duration_since now (as_last_pty_bytes_time s) \<ge> from_millis 50
                   then s\<lparr>as_pty_bytes_acc := 0\<rparr> else s)
         in if \<not> as_dirty s1 \<and> as_ack_seq_num s1 \<le> as_last_sent_ack_seq s1 then (s1, Inr [])
            else
              (case update_and_get_state G (as_term_state s1) of
                 (ts, Inl IndexPanic) \<Rightarrow> (s1\<lparr>as_term_state := ts\<rparr>, Inl IndexPanic)
               | (ts, Inl _) \<Rightarrow> (s1\<lparr>as_term_state := ts\<rparr>, Inr [])
               | (ts, Inr latest_grid) \<Rightarrow>
                   (let s2 = s1\<lparr>as_term_state := ts\<rparr>;
                        is_identical = (as_state_history s2 \<noteq> [] \<and> snd (last (as_state_history s2)) = latest_grid);
                        ack_updated = (as_ack_seq_num s2 > as_last_sent_ack_seq s2)
                    in if is_identical \<and> \<not> ack_updated then (s2\<lparr>as_dirty := False\<rparr>, Inr [])
                       else (case queue_frame P s2 latest_grid now of (s3, actions) \<Rightarrow> (s3, Inr actions))))))"

section \<open>Receiving\<close>

definition send_all :: "bytes list \<Rightarrow> socket_addr \<Rightarrow> 'c SessionAction list" where
  "send_all packets target = map (\<lambda>b. Send_packet b target) packets"

definition then_sync ::
    "'v ghostty \<Rightarrow> 'p pty_backend \<Rightarrow> ('c, 'v, 'p) AuthoritativeSession \<Rightarrow> instant \<Rightarrow> 'c SessionAction list
      \<Rightarrow> ('c, 'v, 'p) AuthoritativeSession \<times> 'c SessionAction list res" where
  "then_sync G P s now actions = st_then (check_sync G P s now) (\<lambda>s1 more. (s1, Inr (actions @ more)))"

definition handle_handshake ::
    "'c PacketCodec \<Rightarrow> 'v ghostty \<Rightarrow> 'p pty_backend \<Rightarrow> ('c, 'v, 'p) AuthoritativeSession \<Rightarrow> u64 \<Rightarrow> socket_addr \<Rightarrow> instant
      \<Rightarrow> ('c, 'v, 'p) AuthoritativeSession \<times> 'c SessionAction list res" where
  "handle_handshake C G P s wire_seq src_addr now =
     (let silence = duration_since now (as_last_recv_time s) in
      if as_seq_num s > 0 \<and> silence < from_secs 5 then (s, Inr [])
      else
        (let s1 = s\<lparr>as_current_client_addr := src_addr, as_last_recv_time := now, as_ack_seq_num := wire_seq,
                    as_expected_client_seq := wire_seq + 1, as_client_ack_seq := 0,
                    as_out_of_order_packets := [], as_state_history := [], as_dirty := True,
                    as_seq_num := as_seq_num s + 1\<rparr>
         in (case seal_server C (as_codec s1) (as_seq_num s1) wire_seq (HandshakeAck (as_session_id s1)) of
               Inl e \<Rightarrow> (s1, Inl e)
             | Inr packets \<Rightarrow> then_sync G P s1 now (send_all packets (as_current_client_addr s1)))))"

definition is_transient :: "u64 \<Rightarrow> ClientPayload \<Rightarrow> bool" where
  "is_transient seq payload \<longleftrightarrow>
     (seq AND push_bit 63 1) \<noteq> 0 \<or> (case payload of C_Ack \<Rightarrow> True | FragmentNack _ _ \<Rightarrow> True | _ \<Rightarrow> False)"

definition handle_transient ::
    "'v ghostty \<Rightarrow> 'p pty_backend \<Rightarrow> ('c, 'v, 'p) AuthoritativeSession \<Rightarrow> u64 \<Rightarrow> ClientPayload \<Rightarrow> instant
      \<Rightarrow> ('c, 'v, 'p) AuthoritativeSession \<times> 'c SessionAction list res" where
  "handle_transient G P s ack payload now =
     (let s1 = (if ack > as_client_ack_seq s then s\<lparr>as_client_ack_seq := ack\<rparr> else s);
          actions = (case payload of
                       FragmentNack frame_seq rmask \<Rightarrow> [ResendFragments frame_seq rmask (as_current_client_addr s1)]
                     | _ \<Rightarrow> [])
      in then_sync G P s1 now actions)"

text \<open>The loop that takes consecutive packets out of the reorder buffer.\<close>

function drain ::
    "(u64 \<times> ClientPayload) list \<Rightarrow> u64 \<Rightarrow> (u64 \<times> ClientPayload) list \<times> u64 \<times> (u64 \<times> ClientPayload) list" where
  "drain buf expected =
     (case map_of buf expected of
        None \<Rightarrow> (buf, expected, [])
      | Some payload \<Rightarrow>
          (case drain (map_remove expected buf) (expected + 1) of
             (buf1, expected1, rest) \<Rightarrow> (buf1, expected1, (expected, payload) # rest)))"
  by pat_completeness auto
termination
proof (relation "measure (\<lambda>(buf, expected). length buf)")
  fix buf :: "(u64 \<times> ClientPayload) list" and expected payload
  assume "map_of buf expected = Some payload"
  then have "expected \<in> fst ` set buf" by (force dest: map_of_SomeD)
  then show "((map_remove expected buf, expected + 1), buf, expected) \<in> measure (\<lambda>(buf, expected). length buf)"
    by (simp add: btree.length_remove_less)
qed simp

declare drain.simps [simp del]

definition process_payload ::
    "'c PacketCodec \<Rightarrow> 'v ghostty \<Rightarrow> 'p pty_backend \<Rightarrow> ('c, 'v, 'p) AuthoritativeSession \<Rightarrow> ClientPayload
      \<Rightarrow> ('c, 'v, 'p) AuthoritativeSession \<times> 'c SessionAction list res" where
  "process_payload C G P s payload =
     (case payload of
        C_Ack \<Rightarrow> (s, Inr [])
      | Keystrokes keys \<Rightarrow> (s\<lparr>as_pty := fst (pty_write P (as_pty s) keys)\<rparr>, Inr [])
      | Resize cols rows \<Rightarrow>
          (s\<lparr>as_pty := fst (pty_resize P (as_pty s) cols rows),
             as_term_state := fst (st_resize G (as_term_state s) cols rows), as_dirty := True\<rparr>, Inr [])
      | C_KeepAlive \<Rightarrow>
          (let s1 = s\<lparr>as_seq_num := as_seq_num s + 1\<rparr> in
           (case seal_server C (as_codec s1) (as_seq_num s1) (as_ack_seq_num s1) S_KeepAlive of
              Inl e \<Rightarrow> (s1, Inl e)
            | Inr packets \<Rightarrow> (s1, Inr (send_all packets (as_current_client_addr s1)))))
      | FragmentNack frame_seq rmask \<Rightarrow> (s, Inr [ResendFragments frame_seq rmask (as_current_client_addr s)])
      | Handshake _ _ _ \<Rightarrow> (s, Inl UnreachablePanic))"

fun process_payloads ::
    "'c PacketCodec \<Rightarrow> 'v ghostty \<Rightarrow> 'p pty_backend \<Rightarrow> ('c, 'v, 'p) AuthoritativeSession
      \<Rightarrow> (u64 \<times> ClientPayload) list \<Rightarrow> ('c, 'v, 'p) AuthoritativeSession \<times> 'c SessionAction list res" where
  "process_payloads C G P s [] = (s, Inr [])"
| "process_payloads C G P s ((seq, payload) # rest) =
     st_then (process_payload C G P s payload) (\<lambda>s1 a1.
     st_then (process_payloads C G P s1 rest) (\<lambda>s2 a2. (s2, Inr (a1 @ a2))))"

definition handle_in_order ::
    "'c PacketCodec \<Rightarrow> 'v ghostty \<Rightarrow> 'p pty_backend \<Rightarrow> ('c, 'v, 'p) AuthoritativeSession \<Rightarrow> u64 \<Rightarrow> u64
      \<Rightarrow> ClientPayload \<Rightarrow> instant \<Rightarrow> ('c, 'v, 'p) AuthoritativeSession \<times> 'c SessionAction list res" where
  "handle_in_order C G P s seq ack payload now =
     (case drain (as_out_of_order_packets s) (as_expected_client_seq s + 1) of
        (buf, expected, rest) \<Rightarrow>
          (let s1 = s\<lparr>as_out_of_order_packets := buf, as_expected_client_seq := expected,
                      as_ack_seq_num := expected - 1, as_client_ack_seq := ack\<rparr>
           in st_then (process_payloads C G P s1 ((seq, payload) # rest)) (\<lambda>s2 actions.
                then_sync G P s2 now actions)))"

definition server_feed_packet ::
    "'c PacketCodec \<Rightarrow> 'v ghostty \<Rightarrow> 'p pty_backend \<Rightarrow> ('c, 'v, 'p) AuthoritativeSession \<Rightarrow> bytes \<Rightarrow> socket_addr
      \<Rightarrow> instant \<Rightarrow> ('c, 'v, 'p) AuthoritativeSession \<times> 'c SessionAction list res" where
  "server_feed_packet C G P s packet_bytes src_addr now =
     (case open_client C (as_codec s) packet_bytes of
        Inl _ \<Rightarrow> (s, Inr [])
      | Inr (wire_packet, payload, _) \<Rightarrow>
          if ecp_session_id wire_packet = 0 then
            handle_handshake C G P s (ecp_seq_num wire_packet) src_addr now
          else if ecp_session_id wire_packet \<noteq> as_session_id s then (s, Inr [])
          else
            (let s1 = s\<lparr>as_last_recv_time := now, as_current_client_addr := src_addr\<rparr>;
                 seq = ecp_seq_num wire_packet; ack = ecp_ack_seq_num wire_packet
             in if is_transient seq payload then handle_transient G P s1 ack payload now
                else if seq < as_expected_client_seq s1 then (s1, Inr [])
                else if seq > as_expected_client_seq s1 then
                  (s1\<lparr>as_out_of_order_packets := bt_insert seq payload (as_out_of_order_packets s1)\<rparr>, Inr [])
                else handle_in_order C G P s1 seq ack payload now))"

section \<open>Other events\<close>

text \<open>What the emulator answers while it reads goes to the PTY through its callback.\<close>

definition on_pty_bytes ::
    "'v ghostty \<Rightarrow> 'p pty_backend \<Rightarrow> ('c, 'v, 'p) AuthoritativeSession \<Rightarrow> bytes \<Rightarrow> instant
      \<Rightarrow> ('c, 'v, 'p) AuthoritativeSession" where
  "on_pty_bytes G P s data now =
     (case st_write G (as_term_state s) data of
        (ts, replies) \<Rightarrow>
          s\<lparr>as_term_state := ts, as_pty := fold (\<lambda>r p. fst (pty_write P p r)) replies (as_pty s),
            as_dirty := True, as_last_pty_bytes_time := now,
            as_pty_bytes_acc := min (2 ^ 64 - 1) (as_pty_bytes_acc s + length data)\<rparr>)"

definition server_on_tick ::
    "'v ghostty \<Rightarrow> 'p pty_backend \<Rightarrow> ('c, 'v, 'p) AuthoritativeSession \<Rightarrow> instant
      \<Rightarrow> ('c, 'v, 'p) AuthoritativeSession \<times> 'c SessionAction list res" where
  "server_on_tick G P s now = check_sync G P s now"

definition prepare_shutdown ::
    "'c PacketCodec \<Rightarrow> ('c, 'v, 'p) AuthoritativeSession \<Rightarrow> ('c, 'v, 'p) AuthoritativeSession \<times> 'c SessionAction res" where
  "prepare_shutdown C s =
     (let s1 = s\<lparr>as_seq_num := as_seq_num s + 1\<rparr> in
      (case seal_server C (as_codec s1) (as_seq_num s1) 0 S_Shutdown of
         Inl e \<Rightarrow> (s1, Inl e)
       | Inr packets \<Rightarrow>
           (s1, Inr (Send_packet (if packets = [] then [] else last packets) (as_current_client_addr s1)))))"

section \<open>Invariant\<close>

definition server_wf :: "('c, 'v, 'p) AuthoritativeSession \<Rightarrow> bool" where
  "server_wf s \<longleftrightarrow> st_wf (as_term_state s) \<and> bt_wf (as_out_of_order_packets s)
     \<and> length (as_state_history s) \<le> 200 \<and> (\<forall>(q, g) \<in> set (as_state_history s). grid_wf g)"

text \<open>The fields that frame synchronisation and housekeeping do not touch.\<close>

definition stream_view :: "('c, 'v, 'p) AuthoritativeSession \<Rightarrow> u64 \<times> 'c \<times> u64 \<times> u64 \<times> (u64 \<times> ClientPayload) list" where
  "stream_view s = (as_session_id s, as_codec s, as_ack_seq_num s, as_expected_client_seq s, as_out_of_order_packets s)"

lemma trim_history_suffix: "\<exists>pre. h = pre @ trim_history a h"
proof (induction a h rule: trim_history.induct)
  case (2 a q g h)
  show ?case
  proof (cases "q < a \<and> length ((q, g) # h) > 100")
    case True
    with "2.IH" obtain pre where "h = pre @ trim_history a h" by auto
    then have "(q, g) # h = ((q, g) # pre) @ trim_history a h" by simp
    with True show ?thesis by (metis trim_history.simps(2))
  qed auto
qed simp

lemma trim_history_props: "set (trim_history a h) \<subseteq> set h" "length (trim_history a h) \<le> length h"
  using trim_history_suffix [of h a] by (metis set_append Un_upper2, metis length_append le_add2)

lemma queue_frame_eq:
  "queue_frame P s g now =
     (let h = trim_history (as_client_ack_seq s) (as_state_history s);
          ref_state = (if saturating_sub (as_seq_num s) (as_client_ack_seq s) > 5 then None else map_of h (as_client_ack_seq s));
          h1 = h @ [(as_seq_num s + 1, g)]
      in (s\<lparr>as_last_sent_ack_seq := as_ack_seq_num s, as_dirty := False, as_last_sync_time := now,
            as_seq_num := as_seq_num s + 1, as_state_history := (if length h1 > 200 then tl h1 else h1),
            as_pty := fst (pty_echo_recommended P (as_pty s))\<rparr>,
          [OffloadDiffJob
             \<lparr>job_seq = as_seq_num s + 1, job_ack_seq = as_ack_seq_num s,
              job_ref_seq = (if ref_state \<noteq> None then as_client_ack_seq s else 0), job_ref_state = ref_state,
              job_current_state = g, job_codec = as_codec s,
              job_is_echo_recommended = snd (pty_echo_recommended P (as_pty s))\<rparr>
             (as_current_client_addr s)]))"
  by (simp add: queue_frame_def ref_state_for_def Let_def split: prod.splits)

lemma queue_frame_view [rumsh_frame]: "stream_view (fst (queue_frame P s g now)) = stream_view s"
  by (simp add: queue_frame_eq stream_view_def Let_def)

lemma queue_frame_history:
  "set (as_state_history (fst (queue_frame P s g now))) \<subseteq> insert (as_seq_num s + 1, g) (set (as_state_history s))"
proof -
  let ?h = "trim_history (as_client_ack_seq s) (as_state_history s) @ [(as_seq_num s + 1, g)]"
  have "set (tl ?h) \<subseteq> set ?h" by (cases ?h) auto
  moreover have "set ?h \<subseteq> insert (as_seq_num s + 1, g) (set (as_state_history s))"
    using trim_history_props(1) [of "as_client_ack_seq s" "as_state_history s"] by auto
  moreover have "as_state_history (fst (queue_frame P s g now)) = (if length ?h > 200 then tl ?h else ?h)"
    by (simp add: queue_frame_eq Let_def)
  ultimately show ?thesis by (cases "length ?h > 200") (simp_all only: if_True if_False subset_trans)
qed

lemma queue_frame_wf:
  assumes "server_wf s" "grid_wf g"
  shows "server_wf (fst (queue_frame P s g now))"
proof -
  have "length (as_state_history (fst (queue_frame P s g now))) \<le> 200"
    using assms(1) trim_history_props(2) [of "as_client_ack_seq s" "as_state_history s"]
    by (auto simp: queue_frame_eq Let_def server_wf_def)
  moreover have "\<forall>(q, g) \<in> set (as_state_history (fst (queue_frame P s g now))). grid_wf g"
    using queue_frame_history [of P s g now] assms by (force simp: server_wf_def)
  ultimately show ?thesis using assms(1) by (simp add: server_wf_def queue_frame_eq Let_def)
qed

text \<open>What \<open>check_sync\<close> can do: nothing but housekeeping, or housekeeping and one queued frame.\<close>

text \<open>The outcomes of \<open>check_sync\<close> once a frame is due: nothing to do, no new grid to send, or a frame.\<close>

lemma check_sync_due:
  assumes "\<not> (as_seq_num s > 0 \<and> duration_since now (as_last_sync_time s) < min_interval s now)"
  shows "(\<exists>acc ts d r. check_sync G P s now = (s\<lparr>as_pty_bytes_acc := acc, as_term_state := ts, as_dirty := d\<rparr>, r)
        \<and> (ts = as_term_state s \<or> ts = fst (update_and_get_state G (as_term_state s))) \<and> (r = Inr [] \<or> r = Inl IndexPanic))
    \<or> (\<exists>acc g. snd (update_and_get_state G (as_term_state s)) = Inr g
        \<and> (let q = queue_frame P (s\<lparr>as_pty_bytes_acc := acc, as_term_state := fst (update_and_get_state G (as_term_state s))\<rparr>) g now
           in check_sync G P s now = (fst q, Inr (snd q))))"
proof -
  define acc where "acc = (if duration_since now (as_last_pty_bytes_time s) \<ge> from_millis 50 then 0 else as_pty_bytes_acc s)"
  have s1: "(if duration_since now (as_last_pty_bytes_time s) \<ge> from_millis 50 then s\<lparr>as_pty_bytes_acc := 0\<rparr> else s) = s\<lparr>as_pty_bytes_acc := acc\<rparr>"
    by (simp add: acc_def)
  obtain ts r where u: "update_and_get_state G (as_term_state s) = (ts, r)" by force
  let ?idle = "\<not> as_dirty s \<and> as_ack_seq_num s \<le> as_last_sent_ack_seq s"
  let ?same = "\<lambda>g. (as_state_history s \<noteq> [] \<and> snd (last (as_state_history s)) = g) \<and> \<not> as_ack_seq_num s > as_last_sent_ack_seq s"
  let ?q = "\<lambda>g. queue_frame P (s\<lparr>as_pty_bytes_acc := acc, as_term_state := ts\<rparr>) g now"
  note sync = check_sync_def [of G P s now, unfolded s1 if_not_P [OF assms]]
  consider ?idle | e where "\<not> ?idle" "r = Inl e" | g where "\<not> ?idle" "r = Inr g" by (cases r) auto
  then show ?thesis
  proof cases
    case 1
    then have "check_sync G P s now = (s\<lparr>as_pty_bytes_acc := acc, as_term_state := as_term_state s, as_dirty := as_dirty s\<rparr>, Inr [])"
      by (simp add: sync Let_def)
    then show ?thesis by blast
  next
    case (2 e)
    then have c: "check_sync G P s now = (s\<lparr>as_pty_bytes_acc := acc, as_term_state := ts, as_dirty := as_dirty s\<rparr>,
        if e = IndexPanic then Inl IndexPanic else Inr [])"
      using u unfolding sync by (cases e) (auto simp: Let_def)
    show ?thesis by (rule disjI1, intro exI conjI, rule c) (simp_all add: u)
  next
    case (3 g)
    have upd: "fst (update_and_get_state G (as_term_state s)) = ts" "snd (update_and_get_state G (as_term_state s)) = Inr g"
      using 3(2) by (simp_all add: u)
    show ?thesis
    proof (cases "?same g")
      case True
      then have "check_sync G P s now = (s\<lparr>as_pty_bytes_acc := acc, as_term_state := ts, as_dirty := False\<rparr>, Inr [])"
        using u 3 unfolding sync by (auto simp: Let_def)
      then show ?thesis unfolding upd(1) by blast
    next
      case False
      then have "check_sync G P s now = (fst (?q g), Inr (snd (?q g)))"
        using u 3 unfolding sync by (cases "?q g") (auto simp: Let_def)
      then show ?thesis unfolding upd Let_def by blast
    qed
  qed
qed

lemma check_sync_cases:
  assumes "server_wf s"
  obtains (idle) acc ts d r where
      "check_sync G P s now = (s\<lparr>as_pty_bytes_acc := acc, as_term_state := ts, as_dirty := d\<rparr>, r)"
      "st_wf ts" "r = Inr [] \<or> r = Inl IndexPanic"
  | (frame) acc ts g where
      "check_sync G P s now = (fst (queue_frame P (s\<lparr>as_pty_bytes_acc := acc, as_term_state := ts\<rparr>) g now),
         Inr (snd (queue_frame P (s\<lparr>as_pty_bytes_acc := acc, as_term_state := ts\<rparr>) g now)))"
      "st_wf ts" "grid_wf g" "snd (update_and_get_state G (as_term_state s)) = Inr g"
      "as_seq_num s > 0 \<longrightarrow> duration_since now (as_last_sync_time s) \<ge> min_interval s now"
proof -
  have ts0: "st_wf (as_term_state s)" using assms by (simp add: server_wf_def)
  show thesis
  proof (cases "as_seq_num s > 0 \<and> duration_since now (as_last_sync_time s) < min_interval s now")
    case True
    then have "check_sync G P s now = (s\<lparr>as_pty_bytes_acc := as_pty_bytes_acc s, as_term_state := as_term_state s, as_dirty := as_dirty s\<rparr>, Inr [])"
      by (simp add: check_sync_def)
    with ts0 idle show thesis by blast
  next
    case False
    note due = check_sync_due [OF this, where G = G and P = P]
    obtain ts r where u: "update_and_get_state G (as_term_state s) = (ts, r)" by force
    then have ts: "st_wf ts" using update_and_get_state_wf(1) [OF ts0, of G] by simp
    from due show thesis
    proof (rule disjE)
      assume "\<exists>acc ts d r. check_sync G P s now = (s\<lparr>as_pty_bytes_acc := acc, as_term_state := ts, as_dirty := d\<rparr>, r)
        \<and> (ts = as_term_state s \<or> ts = fst (update_and_get_state G (as_term_state s))) \<and> (r = Inr [] \<or> r = Inl IndexPanic)"
      then obtain acc ts' d r' where c: "check_sync G P s now = (s\<lparr>as_pty_bytes_acc := acc, as_term_state := ts', as_dirty := d\<rparr>, r')"
        and t: "ts' = as_term_state s \<or> ts' = fst (update_and_get_state G (as_term_state s))" and r: "r' = Inr [] \<or> r' = Inl IndexPanic"
        by blast
      from t have "st_wf ts'" using ts0 ts u by auto
      from idle [OF c this r] show thesis .
    next
      assume "\<exists>acc g. snd (update_and_get_state G (as_term_state s)) = Inr g
        \<and> (let q = queue_frame P (s\<lparr>as_pty_bytes_acc := acc, as_term_state := fst (update_and_get_state G (as_term_state s))\<rparr>) g now
           in check_sync G P s now = (fst q, Inr (snd q)))"
      then obtain acc g where g: "snd (update_and_get_state G (as_term_state s)) = Inr g" and
        "let q = queue_frame P (s\<lparr>as_pty_bytes_acc := acc, as_term_state := fst (update_and_get_state G (as_term_state s))\<rparr>) g now
         in check_sync G P s now = (fst q, Inr (snd q))" by blast
      moreover have "grid_wf g" using update_and_get_state_wf(2) [OF ts0, of G g] u g ts by (simp add: st_wf_def)
      ultimately show thesis using ts u False by (intro frame) (auto simp: Let_def)
    qed
  qed
qed

lemma check_sync_wf [rumsh_inv]:
  assumes "server_wf s"
  shows "server_wf (fst (check_sync G P s now))" "stream_view (fst (check_sync G P s now)) = stream_view s"
proof -
  have "server_wf (fst (check_sync G P s now)) \<and> stream_view (fst (check_sync G P s now)) = stream_view s"
  proof (rule check_sync_cases [OF assms, of G P now])
    fix acc ts d r
    assume "check_sync G P s now = (s\<lparr>as_pty_bytes_acc := acc, as_term_state := ts, as_dirty := d\<rparr>, r)" "st_wf ts"
    then show ?thesis using assms by (simp add: server_wf_def stream_view_def)
  next
    fix acc ts g
    assume q: "check_sync G P s now = (fst (queue_frame P (s\<lparr>as_pty_bytes_acc := acc, as_term_state := ts\<rparr>) g now),
         Inr (snd (queue_frame P (s\<lparr>as_pty_bytes_acc := acc, as_term_state := ts\<rparr>) g now)))"
      and ts: "st_wf ts" "grid_wf g"
    have "server_wf (s\<lparr>as_pty_bytes_acc := acc, as_term_state := ts\<rparr>)" using assms ts by (simp add: server_wf_def)
    from queue_frame_wf [OF this ts(2)] q show ?thesis by (simp add: queue_frame_view) (simp add: stream_view_def)
  qed
  then show "server_wf (fst (check_sync G P s now))" "stream_view (fst (check_sync G P s now)) = stream_view s" by auto
qed

lemma process_payload_wf [rumsh_inv]: "server_wf s \<Longrightarrow> server_wf (fst (process_payload C G P s p))"
  by (auto simp: process_payload_def server_wf_def st_resize_wf Let_def split: ClientPayload.splits sum.splits)

lemma process_payload_view [rumsh_frame]: "stream_view (fst (process_payload C G P s p)) = stream_view s"
  by (auto simp: process_payload_def stream_view_def Let_def split: ClientPayload.splits sum.splits)

lemma process_payloads_wf [rumsh_inv]:
  "server_wf s \<Longrightarrow> server_wf (fst (process_payloads C G P s ps))
     \<and> stream_view (fst (process_payloads C G P s ps)) = stream_view s"
proof (induction ps arbitrary: s)
  case (Cons x ps)
  obtain q p where x: "x = (q, p)" by (cases x)
  obtain s1 r1 where p1: "process_payload C G P s p = (s1, r1)" by force
  with process_payload_wf [OF Cons.prems, of C G P p] process_payload_view [of C G P s p]
  have "server_wf s1" "stream_view s1 = stream_view s" by auto
  with Cons.IH [of s1] p1 x show ?case
    by (cases r1) (auto simp: st_then_def split: prod.splits sum.splits)
qed simp

lemma then_sync_wf [rumsh_inv]:
  "server_wf s \<Longrightarrow> server_wf (fst (then_sync G P s now actions)) \<and> stream_view (fst (then_sync G P s now actions)) = stream_view s"
  using check_sync_wf [of s G P now]
  by (cases "check_sync G P s now") (auto simp: then_sync_def st_then_def split: sum.splits)

lemma drain_wf: "bt_wf buf \<Longrightarrow> bt_wf (fst (drain buf e))"
proof (induction buf e rule: drain.induct)
  case (1 buf e)
  then show ?case
    by (subst drain.simps) (auto simp: btree.invar_remove split: option.splits prod.splits)
qed

lemma handle_in_order_wf:
  assumes "server_wf s"
  shows "server_wf (fst (handle_in_order C G P s seq ack payload now))"
    and "stream_view (fst (handle_in_order C G P s seq ack payload now)) =
      (case drain (as_out_of_order_packets s) (as_expected_client_seq s + 1) of
         (buf, expected, rest) \<Rightarrow> (as_session_id s, as_codec s, expected - 1, expected, buf))"
proof -
  obtain buf expected rest where d: "drain (as_out_of_order_packets s) (as_expected_client_seq s + 1) = (buf, expected, rest)"
    by (metis prod_cases3)
  define s1 where "s1 = s\<lparr>as_out_of_order_packets := buf, as_expected_client_seq := expected,
    as_ack_seq_num := expected - 1, as_client_ack_seq := ack\<rparr>"
  have wf: "server_wf s1"
    using assms drain_wf [of "as_out_of_order_packets s" "as_expected_client_seq s + 1"] d by (simp add: s1_def server_wf_def)
  obtain s2 r2 where p: "process_payloads C G P s1 ((seq, payload) # rest) = (s2, r2)" by force
  have s2: "server_wf s2" "stream_view s2 = stream_view s1"
    using process_payloads_wf [OF wf, of C G P "(seq, payload) # rest"] p by (simp_all del: process_payloads.simps)
  have eq: "handle_in_order C G P s seq ack payload now = st_then (s2, r2) (\<lambda>s2 actions. then_sync G P s2 now actions)"
    using d p by (simp add: handle_in_order_def s1_def Let_def del: process_payloads.simps)
  have "server_wf (fst (handle_in_order C G P s seq ack payload now))
      \<and> stream_view (fst (handle_in_order C G P s seq ack payload now)) = stream_view s1"
    unfolding eq using s2 then_sync_wf [OF s2(1), of G P now] by (cases r2) auto
  then show "server_wf (fst (handle_in_order C G P s seq ack payload now))"
    and "stream_view (fst (handle_in_order C G P s seq ack payload now)) =
      (case drain (as_out_of_order_packets s) (as_expected_client_seq s + 1) of
         (buf, expected, rest) \<Rightarrow> (as_session_id s, as_codec s, expected - 1, expected, buf))"
    by (simp_all add: d) (simp add: stream_view_def s1_def)
qed

lemma handle_handshake_wf:
  assumes "server_wf s"
  shows "server_wf (fst (handle_handshake C G P s q addr now))"
proof -
  let ?s = "s\<lparr>as_current_client_addr := addr, as_last_recv_time := now, as_ack_seq_num := q,
      as_expected_client_seq := q + 1, as_client_ack_seq := 0, as_out_of_order_packets := [],
      as_state_history := [], as_dirty := True, as_seq_num := as_seq_num s + 1\<rparr>"
  have "server_wf ?s" using assms by (simp add: server_wf_def bt_wf_def)
  with then_sync_wf [OF this, of G P now] assms show ?thesis
    by (auto simp: handle_handshake_def Let_def split: sum.splits)
qed

lemma handle_transient_wf:
  assumes "server_wf s"
  shows "server_wf (fst (handle_transient G P s ack payload now))
    \<and> stream_view (fst (handle_transient G P s ack payload now)) = stream_view s"
proof -
  let ?s = "if ack > as_client_ack_seq s then s\<lparr>as_client_ack_seq := ack\<rparr> else s"
  have "server_wf ?s" "stream_view ?s = stream_view s" using assms by (simp_all add: server_wf_def stream_view_def)
  with then_sync_wf [OF this(1), of G P now] show ?thesis
    unfolding handle_transient_def Let_def by presburger
qed

lemma server_feed_packet_wf [rumsh_inv]:
  assumes "server_wf s"
  shows "server_wf (fst (server_feed_packet C G P s bs addr now))"
proof (cases "open_client C (as_codec s) bs")
  case (Inr r)
  obtain pkt payload st where r: "r = (pkt, payload, st)" by (cases r)
  let ?s = "s\<lparr>as_last_recv_time := now, as_current_client_addr := addr\<rparr>"
  have wf: "server_wf ?s" using assms by (simp add: server_wf_def)
  have "server_wf (?s\<lparr>as_out_of_order_packets := bt_insert q p (as_out_of_order_packets s)\<rparr>)" for q p
    using wf by (simp add: server_wf_def bt_insert_sorted)
  with Inr r assms wf handle_in_order_wf(1) [OF wf] handle_transient_wf [OF wf] handle_handshake_wf [OF assms] show ?thesis
    by (simp add: server_feed_packet_def Let_def)
qed (simp add: server_feed_packet_def assms)

lemma on_pty_bytes_wf [rumsh_inv]: "server_wf s \<Longrightarrow> server_wf (on_pty_bytes G P s data now)"
  using st_write_wf [of "as_term_state s" G data]
  by (cases "st_write G (as_term_state s) data") (simp add: on_pty_bytes_def server_wf_def)

lemma prepare_shutdown_wf [rumsh_inv]: "server_wf s \<Longrightarrow> server_wf (fst (prepare_shutdown C s))"
  by (simp add: prepare_shutdown_def server_wf_def Let_def split: sum.splits)

lemma AuthoritativeSession_new_wf [rumsh_inv]:
  "AuthoritativeSession_new G sid codec start addr cols rows pty now = Inr s \<Longrightarrow> server_wf s"
  by (auto simp: AuthoritativeSession_new_def server_wf_def bt_wf_def ServerTerminalState_new_wf)

end
