(* ===== verification/Rumsh_Server_Out.thy ===== *)
theory Rumsh_Server_Out
  imports Rumsh_Server_Session
begin

text \<open>
  What the server session puts on the network.  One event of the session may seal control messages and queue one
  diff job; \<open>emits\<close> says that the messages of its actions carry sequence numbers taken from the session's
  counter, each used for one message only, and \<open>srv_step\<close> adds that a job's reference is a state the
  session recorded under the sequence number it names.
\<close>

section \<open>Emissions\<close>

definition is_control_msg :: "ServerPayload \<Rightarrow> bool" where
  "is_control_msg p = (case p of Frame _ \<Rightarrow> False | _ \<Rightarrow> True)"

text \<open>Between counter values \<open>n\<close> and \<open>m\<close>; \<open>M\<close> gives what each number was used for.\<close>

definition emitted ::
    "'c PacketCodec \<Rightarrow> 'c \<Rightarrow> u64 \<Rightarrow> u64 \<Rightarrow> (u64 \<rightharpoonup> (u64 \<times> ServerPayload) + 'c UpdateJob) \<Rightarrow> 'c SessionAction list \<Rightarrow> bool" where
  "emitted C cd n m M acts \<longleftrightarrow> n \<le> m \<and> (\<forall>q \<in> dom M. n < q \<and> q \<le> m)
     \<and> (\<forall>b t. Send_packet b t \<in> set acts \<longrightarrow>
          (\<exists>q ack p packets. M q = Some (Inl (ack, p)) \<and> is_control_msg p \<and> seal_server C cd q ack p = Inr packets \<and> b \<in> set packets))
     \<and> (\<forall>job t. OffloadDiffJob job t \<in> set acts \<longrightarrow> M (job_seq job) = Some (Inr job))"

definition emits :: "'c PacketCodec \<Rightarrow> 'c \<Rightarrow> u64 \<Rightarrow> u64 \<Rightarrow> 'c SessionAction list \<Rightarrow> bool" where
  "emits C cd n m acts \<longleftrightarrow> (\<exists>M. emitted C cd n m M acts)"

lemma emits_none: "n \<le> m \<Longrightarrow> (\<And>a. a \<in> set acts \<Longrightarrow> \<exists>f r t. a = ResendFragments f r t) \<Longrightarrow> emits C cd n m acts"
  unfolding emits_def emitted_def by (rule exI [of _ Map.empty]) fastforce

lemma emits_append:
  assumes "emits C cd n m a" "emits C cd m k b"
  shows "emits C cd n k (a @ b)"
proof -
  from assms obtain M N where M: "emitted C cd n m M a" and N: "emitted C cd m k N b" unfolding emits_def by blast
  have left: "(N ++ M) q = M q" if "q \<in> dom M" for q using that by (auto simp: map_add_def)
  have right: "(N ++ M) q = N q" if "q \<in> dom N" for q
  proof -
    have "q \<notin> dom M" using that M N unfolding emitted_def by (meson leD)
    then show ?thesis by (simp add: map_add_dom_app_simps)
  qed
  have "emitted C cd n k (N ++ M) (a @ b)"
    unfolding emitted_def
  proof (intro conjI allI ballI impI)
    show "n \<le> k" using M N by (auto simp: emitted_def)
    fix q assume "q \<in> dom (N ++ M)"
    then show "n < q" "q \<le> k" using M N unfolding emitted_def by (auto dest: bspec intro: le_less_trans order_trans)
  next
    fix b' t assume "Send_packet b' t \<in> set (a @ b)"
    then show "\<exists>q ack p packets. (N ++ M) q = Some (Inl (ack, p)) \<and> is_control_msg p \<and> seal_server C cd q ack p = Inr packets \<and> b' \<in> set packets"
      using M N left right unfolding emitted_def set_append Un_iff by (metis domI)
  next
    fix job t assume "OffloadDiffJob job t \<in> set (a @ b)"
    then show "(N ++ M) (job_seq job) = Some (Inr job)"
      using M N left right unfolding emitted_def set_append Un_iff by (metis domI)
  qed
  then show ?thesis unfolding emits_def by blast
qed

lemma next_seq:
  assumes "unat (n :: u64) + 1 < 2 ^ 64"
  shows "n < n + 1" "unat (n + 1) = unat n + 1" "n + 1 \<noteq> 0"
proof -
  have "unat (n + 1) = (unat n + unat (1 :: u64)) mod 2 ^ LENGTH(64)" by (rule unat_word_ariths(1))
  with assms show u: "unat (n + 1) = unat n + 1" by simp
  then show "n < n + 1" by (simp add: word_less_nat_alt)
  from u show "n + 1 \<noteq> 0" by (metis add_is_0 unat_0 zero_neq_one)
qed

lemma emits_control:
  assumes "unat n + 1 < 2 ^ 64" "is_control_msg p" "seal_server C cd (n + 1) ack p = Inr packets"
  shows "emits C cd n (n + 1) (send_all packets t)"
  unfolding emits_def emitted_def
  by (rule exI [of _ "[n + 1 \<mapsto> Inl (ack, p)]"]) (use assms next_seq(1) [OF assms(1)] in \<open>auto simp: send_all_def less_imp_le\<close>)

lemma emits_job:
  assumes "unat n + 1 < 2 ^ 64" "job_seq job = n + 1"
  shows "emits C cd n (n + 1) [OffloadDiffJob job t]"
  unfolding emits_def emitted_def
  by (rule exI [of _ "[n + 1 \<mapsto> Inr job]"]) (use assms next_seq(1) [OF assms(1)] in \<open>auto simp: less_imp_le\<close>)

section \<open>One event of the session\<close>

definition frames_of :: "'c SessionAction list \<Rightarrow> (u64 \<times> GridState) set" where
  "frames_of acts = {(job_seq job, job_current_state job) |job t. OffloadDiffJob job t \<in> set acts}"

definition job_ok :: "(u64 \<times> GridState) set \<Rightarrow> 'c \<Rightarrow> 'c UpdateJob \<Rightarrow> bool" where
  "job_ok H cd job \<longleftrightarrow> job_codec job = cd \<and> grid_wf (job_current_state job)
     \<and> (case job_ref_state job of None \<Rightarrow> job_ref_seq job = 0 | Some r \<Rightarrow> (job_ref_seq job, r) \<in> H)"

abbreviation history :: "('c, 'v, 'p) AuthoritativeSession \<Rightarrow> (u64 \<times> GridState) set" where
  "history s \<equiv> set (as_state_history s)"

definition srv_step ::
    "'c PacketCodec \<Rightarrow> ('c, 'v, 'p) AuthoritativeSession \<Rightarrow> ('c, 'v, 'p) AuthoritativeSession \<Rightarrow> 'c SessionAction list \<Rightarrow> bool" where
  "srv_step C s s' acts \<longleftrightarrow> as_codec s' = as_codec s
     \<and> emits C (as_codec s) (as_seq_num s) (as_seq_num s') acts
     \<and> (\<forall>job t. OffloadDiffJob job t \<in> set acts \<longrightarrow> job_ok (history s \<union> frames_of acts) (as_codec s) job)
     \<and> history s' \<subseteq> history s \<union> frames_of acts"

lemma frames_ofI: "OffloadDiffJob job t \<in> set acts \<Longrightarrow> (job_seq job, job_current_state job) \<in> frames_of acts"
  unfolding frames_of_def by blast

lemma frames_ofE:
  assumes "x \<in> frames_of acts"
  obtains job t where "OffloadDiffJob job t \<in> set acts" "x = (job_seq job, job_current_state job)"
  using assms unfolding frames_of_def by blast

lemma frames_of_append [simp]: "frames_of (a @ b) = frames_of a \<union> frames_of b"
  by (auto simp: frames_of_def)

lemma frames_of_simps [simp]:
  "frames_of [] = {}" "frames_of (send_all ps t) = {}" "frames_of [ResendFragments f r t] = {}"
  "frames_of [OffloadDiffJob job t] = {(job_seq job, job_current_state job)}"
  by (auto simp: frames_of_def send_all_def)

lemma job_ok_mono: "job_ok H cd job \<Longrightarrow> H \<subseteq> H' \<Longrightarrow> job_ok H' cd job"
  by (auto simp: job_ok_def split: option.splits)

lemma srv_step_append:
  assumes "srv_step C s s1 a" "srv_step C s1 s2 b"
  shows "srv_step C s s2 (a @ b)"
proof -
  have H: "history s1 \<union> frames_of b \<subseteq> history s \<union> frames_of (a @ b)" "history s \<union> frames_of a \<subseteq> history s \<union> frames_of (a @ b)"
    using assms(1) by (auto simp: srv_step_def)
  have "job_ok (history s \<union> frames_of (a @ b)) (as_codec s) job" if "OffloadDiffJob job t \<in> set (a @ b)" for job t
    using that assms job_ok_mono [OF _ H(1)] job_ok_mono [OF _ H(2)] unfolding srv_step_def by (metis Un_iff set_append)
  moreover have "emits C (as_codec s) (as_seq_num s) (as_seq_num s2) (a @ b)"
    using assms emits_append unfolding srv_step_def by metis
  ultimately show ?thesis using assms H unfolding srv_step_def by auto
qed

lemma srv_step_silent:
  "as_codec s' = as_codec s \<Longrightarrow> as_seq_num s \<le> as_seq_num s' \<Longrightarrow> history s' \<subseteq> history s \<Longrightarrow> srv_step C s s' []"
  by (auto simp: srv_step_def intro!: emits_none)

lemma srv_step_resend:
  "as_codec s' = as_codec s \<Longrightarrow> as_seq_num s' = as_seq_num s \<Longrightarrow> history s' \<subseteq> history s
    \<Longrightarrow> srv_step C s s' [ResendFragments f r t]"
  by (auto simp: srv_step_def intro!: emits_none)

text \<open>An event that fails sends nothing; what it did not send it did not record as a frame either.\<close>

lemma emits_le: "emits C cd n m acts \<Longrightarrow> n \<le> m"
  by (auto simp: emits_def emitted_def)

lemma srv_step_drop: "srv_step C s s' acts \<Longrightarrow> frames_of acts = {} \<Longrightarrow> srv_step C s s' []"
  by (auto simp: srv_step_def dest: emits_le intro!: emits_none)

definition acts_of :: "'c SessionAction list res \<Rightarrow> 'c SessionAction list" where
  "acts_of r = (case r of Inl _ \<Rightarrow> [] | Inr acts \<Rightarrow> acts)"

lemma acts_of_simps [simp]: "acts_of (Inl e) = []" "acts_of (Inr a) = a"
  by (simp_all add: acts_of_def)

section \<open>Every operation\<close>

lemma queue_frame_out:
  assumes "unat (as_seq_num s) + 1 < 2 ^ 64" "grid_wf g"
  shows "srv_step C s (fst (queue_frame P s g now)) (snd (queue_frame P s g now))"
proof -
  define q where "q = queue_frame P s g now"
  let ?h = "trim_history (as_client_ack_seq s) (as_state_history s)"
  define ref where "ref = (if saturating_sub (as_seq_num s) (as_client_ack_seq s) > 5 then None else map_of ?h (as_client_ack_seq s))"
  define job where "job = \<lparr>job_seq = as_seq_num s + 1, job_ack_seq = as_ack_seq_num s,
    job_ref_seq = (if ref \<noteq> None then as_client_ack_seq s else 0), job_ref_state = ref,
    job_current_state = g, job_codec = as_codec s,
    job_is_echo_recommended = snd (pty_echo_recommended P (as_pty s))\<rparr>"
  define t where "t = as_current_client_addr s"
  have q: "snd q = [OffloadDiffJob job t]"
    unfolding q_def queue_frame_eq Let_def job_def ref_def t_def by simp
  have "ref = Some r \<Longrightarrow> (as_client_ack_seq s, r) \<in> set ?h" for r
    unfolding ref_def by (auto split: if_splits dest: map_of_SomeD)
  then have ref: "case job_ref_state job of None \<Rightarrow> job_ref_seq job = 0 | Some r \<Rightarrow> (job_ref_seq job, r) \<in> set ?h"
    by (auto simp: job_def split: option.splits)
  have job: "job_seq job = as_seq_num s + 1" "job_current_state job = g" "job_codec job = as_codec s"
    by (simp_all add: job_def)
  have "set ?h \<subseteq> history s" by (rule trim_history_props)
  then have "job_ok (history s \<union> frames_of (snd q)) (as_codec s) job"
    using ref job assms(2) by (auto simp: job_ok_def split: option.splits)
  moreover have "history (fst q) \<subseteq> history s \<union> frames_of (snd q)"
    using queue_frame_history [of P s g now] q job by (simp add: q_def [symmetric])
  moreover have "as_codec (fst q) = as_codec s" "as_seq_num (fst q) = as_seq_num s + 1"
    by (simp_all add: q_def queue_frame_eq Let_def)
  ultimately have "srv_step C s (fst q) (snd q)"
    using emits_job [OF assms(1) job(1), of C "as_codec s" t] q by (simp add: srv_step_def)
  then show ?thesis by (simp add: q_def)
qed

lemma check_sync_out:
  assumes "server_wf s" "unat (as_seq_num s) + 1 < 2 ^ 64"
  shows "srv_step C s (fst (check_sync G P s now)) (acts_of (snd (check_sync G P s now)))"
proof (rule check_sync_cases [OF assms(1), of G P now])
  fix acc ts d r
  assume "check_sync G P s now = (s\<lparr>as_pty_bytes_acc := acc, as_term_state := ts, as_dirty := d\<rparr>, r)"
    "r = Inr [] \<or> r = Inl IndexPanic"
  then show ?thesis by (auto intro!: srv_step_silent)
next
  fix acc ts g
  let ?s = "s\<lparr>as_pty_bytes_acc := acc, as_term_state := ts\<rparr>"
  assume "check_sync G P s now = (fst (queue_frame P ?s g now), Inr (snd (queue_frame P ?s g now)))" "grid_wf g"
  moreover have "srv_step C ?s s' acts \<longleftrightarrow> srv_step C s s' acts" for s' acts by (simp add: srv_step_def)
  ultimately show ?thesis using queue_frame_out [of ?s g C P now] assms(2) by simp
qed

lemma then_sync_out:
  assumes "srv_step C s0 s acts" "frames_of acts = {}" "server_wf s" "unat (as_seq_num s) + 1 < 2 ^ 64"
  shows "srv_step C s0 (fst (then_sync G P s now acts)) (acts_of (snd (then_sync G P s now acts)))"
proof (cases "check_sync G P s now")
  case (Pair s1 r)
  note out = check_sync_out [OF assms(3,4), of C G P now, unfolded Pair]
  show ?thesis
  proof (cases r)
    case (Inl e)
    with out srv_step_drop [OF assms(1,2)] have "srv_step C s0 s1 ([] @ [])" by (intro srv_step_append) auto
    with Inl Pair show ?thesis by (simp add: then_sync_def)
  next
    case (Inr more)
    with out assms(1) Pair show ?thesis by (simp add: then_sync_def srv_step_append)
  qed
qed

lemma process_payload_out:
  assumes "unat (as_seq_num s) + 1 < 2 ^ 64"
  shows "srv_step C s (fst (process_payload C G P s p)) (acts_of (snd (process_payload C G P s p)))
    \<and> frames_of (acts_of (snd (process_payload C G P s p))) = {}
    \<and> unat (as_seq_num (fst (process_payload C G P s p))) \<le> unat (as_seq_num s) + 1"
proof (cases p)
  case C_KeepAlive
  let ?s = "s\<lparr>as_seq_num := as_seq_num s + 1\<rparr>"
  note n = next_seq [OF assms]
  show ?thesis
  proof (cases "seal_server C (as_codec s) (as_seq_num s + 1) (as_ack_seq_num s) S_KeepAlive")
    case (Inl e)
    then show ?thesis using C_KeepAlive n by (auto simp: process_payload_def Let_def less_imp_le intro!: srv_step_silent)
  next
    case (Inr packets)
    have "emits C (as_codec s) (as_seq_num s) (as_seq_num s + 1) (send_all packets t)" for t
      using emits_control [OF assms _ Inr] by (simp add: is_control_msg_def)
    then show ?thesis using C_KeepAlive Inr n
      by (auto simp: process_payload_def Let_def srv_step_def send_all_def frames_of_def)
  qed
qed (auto simp: process_payload_def intro!: srv_step_silent srv_step_resend)

lemma process_payloads_out:
  assumes "unat (as_seq_num s) + length ps < 2 ^ 64"
  shows "srv_step C s (fst (process_payloads C G P s ps)) (acts_of (snd (process_payloads C G P s ps)))
    \<and> frames_of (acts_of (snd (process_payloads C G P s ps))) = {}
    \<and> unat (as_seq_num (fst (process_payloads C G P s ps))) \<le> unat (as_seq_num s) + length ps"
  using assms
proof (induction ps arbitrary: s)
  case Nil
  then show ?case by (auto intro!: srv_step_silent)
next
  case (Cons x ps)
  obtain q p where x: "x = (q, p)" by (cases x)
  obtain s1 r1 where p1: "process_payload C G P s p = (s1, r1)" by force
  have "unat (as_seq_num s) + 1 < 2 ^ 64" using Cons.prems by simp
  note h1 = process_payload_out [OF this, of C G P p, unfolded p1, simplified]
  show ?case
  proof (cases r1)
    case (Inl e)
    then show ?thesis using h1 p1 x by simp
  next
    case (Inr a1)
    obtain s2 r2 where p2: "process_payloads C G P s1 ps = (s2, r2)" by force
    have "unat (as_seq_num s1) + length ps < 2 ^ 64" using h1 Cons.prems by simp
    note h2 = Cons.IH [OF this, unfolded p2, simplified]
    show ?thesis
    proof (cases r2)
      case (Inl e)
      with Inr h1 h2 srv_step_append [OF srv_step_drop [of C s s1 a1], of s2 "[]"] p1 p2 x show ?thesis by simp
    next
      case (Inr a2)
      with \<open>r1 = Inr a1\<close> h1 h2 srv_step_append [of C s s1 a1 s2 a2] p1 p2 x show ?thesis by simp
    qed
  qed
qed

lemma drain_length: "length (snd (snd (drain buf e))) + length (fst (drain buf e)) \<le> length buf"
proof (induction buf e rule: drain.induct)
  case (1 buf e)
  show ?case
  proof (cases "map_of buf e")
    case None
    then show ?thesis by (subst drain.simps, subst (2) drain.simps) simp
  next
    case (Some payload)
    then have "e \<in> fst ` set buf" by (force dest: map_of_SomeD)
    then have "length (map_remove e buf) < length buf" by (rule btree.length_remove_less)
    with "1.IH" [OF Some] Some show ?thesis
      by (subst drain.simps, subst (2) drain.simps) (auto split: prod.splits)
  qed
qed

text \<open>Room for every sequence number one event can use.\<close>

definition seq_room :: "('c, 'v, 'p) AuthoritativeSession \<Rightarrow> bool" where
  "seq_room s \<longleftrightarrow> unat (as_seq_num s) + length (as_out_of_order_packets s) + 2 < 2 ^ 64"

lemma handle_in_order_out:
  assumes "server_wf s" "seq_room s"
  shows "srv_step C s (fst (handle_in_order C G P s seq ack payload now)) (acts_of (snd (handle_in_order C G P s seq ack payload now)))"
proof -
  obtain buf expected rest where d: "drain (as_out_of_order_packets s) (as_expected_client_seq s + 1) = (buf, expected, rest)"
    by (metis prod_cases3)
  define s1 where "s1 = s\<lparr>as_out_of_order_packets := buf, as_expected_client_seq := expected,
    as_ack_seq_num := expected - 1, as_client_ack_seq := ack\<rparr>"
  let ?ps = "(seq, payload) # rest"
  have wf: "server_wf s1"
    using assms(1) drain_wf [of "as_out_of_order_packets s" "as_expected_client_seq s + 1"] d by (simp add: s1_def server_wf_def)
  have len: "unat (as_seq_num s1) + length ?ps + 1 < 2 ^ 64"
    using assms(2) drain_length [of "as_out_of_order_packets s" "as_expected_client_seq s + 1"] d by (simp add: s1_def seq_room_def)
  have s01: "srv_step C s s1 []" by (rule srv_step_silent) (simp_all add: s1_def)
  obtain s2 r2 where p: "process_payloads C G P s1 ?ps = (s2, r2)" by force
  have wf2: "server_wf s2" using process_payloads_wf [OF wf, of C G P ?ps] p by simp
  have o: "srv_step C s1 s2 (acts_of r2)" "frames_of (acts_of r2) = {}" "unat (as_seq_num s2) \<le> unat (as_seq_num s1) + length ?ps"
    using process_payloads_out [of s1 ?ps C G P] len unfolding p by simp_all
  from srv_step_append [OF s01 o(1)] have o1: "srv_step C s s2 (acts_of r2)" by simp
  have eq: "handle_in_order C G P s seq ack payload now = st_then (s2, r2) (\<lambda>s2 actions. then_sync G P s2 now actions)"
    using d p by (simp add: handle_in_order_def s1_def Let_def del: process_payloads.simps)
  show ?thesis
  proof (cases r2)
    case (Inl e)
    then show ?thesis unfolding eq using o1 by simp
  next
    case (Inr acts)
    then show ?thesis unfolding eq using then_sync_out [of C s s2 acts G P now] o o1 wf2 len by simp
  qed
qed

lemma handle_transient_out:
  assumes "server_wf s" "seq_room s"
  shows "srv_step C s (fst (handle_transient G P s ack payload now)) (acts_of (snd (handle_transient G P s ack payload now)))"
proof -
  define s1 where "s1 = (if ack > as_client_ack_seq s then s\<lparr>as_client_ack_seq := ack\<rparr> else s)"
  define acts where "acts = (case payload of FragmentNack f r \<Rightarrow> [ResendFragments f r (as_current_client_addr s1) :: 'a SessionAction] | _ \<Rightarrow> [])"
  have s1: "as_codec s1 = as_codec s" "as_seq_num s1 = as_seq_num s" "as_state_history s1 = as_state_history s"
    by (simp_all add: s1_def)
  have "srv_step C s s1 acts" "frames_of acts = {}"
    using s1 by (cases payload; auto simp: acts_def intro!: srv_step_silent srv_step_resend)+
  moreover have "server_wf s1" using assms(1) by (simp add: s1_def server_wf_def)
  moreover have "unat (as_seq_num s1) + 1 < 2 ^ 64" using assms(2) s1 by (simp add: seq_room_def)
  ultimately have "srv_step C s (fst (then_sync G P s1 now acts)) (acts_of (snd (then_sync G P s1 now acts)))"
    by (rule then_sync_out)
  then show ?thesis unfolding handle_transient_def Let_def s1_def [symmetric] acts_def [symmetric] .
qed

lemma handle_handshake_out:
  assumes "server_wf s" "seq_room s"
  shows "srv_step C s (fst (handle_handshake C G P s q addr now)) (acts_of (snd (handle_handshake C G P s q addr now)))"
proof -
  define s1 where "s1 = s\<lparr>as_current_client_addr := addr, as_last_recv_time := now, as_ack_seq_num := q,
      as_expected_client_seq := q + 1, as_client_ack_seq := 0, as_out_of_order_packets := [],
      as_state_history := [], as_dirty := True, as_seq_num := as_seq_num s + 1\<rparr>"
  have room: "unat (as_seq_num s) + 1 < 2 ^ 64" "unat (as_seq_num s1) + 1 < 2 ^ 64"
    using assms(2) next_seq(2) [of "as_seq_num s"] by (simp_all add: seq_room_def s1_def)
  have wf: "server_wf s1" using assms(1) by (simp add: s1_def server_wf_def bt_wf_def)
  consider "as_seq_num s > 0 \<and> duration_since now (as_last_recv_time s) < from_secs 5"
    | e where "\<not> (as_seq_num s > 0 \<and> duration_since now (as_last_recv_time s) < from_secs 5)"
        "seal_server C (as_codec s) (as_seq_num s + 1) q (HandshakeAck (as_session_id s)) = Inl e"
    | packets where "\<not> (as_seq_num s > 0 \<and> duration_since now (as_last_recv_time s) < from_secs 5)"
        "seal_server C (as_codec s) (as_seq_num s + 1) q (HandshakeAck (as_session_id s)) = Inr packets"
    by (metis sum.exhaust)
  then show ?thesis
  proof cases
    case 1
    then show ?thesis by (auto simp: handle_handshake_def intro!: srv_step_silent)
  next
    case (2 e)
    have "srv_step C s s1 []"
      by (rule srv_step_silent) (use next_seq(1) [OF room(1)] in \<open>simp_all add: s1_def less_imp_le\<close>)
    with 2 show ?thesis by (auto simp: handle_handshake_def Let_def s1_def)
  next
    case (3 packets)
    have "srv_step C s s1 (send_all packets addr)"
      using emits_control [OF room(1) _ 3(2), of addr] by (auto simp: srv_step_def s1_def is_control_msg_def send_all_def)
    from then_sync_out [OF this _ wf room(2), of G P now] 3 show ?thesis
      by (auto simp: handle_handshake_def Let_def s1_def)
  qed
qed

lemma server_feed_packet_out:
  assumes "server_wf s" "seq_room s"
  shows "srv_step C s (fst (server_feed_packet C G P s bs addr now)) (acts_of (snd (server_feed_packet C G P s bs addr now)))"
proof (cases "open_client C (as_codec s) bs")
  case (Inl e)
  then show ?thesis by (auto simp: server_feed_packet_def intro!: srv_step_silent)
next
  case (Inr r)
  obtain pkt payload st where r: "r = (pkt, payload, st)" by (cases r)
  let ?s = "s\<lparr>as_last_recv_time := now, as_current_client_addr := addr\<rparr>"
  have s: "server_wf ?s" "seq_room ?s" using assms by (simp_all add: server_wf_def seq_room_def)
  have eq: "srv_step C ?s s' acts \<longleftrightarrow> srv_step C s s' acts" for s' acts by (simp add: srv_step_def)
  show ?thesis
    using Inr r handle_in_order_out [OF s, of C, unfolded eq] handle_transient_out [OF s, of C, unfolded eq] handle_handshake_out [OF assms]
    by (simp add: server_feed_packet_def Let_def srv_step_silent)
qed

lemma on_pty_bytes_out: "srv_step C s (on_pty_bytes G P s data now) []"
  by (rule srv_step_silent) (simp_all add: on_pty_bytes_def split: prod.splits)

text \<open>The shutdown message goes out as one datagram, the last of the sealed packets.\<close>

lemma prepare_shutdown_out:
  assumes "seq_room s" "\<And>q a ps. seal_server C (as_codec s) q a S_Shutdown = Inr ps \<Longrightarrow> ps \<noteq> []"
  shows "srv_step C s (fst (prepare_shutdown C s)) (case snd (prepare_shutdown C s) of Inl _ \<Rightarrow> [] | Inr a \<Rightarrow> [a])"
proof -
  have room: "unat (as_seq_num s) + 1 < 2 ^ 64" using assms(1) by (simp add: seq_room_def)
  let ?s = "s\<lparr>as_seq_num := as_seq_num s + 1\<rparr>"
  show ?thesis
  proof (cases "seal_server C (as_codec s) (as_seq_num s + 1) 0 S_Shutdown")
    case (Inl e)
    then show ?thesis using next_seq(1) [OF room]
      by (auto simp: prepare_shutdown_def Let_def less_imp_le intro!: srv_step_silent)
  next
    case (Inr packets)
    then have ne: "packets \<noteq> []" by (rule assms(2))
    have "emitted C (as_codec s) (as_seq_num s) (as_seq_num s + 1) [as_seq_num s + 1 \<mapsto> Inl (0, S_Shutdown)] [Send_packet (last packets) t]" for t
      unfolding emitted_def using next_seq(1) [OF room] Inr ne by (auto simp: less_imp_le is_control_msg_def)
    then have "emits C (as_codec s) (as_seq_num s) (as_seq_num s + 1) [Send_packet (last packets) t]" for t
      unfolding emits_def by blast
    then show ?thesis using Inr ne by (simp add: prepare_shutdown_def Let_def srv_step_def frames_of_def)
  qed
qed

lemma server_on_tick_out:
  "server_wf s \<Longrightarrow> seq_room s \<Longrightarrow> srv_step C s (fst (server_on_tick G P s now)) (acts_of (snd (server_on_tick G P s now)))"
  using check_sync_out [of s C G P now] by (simp add: server_on_tick_def seq_room_def)

end
