(* ===== verification/Rumsh_Terminal.thy ===== *)
theory Rumsh_Terminal
  imports Rumsh_Grid
begin

text \<open>
  The passive half of \<open>src/client/terminal.rs\<close>: \<open>TerminalFrame\<close>, the snapshot the renderer paints, and how
  a server grid is merged into it.  The three \<open>f32\<close> telemetry fields have the type variable \<open>'f\<close>; the
  floating-point operations the source applies to them are the fields of \<open>f32_ops\<close>, a parameter of the
  definitions that compute telemetry, and no theorem depends on them.
\<close>

section \<open>Definitions\<close>

record 'f f32_ops =
  f32_of_nat :: "nat \<Rightarrow> 'f"
  f32_tenth :: 'f
  f32_fifth :: 'f
  f32_four_fifths :: 'f
  f32_add :: "'f \<Rightarrow> 'f \<Rightarrow> 'f"
  f32_sub :: "'f \<Rightarrow> 'f \<Rightarrow> 'f"
  f32_mul :: "'f \<Rightarrow> 'f \<Rightarrow> 'f"
  f32_div :: "'f \<Rightarrow> 'f \<Rightarrow> 'f"
  f32_abs :: "'f \<Rightarrow> 'f"
  f32_less :: "'f \<Rightarrow> 'f \<Rightarrow> bool"
  f32_round :: "'f \<Rightarrow> 'f"
  f32_to_u32 :: "'f \<Rightarrow> u32"
  f32_as_secs :: "duration \<Rightarrow> 'f"

record 'f TerminalFrame =
  tf_cols :: u16
  tf_rows :: u16
  tf_cell_cache :: "LocalCellData list"
  tf_row_dirty :: "bool list"
  tf_cursor_x :: u16
  tf_cursor_y :: u16
  tf_cursor_visible :: bool
  tf_dirty :: bool
  tf_reconnecting :: bool
  tf_last_seq :: u64
  tf_overlay_enabled :: bool
  tf_rtt_ms :: u32
  tf_packet_loss_pct :: 'f
  tf_bandwidth_kb_s :: 'f
  tf_compression_ratio :: 'f
  tf_fps :: u32
  tf_clear_requested :: bool

text \<open>\<open>str::chars().next()\<close>: the first code point of a UTF-8 string.\<close>

definition first_char :: "bytes \<Rightarrow> u32 option" where
  "first_char s =
     (let at = (\<lambda>i. if i < length s then ucast (s ! i) else 0 :: u32);
          tail = (\<lambda>i. at i AND 63)
      in if s = [] then None
         else if at 0 < 128 then Some (at 0)
         else if at 0 < 224 then Some (push_bit 6 (at 0 AND 31) OR tail 1)
         else if at 0 < 240 then Some (push_bit 12 (at 0 AND 15) OR push_bit 6 (tail 1) OR tail 2)
         else Some (push_bit 18 (at 0 AND 7) OR push_bit 12 (tail 1) OR push_bit 6 (tail 2) OR tail 3))"

definition grapheme_width :: "bytes \<Rightarrow> nat" where
  "grapheme_width g =
     (case first_char g of
        None \<Rightarrow> 0
      | Some val \<Rightarrow>
          if (0x4e00 \<le> val \<and> val \<le> 0x9fff) \<or> (0xac00 \<le> val \<and> val \<le> 0xd7af)
            \<or> (0x3000 \<le> val \<and> val \<le> 0x303f) \<or> (0x3040 \<le> val \<and> val \<le> 0x30ff)
            \<or> (0xff00 \<le> val \<and> val \<le> 0xffef) \<or> (0x1f300 \<le> val \<and> val \<le> 0x1f9ff)
          then 2 else 1)"

definition TerminalFrame_new :: "'f f32_ops \<Rightarrow> u16 \<Rightarrow> u16 \<Rightarrow> 'f TerminalFrame" where
  "TerminalFrame_new F cols rows =
     \<lparr>tf_cols = cols, tf_rows = rows,
      tf_cell_cache = replicate (unat cols * unat rows) default_cell,
      tf_row_dirty = replicate (unat rows) True,
      tf_cursor_x = 0, tf_cursor_y = 0, tf_cursor_visible = False, tf_dirty = True,
      tf_reconnecting = False, tf_last_seq = 0, tf_overlay_enabled = False, tf_rtt_ms = 0,
      tf_packet_loss_pct = f32_of_nat F 0, tf_bandwidth_kb_s = f32_of_nat F 0,
      tf_compression_ratio = f32_of_nat F 1, tf_fps = 0, tf_clear_requested = False\<rparr>"

text \<open>The inner loop of \<open>update_from_grid_state\<close>: the cells of one row, and whether one changed.\<close>

fun merge_cells ::
    "LocalCellData list \<Rightarrow> LocalCellData list \<Rightarrow> nat list \<Rightarrow> LocalCellData list \<times> bool" where
  "merge_cells cache new [] = (cache, False)"
| "merge_cells cache new (idx # idxs) =
     (if idx < length cache \<and> idx < length new \<and> cache ! idx \<noteq> new ! idx
      then (fst (merge_cells (cache[idx := new ! idx]) new idxs), True)
      else merge_cells cache new idxs)"

definition row_indices :: "u16 \<Rightarrow> nat \<Rightarrow> nat list" where
  "row_indices cols y = map (\<lambda>x. y * unat cols + x) [0..<unat cols]"

fun merge_rows :: "'f TerminalFrame \<Rightarrow> GridState \<Rightarrow> nat list \<Rightarrow> 'f TerminalFrame \<times> unit res" where
  "merge_rows f new_state [] = (f, Inr ())"
| "merge_rows f new_state (y # ys) =
     (case merge_cells (tf_cell_cache f) (gs_cells new_state) (row_indices (tf_cols f) y) of
        (cache, changed) \<Rightarrow>
          if changed then
            (case vec_set (tf_row_dirty f) y True of
               Inl e \<Rightarrow> (f\<lparr>tf_cell_cache := cache\<rparr>, Inl e)
             | Inr row_dirty \<Rightarrow>
                 merge_rows (f\<lparr>tf_cell_cache := cache, tf_row_dirty := row_dirty, tf_dirty := True\<rparr>) new_state ys)
          else merge_rows (f\<lparr>tf_cell_cache := cache\<rparr>) new_state ys)"

definition resize_frame :: "'f TerminalFrame \<Rightarrow> GridState \<Rightarrow> 'f TerminalFrame \<times> bool" where
  "resize_frame f new_state =
     (if tf_cols f \<noteq> gs_cols new_state \<or> tf_rows f \<noteq> gs_rows new_state then
        (f\<lparr>tf_cols := gs_cols new_state, tf_rows := gs_rows new_state,
           tf_cell_cache := replicate (unat (gs_cols new_state) * unat (gs_rows new_state)) default_cell,
           tf_row_dirty := replicate (unat (gs_rows new_state)) True,
           tf_clear_requested := True\<rparr>, True)
      else (f, False))"

definition merge_cursor :: "'f TerminalFrame \<Rightarrow> GridState \<Rightarrow> 'f TerminalFrame" where
  "merge_cursor f new_state =
     (if tf_cursor_x f \<noteq> gs_cursor_x new_state \<or> tf_cursor_y f \<noteq> gs_cursor_y new_state
         \<or> tf_cursor_visible f \<noteq> gs_cursor_visible new_state
      then f\<lparr>tf_cursor_x := gs_cursor_x new_state, tf_cursor_y := gs_cursor_y new_state,
             tf_cursor_visible := gs_cursor_visible new_state, tf_dirty := True\<rparr>
      else f)"

definition update_from_grid_state :: "'f TerminalFrame \<Rightarrow> GridState \<Rightarrow> 'f TerminalFrame \<times> bool res" where
  "update_from_grid_state f new_state =
     (case resize_frame f new_state of
        (f1, resized) \<Rightarrow>
          st_then (merge_rows f1 new_state [0..<unat (tf_rows f1)]) (\<lambda>f2 _.
            (merge_cursor f2 new_state, Inr resized)))"

text \<open>\<open>copy_from_slice\<close> of a slice of the same length is a copy, so both branches of the source copy.\<close>

definition copy_to :: "'f TerminalFrame \<Rightarrow> 'f TerminalFrame \<Rightarrow> 'f TerminalFrame" where
  "copy_to f dest =
     dest\<lparr>tf_cols := tf_cols f, tf_rows := tf_rows f,
          tf_cell_cache :=
            (if length (tf_cell_cache dest) \<noteq> length (tf_cell_cache f) then tf_cell_cache f else tf_cell_cache f),
          tf_row_dirty :=
            (if length (tf_row_dirty dest) \<noteq> length (tf_row_dirty f) then tf_row_dirty f else tf_row_dirty f),
          tf_cursor_x := tf_cursor_x f, tf_cursor_y := tf_cursor_y f,
          tf_cursor_visible := tf_cursor_visible f, tf_dirty := tf_dirty f,
          tf_reconnecting := tf_reconnecting f, tf_last_seq := tf_last_seq f,
          tf_overlay_enabled := tf_overlay_enabled f, tf_rtt_ms := tf_rtt_ms f,
          tf_packet_loss_pct := tf_packet_loss_pct f, tf_bandwidth_kb_s := tf_bandwidth_kb_s f,
          tf_compression_ratio := tf_compression_ratio f, tf_fps := tf_fps f,
          tf_clear_requested := tf_clear_requested f\<rparr>"

section \<open>Merging a grid\<close>

definition frame_wf :: "'f TerminalFrame \<Rightarrow> bool" where
  "frame_wf f \<longleftrightarrow> length (tf_cell_cache f) = unat (tf_cols f) * unat (tf_rows f)
     \<and> length (tf_row_dirty f) = unat (tf_rows f)"

lemma TerminalFrame_new_wf [rumsh_inv]: "frame_wf (TerminalFrame_new F cols rows)"
  by (simp add: frame_wf_def TerminalFrame_new_def)

lemma resize_frame_wf [rumsh_inv]: "frame_wf f \<Longrightarrow> frame_wf (fst (resize_frame f g))"
  by (simp add: frame_wf_def resize_frame_def)

lemma resize_frame_dims [simp]:
  "tf_cols (fst (resize_frame f g)) = gs_cols g" "tf_rows (fst (resize_frame f g)) = gs_rows g"
  by (auto simp: resize_frame_def)

lemma copy_to_eq [simp]: "copy_to f dest = f\<lparr>TerminalFrame.more := TerminalFrame.more dest\<rparr>"
  by (simp add: copy_to_def)

lemma merge_cells_snd:
  "set idxs \<subseteq> {..<length cache} \<Longrightarrow> length new = length cache \<Longrightarrow>
   snd (merge_cells cache new idxs) \<longleftrightarrow> (\<exists>i \<in> set idxs. cache ! i \<noteq> new ! i)"
  by (induction idxs) auto

lemma merge_cells_length [simp]: "length (fst (merge_cells cache new idxs)) = length cache"
  by (induction cache new idxs rule: merge_cells.induct) auto

lemma merge_cells_nth:
  assumes "set idxs \<subseteq> {..<length cache}" "length new = length cache" "j < length cache"
  shows "fst (merge_cells cache new idxs) ! j = (if j \<in> set idxs then new ! j else cache ! j)"
  using assms
proof (induction idxs arbitrary: cache)
  case (Cons i idxs)
  from Cons.IH [of "cache[i := new ! i]"] Cons.IH [of cache] Cons.prems show ?case
    by (auto simp: nth_list_update)
qed simp

lemma set_row_indices: "set (row_indices cols y) = {i. i div unat cols = y \<and> cols \<noteq> 0}"
proof (cases "cols = 0")
  case False
  then have pos: "0 < unat cols" by (simp add: unat_gt_0)
  have "i \<in> set (row_indices cols y) \<longleftrightarrow> i div unat cols = y" for i
  proof
    assume "i div unat cols = y"
    then have "i = y * unat cols + i mod unat cols" by auto
    moreover have "i mod unat cols < unat cols" using pos by simp
    ultimately show "i \<in> set (row_indices cols y)" by (auto simp: row_indices_def)
  qed (auto simp: row_indices_def algebra_simps intro!: div_nat_eqI)
  with False show ?thesis by auto
qed (simp add: row_indices_def)

definition row_differs :: "'f TerminalFrame \<Rightarrow> GridState \<Rightarrow> nat \<Rightarrow> bool" where
  "row_differs f g y \<longleftrightarrow> (\<exists>i \<in> set (row_indices (tf_cols f) y). tf_cell_cache f ! i \<noteq> gs_cells g ! i)"

lemma row_indices_bound:
  assumes "y < n" shows "set (row_indices cols y) \<subseteq> {..<unat cols * n}"
  using assms by (auto simp: set_row_indices less_mult_imp_div_less div_less_iff_less_mult unat_gt_0 mult.commute)

text \<open>The frame after merging one row: its cells are the grid's, and a difference is noted.\<close>

definition merged_row :: "'f TerminalFrame \<Rightarrow> GridState \<Rightarrow> nat \<Rightarrow> 'f TerminalFrame" where
  "merged_row f g y = f\<lparr>tf_cell_cache := fst (merge_cells (tf_cell_cache f) (gs_cells g) (row_indices (tf_cols f) y)),
     tf_row_dirty := (tf_row_dirty f)[y := tf_row_dirty f ! y \<or> row_differs f g y], tf_dirty := tf_dirty f \<or> row_differs f g y\<rparr>"

lemma frame_row_indices:
  "frame_wf f \<Longrightarrow> y < unat (tf_rows f) \<Longrightarrow> set (row_indices (tf_cols f) y) \<subseteq> {..<length (tf_cell_cache f)}"
  using row_indices_bound by (simp add: frame_wf_def)

lemma merge_rows_step:
  assumes "frame_wf f" "length (gs_cells g) = length (tf_cell_cache f)" "y < unat (tf_rows f)"
  shows "merge_rows f g (y # ys) = merge_rows (merged_row f g y) g ys"
proof -
  have "snd (merge_cells (tf_cell_cache f) (gs_cells g) (row_indices (tf_cols f) y)) \<longleftrightarrow> row_differs f g y"
    using merge_cells_snd [OF frame_row_indices [OF assms(1,3)] assms(2)] by (simp add: row_differs_def)
  moreover have "y < length (tf_row_dirty f)" using assms(1,3) by (simp add: frame_wf_def)
  ultimately show ?thesis
    by (cases "merge_cells (tf_cell_cache f) (gs_cells g) (row_indices (tf_cols f) y)")
       (simp add: merged_row_def list_update_same_conv)
qed

lemma merged_row_nth:
  assumes "frame_wf f" "length (gs_cells g) = length (tf_cell_cache f)" "y < unat (tf_rows f)" "j < length (tf_cell_cache f)"
  shows "tf_cell_cache (merged_row f g y) ! j = (if j div unat (tf_cols f) = y then gs_cells g ! j else tf_cell_cache f ! j)"
proof -
  have "tf_cols f \<noteq> 0" using assms(1,4) by (auto simp: frame_wf_def)
  then show ?thesis
    using merge_cells_nth [OF frame_row_indices [OF assms(1,3)] assms(2,4)] by (simp add: merged_row_def set_row_indices)
qed

lemma merged_row_differs:
  assumes "frame_wf f" "length (gs_cells g) = length (tf_cell_cache f)" "y < unat (tf_rows f)" "r < unat (tf_rows f)" "r \<noteq> y"
  shows "row_differs (merged_row f g y) g r \<longleftrightarrow> row_differs f g r"
proof -
  have "tf_cell_cache (merged_row f g y) ! i = tf_cell_cache f ! i" if "i \<in> set (row_indices (tf_cols f) r)" for i
    using that merged_row_nth [OF assms(1-3), of i] frame_row_indices [OF assms(1,4)] assms(5) by (auto simp: set_row_indices)
  moreover have "tf_cols (merged_row f g y) = tf_cols f" by (simp add: merged_row_def)
  ultimately show ?thesis by (simp add: row_differs_def)
qed

lemma merge_rows_ok:
  assumes "frame_wf f" "length (gs_cells g) = length (tf_cell_cache f)" "distinct ys" "set ys \<subseteq> {..<unat (tf_rows f)}"
  shows "\<exists>cache rd d. merge_rows f g ys =
      (f\<lparr>tf_cell_cache := cache, tf_row_dirty := rd, tf_dirty := d\<rparr>, Inr ())
    \<and> length cache = length (tf_cell_cache f) \<and> length rd = length (tf_row_dirty f)
    \<and> (\<forall>j < length cache. cache ! j = (if j div unat (tf_cols f) \<in> set ys then gs_cells g ! j else tf_cell_cache f ! j))
    \<and> (\<forall>y < length rd. rd ! y \<longleftrightarrow> tf_row_dirty f ! y \<or> (y \<in> set ys \<and> row_differs f g y))
    \<and> (d \<longleftrightarrow> tf_dirty f \<or> (\<exists>y \<in> set ys. row_differs f g y))"
  using assms
proof (induction ys arbitrary: f)
  case Nil
  then show ?case by (intro exI [of _ "tf_cell_cache f"] exI [of _ "tf_row_dirty f"] exI [of _ "tf_dirty f"]) simp
next
  case (Cons y ys)
  define f1 where "f1 = merged_row f g y"
  have y: "y < unat (tf_rows f)" "y < length (tf_row_dirty f)" using Cons.prems(1,4) by (simp_all add: frame_wf_def)
  note row = merge_rows_step [OF Cons.prems(1,2) y(1), folded f1_def] merged_row_nth [OF Cons.prems(1,2) y(1), folded f1_def]
    merged_row_differs [OF Cons.prems(1,2) y(1), folded f1_def]
  have f1: "frame_wf f1" "length (gs_cells g) = length (tf_cell_cache f1)" "set ys \<subseteq> {..<unat (tf_rows f1)}"
    using Cons.prems by (auto simp: f1_def merged_row_def frame_wf_def)
  have rd1: "tf_row_dirty f1 ! r \<longleftrightarrow> tf_row_dirty f ! r \<or> (r = y \<and> row_differs f g y)" if "r < length (tf_row_dirty f)" for r
    using y(2) that by (auto simp: f1_def merged_row_def nth_list_update)
  have diff: "row_differs f1 g r \<longleftrightarrow> row_differs f g r" if "r \<in> set ys" for r
    using that Cons.prems(3,4) by (intro row(3)) auto
  obtain cache rd d where IH: "merge_rows f1 g ys = (f1\<lparr>tf_cell_cache := cache, tf_row_dirty := rd, tf_dirty := d\<rparr>, Inr ())"
    "length cache = length (tf_cell_cache f1)" "length rd = length (tf_row_dirty f1)"
    "\<forall>j < length cache. cache ! j = (if j div unat (tf_cols f1) \<in> set ys then gs_cells g ! j else tf_cell_cache f1 ! j)"
    "\<forall>y < length rd. rd ! y \<longleftrightarrow> tf_row_dirty f1 ! y \<or> (y \<in> set ys \<and> row_differs f1 g y)"
    "d \<longleftrightarrow> tf_dirty f1 \<or> (\<exists>y \<in> set ys. row_differs f1 g y)"
    using Cons.IH [OF f1(1,2) _ f1(3)] Cons.prems(3) by auto
  show ?case
  proof (intro exI conjI)
    show "merge_rows f g (y # ys) = (f\<lparr>tf_cell_cache := cache, tf_row_dirty := rd, tf_dirty := d\<rparr>, Inr ())"
      unfolding row(1) IH(1) by (simp add: f1_def merged_row_def)
    show "length cache = length (tf_cell_cache f)" "length rd = length (tf_row_dirty f)"
      using IH(2,3) by (simp_all add: f1_def merged_row_def)
    show "\<forall>j < length cache. cache ! j =
        (if j div unat (tf_cols f) \<in> set (y # ys) then gs_cells g ! j else tf_cell_cache f ! j)"
      using IH(2,4) row(2) by (simp add: f1_def merged_row_def)
    show "\<forall>r < length rd. rd ! r \<longleftrightarrow> tf_row_dirty f ! r \<or> (r \<in> set (y # ys) \<and> row_differs f g r)"
      using IH(3,5) diff rd1 by (auto simp: f1_def merged_row_def)
    show "d \<longleftrightarrow> tf_dirty f \<or> (\<exists>r \<in> set (y # ys). row_differs f g r)"
      using IH(6) diff by (auto simp: f1_def merged_row_def)
  qed
qed

lemma merge_cursor_eq:
  "merge_cursor f g = f\<lparr>tf_cursor_x := gs_cursor_x g, tf_cursor_y := gs_cursor_y g,
     tf_cursor_visible := gs_cursor_visible g,
     tf_dirty := tf_dirty f \<or> tf_cursor_x f \<noteq> gs_cursor_x g \<or> tf_cursor_y f \<noteq> gs_cursor_y g
       \<or> tf_cursor_visible f \<noteq> gs_cursor_visible g\<rparr>"
  by (cases f) (simp add: merge_cursor_def)

lemma update_from_grid_state_ok:
  assumes "frame_wf f" "grid_wf g"
  shows "\<exists>rd d. update_from_grid_state f g =
      ((fst (resize_frame f g))\<lparr>tf_cell_cache := gs_cells g, tf_row_dirty := rd, tf_cursor_x := gs_cursor_x g,
         tf_cursor_y := gs_cursor_y g, tf_cursor_visible := gs_cursor_visible g, tf_dirty := d\<rparr>,
       Inr (tf_cols f \<noteq> gs_cols g \<or> tf_rows f \<noteq> gs_rows g))
    \<and> length rd = unat (gs_rows g)
    \<and> (\<forall>y < length rd. rd ! y \<longleftrightarrow> tf_row_dirty (fst (resize_frame f g)) ! y \<or> row_differs (fst (resize_frame f g)) g y)
    \<and> (d \<longleftrightarrow> tf_dirty f \<or> (\<exists>y < unat (gs_rows g). row_differs (fst (resize_frame f g)) g y)
         \<or> tf_cursor_x f \<noteq> gs_cursor_x g \<or> tf_cursor_y f \<noteq> gs_cursor_y g \<or> tf_cursor_visible f \<noteq> gs_cursor_visible g)"
proof -
  let ?f = "fst (resize_frame f g)"
  have wf: "frame_wf ?f" using assms(1) by (rule resize_frame_wf)
  have len: "length (gs_cells g) = length (tf_cell_cache ?f)"
    using wf assms(2) by (simp add: frame_wf_def grid_wf_def)
  have rows: "set [0..<unat (tf_rows ?f)] \<subseteq> {..<unat (tf_rows ?f)}" by auto
  obtain cache rd d where m: "merge_rows ?f g [0..<unat (tf_rows ?f)] =
      (?f\<lparr>tf_cell_cache := cache, tf_row_dirty := rd, tf_dirty := d\<rparr>, Inr ())"
    "length cache = length (tf_cell_cache ?f)" "length rd = length (tf_row_dirty ?f)"
    "\<forall>j < length cache. cache ! j = (if j div unat (tf_cols ?f) \<in> set [0..<unat (tf_rows ?f)]
       then gs_cells g ! j else tf_cell_cache ?f ! j)"
    "\<forall>y < length rd. rd ! y \<longleftrightarrow> tf_row_dirty ?f ! y \<or> (y \<in> set [0..<unat (tf_rows ?f)] \<and> row_differs ?f g y)"
    "d \<longleftrightarrow> tf_dirty ?f \<or> (\<exists>y \<in> set [0..<unat (tf_rows ?f)]. row_differs ?f g y)"
    using merge_rows_ok [OF wf len distinct_upt rows] by (elim exE conjE) (rule that)
  have "cache = gs_cells g"
  proof (rule nth_equalityI)
    fix j assume j: "j < length cache"
    then have "j div unat (tf_cols ?f) < unat (tf_rows ?f)"
      using m(2) wf by (simp add: frame_wf_def less_mult_imp_div_less mult.commute)
    with j m(4) show "cache ! j = gs_cells g ! j" by simp
  qed (use m(2) len in simp)
  then have upd: "update_from_grid_state f g = (merge_cursor (?f\<lparr>tf_cell_cache := gs_cells g,
      tf_row_dirty := rd, tf_dirty := d\<rparr>) g, Inr (snd (resize_frame f g)))"
    using m(1) by (cases "resize_frame f g") (simp add: update_from_grid_state_def)
  have same: "tf_dirty ?f = tf_dirty f" "tf_cursor_x ?f = tf_cursor_x f" "tf_cursor_y ?f = tf_cursor_y f"
    "tf_cursor_visible ?f = tf_cursor_visible f"
    "snd (resize_frame f g) = (tf_cols f \<noteq> gs_cols g \<or> tf_rows f \<noteq> gs_rows g)"
    by (simp_all add: resize_frame_def)
  have rd: "length rd = unat (gs_rows g)" using m(3) wf by (simp add: frame_wf_def)
  have dirty: "d \<longleftrightarrow> tf_dirty f \<or> (\<exists>y < unat (gs_rows g). row_differs ?f g y)"
    using m(6) same(1) by (auto simp: Bex_def)
  show ?thesis
  proof (intro exI conjI)
    show "update_from_grid_state f g =
      (?f\<lparr>tf_cell_cache := gs_cells g, tf_row_dirty := rd, tf_cursor_x := gs_cursor_x g,
         tf_cursor_y := gs_cursor_y g, tf_cursor_visible := gs_cursor_visible g,
         tf_dirty := d \<or> tf_cursor_x f \<noteq> gs_cursor_x g \<or> tf_cursor_y f \<noteq> gs_cursor_y g
           \<or> tf_cursor_visible f \<noteq> gs_cursor_visible g\<rparr>,
       Inr (tf_cols f \<noteq> gs_cols g \<or> tf_rows f \<noteq> gs_rows g))"
      unfolding upd merge_cursor_eq by (simp add: same)
    show "\<forall>y < length rd. rd ! y \<longleftrightarrow> tf_row_dirty ?f ! y \<or> row_differs ?f g y"
      using m(5) rd by simp
  qed (use rd dirty in auto)
qed

lemma update_from_grid_state_wf [rumsh_inv]:
  "frame_wf f \<Longrightarrow> grid_wf g \<Longrightarrow> frame_wf (fst (update_from_grid_state f g))"
  using update_from_grid_state_ok [of f g] by (force simp: frame_wf_def grid_wf_def)

end
