(* ===== verification/Rumsh_Echo.thy ===== *)
theory Rumsh_Echo
  imports Rumsh_Terminal
begin

text \<open>
  \<open>src/client/echo.rs\<close>: speculative local echo.  A prediction draws the typed bytes into the frame and
  keeps what it overwrote, so that it can be taken back; \<open>reconcile_frame\<close> drops confirmed predictions and
  draws the others again.  An index out of range of the cell cache is the panic \<open>IndexPanic\<close>.
\<close>

section \<open>Definitions\<close>

type_synonym saved_cells = "(u16 \<times> u16 \<times> LocalCellData) list"

record PredictionEntry =
  pe_seq_num :: u64
  pe_bytes :: bytes
  pe_epoch :: u64
  pe_old_cursor_x :: u16
  pe_old_cursor_y :: u16
  pe_old_cells :: saved_cells

record LocalEchoEngine =
  unconfirmed_inputs :: "PredictionEntry list"
  current_epoch :: u64

definition LocalEchoEngine_new :: LocalEchoEngine where
  "LocalEchoEngine_new = \<lparr>unconfirmed_inputs = [], current_epoch = 0\<rparr>"

definition frame_index :: "'f TerminalFrame \<Rightarrow> u16 \<Rightarrow> u16 \<Rightarrow> nat" where
  "frame_index f x y = unat y * unat (tf_cols f) + unat x"

text \<open>Saving a cell (once) and overwriting it.\<close>

definition predict_cell ::
    "'f TerminalFrame \<times> saved_cells \<Rightarrow> u16 \<Rightarrow> u16 \<Rightarrow> LocalCellData
      \<Rightarrow> ('f TerminalFrame \<times> saved_cells) \<times> unit res" where
  "predict_cell st x y cell =
     (case st of (f, old_cells) \<Rightarrow>
        (case vec_get (tf_cell_cache f) (frame_index f x y) of
           Inl e \<Rightarrow> (st, Inl e)
         | Inr old \<Rightarrow>
             ((f\<lparr>tf_cell_cache := (tf_cell_cache f)[frame_index f x y := cell]\<rparr>,
               if \<exists>(ox, oy, _) \<in> set old_cells. ox = x \<and> oy = y then old_cells
               else old_cells @ [(x, y, old)]), Inr ())))"

definition char_cell :: "u8 \<Rightarrow> LocalCellData" where
  "char_cell b = \<lparr>graphemes = CompactGrapheme_new [b], fg = None, bg = None, style_flags = 0\<rparr>"

definition next_row :: "'f TerminalFrame \<Rightarrow> u16" where
  "next_row f = min (tf_cursor_y f + 1) (saturating_sub (tf_rows f) 1)"

definition advance_cursor :: "'f TerminalFrame \<Rightarrow> 'f TerminalFrame" where
  "advance_cursor f =
     (let x = tf_cursor_x f + 1 in
      if x \<ge> tf_cols f then f\<lparr>tf_cursor_x := 0, tf_cursor_y := next_row f\<rparr>
      else f\<lparr>tf_cursor_x := x\<rparr>)"

definition predict_byte ::
    "'f TerminalFrame \<times> saved_cells \<Rightarrow> u8 \<Rightarrow> ('f TerminalFrame \<times> saved_cells) \<times> unit res" where
  "predict_byte st b =
     (case st of (f, old_cells) \<Rightarrow>
        if b = 13 then ((f\<lparr>tf_cursor_x := 0\<rparr>, old_cells), Inr ())
        else if b = 10 then ((f\<lparr>tf_cursor_x := 0, tf_cursor_y := next_row f\<rparr>, old_cells), Inr ())
        else if b = 8 \<or> b = 127 then
          (if tf_cursor_x f > 0 then
             (let f1 = f\<lparr>tf_cursor_x := tf_cursor_x f - 1\<rparr>; x = tf_cursor_x f1; y = tf_cursor_y f1 in
              if x < tf_cols f1 \<and> y < tf_rows f1 then predict_cell (f1, old_cells) x y default_cell
              else ((f1, old_cells), Inr ()))
           else (st, Inr ()))
        else if 32 \<le> b \<and> b < 127 then
          (let x = tf_cursor_x f; y = tf_cursor_y f in
           if x < tf_cols f \<and> y < tf_rows f then
             st_then (predict_cell st x y (char_cell b)) (\<lambda>(f1, old_cells1) _.
               ((advance_cursor f1, old_cells1), Inr ()))
           else (st, Inr ()))
        else (st, Inr ()))"

fun predict_bytes ::
    "'f TerminalFrame \<times> saved_cells \<Rightarrow> bytes \<Rightarrow> ('f TerminalFrame \<times> saved_cells) \<times> unit res" where
  "predict_bytes st [] = (st, Inr ())"
| "predict_bytes st (b # bs) = st_then (predict_byte st b) (\<lambda>st1 _. predict_bytes st1 bs)"

type_synonym 'f echo_state = "LocalEchoEngine \<times> 'f TerminalFrame"

definition apply_keystrokes :: "'f echo_state \<Rightarrow> bytes \<Rightarrow> u64 \<Rightarrow> 'f echo_state \<times> unit res" where
  "apply_keystrokes st bs seq =
     (case st of (eng, f) \<Rightarrow>
        (case predict_bytes (f, []) bs of
           ((f1, _), Inl e) \<Rightarrow> ((eng, f1), Inl e)
         | ((f1, old_cells), Inr _) \<Rightarrow>
             ((eng\<lparr>unconfirmed_inputs := unconfirmed_inputs eng @
                 [\<lparr>pe_seq_num = seq, pe_bytes = bs, pe_epoch = current_epoch eng,
                   pe_old_cursor_x = tf_cursor_x f, pe_old_cursor_y = tf_cursor_y f,
                   pe_old_cells = old_cells\<rparr>]\<rparr>, f1), Inr ())))"

fun apply_entries :: "'f echo_state \<Rightarrow> PredictionEntry list \<Rightarrow> 'f echo_state \<times> unit res" where
  "apply_entries st [] = (st, Inr ())"
| "apply_entries st (entry # entries) =
     st_then (apply_keystrokes st (pe_bytes entry) (pe_seq_num entry)) (\<lambda>st1 _. apply_entries st1 entries)"

definition confirmed :: "LocalEchoEngine \<Rightarrow> u64 \<Rightarrow> PredictionEntry \<Rightarrow> bool" where
  "confirmed eng ack_seq front \<longleftrightarrow> pe_seq_num front \<le> ack_seq \<or> pe_epoch front < current_epoch eng"

definition reconcile_frame :: "'f echo_state \<Rightarrow> u64 \<Rightarrow> 'f echo_state \<times> unit res" where
  "reconcile_frame st ack_seq =
     (case st of (eng, f) \<Rightarrow>
        let surviving = dropWhile (confirmed eng ack_seq) (unconfirmed_inputs eng) in
        if surviving \<noteq> [] then apply_entries (eng\<lparr>unconfirmed_inputs := []\<rparr>, f) surviving
        else ((eng\<lparr>unconfirmed_inputs := []\<rparr>, f), Inr ()))"

fun restore_cells :: "'f TerminalFrame \<Rightarrow> saved_cells \<Rightarrow> 'f TerminalFrame \<times> unit res" where
  "restore_cells f [] = (f, Inr ())"
| "restore_cells f ((x, y, cell) # cells) =
     (if x < tf_cols f \<and> y < tf_rows f then
        (case vec_set (tf_cell_cache f) (frame_index f x y) cell of
           Inl e \<Rightarrow> (f, Inl e)
         | Inr cache \<Rightarrow> restore_cells (f\<lparr>tf_cell_cache := cache\<rparr>) cells)
      else restore_cells f cells)"

fun undo_entries :: "'f TerminalFrame \<Rightarrow> PredictionEntry list \<Rightarrow> 'f TerminalFrame \<times> unit res" where
  "undo_entries f [] = (f, Inr ())"
| "undo_entries f (entry # entries) =
     st_then (restore_cells (f\<lparr>tf_cursor_x := pe_old_cursor_x entry, tf_cursor_y := pe_old_cursor_y entry\<rparr>)
        (rev (pe_old_cells entry))) (\<lambda>f1 _. undo_entries f1 entries)"

definition abort :: "'f echo_state \<Rightarrow> 'f echo_state \<times> unit res" where
  "abort st =
     (case st of (eng, f) \<Rightarrow>
        (case undo_entries f (rev (unconfirmed_inputs eng)) of
           (f1, Inl e) \<Rightarrow> ((eng, f1), Inl e)
         | (f1, Inr _) \<Rightarrow>
             ((eng\<lparr>unconfirmed_inputs := [], current_epoch := current_epoch eng + 1\<rparr>, f1), Inr ())))"

section \<open>What a prediction leaves behind\<close>

text \<open>
  \<open>f\<close> differs from \<open>f0\<close> only in its cursor and in cells whose original content \<open>saved\<close> holds, each
  under its own position.
\<close>

definition undoable :: "'f TerminalFrame \<Rightarrow> 'f TerminalFrame \<times> saved_cells \<Rightarrow> bool" where
  "undoable f0 st \<longleftrightarrow>
     (case st of (f, saved) \<Rightarrow>
        f0 = f\<lparr>tf_cell_cache := tf_cell_cache f0, tf_cursor_x := tf_cursor_x f0, tf_cursor_y := tf_cursor_y f0\<rparr>
        \<and> length (tf_cell_cache f) = length (tf_cell_cache f0)
        \<and> (\<forall>(x, y, c) \<in> set saved. x < tf_cols f0 \<and> y < tf_rows f0
              \<and> frame_index f0 x y < length (tf_cell_cache f0) \<and> c = tf_cell_cache f0 ! frame_index f0 x y)
        \<and> (\<forall>j < length (tf_cell_cache f0).
              tf_cell_cache f ! j \<noteq> tf_cell_cache f0 ! j \<longrightarrow> (\<exists>(x, y, c) \<in> set saved. frame_index f0 x y = j)))"

lemma frame_index_bound:
  assumes "frame_wf f" "x < tf_cols f" "y < tf_rows f"
  shows "frame_index f x y < length (tf_cell_cache f)"
proof -
  have "unat y * unat (tf_cols f) + unat x < Suc (unat y) * unat (tf_cols f)"
    using assms(2) by (simp add: word_less_nat_alt)
  also have "\<dots> \<le> unat (tf_rows f) * unat (tf_cols f)"
    using assms(3) by (intro mult_le_mono1) (simp add: word_less_nat_alt)
  finally show ?thesis using assms(1) by (simp add: frame_index_def frame_wf_def mult.commute)
qed

lemma undoable_refl [simp]: "undoable f (f, [])"
  by (simp add: undoable_def)

lemma undoable_cursor:
  "undoable f0 (f, saved) \<Longrightarrow> undoable f0 (f\<lparr>tf_cursor_x := x, tf_cursor_y := y\<rparr>, saved)"
  "undoable f0 (f, saved) \<Longrightarrow> undoable f0 (f\<lparr>tf_cursor_x := x\<rparr>, saved)"
  by (cases f; auto simp: undoable_def)+

lemma undoable_dims:
  assumes "undoable f0 (f, saved)"
  shows "tf_cols f = tf_cols f0" "tf_rows f = tf_rows f0" "frame_wf f0 \<Longrightarrow> frame_wf f"
proof -
  from assms have eq: "f0 = f\<lparr>tf_cell_cache := tf_cell_cache f0, tf_cursor_x := tf_cursor_x f0, tf_cursor_y := tf_cursor_y f0\<rparr>"
    and len: "length (tf_cell_cache f) = length (tf_cell_cache f0)" by (auto simp: undoable_def)
  show "tf_cols f = tf_cols f0" "tf_rows f = tf_rows f0" by (subst eq, simp)+
  moreover have "tf_row_dirty f = tf_row_dirty f0" by (subst eq, simp)
  ultimately show "frame_wf f0 \<Longrightarrow> frame_wf f" using len by (simp add: frame_wf_def)
qed

lemma frame_index_inj:
  assumes "frame_index f x y = frame_index f x' y'" "x < tf_cols f" "x' < tf_cols f"
  shows "x = x' \<and> y = y'"
proof -
  have lt: "unat x < unat (tf_cols f)" "unat x' < unat (tf_cols f)"
    using assms(2,3) by (simp_all add: word_less_nat_alt)
  have "unat y = frame_index f x y div unat (tf_cols f)" "unat y' = frame_index f x' y' div unat (tf_cols f)"
    "unat x = frame_index f x y mod unat (tf_cols f)" "unat x' = frame_index f x' y' mod unat (tf_cols f)"
    using lt by (simp_all add: frame_index_def)
  with assms(1) show ?thesis by (metis unsigned_word_eqI)
qed

lemma predict_cell_undoable:
  assumes "frame_wf f0" "undoable f0 (f, saved)" "x < tf_cols f" "y < tf_rows f"
  shows "snd (predict_cell (f, saved) x y cell) = Inr ()"
    and "undoable f0 (fst (predict_cell (f, saved) x y cell))"
    and "tf_cursor_x (fst (fst (predict_cell (f, saved) x y cell))) = tf_cursor_x f"
proof -
  note d = undoable_dims [OF assms(2)]
  have wf: "frame_wf f" using assms(1) d(3) by simp
  have idx: "frame_index f x y < length (tf_cell_cache f)"
    using frame_index_bound [OF wf assms(3,4)] .
  have fi: "frame_index f0 = frame_index f" by (intro ext) (simp add: frame_index_def d)
  let ?i = "frame_index f x y" and ?known = "\<exists>(ox, oy, _) \<in> set saved. ox = x \<and> oy = y"
  show "snd (predict_cell (f, saved) x y cell) = Inr ()"
    "tf_cursor_x (fst (fst (predict_cell (f, saved) x y cell))) = tf_cursor_x f"
    using idx by (simp_all add: predict_cell_def)
  from assms(2) have u: "f0 = f\<lparr>tf_cell_cache := tf_cell_cache f0, tf_cursor_x := tf_cursor_x f0, tf_cursor_y := tf_cursor_y f0\<rparr>"
    "length (tf_cell_cache f) = length (tf_cell_cache f0)"
    "\<forall>(x, y, c) \<in> set saved. x < tf_cols f0 \<and> y < tf_rows f0
        \<and> frame_index f0 x y < length (tf_cell_cache f0) \<and> c = tf_cell_cache f0 ! frame_index f0 x y"
    "\<forall>j < length (tf_cell_cache f0).
        tf_cell_cache f ! j \<noteq> tf_cell_cache f0 ! j \<longrightarrow> (\<exists>(x, y, c) \<in> set saved. frame_index f0 x y = j)"
    by (simp_all add: undoable_def)
  have old: "tf_cell_cache f ! ?i = tf_cell_cache f0 ! ?i" if "\<not> ?known"
  proof (rule ccontr)
    assume "tf_cell_cache f ! ?i \<noteq> tf_cell_cache f0 ! ?i"
    with u(2,4) idx have "\<exists>(x, y, c) \<in> set saved. frame_index f0 x y = ?i" by simp
    then obtain x' y' c where xyc: "(x', y', c) \<in> set saved" "frame_index f x' y' = ?i" unfolding fi by blast
    moreover from xyc(1) u(3) have "x' < tf_cols f" by (auto simp: d)
    moreover from frame_index_inj [OF xyc(2) this assms(3)] have "x' = x" "y' = y" by auto
    ultimately show False using that by force
  qed
  define saved' where "saved' = (if ?known then saved else saved @ [(x, y, tf_cell_cache f ! ?i)])"
  have st: "fst (predict_cell (f, saved) x y cell) = (f\<lparr>tf_cell_cache := (tf_cell_cache f)[?i := cell]\<rparr>, saved')"
    using idx by (simp add: predict_cell_def saved'_def)
  have has: "\<exists>(x', y', c) \<in> set saved'. frame_index f0 x' y' = ?i"
    by (auto simp: saved'_def fi)
  have sub: "set saved \<subseteq> set saved'" by (auto simp: saved'_def)
  have good: "\<forall>(x, y, c) \<in> set saved'. x < tf_cols f0 \<and> y < tf_rows f0
        \<and> frame_index f0 x y < length (tf_cell_cache f0) \<and> c = tf_cell_cache f0 ! frame_index f0 x y"
    using u(3) old idx u(2) assms(3,4) d fi by (auto simp: saved'_def)
  have cover: "\<exists>(x, y, c) \<in> set saved'. frame_index f0 x y = j"
    if "j < length (tf_cell_cache f0)" "(tf_cell_cache f)[?i := cell] ! j \<noteq> tf_cell_cache f0 ! j" for j
  proof (cases "j = ?i")
    case True
    with has show ?thesis by simp
  next
    case False
    with that u(4) have "\<exists>(x, y, c) \<in> set saved. frame_index f0 x y = j" by simp
    with sub show ?thesis by blast
  qed
  show "undoable f0 (fst (predict_cell (f, saved) x y cell))"
    unfolding st undoable_def using u(1,2) good cover by simp
qed

lemma predict_byte_undoable:
  assumes "frame_wf f0" "undoable f0 (f, saved)"
  shows "snd (predict_byte (f, saved) b) = Inr () \<and> undoable f0 (fst (predict_byte (f, saved) b))"
proof -
  note c = undoable_cursor
  have del: "snd (predict_cell (g, saved) x y cell) = Inr () \<and> undoable f0 (fst (predict_cell (g, saved) x y cell))"
    if "undoable f0 (g, saved)" "x < tf_cols g" "y < tf_rows g" for g x y cell
    using predict_cell_undoable(1,2) [OF assms(1) that] by blast
  have adv: "undoable f0 (advance_cursor g, s)" if "undoable f0 (g, s)" for g s
    using that by (simp add: advance_cursor_def Let_def c)
  have put: "snd (st_then (predict_cell (f, saved) x y cell) (\<lambda>(f1, s1) _. ((advance_cursor f1, s1), Inr ()))) = Inr ()
      \<and> undoable f0 (fst (st_then (predict_cell (f, saved) x y cell) (\<lambda>(f1, s1) _. ((advance_cursor f1, s1), Inr ()))))"
    if "x < tf_cols f" "y < tf_rows f" for x y cell
    using del [OF assms(2) that, of cell] adv
    by (cases "predict_cell (f, saved) x y cell") (auto split: prod.splits)
  show ?thesis
    using assms(2) del put by (simp add: predict_byte_def Let_def c)
qed

lemma predict_bytes_undoable:
  assumes "frame_wf f0" "undoable f0 st"
  shows "snd (predict_bytes st bs) = Inr () \<and> undoable f0 (fst (predict_bytes st bs))"
  using assms(2)
proof (induction bs arbitrary: st)
  case (Cons b bs)
  obtain f saved where st: "st = (f, saved)" by (cases st)
  with predict_byte_undoable [OF assms(1), of f saved b] Cons show ?case
    by (simp add: st_then_Inr)
qed simp

section \<open>Taking a prediction back\<close>

lemma restore_cells_write_all:
  assumes "frame_wf f" "\<forall>(x, y, c) \<in> set cells. x < tf_cols f \<and> y < tf_rows f"
  shows "restore_cells f cells =
    (f\<lparr>tf_cell_cache := write_all (map (\<lambda>(x, y, c). (frame_index f x y, c)) cells) (tf_cell_cache f)\<rparr>, Inr ())"
  using assms
proof (induction f cells rule: restore_cells.induct)
  case (2 f x y cell cells)
  then have idx: "frame_index f x y < length (tf_cell_cache f)" by (simp add: frame_index_bound)
  let ?f = "f\<lparr>tf_cell_cache := (tf_cell_cache f)[frame_index f x y := cell]\<rparr>"
  have "frame_index ?f = frame_index f" by (intro ext) (simp add: frame_index_def)
  moreover have "frame_wf ?f" using "2.prems" by (simp add: frame_wf_def)
  ultimately show ?case using "2.IH"(1) "2.prems" idx by simp
qed simp

lemma restore_undoable:
  assumes "frame_wf f0" "undoable f0 (f, saved)"
  shows "restore_cells (f\<lparr>tf_cursor_x := tf_cursor_x f0, tf_cursor_y := tf_cursor_y f0\<rparr>) (rev saved) = (f0, Inr ())"
proof -
  let ?f = "f\<lparr>tf_cursor_x := tf_cursor_x f0, tf_cursor_y := tf_cursor_y f0\<rparr>"
  note d = undoable_dims [OF assms(2)]
  have fi: "frame_index ?f = frame_index f0" by (intro ext) (simp add: frame_index_def d)
  have wf: "frame_wf ?f" using d(3) [OF assms(1)] by (simp add: frame_wf_def)
  from assms(2) have u: "f0 = f\<lparr>tf_cell_cache := tf_cell_cache f0, tf_cursor_x := tf_cursor_x f0, tf_cursor_y := tf_cursor_y f0\<rparr>"
    "length (tf_cell_cache f) = length (tf_cell_cache f0)"
    "\<forall>(x, y, c) \<in> set saved. x < tf_cols f0 \<and> y < tf_rows f0
        \<and> frame_index f0 x y < length (tf_cell_cache f0) \<and> c = tf_cell_cache f0 ! frame_index f0 x y"
    "\<forall>j < length (tf_cell_cache f0).
        tf_cell_cache f ! j \<noteq> tf_cell_cache f0 ! j \<longrightarrow> (\<exists>(x, y, c) \<in> set saved. frame_index f0 x y = j)"
    by (simp_all add: undoable_def)
  let ?us = "map (\<lambda>(x, y, c). (frame_index f0 x y, c)) (rev saved)"
  have "write_all ?us (tf_cell_cache f) = tf_cell_cache f0"
  proof (rule write_all_reaches)
    show "\<forall>(i, v) \<in> set ?us. i < length (tf_cell_cache f0) \<and> v = tf_cell_cache f0 ! i"
      using u(3) by auto
    fix j assume "j < length (tf_cell_cache f0)" "tf_cell_cache f ! j \<noteq> tf_cell_cache f0 ! j"
    with u(4) have "\<exists>(x, y, c) \<in> set saved. frame_index f0 x y = j" by blast
    then show "j \<in> fst ` set ?us" by (force simp: image_iff)
  qed (rule u(2))
  moreover have "\<forall>(x, y, c) \<in> set (rev saved). x < tf_cols ?f \<and> y < tf_rows ?f" using u(3) by (auto simp: d)
  ultimately have "restore_cells ?f (rev saved) = (?f\<lparr>tf_cell_cache := tf_cell_cache f0\<rparr>, Inr ())"
    using restore_cells_write_all [OF wf, of "rev saved"] fi by simp
  also have "?f\<lparr>tf_cell_cache := tf_cell_cache f0\<rparr> = f0" by (subst u(1)) simp
  finally show ?thesis .
qed

lemma restore_cells_ok: "frame_wf f \<Longrightarrow> snd (restore_cells f cells) = Inr () \<and> frame_wf (fst (restore_cells f cells))"
proof (induction f cells rule: restore_cells.induct)
  case (2 f x y cell cells)
  show ?case
  proof (cases "x < tf_cols f \<and> y < tf_rows f")
    case True
    then have idx: "frame_index f x y < length (tf_cell_cache f)"
      using "2.prems" by (simp add: frame_index_bound)
    have "frame_wf (f\<lparr>tf_cell_cache := (tf_cell_cache f)[frame_index f x y := cell]\<rparr>)"
      using "2.prems" by (simp add: frame_wf_def)
    with "2.IH"(1) [OF True] True idx show ?thesis by simp
  qed (use 2 in auto)
qed simp

lemma undo_entries_ok: "frame_wf f \<Longrightarrow> snd (undo_entries f es) = Inr () \<and> frame_wf (fst (undo_entries f es))"
proof (induction es arbitrary: f)
  case (Cons e es)
  have "frame_wf (f\<lparr>tf_cursor_x := pe_old_cursor_x e, tf_cursor_y := pe_old_cursor_y e\<rparr>)"
    using Cons.prems by (simp add: frame_wf_def)
  from Cons.IH restore_cells_ok [OF this, of "rev (pe_old_cells e)"] show ?case
    by (simp add: st_then_Inr [of _ "()"])
qed simp

lemma abort_ok:
  assumes "frame_wf f"
  shows "abort (eng, f) = ((eng\<lparr>unconfirmed_inputs := [], current_epoch := current_epoch eng + 1\<rparr>,
      fst (undo_entries f (rev (unconfirmed_inputs eng)))), Inr ())"
    and "frame_wf (fst (undo_entries f (rev (unconfirmed_inputs eng))))"
  using undo_entries_ok [OF assms, of "rev (unconfirmed_inputs eng)"]
  by (cases "undo_entries f (rev (unconfirmed_inputs eng))"; simp add: abort_def)+

lemma apply_keystrokes_ok:
  assumes "frame_wf f"
  shows "\<exists>f1 saved. predict_bytes (f, []) bs = ((f1, saved), Inr ()) \<and> undoable f (f1, saved) \<and> frame_wf f1
    \<and> apply_keystrokes (eng, f) bs seq = ((eng\<lparr>unconfirmed_inputs := unconfirmed_inputs eng @
        [\<lparr>pe_seq_num = seq, pe_bytes = bs, pe_epoch = current_epoch eng, pe_old_cursor_x = tf_cursor_x f,
          pe_old_cursor_y = tf_cursor_y f, pe_old_cells = saved\<rparr>]\<rparr>, f1), Inr ())"
proof -
  obtain f1 saved r where p: "predict_bytes (f, []) bs = ((f1, saved), r)" by (metis prod.exhaust)
  with predict_bytes_undoable [OF assms undoable_refl, of bs] have "r = Inr ()" "undoable f (f1, saved)" by auto
  with p undoable_dims(3) [OF this(2) assms] show ?thesis by (simp add: apply_keystrokes_def)
qed

text \<open>Aborting right after a prediction is the same as aborting right before it.\<close>

lemma abort_after_prediction:
  assumes "frame_wf (snd st)"
  shows "abort (fst (apply_keystrokes st bs seq)) = abort st"
proof -
  obtain eng f where st: "st = (eng, f)" by (cases st)
  with assms obtain f1 saved where a: "frame_wf f1" "undoable f (f1, saved)" "apply_keystrokes (eng, f) bs seq =
      ((eng\<lparr>unconfirmed_inputs := unconfirmed_inputs eng @
        [\<lparr>pe_seq_num = seq, pe_bytes = bs, pe_epoch = current_epoch eng, pe_old_cursor_x = tf_cursor_x f,
          pe_old_cursor_y = tf_cursor_y f, pe_old_cells = saved\<rparr>]\<rparr>, f1), Inr ())"
    using apply_keystrokes_ok [of f bs eng seq] by auto
  from a(3) restore_undoable [OF _ a(2)] assms st abort_ok(1) [OF a(1)] abort_ok(1) [of f eng] show ?thesis
    by simp
qed

section \<open>Reconciliation\<close>

lemma apply_entries_ok:
  "frame_wf f \<Longrightarrow> snd (apply_entries (eng, f) es) = Inr () \<and> frame_wf (snd (fst (apply_entries (eng, f) es)))
     \<and> current_epoch (fst (fst (apply_entries (eng, f) es))) = current_epoch eng
     \<and> map (\<lambda>e. (pe_seq_num e, pe_bytes e)) (unconfirmed_inputs (fst (fst (apply_entries (eng, f) es))))
         = map (\<lambda>e. (pe_seq_num e, pe_bytes e)) (unconfirmed_inputs eng @ es)"
proof (induction es arbitrary: eng f)
  case (Cons e es)
  from apply_keystrokes_ok [OF Cons.prems, of "pe_bytes e" eng "pe_seq_num e"]
  obtain f1 saved where "frame_wf f1" "apply_keystrokes (eng, f) (pe_bytes e) (pe_seq_num e) =
      ((eng\<lparr>unconfirmed_inputs := unconfirmed_inputs eng @
        [\<lparr>pe_seq_num = pe_seq_num e, pe_bytes = pe_bytes e, pe_epoch = current_epoch eng,
          pe_old_cursor_x = tf_cursor_x f, pe_old_cursor_y = tf_cursor_y f, pe_old_cells = saved\<rparr>]\<rparr>, f1), Inr ())"
    by blast
  with Cons.IH show ?case by simp
qed simp

lemma reconcile_frame_ok:
  assumes "frame_wf f"
  shows "snd (reconcile_frame (eng, f) ack) = Inr () \<and> frame_wf (snd (fst (reconcile_frame (eng, f) ack)))
    \<and> current_epoch (fst (fst (reconcile_frame (eng, f) ack))) = current_epoch eng
    \<and> map (\<lambda>e. (pe_seq_num e, pe_bytes e)) (unconfirmed_inputs (fst (fst (reconcile_frame (eng, f) ack))))
        = map (\<lambda>e. (pe_seq_num e, pe_bytes e)) (dropWhile (confirmed eng ack) (unconfirmed_inputs eng))"
  using apply_entries_ok [OF assms, of "eng\<lparr>unconfirmed_inputs := []\<rparr>"] assms
  by (simp add: reconcile_frame_def Let_def)

lemma apply_entries_rows: "frame_wf f \<Longrightarrow> tf_rows (snd (fst (apply_entries (eng, f) es))) = tf_rows f"
proof (induction es arbitrary: eng f)
  case (Cons e es)
  from apply_keystrokes_ok [OF Cons.prems, of "pe_bytes e" eng "pe_seq_num e"] Cons.IH Cons.prems undoable_dims(2) show ?case
    by fastforce
qed simp

lemma reconcile_frame_rows: "frame_wf f \<Longrightarrow> tf_rows (snd (fst (reconcile_frame (eng, f) ack))) = tf_rows f"
  by (simp add: reconcile_frame_def Let_def apply_entries_rows)

text \<open>Predicting never touches the flags the renderer looks at.\<close>

definition paint_flags :: "'f TerminalFrame \<Rightarrow> bool list \<times> bool \<times> bool" where
  "paint_flags f = (tf_row_dirty f, tf_dirty f, tf_clear_requested f)"

lemma undoable_paint_flags: "undoable f0 (f, saved) \<Longrightarrow> paint_flags f = paint_flags f0"
  by (cases f0; cases f) (simp add: undoable_def paint_flags_def)

lemma apply_keystrokes_paint_flags [rumsh_frame]:
  "frame_wf f \<Longrightarrow> paint_flags (snd (fst (apply_keystrokes (eng, f) bs seq))) = paint_flags f"
  using apply_keystrokes_ok [of f bs eng seq] undoable_paint_flags by fastforce

section \<open>Properties\<close>

fun apply_inputs :: "'f echo_state \<Rightarrow> (bytes \<times> u64) list \<Rightarrow> 'f echo_state \<times> unit res" where
  "apply_inputs st [] = (st, Inr ())"
| "apply_inputs st ((bs, seq) # is) = st_then (apply_keystrokes st bs seq) (\<lambda>st1 _. apply_inputs st1 is)"

lemma apply_inputs_abort:
  "frame_wf (snd st) \<Longrightarrow> snd (apply_inputs st is) = Inr () \<and> abort (fst (apply_inputs st is)) = abort st"
proof (induction st "is" rule: apply_inputs.induct)
  case (2 st bs seq "is")
  obtain eng f where st: "st = (eng, f)" by (cases st)
  with "2.prems" apply_keystrokes_ok [of f bs eng seq]
  have "snd (apply_keystrokes st bs seq) = Inr ()" "frame_wf (snd (fst (apply_keystrokes st bs seq)))" by auto
  with "2.IH" [OF this(2)] abort_after_prediction [OF "2.prems"] show ?case
    by (simp add: st_then_Inr [of _ "()"])
qed simp

text \<open>C8: Predictions can be taken back: whatever inputs are predicted on a well-formed frame, in
  however many batches, none of them panics, and aborting afterwards restores exactly the frame (every cell and the
  cursor) there was before the first of them.\<close>

theorem abort_undoes_predictions:
  assumes "frame_wf f" "unconfirmed_inputs eng = []"
  shows "snd (apply_inputs (eng, f) is) = Inr ()
    \<and> abort (fst (apply_inputs (eng, f) is)) = ((eng\<lparr>current_epoch := current_epoch eng + 1\<rparr>, f), Inr ())"
  using apply_inputs_abort [of "(eng, f)" "is"] assms abort_ok(1) [OF assms(1), of eng] by simp

definition unit_f32 :: "unit f32_ops" where
  "unit_f32 = \<lparr>f32_of_nat = \<lambda>_. (), f32_tenth = (), f32_fifth = (), f32_four_fifths = (), f32_add = \<lambda>_ _. (),
     f32_sub = \<lambda>_ _. (), f32_mul = \<lambda>_ _. (), f32_div = \<lambda>_ _. (), f32_abs = \<lambda>_. (), f32_less = \<lambda>_ _. False,
     f32_round = \<lambda>_. (), f32_to_u32 = \<lambda>_. 0, f32_as_secs = \<lambda>_. ()\<rparr>"

theorem abort_undoes_predictions_witness:
  "abort (fst (apply_inputs (LocalEchoEngine_new, TerminalFrame_new unit_f32 10 2) [([97, 98], 1), ([8], 2)]))
     = ((LocalEchoEngine_new\<lparr>current_epoch := 1\<rparr>, TerminalFrame_new unit_f32 10 2), Inr ())
   \<and> tf_cursor_x (snd (fst (apply_inputs (LocalEchoEngine_new, TerminalFrame_new unit_f32 10 2) [([97, 98], 1), ([8], 2)]))) = 1"
proof
  show "abort (fst (apply_inputs (LocalEchoEngine_new, TerminalFrame_new unit_f32 10 2) [([97, 98], 1), ([8], 2)]))
     = ((LocalEchoEngine_new\<lparr>current_epoch := 1\<rparr>, TerminalFrame_new unit_f32 10 2), Inr ())"
    using abort_undoes_predictions [of "TerminalFrame_new unit_f32 10 2" LocalEchoEngine_new "[([97, 98], 1), ([8], 2)]"]
    by (simp add: TerminalFrame_new_wf LocalEchoEngine_new_def)
  show "tf_cursor_x (snd (fst (apply_inputs (LocalEchoEngine_new, TerminalFrame_new unit_f32 10 2) [([97, 98], 1), ([8], 2)]))) = 1"
    by code_simp
qed

end
