(* ===== verification/Rumsh_Mirror.thy ===== *)
theory Rumsh_Mirror
  imports Rumsh_Echo
begin

text \<open>
  The active half of \<open>src/client/terminal.rs\<close>: \<open>ClientTerminal\<close>, the frame together with the echo engine
  behind one lock.  Every method takes the lock for its whole body, so it is one step on the pair.
\<close>

section \<open>Definitions\<close>

record 'f TerminalInner =
  ti_frame :: "'f TerminalFrame"
  ti_echo_engine :: LocalEchoEngine

definition ClientTerminal_new :: "'f f32_ops \<Rightarrow> u16 \<Rightarrow> u16 \<Rightarrow> 'f TerminalInner" where
  "ClientTerminal_new F cols rows =
     \<lparr>ti_frame = TerminalFrame_new F cols rows, ti_echo_engine = LocalEchoEngine_new\<rparr>"

text \<open>Running an operation of the echo engine on the pair.\<close>

definition with_echo ::
    "'f TerminalInner \<Rightarrow> ('f echo_state \<Rightarrow> 'f echo_state \<times> unit res) \<Rightarrow> 'f TerminalInner \<times> unit res" where
  "with_echo m op =
     (case op (ti_echo_engine m, ti_frame m) of
        ((eng, f), r) \<Rightarrow> (m\<lparr>ti_frame := f, ti_echo_engine := eng\<rparr>, r))"

definition apply_frame :: "'f TerminalInner \<Rightarrow> GridState \<Rightarrow> u64 \<Rightarrow> 'f TerminalInner \<times> bool res" where
  "apply_frame m new_state server_seq =
     (case update_from_grid_state (ti_frame m) new_state of
        (f, Inl e) \<Rightarrow> (m\<lparr>ti_frame := f\<rparr>, Inl e)
      | (f, Inr resized) \<Rightarrow>
          st_then (with_echo (m\<lparr>ti_frame := f\<lparr>tf_last_seq := server_seq\<rparr>\<rparr>) (\<lambda>st. reconcile_frame st server_seq))
            (\<lambda>m1 _. (m1, Inr resized)))"

definition predict_input :: "'f TerminalInner \<Rightarrow> bytes \<Rightarrow> u64 \<Rightarrow> 'f TerminalInner \<times> unit res" where
  "predict_input m bs client_seq = with_echo m (\<lambda>st. apply_keystrokes st bs client_seq)"

definition acknowledge :: "'f TerminalInner \<Rightarrow> u64 \<Rightarrow> 'f TerminalInner \<times> unit res" where
  "acknowledge m server_ack_seq = with_echo m (\<lambda>st. reconcile_frame st server_ack_seq)"

definition abort_prediction :: "'f TerminalInner \<Rightarrow> 'f TerminalInner \<times> unit res" where
  "abort_prediction m = with_echo m abort"

definition consume_updates ::
    "'f TerminalInner \<Rightarrow> 'f TerminalFrame \<Rightarrow> ('f TerminalInner \<times> 'f TerminalFrame) \<times> bool" where
  "consume_updates m dest =
     (let f = ti_frame m in
      if tf_dirty f \<or> tf_clear_requested f then
        ((m\<lparr>ti_frame := f\<lparr>tf_dirty := False, tf_row_dirty := replicate (length (tf_row_dirty f)) False,
                          tf_clear_requested := False\<rparr>\<rparr>, copy_to f dest), True)
      else ((m, dest), False))"

definition record_rtt_loss ::
    "'f f32_ops \<Rightarrow> 'f TerminalInner \<Rightarrow> u32 option \<Rightarrow> 'f option \<Rightarrow> 'f TerminalInner" where
  "record_rtt_loss F m rtt loss_pct =
     (let f = ti_frame m;
          (f1, changed1) =
            (case rtt of
               None \<Rightarrow> (f, False)
             | Some rtt \<Rightarrow>
                 (let new_rtt =
                    (if tf_rtt_ms f = 0 then rtt
                     else f32_to_u32 F (f32_add F
                            (f32_mul F (f32_of_nat F (unat (tf_rtt_ms f))) (f32_four_fifths F))
                            (f32_mul F (f32_of_nat F (unat rtt)) (f32_fifth F))))
                  in if tf_rtt_ms f \<noteq> new_rtt then (f\<lparr>tf_rtt_ms := new_rtt\<rparr>, True) else (f, False)));
          (f2, changed2) =
            (case loss_pct of
               None \<Rightarrow> (f1, changed1)
             | Some loss \<Rightarrow>
                 if f32_less F (f32_tenth F) (f32_abs F (f32_sub F (tf_packet_loss_pct f1) loss))
                 then (f1\<lparr>tf_packet_loss_pct := loss\<rparr>, True) else (f1, changed1))
      in m\<lparr>ti_frame := (if changed2 \<and> tf_overlay_enabled f2 then f2\<lparr>tf_dirty := True\<rparr> else f2)\<rparr>)"

definition record_bandwidth_compression ::
    "'f f32_ops \<Rightarrow> 'f TerminalInner \<Rightarrow> 'f \<Rightarrow> 'f \<Rightarrow> 'f TerminalInner" where
  "record_bandwidth_compression F m kb_s ratio =
     (let f = ti_frame m;
          bw_diff = f32_abs F (f32_sub F (tf_bandwidth_kb_s f) kb_s);
          cr_diff = f32_abs F (f32_sub F (tf_compression_ratio f) ratio)
      in if f32_less F (f32_tenth F) bw_diff \<or> f32_less F (f32_tenth F) cr_diff then
           (let f1 = f\<lparr>tf_bandwidth_kb_s := kb_s, tf_compression_ratio := ratio\<rparr>
            in m\<lparr>ti_frame := (if tf_overlay_enabled f1 then f1\<lparr>tf_dirty := True\<rparr> else f1)\<rparr>)
         else m)"

definition record_fps :: "'f TerminalInner \<Rightarrow> u32 \<Rightarrow> 'f TerminalInner" where
  "record_fps m fps =
     (let f = ti_frame m in
      if tf_fps f \<noteq> fps then
        m\<lparr>ti_frame := (if tf_overlay_enabled f then f\<lparr>tf_fps := fps, tf_dirty := True\<rparr> else f\<lparr>tf_fps := fps\<rparr>)\<rparr>
      else m)"

definition set_reconnecting :: "'f TerminalInner \<Rightarrow> bool \<Rightarrow> 'f TerminalInner \<times> unit res" where
  "set_reconnecting m reconnecting =
     (let f = ti_frame m in
      if tf_reconnecting f \<noteq> reconnecting then
        (let f1 = f\<lparr>tf_reconnecting := reconnecting, tf_dirty := True\<rparr> in
         if \<not> reconnecting then
           (let y = (if tf_rows f1 > 0 then tf_rows f1 - 1 else 0) in
            (case vec_set (tf_row_dirty f1) (unat y) True of
               Inl e \<Rightarrow> (m\<lparr>ti_frame := f1\<rparr>, Inl e)
             | Inr rd \<Rightarrow> (m\<lparr>ti_frame := f1\<lparr>tf_row_dirty := rd\<rparr>\<rparr>, Inr ())))
         else (m\<lparr>ti_frame := f1\<rparr>, Inr ()))
      else (m, Inr ()))"

definition set_overlay_enabled :: "'f TerminalInner \<Rightarrow> bool \<Rightarrow> 'f TerminalInner" where
  "set_overlay_enabled m enabled =
     m\<lparr>ti_frame := (ti_frame m)\<lparr>tf_overlay_enabled := enabled, tf_dirty := True\<rparr>\<rparr>"

definition toggle_overlay :: "'f TerminalInner \<Rightarrow> 'f TerminalInner" where
  "toggle_overlay m =
     m\<lparr>ti_frame := (ti_frame m)\<lparr>tf_overlay_enabled := \<not> tf_overlay_enabled (ti_frame m), tf_dirty := True\<rparr>\<rparr>"

definition rtt_ms :: "'f TerminalInner \<Rightarrow> u32" where
  "rtt_ms m = tf_rtt_ms (ti_frame m)"

definition mark_dirty :: "'f TerminalInner \<Rightarrow> 'f TerminalInner" where
  "mark_dirty m = m\<lparr>ti_frame := (ti_frame m)\<lparr>tf_dirty := True\<rparr>\<rparr>"

section \<open>The invariant\<close>

abbreviation mirror_wf :: "'f TerminalInner \<Rightarrow> bool" where
  "mirror_wf m \<equiv> frame_wf (ti_frame m)"

lemma frame_wf_cong:
  "tf_cols f = tf_cols g \<Longrightarrow> tf_rows f = tf_rows g \<Longrightarrow> length (tf_cell_cache f) = length (tf_cell_cache g)
   \<Longrightarrow> length (tf_row_dirty f) = length (tf_row_dirty g) \<Longrightarrow> frame_wf f \<longleftrightarrow> frame_wf g"
  by (simp add: frame_wf_def)

lemma ClientTerminal_new_wf [rumsh_inv]: "mirror_wf (ClientTerminal_new F cols rows)"
  by (simp add: ClientTerminal_new_def TerminalFrame_new_wf)

lemma predict_input_ok [rumsh_inv]:
  assumes "mirror_wf m"
  shows "snd (predict_input m bs seq) = Inr ()" "mirror_wf (fst (predict_input m bs seq))"
  using apply_keystrokes_ok [OF assms, of bs "ti_echo_engine m" seq]
  by (auto simp: predict_input_def with_echo_def)

lemma acknowledge_ok [rumsh_inv]:
  assumes "mirror_wf m"
  shows "snd (acknowledge m ack) = Inr ()" "mirror_wf (fst (acknowledge m ack))"
  using reconcile_frame_ok [OF assms, of "ti_echo_engine m" ack]
  by (auto simp: acknowledge_def with_echo_def split: prod.splits)

lemma abort_prediction_ok [rumsh_inv]:
  assumes "mirror_wf m"
  shows "snd (abort_prediction m) = Inr ()" "mirror_wf (fst (abort_prediction m))"
  using abort_ok [OF assms, of "ti_echo_engine m"]
  by (auto simp: abort_prediction_def with_echo_def)

lemma apply_frame_ok [rumsh_inv]:
  assumes "mirror_wf m" "grid_wf g"
  shows "snd (apply_frame m g s) = Inr (tf_cols (ti_frame m) \<noteq> gs_cols g \<or> tf_rows (ti_frame m) \<noteq> gs_rows g)"
    "mirror_wf (fst (apply_frame m g s))"
proof -
  obtain f where u: "update_from_grid_state (ti_frame m) g =
      (f, Inr (tf_cols (ti_frame m) \<noteq> gs_cols g \<or> tf_rows (ti_frame m) \<noteq> gs_rows g))"
    using update_from_grid_state_ok [OF assms] by blast
  then have wf: "frame_wf (f\<lparr>tf_last_seq := s\<rparr>)"
    using update_from_grid_state_wf [OF assms] by (simp add: frame_wf_def)
  from reconcile_frame_ok [OF wf, of "ti_echo_engine m" s] u
  show "snd (apply_frame m g s) = Inr (tf_cols (ti_frame m) \<noteq> gs_cols g \<or> tf_rows (ti_frame m) \<noteq> gs_rows g)"
    "mirror_wf (fst (apply_frame m g s))"
    by (cases "reconcile_frame (ti_echo_engine m, f\<lparr>tf_last_seq := s\<rparr>) s"; auto simp: apply_frame_def with_echo_def)+
qed

lemma set_reconnecting_ok [rumsh_inv]:
  assumes "mirror_wf m"
  shows "mirror_wf (fst (set_reconnecting m b))"
    and "snd (set_reconnecting m b) = Inr () \<or> (\<not> b \<and> tf_rows (ti_frame m) = 0)"
proof -
  have "unat (tf_rows (ti_frame m) - 1) < length (tf_row_dirty (ti_frame m))" if "0 < tf_rows (ti_frame m)"
  proof -
    have "tf_rows (ti_frame m) - 1 < tf_rows (ti_frame m)" using that by (simp add: word_gt_0 unat_minus_one word_less_nat_alt unat_gt_0)
    with assms show ?thesis by (simp add: frame_wf_def word_less_nat_alt)
  qed
  with assms show "mirror_wf (fst (set_reconnecting m b))"
    and "snd (set_reconnecting m b) = Inr () \<or> (\<not> b \<and> tf_rows (ti_frame m) = 0)"
    by (auto simp: set_reconnecting_def Let_def frame_wf_def vec_set_def word_gt_0)
qed

lemma telemetry_wf [rumsh_inv]:
  "mirror_wf m \<Longrightarrow> mirror_wf (record_rtt_loss F m rtt loss)"
  "mirror_wf m \<Longrightarrow> mirror_wf (record_bandwidth_compression F m kb ratio)"
  "mirror_wf m \<Longrightarrow> mirror_wf (record_fps m fps)"
  "mirror_wf m \<Longrightarrow> mirror_wf (set_overlay_enabled m b)"
  "mirror_wf m \<Longrightarrow> mirror_wf (toggle_overlay m)"
  "mirror_wf m \<Longrightarrow> mirror_wf (mark_dirty m)"
  "mirror_wf m \<Longrightarrow> mirror_wf (fst (fst (consume_updates m dest)))"
  by (auto simp: record_rtt_loss_def record_bandwidth_compression_def record_fps_def set_overlay_enabled_def
      toggle_overlay_def mark_dirty_def consume_updates_def Let_def frame_wf_def
      split: option.splits prod.splits if_splits)

section \<open>What reaches the screen\<close>

text \<open>A mirror with nothing pending is one the renderer has just consumed.\<close>

definition painted :: "'f TerminalInner \<Rightarrow> bool" where
  "painted m \<longleftrightarrow> \<not> tf_dirty (ti_frame m) \<and> \<not> tf_clear_requested (ti_frame m) \<and> True \<notin> set (tf_row_dirty (ti_frame m))"

lemma consume_updates_cases:
  "snd (consume_updates m dest) \<longleftrightarrow> tf_dirty (ti_frame m) \<or> tf_clear_requested (ti_frame m)"
  "\<not> snd (consume_updates m dest) \<Longrightarrow> fst (consume_updates m dest) = (m, dest)"
  by (auto simp: consume_updates_def Let_def)

lemma reconcile_all_confirmed:
  assumes "\<forall>e \<in> set (unconfirmed_inputs eng). pe_seq_num e \<le> ack"
  shows "reconcile_frame (eng, f) ack = ((eng\<lparr>unconfirmed_inputs := []\<rparr>, f), Inr ())"
proof -
  have "dropWhile (confirmed eng ack) (unconfirmed_inputs eng) = []"
    using assms by (simp add: confirmed_def)
  then show ?thesis by (simp add: reconcile_frame_def Let_def)
qed

lemma apply_frame_confirmed:
  assumes "mirror_wf m" "grid_wf g" "\<forall>e \<in> set (unconfirmed_inputs (ti_echo_engine m)). pe_seq_num e \<le> s"
  shows "ti_frame (fst (apply_frame m g s)) = (fst (update_from_grid_state (ti_frame m) g))\<lparr>tf_last_seq := s\<rparr>"
  using update_from_grid_state_ok [OF assms(1,2)]
  by (auto simp: apply_frame_def with_echo_def reconcile_all_confirmed [OF assms(3)])

section \<open>Properties\<close>

text \<open>C9: Applying a server frame when no prediction outlives it makes the mirror show exactly the server's
  grid (size, cells and cursor), and every visible difference reaches the renderer: a row whose cells
  changed is marked dirty, and any change of cells or cursor marks the frame dirty, so that the next
  \<open>consume_updates\<close> hands over the new frame.  A resize marks every row dirty and asks for a clear.\<close>

theorem apply_frame_shows_grid:
  assumes "mirror_wf m" "grid_wf g" "\<forall>e \<in> set (unconfirmed_inputs (ti_echo_engine m)). pe_seq_num e \<le> s"
  shows "let f = ti_frame m; f' = ti_frame (fst (apply_frame m g s)) in
    tf_cols f' = gs_cols g \<and> tf_rows f' = gs_rows g \<and> tf_cell_cache f' = gs_cells g
    \<and> tf_cursor_x f' = gs_cursor_x g \<and> tf_cursor_y f' = gs_cursor_y g \<and> tf_cursor_visible f' = gs_cursor_visible g
    \<and> tf_last_seq f' = s
    \<and> (if tf_cols f \<noteq> gs_cols g \<or> tf_rows f \<noteq> gs_rows g
       then tf_clear_requested f' \<and> tf_row_dirty f' = replicate (unat (gs_rows g)) True
       else (\<forall>y < unat (gs_rows g). row_differs f g y \<longrightarrow> tf_row_dirty f' ! y \<and> tf_dirty f')
         \<and> (tf_cell_cache f \<noteq> gs_cells g \<or> tf_cursor_x f \<noteq> gs_cursor_x g \<or> tf_cursor_y f \<noteq> gs_cursor_y g
              \<or> tf_cursor_visible f \<noteq> gs_cursor_visible g \<longrightarrow> snd (consume_updates (fst (apply_frame m g s)) dest)))"
proof -
  let ?f = "ti_frame m" and ?r = "fst (resize_frame (ti_frame m) g)"
  obtain rd d where u: "update_from_grid_state ?f g =
      (?r\<lparr>tf_cell_cache := gs_cells g, tf_row_dirty := rd, tf_cursor_x := gs_cursor_x g,
         tf_cursor_y := gs_cursor_y g, tf_cursor_visible := gs_cursor_visible g, tf_dirty := d\<rparr>,
       Inr (tf_cols ?f \<noteq> gs_cols g \<or> tf_rows ?f \<noteq> gs_rows g))"
    "length rd = unat (gs_rows g)"
    "\<forall>y < length rd. rd ! y \<longleftrightarrow> tf_row_dirty ?r ! y \<or> row_differs ?r g y"
    "d \<longleftrightarrow> tf_dirty ?f \<or> (\<exists>y < unat (gs_rows g). row_differs ?r g y)
         \<or> tf_cursor_x ?f \<noteq> gs_cursor_x g \<or> tf_cursor_y ?f \<noteq> gs_cursor_y g \<or> tf_cursor_visible ?f \<noteq> gs_cursor_visible g"
    using update_from_grid_state_ok [OF assms(1,2)] by (elim exE conjE) (rule that)
  note new = apply_frame_confirmed [OF assms]
  show ?thesis
  proof (cases "tf_cols ?f \<noteq> gs_cols g \<or> tf_rows ?f \<noteq> gs_rows g")
    case True
    then have "tf_clear_requested ?r" "tf_row_dirty ?r = replicate (unat (gs_rows g)) True"
      by (simp_all add: resize_frame_def)
    moreover from this u(2,3) have "rd = replicate (unat (gs_rows g)) True"
      by (intro nth_equalityI) simp_all
    ultimately show ?thesis using True by (simp add: Let_def new u(1))
  next
    case False
    then have r: "?r = ?f" by (simp add: resize_frame_def)
    have len: "length (tf_cell_cache ?f) = length (gs_cells g)"
      using assms(1,2) False by (simp add: frame_wf_def grid_wf_def)
    have "\<exists>y < unat (gs_rows g). row_differs ?f g y" if "tf_cell_cache ?f \<noteq> gs_cells g"
    proof -
      from that len obtain j where j: "j < length (gs_cells g)" "tf_cell_cache ?f ! j \<noteq> gs_cells g ! j"
        by (metis nth_equalityI)
      let ?y = "j div unat (tf_cols ?f)"
      have "?y < unat (gs_rows g)" "tf_cols ?f \<noteq> 0"
        using j(1) assms(2) False by (auto simp: grid_wf_def less_mult_imp_div_less mult.commute)
      then show ?thesis using j by (intro exI [of _ ?y]) (auto simp: row_differs_def set_row_indices)
    qed
    then show ?thesis
      using False u(2,3,4) by (auto simp: Let_def new u(1) r consume_updates_cases)
  qed
qed

definition letter_grid :: GridState where
  "letter_grid = (blank_grid 3 1)\<lparr>gs_cells := [char_cell 97, default_cell, default_cell], gs_cursor_x := 1\<rparr>"

lemma letter_grid_wf: "grid_wf letter_grid"
  by (simp add: letter_grid_def blank_grid_def grid_wf_def)

theorem apply_frame_shows_grid_witness:
  "tf_cell_cache (ti_frame (fst (apply_frame (ClientTerminal_new unit_f32 3 1) letter_grid 4))) = gs_cells letter_grid
   \<and> snd (consume_updates (fst (apply_frame (ClientTerminal_new unit_f32 3 1) letter_grid 4)) (TerminalFrame_new unit_f32 0 0))"
proof -
  have "\<forall>e \<in> set (unconfirmed_inputs (ti_echo_engine (ClientTerminal_new unit_f32 3 1))). pe_seq_num e \<le> 4"
    by (simp add: ClientTerminal_new_def LocalEchoEngine_new_def)
  from apply_frame_shows_grid [OF ClientTerminal_new_wf letter_grid_wf this, of "TerminalFrame_new unit_f32 0 0"]
  show ?thesis by (simp add: Let_def ClientTerminal_new_def TerminalFrame_new_def letter_grid_def blank_grid_def)
qed

text \<open>Frames that follow, each with whether the renderer consumes the mirror after it.\<close>

definition later_frame :: "GridState \<times> u64 \<times> bool \<Rightarrow> 'f TerminalInner \<Rightarrow> 'f TerminalInner" where
  "later_frame x m =
     (case x of (g, q, consumed) \<Rightarrow>
        (let m1 = fst (apply_frame m g q) in if consumed then fst (fst (consume_updates m1 (ti_frame m1))) else m1))"

definition row_unmarked :: "GridState \<Rightarrow> nat \<Rightarrow> 'f TerminalInner \<Rightarrow> bool" where
  "row_unmarked g y m \<longleftrightarrow> mirror_wf m \<and> unconfirmed_inputs (ti_echo_engine m) = []
     \<and> tf_cols (ti_frame m) = gs_cols g \<and> tf_rows (ti_frame m) = gs_rows g
     \<and> (\<forall>i \<in> set (row_indices (gs_cols g) y). tf_cell_cache (ti_frame m) ! i = gs_cells g ! i) \<and> \<not> tf_row_dirty (ti_frame m) ! y"

definition same_row :: "GridState \<Rightarrow> nat \<Rightarrow> GridState \<Rightarrow> bool" where
  "same_row g y g' \<longleftrightarrow> grid_wf g' \<and> gs_cols g' = gs_cols g \<and> gs_rows g' = gs_rows g
     \<and> (\<forall>i \<in> set (row_indices (gs_cols g) y). gs_cells g' ! i = gs_cells g ! i)"

lemma consume_unmarked: "row_unmarked g y m \<Longrightarrow> y < unat (gs_rows g) \<Longrightarrow> row_unmarked g y (fst (fst (consume_updates m dest)))"
  by (auto simp: row_unmarked_def consume_updates_def Let_def frame_wf_def)

lemma apply_frame_unmarked:
  assumes "row_unmarked g y m" "same_row g y g'" "y < unat (gs_rows g)"
  shows "row_unmarked g y (fst (apply_frame m g' q))"
proof -
  have m: "mirror_wf m" "unconfirmed_inputs (ti_echo_engine m) = []" and g': "grid_wf g'"
    using assms(1,2) by (simp_all add: row_unmarked_def same_row_def)
  have none: "\<forall>e \<in> set (unconfirmed_inputs (ti_echo_engine m)). pe_seq_num e \<le> q" using m(2) by simp
  note new = apply_frame_confirmed [OF m(1) g' none]
  have same: "fst (resize_frame (ti_frame m) g') = ti_frame m"
    using assms(1,2) by (simp add: resize_frame_def row_unmarked_def same_row_def)
  have "\<not> row_differs (ti_frame m) g' y" using assms(1,2) by (simp add: row_differs_def row_unmarked_def same_row_def)
  then obtain rd d where u: "fst (update_from_grid_state (ti_frame m) g') = (ti_frame m)\<lparr>tf_cell_cache := gs_cells g', tf_row_dirty := rd,
      tf_cursor_x := gs_cursor_x g', tf_cursor_y := gs_cursor_y g', tf_cursor_visible := gs_cursor_visible g', tf_dirty := d\<rparr>" "\<not> rd ! y"
    using update_from_grid_state_ok [OF m(1) g'] same assms by (auto simp: row_unmarked_def same_row_def)
  have "unconfirmed_inputs (ti_echo_engine (fst (apply_frame m g' q))) = []"
    using update_from_grid_state_ok [OF m(1) g'] m(2)
    by (auto simp: apply_frame_def with_echo_def reconcile_all_confirmed)
  then show ?thesis using assms(1,2) apply_frame_ok [OF m(1) g', of q] by (auto simp: row_unmarked_def same_row_def new u)
qed

lemma later_frames_unmarked:
  "row_unmarked g y m \<Longrightarrow> y < unat (gs_rows g) \<Longrightarrow> \<forall>(g', q, c) \<in> set later. same_row g y g' \<Longrightarrow> row_unmarked g y (fold later_frame later m)"
proof (induction later arbitrary: m)
  case (Cons x later)
  obtain g' q c where x: "x = (g', q, c)" by (metis prod_cases3)
  have "row_unmarked g y (fst (apply_frame m g' q))" using Cons.prems x by (intro apply_frame_unmarked) auto
  then have "row_unmarked g y (later_frame x m)" using Cons.prems(2) by (simp add: later_frame_def x Let_def consume_unmarked)
  then show ?case using Cons.IH Cons.prems(2,3) by simp
qed simp

text \<open>C40: Local echo is not painted.  Predicting on a mirror the renderer has consumed leaves it with nothing to hand over;
  when the server's frame then confirms the prediction exactly, the mirror sees no difference and hands
  over nothing either; and over any frames that follow, consumed by the renderer or not, a row (the one
  with the predicted characters, say) is not marked for painting as long as they leave its cells as they
  are.  What was typed appears only when something else in its row changes.\<close>

theorem prediction_not_painted:
  assumes "mirror_wf m" "painted m" "unconfirmed_inputs (ti_echo_engine m) = []"
    and "grid_wf g" "seq \<le> s"
    and "m1 = fst (predict_input m bs seq)"
    and "gs_cols g = tf_cols (ti_frame m1)" "gs_rows g = tf_rows (ti_frame m1)"
      "gs_cells g = tf_cell_cache (ti_frame m1)" "gs_cursor_x g = tf_cursor_x (ti_frame m1)"
      "gs_cursor_y g = tf_cursor_y (ti_frame m1)" "gs_cursor_visible g = tf_cursor_visible (ti_frame m1)"
    and "y < unat (gs_rows g)" "\<forall>(g', q, c) \<in> set later. same_row g y g'"
  shows "consume_updates m1 dest = ((m1, dest), False)
    \<and> consume_updates (fst (apply_frame m1 g s)) dest = ((fst (apply_frame m1 g s), dest), False)
    \<and> \<not> tf_row_dirty (ti_frame (fold later_frame later (fst (apply_frame m1 g s)))) ! y"
proof -
  let ?m2 = "fst (apply_frame m1 g s)"
  have wf: "mirror_wf m1" using predict_input_ok(2) [OF assms(1), of bs seq] assms(6) by simp
  have flags: "paint_flags (ti_frame m1) = paint_flags (ti_frame m)"
    using apply_keystrokes_paint_flags [OF assms(1), of "ti_echo_engine m" bs seq] assms(6)
    by (auto simp: predict_input_def with_echo_def split: prod.splits)
  have conf: "\<forall>e \<in> set (unconfirmed_inputs (ti_echo_engine m1)). pe_seq_num e \<le> s"
    using apply_keystrokes_ok [OF assms(1), of bs "ti_echo_engine m" seq] assms(3,5,6)
    by (auto simp: predict_input_def with_echo_def)
  note new = apply_frame_confirmed [OF wf assms(4) conf]
  have same: "fst (resize_frame (ti_frame m1) g) = ti_frame m1" by (simp add: resize_frame_def assms(7,8))
  have diff: "\<not> row_differs (ti_frame m1) g z" for z by (simp add: row_differs_def assms(9))
  with update_from_grid_state_ok [OF wf assms(4)] new same assms(10-12)
  have "tf_dirty (ti_frame ?m2) = tf_dirty (ti_frame m1)"
    "tf_clear_requested (ti_frame ?m2) = tf_clear_requested (ti_frame m1)" by auto
  with flags assms(2) have "consume_updates m1 dest = ((m1, dest), False) \<and> consume_updates ?m2 dest = ((?m2, dest), False)"
    by (simp add: consume_updates_def Let_def paint_flags_def painted_def)
  moreover have "row_unmarked g y ?m2"
  proof -
    have "length (tf_row_dirty (ti_frame m)) = unat (gs_rows g)" "tf_row_dirty (ti_frame m1) = tf_row_dirty (ti_frame m)"
      using wf flags assms(8) by (simp_all add: frame_wf_def paint_flags_def)
    then have "\<not> tf_row_dirty (ti_frame m1) ! y" using assms(2,13) by (auto simp: painted_def in_set_conv_nth)
    then have "\<not> tf_row_dirty (ti_frame ?m2) ! y" "tf_cols (ti_frame ?m2) = gs_cols g" "tf_rows (ti_frame ?m2) = gs_rows g"
      "tf_cell_cache (ti_frame ?m2) = gs_cells g"
      using update_from_grid_state_ok [OF wf assms(4)] new same diff assms(7,8,13) by auto
    moreover have "unconfirmed_inputs (ti_echo_engine ?m2) = []"
      using update_from_grid_state_ok [OF wf assms(4)] conf by (auto simp: apply_frame_def with_echo_def reconcile_all_confirmed)
    ultimately show ?thesis using apply_frame_ok [OF wf assms(4), of s] by (simp add: row_unmarked_def)
  qed
  from later_frames_unmarked [OF this assms(13,14)] have "\<not> tf_row_dirty (ti_frame (fold later_frame later ?m2)) ! y"
    by (simp add: row_unmarked_def)
  ultimately show ?thesis by blast
qed

theorem prediction_not_painted_witness:
  "let m = fst (fst (consume_updates (ClientTerminal_new unit_f32 3 1) (TerminalFrame_new unit_f32 0 0)));
       m1 = fst (predict_input m [97] 1)
   in tf_cell_cache (ti_frame m1) = gs_cells letter_grid
     \<and> \<not> snd (consume_updates m1 (TerminalFrame_new unit_f32 0 0))
     \<and> \<not> snd (consume_updates (fst (apply_frame m1 letter_grid 4)) (TerminalFrame_new unit_f32 0 0))
     \<and> \<not> tf_row_dirty (ti_frame (fold later_frame [(letter_grid\<lparr>gs_cursor_x := 2\<rparr>, 5, True), (letter_grid, 6, False)]
           (fst (apply_frame m1 letter_grid 4)))) ! 0"
proof -
  define m where "m = fst (fst (consume_updates (ClientTerminal_new unit_f32 3 1) (TerminalFrame_new unit_f32 0 0)))"
  have 1: "mirror_wf m" unfolding m_def by (intro telemetry_wf ClientTerminal_new_wf)
  have 2: "painted m" "unconfirmed_inputs (ti_echo_engine m) = []"
    by (auto simp: m_def painted_def consume_updates_def ClientTerminal_new_def TerminalFrame_new_def LocalEchoEngine_new_def)
  have f: "ti_frame (fst (predict_input m [97] 1)) = (ti_frame m)\<lparr>tf_cell_cache := gs_cells letter_grid, tf_cursor_x := 1\<rparr>"
    unfolding m_def by code_simp
  have g: "gs_cols letter_grid = tf_cols (ti_frame m)" "gs_rows letter_grid = tf_rows (ti_frame m)"
    "gs_cursor_y letter_grid = tf_cursor_y (ti_frame m)" "gs_cursor_visible letter_grid = tf_cursor_visible (ti_frame m)"
    "gs_cursor_x letter_grid = 1"
    by (simp_all add: m_def consume_updates_def ClientTerminal_new_def TerminalFrame_new_def letter_grid_def blank_grid_def)
  let ?m1 = "fst (predict_input m [97] 1)" and ?d = "TerminalFrame_new unit_f32 0 0"
  let ?later = "[(letter_grid\<lparr>gs_cursor_x := 2\<rparr>, 5, True), (letter_grid, 6, False)]"
  have later: "0 < unat (gs_rows letter_grid)" "\<forall>(g', q, c) \<in> set ?later. same_row letter_grid 0 g'"
    using letter_grid_wf by (simp_all add: same_row_def grid_wf_def letter_grid_def blank_grid_def)
  have "consume_updates ?m1 ?d = ((?m1, ?d), False)
    \<and> consume_updates (fst (apply_frame ?m1 letter_grid 4)) ?d = ((fst (apply_frame ?m1 letter_grid 4), ?d), False)
    \<and> \<not> tf_row_dirty (ti_frame (fold later_frame ?later (fst (apply_frame ?m1 letter_grid 4)))) ! 0"
    by (rule prediction_not_painted [OF 1 2 letter_grid_wf _ refl _ _ _ _ _ _ later]) (simp_all add: f g)
  moreover have "tf_cell_cache (ti_frame ?m1) = gs_cells letter_grid" unfolding f by simp
  ultimately show ?thesis unfolding Let_def m_def [symmetric] by simp
qed

text \<open>An acknowledgement that confirms nothing duplicates the pending echo: \<open>acknowledge\<close> draws the
  surviving predictions again at the cursor without taking the first copy back, and the saved cells it
  records are those of the first copy, so a later abort does not restore the screen either.\<close>

theorem acknowledge_duplicates_echo:
  "let m1 = fst (predict_input (ClientTerminal_new unit_f32 3 1) [97] 1);
       m2 = fst (acknowledge m1 0);
       m3 = fst (abort_prediction m2)
   in tf_cell_cache (ti_frame m1) = [char_cell 97, default_cell, default_cell]
    \<and> tf_cell_cache (ti_frame m2) = [char_cell 97, char_cell 97, default_cell]
    \<and> tf_cursor_x (ti_frame m2) = 2
    \<and> tf_cell_cache (ti_frame m3) = [char_cell 97, default_cell, default_cell]
    \<and> ti_frame (fst (abort_prediction m1)) = TerminalFrame_new unit_f32 3 1"
  by code_simp

end
