(* ===== verification/Rumsh_Escape.thy ===== *)
theory Rumsh_Escape
  imports Rumsh_Prelude
begin

text \<open>
  \<open>src/client/escape.rs\<close>: the byte-wise state machine that recognises SSH-style escapes (a tilde at the
  start of a line followed by a command byte) in the user's input.  \<open>esc_spec\<close> is an independent
  description of what a whole input means; the machine is proved to implement it.
\<close>

section \<open>The state machine\<close>

datatype EscapeCommand = Disconnect | Suspend | Help | ToggleOverlay

datatype EscapeState = Normal bool | WaitingForCommand

record EscapeInterpreter =
  esc_state :: EscapeState

datatype InterpreterResult =
    SendBytes bytes
  | Command EscapeCommand
  | Consume

definition EscapeInterpreter_new :: EscapeInterpreter where
  "EscapeInterpreter_new = \<lparr>esc_state = Normal True\<rparr>"

definition is_newline :: "u8 \<Rightarrow> bool" where
  "is_newline b \<longleftrightarrow> b = 13 \<or> b = 10"

definition handle_byte :: "EscapeInterpreter \<Rightarrow> u8 \<Rightarrow> EscapeInterpreter \<times> InterpreterResult" where
  "handle_byte e b =
     (case esc_state e of
        Normal last_was_newline \<Rightarrow>
          if last_was_newline \<and> b = 126 then (e\<lparr>esc_state := WaitingForCommand\<rparr>, Consume)
          else (e\<lparr>esc_state := Normal (is_newline b)\<rparr>, SendBytes [b])
      | WaitingForCommand \<Rightarrow>
          if b = 46 then (e\<lparr>esc_state := Normal False\<rparr>, Command Disconnect)
          else if b = 26 then (e\<lparr>esc_state := Normal True\<rparr>, Command Suspend)
          else if b = 63 then (e\<lparr>esc_state := Normal False\<rparr>, Command Help)
          else if b = 111 then (e\<lparr>esc_state := Normal False\<rparr>, Command ToggleOverlay)
          else if b = 126 then (e\<lparr>esc_state := Normal False\<rparr>, SendBytes [126])
          else (e\<lparr>esc_state := Normal (is_newline b)\<rparr>, SendBytes [126, b]))"

section \<open>Whole inputs\<close>

fun handle_bytes :: "EscapeInterpreter \<Rightarrow> bytes \<Rightarrow> EscapeInterpreter \<times> InterpreterResult list" where
  "handle_bytes e [] = (e, [])"
| "handle_bytes e (b # bs) =
     (case handle_byte e b of (e', r) \<Rightarrow> (case handle_bytes e' bs of (e'', rs) \<Rightarrow> (e'', r # rs)))"

text \<open>What an input means: \<open>nl\<close> says whether it begins at the start of a line.\<close>

definition command_of :: "u8 \<Rightarrow> EscapeCommand option" where
  "command_of b =
     (if b = 46 then Some Disconnect else if b = 26 then Some Suspend
      else if b = 63 then Some Help else if b = 111 then Some ToggleOverlay else None)"

definition escape_pair :: "u8 \<Rightarrow> InterpreterResult" where
  "escape_pair b =
     (case command_of b of Some k \<Rightarrow> Command k
      | None \<Rightarrow> SendBytes (if b = 126 then [126] else [126, b]))"

fun esc_spec :: "bool \<Rightarrow> bytes \<Rightarrow> InterpreterResult list" where
  "esc_spec nl [] = []"
| "esc_spec True [b] = (if b = 126 then [] else [SendBytes [b]])"
| "esc_spec True (b # c # bs) =
     (if b = 126 then escape_pair c # esc_spec (c = 26 \<or> is_newline c) bs
      else SendBytes [b] # esc_spec (is_newline b) (c # bs))"
| "esc_spec False (b # bs) = SendBytes [b] # esc_spec (is_newline b) bs"

fun sent_bytes :: "InterpreterResult list \<Rightarrow> bytes" where
  "sent_bytes [] = []"
| "sent_bytes (SendBytes bs # rs) = bs @ sent_bytes rs"
| "sent_bytes (_ # rs) = sent_bytes rs"

text \<open>A line of input starts at \<open>i\<close>.\<close>

definition line_start :: "bytes \<Rightarrow> nat \<Rightarrow> bool" where
  "line_start bs i \<longleftrightarrow> i = 0 \<or> is_newline (bs ! (i - 1))"

section \<open>Lemmas\<close>

lemma handle_bytes_Cons [simp]:
  "fst (handle_bytes e (b # bs)) = fst (handle_bytes (fst (handle_byte e b)) bs)"
  "snd (handle_bytes e (b # bs)) = snd (handle_byte e b) # snd (handle_bytes (fst (handle_byte e b)) bs)"
  by (simp_all split: prod.splits)

declare handle_bytes.simps(2) [simp del]

lemma handle_bytes_append:
  "fst (handle_bytes e (xs @ ys)) = fst (handle_bytes (fst (handle_bytes e xs)) ys)"
  by (induction xs arbitrary: e) simp_all

lemma length_handle_bytes [simp]: "length (snd (handle_bytes e bs)) = length bs"
  by (induction bs arbitrary: e) simp_all

lemma handle_byte_escape:
  "esc_state e = WaitingForCommand \<Longrightarrow>
   handle_byte e c = (e\<lparr>esc_state := Normal (c = 26 \<or> is_newline c)\<rparr>, escape_pair c)"
  by (simp add: handle_byte_def escape_pair_def command_of_def is_newline_def)

lemma handle_bytes_spec:
  "esc_state e = Normal nl \<Longrightarrow>
   filter (\<lambda>r. r \<noteq> Consume) (snd (handle_bytes e bs)) = esc_spec nl bs"
proof (induction nl bs arbitrary: e rule: esc_spec.induct)
  case (3 b c bs)
  show ?case
  proof (cases "b = 126")
    case True
    have "escape_pair c \<noteq> Consume" by (simp add: escape_pair_def split: option.splits)
    with True "3.IH"(1) [of "e\<lparr>esc_state := Normal (c = 26 \<or> is_newline c)\<rparr>"] "3.prems" show ?thesis
      by (simp add: handle_byte_def [of e] handle_byte_escape)
  next
    case False
    with "3.IH"(2) [of "e\<lparr>esc_state := Normal (is_newline b)\<rparr>"] "3.prems" show ?thesis
      by (simp add: handle_byte_def [of e])
  qed
next
  case (4 b bs)
  with "4.IH" [of "e\<lparr>esc_state := Normal (is_newline b)\<rparr>"] show ?case
    by (simp add: handle_byte_def [of e])
qed (auto simp: handle_byte_def)

lemma esc_spec_plain:
  assumes "\<forall>i < length bs. bs ! i = 126 \<longrightarrow> \<not> (if i = 0 then nl else is_newline (bs ! (i - 1)))"
  shows "esc_spec nl bs = map (\<lambda>b. SendBytes [b]) bs"
  using assms
proof (induction bs arbitrary: nl)
  case (Cons b bs)
  have "\<forall>i < length bs. bs ! i = 126 \<longrightarrow> \<not> (if i = 0 then is_newline b else is_newline (bs ! (i - 1)))"
  proof (intro allI impI)
    fix i assume i: "i < length bs" "bs ! i = 126"
    with Cons.prems [rule_format, of "Suc i"]
    show "\<not> (if i = 0 then is_newline b else is_newline (bs ! (i - 1)))"
      by (cases i) simp_all
  qed
  note IH = Cons.IH [OF this]
  have "\<not> (nl \<and> b = 126)" using Cons.prems by force
  with IH show ?case by (cases nl; cases bs) simp_all
qed simp

lemma sent_bytes_plain [simp]: "sent_bytes (map (\<lambda>b. SendBytes [b]) bs) = bs"
  by (induction bs) simp_all

lemma sent_bytes_filter [simp]: "sent_bytes (filter (\<lambda>r. r \<noteq> Consume) rs) = sent_bytes rs"
  by (induction rs rule: sent_bytes.induct) simp_all

text \<open>What the state remembers of a nonempty input: its last byte and the result it gave.\<close>

definition state_after :: "u8 \<Rightarrow> InterpreterResult \<Rightarrow> EscapeState" where
  "state_after b r =
     (if r = Consume then WaitingForCommand else Normal (is_newline b \<or> r = Command Suspend))"

lemma handle_byte_after: "esc_state (fst (handle_byte e b)) = state_after b (snd (handle_byte e b))"
  by (auto simp: handle_byte_def state_after_def is_newline_def split: EscapeState.splits)

lemma handle_byte_Command:
  "snd (handle_byte e b) = Command k \<longleftrightarrow> esc_state e = WaitingForCommand \<and> command_of b = Some k"
  by (auto simp: handle_byte_def command_of_def split: EscapeState.splits)

lemma handle_byte_Consume: "snd (handle_byte e b) = Consume \<longleftrightarrow> esc_state e = Normal True \<and> b = 126"
  by (auto simp: handle_byte_def split: EscapeState.splits)

text \<open>The state before the byte at index \<open>i\<close>.\<close>

lemma handle_bytes_nth:
  assumes "i < length bs"
  shows "snd (handle_bytes e bs) ! i = snd (handle_byte (fst (handle_bytes e (take i bs))) (bs ! i))"
  using assms
proof (induction bs arbitrary: e i)
  case (Cons b bs)
  then show ?case by (cases i) simp_all
qed simp

lemma handle_bytes_state:
  assumes "i \<le> length bs" "0 < i"
  shows "esc_state (fst (handle_bytes e (take i bs))) = state_after (bs ! (i - 1)) (snd (handle_bytes e bs) ! (i - 1))"
proof -
  obtain j where j: "i = Suc j" using assms(2) by (cases i) auto
  with assms(1) have "take i bs = take j bs @ [bs ! j]" by (simp add: take_Suc_conv_app_nth)
  then have "fst (handle_bytes e (take i bs)) = fst (handle_byte (fst (handle_bytes e (take j bs))) (bs ! j))"
    by (simp add: handle_bytes_append)
  with handle_byte_after j assms(1) handle_bytes_nth [of j bs e] show ?thesis by simp
qed

section \<open>Properties\<close>

text \<open>C7: The escape machine implements the meaning of its input: leaving out the bytes it merely holds
  back, its results are those of \<open>esc_spec\<close>.  In particular an input with no tilde at the start of a line
  passes through unchanged and triggers no command.\<close>

theorem escape_implements_spec:
  "filter (\<lambda>r. r \<noteq> Consume) (snd (handle_bytes EscapeInterpreter_new input)) = esc_spec True input
   \<and> ((\<forall>i < length input. input ! i = 126 \<longrightarrow> \<not> line_start input i) \<longrightarrow>
        sent_bytes (snd (handle_bytes EscapeInterpreter_new input)) = input
        \<and> (\<forall>k. Command k \<notin> set (snd (handle_bytes EscapeInterpreter_new input))))"
proof -
  let ?rs = "snd (handle_bytes EscapeInterpreter_new input)"
  have spec: "filter (\<lambda>r. r \<noteq> Consume) ?rs = esc_spec True input"
    by (rule handle_bytes_spec) (simp add: EscapeInterpreter_new_def)
  moreover have "sent_bytes ?rs = input \<and> (\<forall>k. Command k \<notin> set ?rs)"
    if "\<forall>i < length input. input ! i = 126 \<longrightarrow> \<not> line_start input i"
  proof -
    have plain: "filter (\<lambda>r. r \<noteq> Consume) ?rs = map (\<lambda>b. SendBytes [b]) input"
      unfolding spec by (rule esc_spec_plain) (use that in \<open>auto simp: line_start_def\<close>)
    then have "sent_bytes ?rs = input"
      using sent_bytes_filter [of ?rs] by simp
    moreover have "Command k \<notin> set ?rs" for k
      using arg_cong [OF plain, of set] by auto
    ultimately show ?thesis by blast
  qed
  ultimately show ?thesis by blast
qed

theorem escape_implements_spec_witness:
  "sent_bytes (snd (handle_bytes EscapeInterpreter_new [97, 126, 46])) = [97, 126, 46]"
proof -
  have "\<forall>i < length [97, 126, 46 :: u8]. [97, 126, 46 :: u8] ! i = 126 \<longrightarrow> \<not> line_start [97, 126, 46] i"
    by (simp add: line_start_def is_newline_def All_less_Suc numeral_3_eq_3)
  with escape_implements_spec [of "[97, 126, 46]"] show ?thesis by blast
qed

text \<open>A command is executed only for its own byte, directly after a tilde that the machine held back,
  and that tilde stood at the start of the session, after a carriage return or line feed, or right after a
  suspend command.\<close>

theorem escape_commands_positions:
  assumes "i < length input" "snd (handle_bytes EscapeInterpreter_new input) ! i = Command k"
  shows "command_of (input ! i) = Some k \<and> 0 < i \<and> input ! (i - 1) = 126
    \<and> snd (handle_bytes EscapeInterpreter_new input) ! (i - 1) = Consume
    \<and> (i = 1 \<or> is_newline (input ! (i - 2)) \<or> snd (handle_bytes EscapeInterpreter_new input) ! (i - 2) = Command Suspend)"
proof -
  let ?e = EscapeInterpreter_new and ?rs = "snd (handle_bytes EscapeInterpreter_new input)"
  have cmd: "esc_state (fst (handle_bytes ?e (take i input))) = WaitingForCommand" "command_of (input ! i) = Some k"
    using assms by (simp_all add: handle_bytes_nth handle_byte_Command)
  then have i: "0 < i" by (cases i) (simp_all add: EscapeInterpreter_new_def)
  with cmd(1) assms(1) have held: "?rs ! (i - 1) = Consume"
    by (simp add: handle_bytes_state state_after_def split: if_splits)
  then have prev: "esc_state (fst (handle_bytes ?e (take (i - 1) input))) = Normal True" "input ! (i - 1) = 126"
    using assms(1) i by (simp_all add: handle_bytes_nth handle_byte_Consume)
  have "i = 1 \<or> is_newline (input ! (i - 2)) \<or> ?rs ! (i - 2) = Command Suspend"
  proof (cases "i = 1")
    case False
    with i have "0 < i - 1" "i - 1 \<le> length input" using assms(1) by auto
    from handle_bytes_state [OF this(2,1), of ?e] prev(1) show ?thesis
      by (auto simp: state_after_def numeral_2_eq_2 split: if_splits)
  qed simp
  with cmd(2) i held prev(2) show ?thesis by blast
qed

theorem escape_commands_positions_witness:
  "snd (handle_bytes EscapeInterpreter_new [13, 126, 46]) ! 2 = Command Disconnect
   \<and> [13, 126, 46 :: u8] ! 1 = 126 \<and> command_of 46 = Some Disconnect"
proof -
  have "snd (handle_bytes EscapeInterpreter_new [13, 126, 46]) ! 2 = Command Disconnect"
    by (simp add: handle_byte_def EscapeInterpreter_new_def is_newline_def)
  with escape_commands_positions [of 2 "[13, 126, 46]" Disconnect] show ?thesis by simp
qed

end
