(* ===== verification/Rumsh_Client_Session.thy ===== *)
theory Rumsh_Client_Session
  imports Rumsh_Codec Rumsh_Mirror Rumsh_Escape
begin

text \<open>
  \<open>src/client/session.rs\<close>: \<open>MirrorSession\<close>, the client's protocol state machine.  The codec is the argument
  \<open>C\<close> (the trait object) with its state in the session, floating-point telemetry the argument \<open>F\<close>, and the
  clock reading \<open>now\<close> an argument as in the source.  A method that returns \<open>Result\<close> yields the session it
  leaves behind and the result; the iteration order of a \<open>HashMap\<close> is the order of its list.
\<close>

section \<open>State\<close>

datatype ClientAction =
    SendPacket bytes
  | Paint
  | Suspend_action
  | ShowHelp
  | Disconnect_action

record ('c, 'f) MirrorSession =
  ms_session_id :: u64
  ms_seq_num :: u64
  ms_ack_seq_num :: u64
  ms_codec :: 'c
  ms_last_recv_time :: instant
  ms_is_echo_enabled :: bool
  ms_sent_packets :: "(u64 \<times> instant) list"
  ms_unacked_packets :: "(u64 \<times> bytes \<times> instant) list"
  ms_last_arq_check :: instant
  ms_last_keepalive_sent :: instant
  ms_keepalive_interval :: duration
  ms_last_ack_sent :: instant
  ms_is_reconnecting :: bool
  ms_transient_seq_num :: u64
  ms_last_nack_check :: instant
  ms_nacked_frames :: "(u64 \<times> instant) list"
  ms_expected_server_seq :: u64
  ms_loss_window :: "bool list"
  ms_state_history :: "(u64 \<times> GridState) list"
  ms_last_telemetry_calc :: instant
  ms_bytes_recv_acc :: nat
  ms_comp_acc :: nat
  ms_decomp_acc :: nat
  ms_paint_count_acc :: u32
  ms_mirror :: "'f TerminalInner"
  ms_interpreter :: EscapeInterpreter

definition MirrorSession_new ::
    "'f f32_ops \<Rightarrow> u64 \<Rightarrow> 'c \<Rightarrow> u64 \<Rightarrow> u16 \<Rightarrow> u16 \<Rightarrow> bool \<Rightarrow> instant \<Rightarrow> ('c, 'f) MirrorSession" where
  "MirrorSession_new F session_id codec start_server_seq cols rows overlay now =
     \<lparr>ms_session_id = session_id, ms_seq_num = 0, ms_ack_seq_num = 0, ms_codec = codec,
      ms_last_recv_time = now, ms_is_echo_enabled = True, ms_sent_packets = [], ms_unacked_packets = [],
      ms_last_arq_check = now, ms_last_keepalive_sent = now, ms_keepalive_interval = from_secs 2,
      ms_last_ack_sent = now, ms_is_reconnecting = False, ms_transient_seq_num = 0,
      ms_last_nack_check = now, ms_nacked_frames = [], ms_expected_server_seq = start_server_seq,
      ms_loss_window = [], ms_state_history = [], ms_last_telemetry_calc = now, ms_bytes_recv_acc = 0,
      ms_comp_acc = 0, ms_decomp_acc = 0, ms_paint_count_acc = 0,
      ms_mirror = set_overlay_enabled (ClientTerminal_new F cols rows) overlay,
      ms_interpreter = EscapeInterpreter_new\<rparr>"

text \<open>Running a method of the mirror on the session.\<close>

definition with_mirror ::
    "('c, 'f) MirrorSession \<Rightarrow> ('f TerminalInner \<Rightarrow> 'f TerminalInner \<times> 'a res)
      \<Rightarrow> ('c, 'f) MirrorSession \<times> 'a res" where
  "with_mirror s op = (case op (ms_mirror s) of (m, r) \<Rightarrow> (s\<lparr>ms_mirror := m\<rparr>, r))"

section \<open>Sealing packets\<close>

text \<open>The tail that \<open>prepare_keystrokes\<close>, \<open>prepare_keepalive\<close> and \<open>prepare_resize\<close> share.\<close>

definition seal_reliable ::
    "'c PacketCodec \<Rightarrow> ('c, 'f) MirrorSession \<Rightarrow> u64 \<Rightarrow> ClientPayload \<Rightarrow> instant
      \<Rightarrow> ('c, 'f) MirrorSession \<times> bytes res" where
  "seal_reliable C s seq payload now =
     (case seal_client C (ms_codec s) (ms_session_id s) seq (ms_ack_seq_num s) payload of
        Inl e \<Rightarrow> (s, Inl e)
      | Inr packet_bytes \<Rightarrow>
          (s\<lparr>ms_unacked_packets := AList.update seq (packet_bytes, now) (ms_unacked_packets s)\<rparr>, Inr packet_bytes))"

definition prepare_keystrokes ::
    "'c PacketCodec \<Rightarrow> ('c, 'f) MirrorSession \<Rightarrow> bytes \<Rightarrow> instant \<Rightarrow> ('c, 'f) MirrorSession \<times> (bytes \<times> u64) res" where
  "prepare_keystrokes C s keys now =
     (let seq = ms_seq_num s + 1;
          s1 = s\<lparr>ms_seq_num := seq, ms_sent_packets := AList.update seq now (ms_sent_packets s)\<rparr>
      in st_then (seal_reliable C s1 seq (Keystrokes keys) now) (\<lambda>s2 packet_bytes. (s2, Inr (packet_bytes, seq))))"

definition transient_seq :: "u64 \<Rightarrow> u64" where
  "transient_seq n = push_bit 63 1 OR n"

definition prepare_ack ::
    "'c PacketCodec \<Rightarrow> ('c, 'f) MirrorSession \<Rightarrow> instant \<Rightarrow> ('c, 'f) MirrorSession \<times> bytes res" where
  "prepare_ack C s now =
     (let n = ms_transient_seq_num s + 1;
          s1 = s\<lparr>ms_transient_seq_num := n, ms_last_ack_sent := now\<rparr>
      in (s1, seal_client C (ms_codec s1) (ms_session_id s1) (transient_seq n) (ms_ack_seq_num s1) C_Ack))"

definition prepare_keepalive ::
    "'c PacketCodec \<Rightarrow> ('c, 'f) MirrorSession \<Rightarrow> instant \<Rightarrow> ('c, 'f) MirrorSession \<times> bytes res" where
  "prepare_keepalive C s now =
     (let seq = ms_seq_num s + 1;
          s1 = s\<lparr>ms_seq_num := seq, ms_sent_packets := AList.update seq now (ms_sent_packets s),
                 ms_last_keepalive_sent := now\<rparr>
      in seal_reliable C s1 seq C_KeepAlive now)"

definition prepare_resize ::
    "'c PacketCodec \<Rightarrow> ('c, 'f) MirrorSession \<Rightarrow> u16 \<Rightarrow> u16 \<Rightarrow> instant \<Rightarrow> ('c, 'f) MirrorSession \<times> bytes res" where
  "prepare_resize C s cols rows now =
     (let seq = ms_seq_num s + 1;
          s1 = s\<lparr>ms_seq_num := seq, ms_sent_packets := AList.update seq now (ms_sent_packets s)\<rparr>
      in seal_reliable C s1 seq (Resize cols rows) now)"

definition prepare_fragment_nack ::
    "'c PacketCodec \<Rightarrow> ('c, 'f) MirrorSession \<Rightarrow> u64 \<Rightarrow> u64 list \<Rightarrow> ('c, 'f) MirrorSession \<times> bytes res" where
  "prepare_fragment_nack C s frame_seq rmask =
     (let n = ms_transient_seq_num s + 1; s1 = s\<lparr>ms_transient_seq_num := n\<rparr>
      in (s1, seal_client C (ms_codec s1) (ms_session_id s1) (transient_seq n) (ms_ack_seq_num s1)
                (FragmentNack frame_seq rmask)))"

section \<open>Receiving\<close>

definition is_recovering :: "('c, 'f) MirrorSession \<Rightarrow> instant \<Rightarrow> bool" where
  "is_recovering s now \<longleftrightarrow> duration_since now (ms_last_recv_time s) > from_secs 5"

definition reset_after_outage :: "('c, 'f) MirrorSession \<Rightarrow> u64 \<Rightarrow> instant \<Rightarrow> ('c, 'f) MirrorSession" where
  "reset_after_outage s seq now =
     (if is_recovering s now then s\<lparr>ms_loss_window := [], ms_expected_server_seq := seq\<rparr> else s)"

text \<open>The RTT sample of an acknowledgement, taken before the pruning below.\<close>

definition rtt_sample :: "('c, 'f) MirrorSession \<Rightarrow> u64 \<Rightarrow> instant \<Rightarrow> u32 option" where
  "rtt_sample s ack now =
     (case map_of (ms_sent_packets s) ack of
        None \<Rightarrow> None
      | Some sent_time \<Rightarrow>
          if \<not> is_recovering s now then
            (let rtt = of_nat (as_millis (duration_since now sent_time)) :: u32 in
             if rtt < 5000 then Some rtt else None)
          else None)"

definition prune_acked :: "('c, 'f) MirrorSession \<Rightarrow> u64 \<Rightarrow> ('c, 'f) MirrorSession" where
  "prune_acked s ack =
     s\<lparr>ms_sent_packets := map_retain (\<lambda>k _. k > ack) (map_remove ack (ms_sent_packets s)),
       ms_unacked_packets := map_retain (\<lambda>k _. k > ack) (ms_unacked_packets s)\<rparr>"

definition push_arrival :: "('c, 'f) MirrorSession \<Rightarrow> u64 \<Rightarrow> ('c, 'f) MirrorSession" where
  "push_arrival s seq =
     (let w = ms_loss_window s; expected = ms_expected_server_seq s in
      if expected = 0 then s\<lparr>ms_expected_server_seq := seq + 1\<rparr>
      else if seq > expected then
        s\<lparr>ms_loss_window := w @ replicate (unat (seq - expected)) False @ [True],
          ms_expected_server_seq := seq + 1\<rparr>
      else if seq = expected then
        s\<lparr>ms_loss_window := w @ [True], ms_expected_server_seq := seq + 1\<rparr>
      else
        (let gap = unat (expected - 1 - seq) in
         if gap < length w then s\<lparr>ms_loss_window := w[length w - 1 - gap := True]\<rparr> else s))"

text \<open>\<open>while self.loss_window.len() > 100 { self.loss_window.pop_front(); }\<close>\<close>

definition update_loss_window :: "('c, 'f) MirrorSession \<Rightarrow> u64 \<Rightarrow> ('c, 'f) MirrorSession" where
  "update_loss_window s seq =
     (let s1 = push_arrival s seq
      in s1\<lparr>ms_loss_window := drop (length (ms_loss_window s1) - 100) (ms_loss_window s1)\<rparr>)"

definition loss_pct_of :: "'f f32_ops \<Rightarrow> bool list \<Rightarrow> 'f option" where
  "loss_pct_of F w =
     (if w \<noteq> [] then
        Some (f32_mul F (f32_div F (f32_of_nat F (length (filter (\<lambda>r. \<not> r) w))) (f32_of_nat F (length w)))
               (f32_of_nat F 100))
      else None)"

definition empty_grid_for :: "FrameUpdate \<Rightarrow> GridState" where
  "empty_grid_for update =
     \<lparr>gs_cols = fu_cols update, gs_rows = fu_rows update, gs_cursor_x = 0, gs_cursor_y = 0,
      gs_cursor_visible = False,
      gs_cells = replicate (unat (fu_cols update) * unat (fu_rows update)) default_cell,
      gs_row_wrapped = replicate (unat (fu_rows update)) False\<rparr>"

definition push_history :: "('c, 'f) MirrorSession \<Rightarrow> u64 \<Rightarrow> GridState \<Rightarrow> ('c, 'f) MirrorSession" where
  "push_history s seq g =
     (let h = ms_state_history s @ [(seq, g)]
      in s\<lparr>ms_state_history := (if length h > 200 then tl h else h)\<rparr>)"

text \<open>\<open>if let Ok(ack_bytes) = self.prepare_ack(now) { actions.push(..) }\<close>\<close>

definition try_ack ::
    "'c PacketCodec \<Rightarrow> ('c, 'f) MirrorSession \<Rightarrow> instant \<Rightarrow> ('c, 'f) MirrorSession \<times> ClientAction list" where
  "try_ack C s now =
     (case prepare_ack C s now of
        (s1, Inr ack_bytes) \<Rightarrow> (s1, [SendPacket ack_bytes])
      | (s1, Inl _) \<Rightarrow> (s1, []))"

definition apply_update ::
    "'c PacketCodec \<Rightarrow> ('c, 'f) MirrorSession \<Rightarrow> u64 \<Rightarrow> FrameUpdate \<Rightarrow> instant
      \<Rightarrow> ('c, 'f) MirrorSession \<times> ClientAction list res" where
  "apply_update C s seq update now =
     (let ref_state = (if fu_ref_seq update = 0 then None else map_of (ms_state_history s) (fu_ref_seq update)) in
      if ref_state = None \<and> fu_ref_seq update \<noteq> 0 then
        (case try_ack C s now of (s1, actions) \<Rightarrow> (s1, Inr actions))
      else
        (let base = (case ref_state of Some g \<Rightarrow> g | None \<Rightarrow> empty_grid_for update) in
         (case apply_diff base update of
            (_, Inl e) \<Rightarrow> (s, Inl e)
          | (new_state, Inr _) \<Rightarrow>
              st_then (with_mirror (s\<lparr>ms_is_echo_enabled := fu_is_echo_enabled update\<rparr>)
                         (\<lambda>m. apply_frame m new_state seq)) (\<lambda>s1 _.
              st_then (if \<not> ms_is_echo_enabled s1 then with_mirror s1 abort_prediction else (s1, Inr ())) (\<lambda>s2 _.
                (let s3 = push_history s2 seq new_state in
                 if duration_since now (ms_last_ack_sent s3) \<ge> from_millis 30 then
                   (case try_ack C s3 now of (s4, acks) \<Rightarrow> (s4, Inr (Paint # acks)))
                 else (s3, Inr [Paint])))))))"

definition handle_payload ::
    "'c PacketCodec \<Rightarrow> ('c, 'f) MirrorSession \<Rightarrow> u64 \<Rightarrow> ServerPayload \<Rightarrow> instant
      \<Rightarrow> ('c, 'f) MirrorSession \<times> ClientAction list res" where
  "handle_payload C s seq payload now =
     (case payload of
        Frame update \<Rightarrow> apply_update C s seq update now
      | S_KeepAlive \<Rightarrow> (s, Inr [])
      | S_Shutdown \<Rightarrow> (s, Inr [Disconnect_action])
      | HandshakeAck _ \<Rightarrow> (s, Inr []))"

text \<open>The bookkeeping a packet causes whether or not it is new.\<close>

definition note_packet ::
    "'f f32_ops \<Rightarrow> ('c, 'f) MirrorSession \<Rightarrow> u64 \<Rightarrow> u64 \<Rightarrow> CodecStats \<Rightarrow> instant
      \<Rightarrow> ('c, 'f) MirrorSession \<times> unit res" where
  "note_packet F s seq ack stats now =
     (let s1 = s\<lparr>ms_bytes_recv_acc := ms_bytes_recv_acc s + wire_len stats,
                 ms_comp_acc := ms_comp_acc s + comp_len stats,
                 ms_decomp_acc := ms_decomp_acc s + decomp_len stats\<rparr>;
          s2 = reset_after_outage s1 seq now;
          rtt_updated = rtt_sample s2 ack now;
          s3 = update_loss_window (prune_acked s2 ack) seq;
          loss_pct = loss_pct_of F (ms_loss_window s3)
      in st_then (with_mirror s3 (\<lambda>m. acknowledge m ack)) (\<lambda>s4 _.
           (s4\<lparr>ms_mirror := record_rtt_loss F (ms_mirror s4) rtt_updated loss_pct\<rparr>, Inr ())))"

definition accept_packet ::
    "('c, 'f) MirrorSession \<Rightarrow> u64 \<Rightarrow> instant \<Rightarrow> ('c, 'f) MirrorSession \<times> unit res" where
  "accept_packet s seq now =
     (let s1 = s\<lparr>ms_last_recv_time := now, ms_ack_seq_num := seq, ms_keepalive_interval := from_secs 2\<rparr> in
      if ms_is_reconnecting s1
      then with_mirror (s1\<lparr>ms_is_reconnecting := False\<rparr>) (\<lambda>m. set_reconnecting m False)
      else (s1, Inr ()))"

definition feed_packet ::
    "'c PacketCodec \<Rightarrow> 'f f32_ops \<Rightarrow> ('c, 'f) MirrorSession \<Rightarrow> bytes \<Rightarrow> instant
      \<Rightarrow> ('c, 'f) MirrorSession \<times> ClientAction list res" where
  "feed_packet C F s packet_bytes now =
     (case open_server C (ms_codec s) packet_bytes of
        (codec, Inl _) \<Rightarrow> (s\<lparr>ms_codec := codec\<rparr>, Inr [])
      | (codec, Inr None) \<Rightarrow> (s\<lparr>ms_codec := codec\<rparr>, Inr [])
      | (codec, Inr (Some (wire_packet, payload, stats))) \<Rightarrow>
          (let seq = esp_seq_num wire_packet; ack = esp_ack_seq_num wire_packet in
           st_then (note_packet F (s\<lparr>ms_codec := codec\<rparr>) seq ack stats now) (\<lambda>s1 _.
             if seq \<le> ms_ack_seq_num s1 then (s1, Inr [])
             else st_then (accept_packet s1 seq now) (\<lambda>s2 _. handle_payload C s2 seq payload now))))"

section \<open>User input and resizing\<close>

text \<open>
  The loop of \<open>feed_stdin\<close>: the session, the bytes to send, the actions so far, and whether the loop
  returned early (on the disconnect command).
\<close>

fun stdin_loop ::
    "('c, 'f) MirrorSession \<Rightarrow> bytes \<Rightarrow> bytes \<Rightarrow> ClientAction list
      \<Rightarrow> ('c, 'f) MirrorSession \<times> bytes \<times> ClientAction list \<times> bool" where
  "stdin_loop s [] to_send actions = (s, to_send, actions, False)"
| "stdin_loop s (b # buf) to_send actions =
     (case handle_byte (ms_interpreter s) b of
        (interp, r) \<Rightarrow>
          (let s1 = s\<lparr>ms_interpreter := interp\<rparr> in
           (case r of
              SendBytes bs \<Rightarrow> stdin_loop s1 buf (to_send @ bs) actions
            | Consume \<Rightarrow> stdin_loop s1 buf to_send actions
            | Command Disconnect \<Rightarrow> (s1, to_send, actions @ [Disconnect_action], True)
            | Command Suspend \<Rightarrow>
                stdin_loop (s1\<lparr>ms_mirror := mark_dirty (ms_mirror s1)\<rparr>) buf to_send (actions @ [Suspend_action])
            | Command Help \<Rightarrow>
                stdin_loop (s1\<lparr>ms_mirror := mark_dirty (ms_mirror s1)\<rparr>) buf to_send (actions @ [ShowHelp])
            | Command ToggleOverlay \<Rightarrow>
                stdin_loop (s1\<lparr>ms_mirror := toggle_overlay (ms_mirror s1)\<rparr>) buf to_send (actions @ [Paint]))))"

definition is_ascii_control :: "u8 \<Rightarrow> bool" where
  "is_ascii_control b \<longleftrightarrow> b < 32 \<or> b = 127"

definition feed_stdin ::
    "'c PacketCodec \<Rightarrow> ('c, 'f) MirrorSession \<Rightarrow> bytes \<Rightarrow> instant
      \<Rightarrow> ('c, 'f) MirrorSession \<times> ClientAction list res" where
  "feed_stdin C s buf now =
     (case stdin_loop s buf [] [] of
        (s1, to_send, actions, returned) \<Rightarrow>
          if returned then (s1, Inr actions)
          else if to_send \<noteq> [] then
            st_then (prepare_keystrokes C s1 to_send now) (\<lambda>s2 (packet_bytes, seq).
              if ms_is_echo_enabled s2 \<and> (\<forall>b \<in> set to_send. \<not> is_ascii_control b) then
                st_then (with_mirror s2 (\<lambda>m. predict_input m to_send seq)) (\<lambda>s3 _.
                  (s3, Inr (actions @ [Paint, SendPacket packet_bytes])))
              else (s2, Inr (actions @ [SendPacket packet_bytes])))
          else (s1, Inr actions))"

definition on_winch ::
    "'c PacketCodec \<Rightarrow> ('c, 'f) MirrorSession \<Rightarrow> u16 \<Rightarrow> u16 \<Rightarrow> instant
      \<Rightarrow> ('c, 'f) MirrorSession \<times> ClientAction list res" where
  "on_winch C s cols rows now =
     st_then (prepare_resize C s cols rows now) (\<lambda>s1 packet_bytes.
     st_then (with_mirror s1 abort_prediction) (\<lambda>s2 _.
       (s2\<lparr>ms_mirror := mark_dirty (ms_mirror s2)\<rparr>, Inr [SendPacket packet_bytes, Paint])))"

section \<open>Timers\<close>

definition tick_keepalive ::
    "'c PacketCodec \<Rightarrow> ('c, 'f) MirrorSession \<Rightarrow> instant \<Rightarrow> ('c, 'f) MirrorSession \<times> ClientAction list res" where
  "tick_keepalive C s now =
     (if duration_since now (ms_last_keepalive_sent s) \<ge> ms_keepalive_interval s then
        st_then (prepare_keepalive C s now) (\<lambda>s1 packet_bytes. (s1, Inr [SendPacket packet_bytes]))
      else (s, Inr []))"

definition rtt_limit :: "u32 \<Rightarrow> duration" where
  "rtt_limit rtt = from_millis (max 200 (min 1000 (unat rtt * 2)))"

definition due_packets :: "('c, 'f) MirrorSession \<Rightarrow> instant \<Rightarrow> (u64 \<times> bytes \<times> instant) list" where
  "due_packets s now =
     filter (\<lambda>(_, _, sent_time). duration_since now sent_time \<ge> rtt_limit (rtt_ms (ms_mirror s)))
       (ms_unacked_packets s)"

definition tick_arq :: "('c, 'f) MirrorSession \<Rightarrow> instant \<Rightarrow> ('c, 'f) MirrorSession \<times> ClientAction list" where
  "tick_arq s now =
     (if duration_since now (ms_last_arq_check s) \<ge> from_millis 100 then
        (let resend = due_packets s now in
         (s\<lparr>ms_last_arq_check := now,
            ms_unacked_packets :=
              fold (\<lambda>(seq, packet_bytes, _) m. AList.update seq (packet_bytes, now) m) resend (ms_unacked_packets s)\<rparr>,
          map (\<lambda>(_, packet_bytes, _). SendPacket packet_bytes) resend))
      else (s, []))"

definition outage_interval :: "duration \<Rightarrow> duration" where
  "outage_interval silence =
     (if silence < from_secs 5 then from_secs 2
      else if silence < from_secs 15 then from_secs 5
      else if silence < from_secs 60 then from_secs 15
      else if silence < from_secs 180 then from_secs 60
      else if silence < from_secs 600 then from_secs 120
      else from_secs 180)"

definition tick_banner ::
    "('c, 'f) MirrorSession \<Rightarrow> instant \<Rightarrow> ('c, 'f) MirrorSession \<times> ClientAction list res" where
  "tick_banner s now =
     (let silence = duration_since now (ms_last_recv_time s); needs_banner = (silence > from_millis 5000) in
      if ms_is_reconnecting s \<noteq> needs_banner then
        st_then (with_mirror (s\<lparr>ms_is_reconnecting := needs_banner\<rparr>) (\<lambda>m. set_reconnecting m needs_banner)) (\<lambda>s1 _.
          (s1\<lparr>ms_keepalive_interval := outage_interval silence\<rparr>, Inr [Paint]))
      else (s, Inr []))"

definition tick_telemetry ::
    "'f f32_ops \<Rightarrow> ('c, 'f) MirrorSession \<Rightarrow> instant \<Rightarrow> ('c, 'f) MirrorSession \<times> ClientAction list" where
  "tick_telemetry F s now =
     (let elapsed = duration_since now (ms_last_telemetry_calc s) in
      if elapsed \<ge> from_secs 1 then
        (let kb_s = f32_div F (f32_div F (f32_of_nat F (ms_bytes_recv_acc s)) (f32_of_nat F 1024)) (f32_as_secs F elapsed);
             ratio = (if ms_comp_acc s > 0 \<and> ms_decomp_acc s > 0
                      then f32_div F (f32_of_nat F (ms_decomp_acc s)) (f32_of_nat F (ms_comp_acc s))
                      else f32_of_nat F 1);
             fps = f32_to_u32 F (f32_round F (f32_div F (f32_of_nat F (unat (ms_paint_count_acc s))) (f32_as_secs F elapsed)))
         in (s\<lparr>ms_mirror := record_fps (record_bandwidth_compression F (ms_mirror s) kb_s ratio) fps,
               ms_bytes_recv_acc := 0, ms_comp_acc := 0, ms_decomp_acc := 0, ms_paint_count_acc := 0,
               ms_last_telemetry_calc := now\<rparr>, [Paint]))
      else (s, []))"

fun nack_loop ::
    "'c PacketCodec \<Rightarrow> ('c, 'f) MirrorSession \<Rightarrow> (u64 \<times> u64 list) list \<Rightarrow> instant
      \<Rightarrow> ('c, 'f) MirrorSession \<times> ClientAction list res" where
  "nack_loop C s [] now = (s, Inr [])"
| "nack_loop C s ((frame_seq, rmask) # incomplete) now =
     (let should_nack =
        (case map_of (ms_nacked_frames s) frame_seq of
           Some last_sent \<Rightarrow> duration_since now last_sent \<ge> from_millis 100
         | None \<Rightarrow> True)
      in if should_nack then
           st_then (prepare_fragment_nack C (s\<lparr>ms_nacked_frames := AList.update frame_seq now (ms_nacked_frames s)\<rparr>)
                      frame_seq rmask) (\<lambda>s1 packet_bytes.
           st_then (nack_loop C s1 incomplete now) (\<lambda>s2 actions.
             (s2, Inr (SendPacket packet_bytes # actions))))
         else nack_loop C s incomplete now)"

definition tick_nack ::
    "'c PacketCodec \<Rightarrow> ('c, 'f) MirrorSession \<Rightarrow> instant \<Rightarrow> ('c, 'f) MirrorSession \<times> ClientAction list res" where
  "tick_nack C s now =
     (if duration_since now (ms_last_nack_check s) \<ge> from_millis 40 then
        st_then (nack_loop C (s\<lparr>ms_last_nack_check := now\<rparr>) (incomplete_frames C (ms_codec s)) now) (\<lambda>s1 actions.
          (s1\<lparr>ms_nacked_frames :=
                map_retain (\<lambda>seq time. seq > ms_ack_seq_num s1 \<and> duration_since now time < from_secs 2)
                  (ms_nacked_frames s1)\<rparr>, Inr actions))
      else (s, Inr []))"

definition on_tick ::
    "'c PacketCodec \<Rightarrow> 'f f32_ops \<Rightarrow> ('c, 'f) MirrorSession \<Rightarrow> instant
      \<Rightarrow> ('c, 'f) MirrorSession \<times> ClientAction list res" where
  "on_tick C F s now =
     st_then (tick_keepalive C s now) (\<lambda>s1 a1.
     (case tick_arq s1 now of (s2, a2) \<Rightarrow>
     st_then (tick_banner s2 now) (\<lambda>s3 a3.
     (case tick_telemetry F s3 now of (s4, a4) \<Rightarrow>
     st_then (tick_nack C s4 now) (\<lambda>s5 a5. (s5, Inr (a1 @ a2 @ a3 @ a4 @ a5)))))))"

definition copy_frame_if_dirty ::
    "('c, 'f) MirrorSession \<Rightarrow> 'f TerminalFrame \<Rightarrow> (('c, 'f) MirrorSession \<times> 'f TerminalFrame) \<times> bool" where
  "copy_frame_if_dirty s dest =
     (case consume_updates (ms_mirror s) dest of
        ((m, dest1), True) \<Rightarrow>
          ((s\<lparr>ms_mirror := m, ms_paint_count_acc := ms_paint_count_acc s + 1\<rparr>, dest1), True)
      | ((m, dest1), False) \<Rightarrow> ((s\<lparr>ms_mirror := m\<rparr>, dest1), False))"

section \<open>The client's invariant\<close>

definition history_wf :: "(u64 \<Rightarrow> bool) \<Rightarrow> (u64 \<times> GridState) list \<Rightarrow> bool" where
  "history_wf P h \<longleftrightarrow> sorted_wrt (<) (map fst h) \<and> (\<forall>(k, g) \<in> set h. P k \<and> grid_wf g)"

definition client_wf :: "('c, 'f) MirrorSession \<Rightarrow> bool" where
  "client_wf s \<longleftrightarrow> mirror_wf (ms_mirror s) \<and> length (ms_loss_window s) \<le> 100 \<and> length (ms_state_history s) \<le> 200
     \<and> history_wf (\<lambda>k. k \<le> ms_ack_seq_num s) (ms_state_history s)
     \<and> hm_wf (ms_sent_packets s) \<and> hm_wf (ms_unacked_packets s) \<and> hm_wf (ms_nacked_frames s)"

lemma client_wf_new [rumsh_inv]: "client_wf (MirrorSession_new F sid codec start cols rows overlay now)"
  by (simp add: client_wf_def MirrorSession_new_def history_wf_def hm_wf_def telemetry_wf ClientTerminal_new_wf)

text \<open>What an operation may change without any effect on the invariant.\<close>

lemma client_wfD: "client_wf s \<Longrightarrow> mirror_wf (ms_mirror s)"
  by (simp add: client_wf_def)

lemma client_wf_mirror: "client_wf s \<Longrightarrow> mirror_wf m \<Longrightarrow> client_wf (s\<lparr>ms_mirror := m\<rparr>)"
  by (simp add: client_wf_def)

lemma client_wf_fields:
  "client_wf s \<Longrightarrow> client_wf (s\<lparr>ms_keepalive_interval := d\<rparr>)"
  "client_wf s \<Longrightarrow> client_wf (s\<lparr>ms_nacked_frames := map_retain P (ms_nacked_frames s)\<rparr>)"
  by (simp_all add: client_wf_def hash.invar_retain)

lemma with_mirror_wf:
  "client_wf s \<Longrightarrow> mirror_wf (fst (op (ms_mirror s))) \<Longrightarrow> client_wf (fst (with_mirror s op))"
  by (auto simp: with_mirror_def client_wf_mirror split: prod.splits)

lemma snd_with_mirror [simp]: "snd (with_mirror s op) = snd (op (ms_mirror s))"
  by (simp add: with_mirror_def split: prod.splits)

lemma fst_with_mirror: "fst (with_mirror s op) = s\<lparr>ms_mirror := fst (op (ms_mirror s))\<rparr>"
  by (simp add: with_mirror_def split: prod.splits)

lemma seal_reliable_wf: "client_wf s \<Longrightarrow> client_wf (fst (seal_reliable C s seq payload now))"
  by (simp add: seal_reliable_def client_wf_def hash.invar_insert split: sum.splits)

lemma fst_st_then_map: "fst (st_then m (\<lambda>s x. (s, Inr (f x)))) = fst m"
  by (auto simp: st_then_def split: prod.splits sum.splits)

lemma st_then_wf:
  assumes "P (fst m)" "\<And>x. P (fst m) \<Longrightarrow> snd m = Inr x \<Longrightarrow> P (fst (k (fst m) x))"
  shows "P (fst (st_then m k))"
  using assms by (auto simp: st_then_def split: prod.splits sum.splits)

lemma prepare_wf [rumsh_inv]:
  assumes "client_wf s"
  shows "client_wf (fst (prepare_keystrokes C s keys now))"
    and "client_wf (fst (prepare_ack C s now))"
    and "client_wf (fst (prepare_keepalive C s now))"
    and "client_wf (fst (prepare_resize C s cols rows now))"
    and "client_wf (fst (prepare_fragment_nack C s frame_seq rmask))"
proof -
  have 1: "client_wf (s\<lparr>ms_seq_num := n, ms_sent_packets := AList.update k t (ms_sent_packets s)\<rparr>)" for n k t
    using assms by (simp add: client_wf_def hash.invar_insert)
  have 2: "client_wf (s\<lparr>ms_seq_num := n, ms_sent_packets := AList.update k t (ms_sent_packets s), ms_last_keepalive_sent := t\<rparr>)" for n k t
    using 1 by (simp add: client_wf_def)
  show "client_wf (fst (prepare_keystrokes C s keys now))"
    unfolding prepare_keystrokes_def Let_def by (rule st_then_wf [where P = client_wf]) (simp_all add: seal_reliable_wf 1)
  show "client_wf (fst (prepare_keepalive C s now))"
    unfolding prepare_keepalive_def Let_def by (intro seal_reliable_wf 2)
  show "client_wf (fst (prepare_resize C s cols rows now))"
    unfolding prepare_resize_def Let_def by (intro seal_reliable_wf 1)
  show "client_wf (fst (prepare_ack C s now))" "client_wf (fst (prepare_fragment_nack C s frame_seq rmask))"
    using assms by (simp_all add: prepare_ack_def prepare_fragment_nack_def Let_def client_wf_def)
qed

lemma try_ack_wf [rumsh_inv]: "client_wf s \<Longrightarrow> client_wf (fst (try_ack C s now))"
  using prepare_wf(2) [of s C now] by (auto simp: try_ack_def split: prod.splits sum.splits)

lemma push_arrival_frame [simp]:
  "ms_mirror (push_arrival s seq) = ms_mirror s"
  "ms_state_history (push_arrival s seq) = ms_state_history s"
  "ms_ack_seq_num (push_arrival s seq) = ms_ack_seq_num s"
  "ms_seq_num (push_arrival s seq) = ms_seq_num s"
  "ms_codec (push_arrival s seq) = ms_codec s"
  "ms_session_id (push_arrival s seq) = ms_session_id s"
  "ms_sent_packets (push_arrival s seq) = ms_sent_packets s"
  "ms_unacked_packets (push_arrival s seq) = ms_unacked_packets s"
  "ms_nacked_frames (push_arrival s seq) = ms_nacked_frames s"
  by (simp_all add: push_arrival_def Let_def)

lemma update_loss_window_wf: "client_wf s \<Longrightarrow> client_wf (update_loss_window s seq)"
  by (simp add: client_wf_def update_loss_window_def Let_def)

lemma note_packet_wf [rumsh_inv]:
  assumes "client_wf s"
  shows "client_wf (fst (note_packet F s seq ack stats now))" "snd (note_packet F s seq ack stats now) = Inr ()"
proof -
  define s1 where "s1 = s\<lparr>ms_bytes_recv_acc := ms_bytes_recv_acc s + wire_len stats,
    ms_comp_acc := ms_comp_acc s + comp_len stats, ms_decomp_acc := ms_decomp_acc s + decomp_len stats\<rparr>"
  define s3 where "s3 = update_loss_window (prune_acked (reset_after_outage s1 seq now) ack) seq"
  have "client_wf (reset_after_outage s1 seq now)"
    using assms by (simp add: s1_def reset_after_outage_def client_wf_def)
  then have "client_wf (prune_acked (reset_after_outage s1 seq now) ack)"
    by (simp add: prune_acked_def client_wf_def hash.invar_retain hash.invar_remove)
  then have s3: "client_wf s3"
    by (simp add: s3_def update_loss_window_wf)
  then have "mirror_wf (ms_mirror s3)" by (simp add: client_wf_def)
  note ack = acknowledge_ok [OF this, of ack]
  show "snd (note_packet F s seq ack stats now) = Inr ()"
    using ack(1) by (simp add: note_packet_def Let_def s1_def [symmetric] s3_def [symmetric] st_then_Inr [of _ "()"])
  show "client_wf (fst (note_packet F s seq ack stats now))"
    unfolding note_packet_def Let_def s1_def [symmetric] s3_def [symmetric]
  proof (rule st_then_wf [where P = client_wf])
    show "client_wf (fst (with_mirror s3 (\<lambda>m. acknowledge m ack)))"
      using s3 ack(2) by (simp add: with_mirror_wf)
  qed (auto intro!: client_wf_mirror telemetry_wf simp: client_wf_def)
qed

text \<open>Between accepting a packet and recording its frame, the history is strictly older than it.\<close>

definition accepted :: "u64 \<Rightarrow> ('c, 'f) MirrorSession \<Rightarrow> bool" where
  "accepted seq s \<longleftrightarrow> client_wf s \<and> ms_ack_seq_num s = seq \<and> history_wf (\<lambda>k. k < seq) (ms_state_history s)"

lemma accept_packet_accepted:
  assumes "client_wf s" "ms_ack_seq_num s < seq"
  shows "accepted seq (fst (accept_packet s seq now))"
    and "snd (accept_packet s seq now) = Inr () \<or> tf_rows (ti_frame (ms_mirror s)) = 0"
proof -
  have h: "history_wf (\<lambda>k. k < seq) (ms_state_history s)" "history_wf (\<lambda>k. k \<le> seq) (ms_state_history s)"
    using assms by (force simp: client_wf_def history_wf_def)+
  have m: "mirror_wf (ms_mirror s)" using assms(1) by (simp add: client_wf_def)
  show "accepted seq (fst (accept_packet s seq now))"
    using assms(1) h set_reconnecting_ok(1) [OF m, of False]
    by (simp add: accept_packet_def accepted_def client_wf_def Let_def fst_with_mirror)
  show "snd (accept_packet s seq now) = Inr () \<or> tf_rows (ti_frame (ms_mirror s)) = 0"
    using set_reconnecting_ok(2) [OF m, of False] by (auto simp: accept_packet_def Let_def)
qed

lemma push_history_wf:
  assumes "accepted seq s" "grid_wf g"
  shows "client_wf (push_history s seq g)"
proof -
  let ?h = "ms_state_history s @ [(seq, g)]"
  have "sorted_wrt (<) (map fst ?h)" "\<forall>(k, g) \<in> set ?h. k \<le> seq \<and> grid_wf g" "length ?h \<le> 201"
    using assms by (auto simp: accepted_def client_wf_def history_wf_def sorted_wrt_append)
  moreover from this have "sorted_wrt (<) (map fst (tl ?h))" "\<forall>(k, g) \<in> set (tl ?h). k \<le> seq \<and> grid_wf g"
    by (cases "ms_state_history s"; auto simp: sorted_wrt_append)+
  ultimately show ?thesis
    using assms(1) by (auto simp: push_history_def Let_def client_wf_def accepted_def history_wf_def)
qed

lemma empty_grid_for_blank: "empty_grid_for u = blank_grid (fu_cols u) (fu_rows u)"
  by (simp add: empty_grid_for_def blank_grid_def)

text \<open>The grid an update starts from: none when its reference is not in the history.\<close>

definition update_base :: "('c, 'f) MirrorSession \<Rightarrow> FrameUpdate \<Rightarrow> GridState option" where
  "update_base s u =
     (if fu_ref_seq u = 0 then Some (empty_grid_for u) else map_of (ms_state_history s) (fu_ref_seq u))"

lemma update_base_wf: "client_wf s \<Longrightarrow> update_base s u = Some g \<Longrightarrow> grid_wf g"
  by (auto simp: update_base_def client_wf_def history_wf_def empty_grid_for_blank split: if_splits dest!: map_of_SomeD)

lemma apply_update_cases:
  "apply_update C s seq u now =
     (case update_base s u of
        None \<Rightarrow> (case try_ack C s now of (s1, actions) \<Rightarrow> (s1, Inr actions))
      | Some base \<Rightarrow>
          (case apply_diff base u of
             (_, Inl e) \<Rightarrow> (s, Inl e)
           | (new_state, Inr _) \<Rightarrow>
              st_then (with_mirror (s\<lparr>ms_is_echo_enabled := fu_is_echo_enabled u\<rparr>)
                         (\<lambda>m. apply_frame m new_state seq)) (\<lambda>s1 _.
              st_then (if \<not> ms_is_echo_enabled s1 then with_mirror s1 abort_prediction else (s1, Inr ())) (\<lambda>s2 _.
                (let s3 = push_history s2 seq new_state in
                 if duration_since now (ms_last_ack_sent s3) \<ge> from_millis 30 then
                   (case try_ack C s3 now of (s4, acks) \<Rightarrow> (s4, Inr (Paint # acks)))
                 else (s3, Inr [Paint]))))))"
  by (auto simp: apply_update_def update_base_def Let_def split: option.splits)

lemma apply_update_missing:
  "update_base s u = None \<Longrightarrow>
   apply_update C s seq u now = (fst (try_ack C s now), Inr (snd (try_ack C s now)))"
  by (simp add: apply_update_cases split: prod.splits)

lemma apply_update_error:
  "update_base s u = Some base \<Longrightarrow> snd (apply_diff base u) = Inl e \<Longrightarrow> apply_update C s seq u now = (s, Inl e)"
  by (cases "apply_diff base u") (simp add: apply_update_cases)

lemma apply_update_step:
  assumes "update_base s u = Some base" "apply_diff base u = (g, Inr ())"
    and "apply_frame (ms_mirror s) g seq = (m1, Inr r1)" "abort_prediction m1 = (m2, Inr ())"
    and "s3 = push_history (s\<lparr>ms_is_echo_enabled := fu_is_echo_enabled u, ms_mirror := if fu_is_echo_enabled u then m1 else m2\<rparr>) seq g"
  shows "apply_update C s seq u now =
      (if duration_since now (ms_last_ack_sent s3) \<ge> from_millis 30
       then (fst (try_ack C s3 now), Inr (Paint # snd (try_ack C s3 now))) else (s3, Inr [Paint]))"
  using assms by (simp add: apply_update_cases with_mirror_def Let_def split: prod.splits)

text \<open>A frame that applies: the mirror takes the new grid, and the history records it.\<close>

lemma apply_update_ok:
  assumes "client_wf s" "update_base s u = Some base" "apply_diff base u = (g, Inr ())"
  shows "\<exists>m n t. mirror_wf m
    \<and> fst (apply_update C s seq u now) = (push_history s seq g)\<lparr>ms_mirror := m, ms_is_echo_enabled := fu_is_echo_enabled u,
        ms_transient_seq_num := n, ms_last_ack_sent := t\<rparr>
    \<and> (\<exists>acks. snd (apply_update C s seq u now) = Inr (Paint # acks))"
proof -
  have g: "grid_wf g" using patch_wf [of base u] update_base_wf [OF assms(1,2)] assms(3) by (simp add: apply_diff_def)
  let ?s0 = "s\<lparr>ms_is_echo_enabled := fu_is_echo_enabled u\<rparr>"
  obtain m1 r1 where 1: "apply_frame (ms_mirror s) g seq = (m1, Inr r1)" "mirror_wf m1"
    using apply_frame_ok [of "ms_mirror s" g seq] assms(1) g
    by (cases "apply_frame (ms_mirror s) g seq") (auto simp: client_wf_def)
  obtain m2 where 2: "abort_prediction m1 = (m2, Inr ())" "mirror_wf m2"
    using abort_prediction_ok [OF 1(2)] by (cases "abort_prediction m1") auto
  let ?m = "if fu_is_echo_enabled u then m1 else m2"
  let ?s3 = "push_history (?s0\<lparr>ms_mirror := ?m\<rparr>) seq g"
  have step: "apply_update C s seq u now =
      (if duration_since now (ms_last_ack_sent ?s3) \<ge> from_millis 30
       then (fst (try_ack C ?s3 now), Inr (Paint # snd (try_ack C ?s3 now))) else (?s3, Inr [Paint]))"
    by (rule apply_update_step [OF assms(2,3) 1(1) 2(1)]) simp
  have s3: "?s3 = (push_history s seq g)\<lparr>ms_mirror := ?m, ms_is_echo_enabled := fu_is_echo_enabled u\<rparr>"
    by (simp add: push_history_def Let_def)
  have ack: "\<exists>n t. fst (try_ack C ?s3 now) = ?s3\<lparr>ms_transient_seq_num := n, ms_last_ack_sent := t\<rparr>"
    by (auto simp: try_ack_def prepare_ack_def Let_def split: sum.splits)
  have keep: "\<exists>n t. ?s3 = ?s3\<lparr>ms_transient_seq_num := n, ms_last_ack_sent := t\<rparr>"
    by (intro exI [of _ "ms_transient_seq_num ?s3"] exI [of _ "ms_last_ack_sent ?s3"]) simp
  have m: "mirror_wf ?m" using 1 2 by simp
  have "\<exists>n t. fst (apply_update C s seq u now) = ?s3\<lparr>ms_transient_seq_num := n, ms_last_ack_sent := t\<rparr>"
    unfolding step by (cases "duration_since now (ms_last_ack_sent ?s3) \<ge> from_millis 30")
      (simp only: if_True fst_conv ack, simp only: if_False fst_conv keep)
  moreover have "\<exists>acks. snd (apply_update C s seq u now) = Inr (Paint # acks)"
    unfolding step by simp
  ultimately show ?thesis unfolding s3 using m by blast
qed

lemma handle_payload_wf:
  assumes "accepted seq s"
  shows "client_wf (fst (handle_payload C s seq payload now))"
proof (cases payload)
  case (Frame u)
  have wf: "client_wf s" using assms by (simp add: accepted_def)
  show ?thesis
  proof (cases "update_base s u")
    case None
    with Frame wf show ?thesis by (simp add: handle_payload_def apply_update_missing try_ack_wf)
  next
    case (Some base)
    show ?thesis
    proof (cases "snd (apply_diff base u)")
      case (Inl e)
      with Frame Some wf show ?thesis by (simp add: handle_payload_def apply_update_error)
    next
      case (Inr x)
      then obtain g where g: "apply_diff base u = (g, Inr ())" by (cases "apply_diff base u") simp
      have "grid_wf g" using patch_wf [of base u] update_base_wf [OF wf Some] g by (simp add: apply_diff_def)
      with push_history_wf [OF assms this] apply_update_ok [OF wf Some g, of C seq now] Frame show ?thesis
        by (auto simp: handle_payload_def client_wf_def)
    qed
  qed
qed (use assms in \<open>simp_all add: handle_payload_def accepted_def\<close>)

text \<open>The fields a receiving step is about, and that bookkeeping leaves them alone.\<close>

definition recv_view :: "('c, 'f) MirrorSession \<Rightarrow> 'c \<times> u64 \<times> u64 \<times> u64 \<times> u64 \<times> (u64 \<times> GridState) list" where
  "recv_view s = (ms_codec s, ms_session_id s, ms_seq_num s, ms_ack_seq_num s, ms_transient_seq_num s, ms_state_history s)"

lemma note_packet_view [rumsh_frame]: "recv_view (fst (note_packet F s seq ack stats now)) = recv_view s"
proof -
  have mirror: "recv_view (t\<lparr>ms_mirror := m\<rparr>) = recv_view t" for t :: "('c, 'f) MirrorSession" and m
    by (simp add: recv_view_def)
  define s1 where "s1 = s\<lparr>ms_bytes_recv_acc := ms_bytes_recv_acc s + wire_len stats,
    ms_comp_acc := ms_comp_acc s + comp_len stats, ms_decomp_acc := ms_decomp_acc s + decomp_len stats\<rparr>"
  have "recv_view (update_loss_window (prune_acked (reset_after_outage s1 seq now) ack) seq) = recv_view s"
    by (simp add: recv_view_def update_loss_window_def push_arrival_def prune_acked_def reset_after_outage_def s1_def Let_def)
  then show ?thesis
    unfolding note_packet_def Let_def s1_def [symmetric]
    by (auto simp: st_then_def with_mirror_def mirror split: prod.splits sum.splits)
qed

lemma note_packet_ack:
  "ms_ack_seq_num (fst (note_packet F s seq ack stats now)) = ms_ack_seq_num s"
  "ms_state_history (fst (note_packet F s seq ack stats now)) = ms_state_history s"
  "ms_codec (fst (note_packet F s seq ack stats now)) = ms_codec s"
  "ms_session_id (fst (note_packet F s seq ack stats now)) = ms_session_id s"
  using note_packet_view [of F s seq ack stats now] by (simp_all add: recv_view_def)

lemma accept_packet_view:
  "ms_state_history (fst (accept_packet s seq now)) = ms_state_history s"
  "ms_ack_seq_num (fst (accept_packet s seq now)) = seq"
  "ms_codec (fst (accept_packet s seq now)) = ms_codec s"
  "ms_session_id (fst (accept_packet s seq now)) = ms_session_id s"
  by (simp_all add: accept_packet_def Let_def fst_with_mirror)

lemma feed_packet_closed:
  "snd (open_server C (ms_codec s) bs) = Inl e \<or> snd (open_server C (ms_codec s) bs) = Inr None \<Longrightarrow>
   feed_packet C F s bs now = (s\<lparr>ms_codec := fst (open_server C (ms_codec s) bs)\<rparr>, Inr [])"
  by (cases "open_server C (ms_codec s) bs") (auto simp: feed_packet_def)

lemma feed_packet_opened:
  assumes "client_wf s" "open_server C (ms_codec s) bs = (codec, Inr (Some (pkt, payload, stats)))"
    and "s1 = fst (note_packet F (s\<lparr>ms_codec := codec\<rparr>) (esp_seq_num pkt) (esp_ack_seq_num pkt) stats now)"
  shows "feed_packet C F s bs now =
    (if esp_seq_num pkt \<le> ms_ack_seq_num s then (s1, Inr [])
     else st_then (accept_packet s1 (esp_seq_num pkt) now) (\<lambda>s2 _. handle_payload C s2 (esp_seq_num pkt) payload now))"
    and "client_wf s1"
proof -
  have wf: "client_wf (s\<lparr>ms_codec := codec\<rparr>)" using assms(1) by (simp add: client_wf_def)
  then show "client_wf s1" unfolding assms(3) by (rule note_packet_wf)
  show "feed_packet C F s bs now =
    (if esp_seq_num pkt \<le> ms_ack_seq_num s then (s1, Inr [])
     else st_then (accept_packet s1 (esp_seq_num pkt) now) (\<lambda>s2 _. handle_payload C s2 (esp_seq_num pkt) payload now))"
    using note_packet_wf(2) [OF wf] assms(2,3)
    by (simp add: feed_packet_def Let_def st_then_Inr [of _ "()"] note_packet_ack)
qed

lemma feed_packet_wf [rumsh_inv]:
  assumes "client_wf s"
  shows "client_wf (fst (feed_packet C F s bs now))"
proof (cases "open_server C (ms_codec s) bs")
  case (Pair codec r)
  show ?thesis
  proof (cases "\<exists>pkt payload stats. r = Inr (Some (pkt, payload, stats))")
    case False
    then have "(\<exists>e. r = Inl e) \<or> r = Inr None" by (metis old.sum.exhaust option.exhaust prod_cases3)
    with Pair assms show ?thesis by (auto simp: feed_packet_closed client_wf_def)
  next
    case True
    then obtain pkt payload stats where r: "r = Inr (Some (pkt, payload, stats))" by blast
    define s1 where "s1 = fst (note_packet F (s\<lparr>ms_codec := codec\<rparr>) (esp_seq_num pkt) (esp_ack_seq_num pkt) stats now)"
    note step = feed_packet_opened [OF assms Pair [unfolded r] s1_def]
    have ack: "ms_ack_seq_num s1 = ms_ack_seq_num s" by (simp add: s1_def note_packet_ack)
    show ?thesis
    proof (cases "esp_seq_num pkt \<le> ms_ack_seq_num s")
      case False
      then have "accepted (esp_seq_num pkt) (fst (accept_packet s1 (esp_seq_num pkt) now))"
        using accept_packet_accepted(1) [OF step(2)] ack by simp
      then have "client_wf (fst (st_then (accept_packet s1 (esp_seq_num pkt) now)
          (\<lambda>s2 _. handle_payload C s2 (esp_seq_num pkt) payload now)))"
        by (intro st_then_wf [where P = client_wf] handle_payload_wf) (simp_all add: accepted_def)
      with False step(1) show ?thesis by simp
    qed (simp add: step)
  qed
qed

lemma handle_payload_view:
  assumes "client_wf s"
  shows "ms_ack_seq_num (fst (handle_payload C s seq payload now)) = ms_ack_seq_num s
    \<and> ms_codec (fst (handle_payload C s seq payload now)) = ms_codec s
    \<and> ms_session_id (fst (handle_payload C s seq payload now)) = ms_session_id s
    \<and> (ms_state_history (fst (handle_payload C s seq payload now)) = ms_state_history s
       \<or> (\<exists>u base g. payload = Frame u \<and> update_base s u = Some base \<and> apply_diff base u = (g, Inr ())
            \<and> ms_state_history (fst (handle_payload C s seq payload now)) = ms_state_history (push_history s seq g)))"
proof (cases payload)
  case (Frame u)
  have ack: "ms_ack_seq_num (fst (try_ack C s now)) = ms_ack_seq_num s \<and> ms_codec (fst (try_ack C s now)) = ms_codec s
      \<and> ms_session_id (fst (try_ack C s now)) = ms_session_id s
      \<and> ms_state_history (fst (try_ack C s now)) = ms_state_history s"
    by (auto simp: try_ack_def prepare_ack_def Let_def split: sum.splits)
  show ?thesis
  proof (cases "update_base s u")
    case None
    with Frame ack show ?thesis by (simp add: handle_payload_def apply_update_missing)
  next
    case (Some base)
    show ?thesis
    proof (cases "snd (apply_diff base u)")
      case (Inl e)
      with Frame Some show ?thesis by (simp add: handle_payload_def apply_update_error)
    next
      case (Inr x)
      then obtain g where g: "apply_diff base u = (g, Inr ())" by (cases "apply_diff base u") simp
      from apply_update_ok [OF assms Some g, of C seq now] Frame Some g show ?thesis
        by (auto simp: handle_payload_def push_history_def Let_def)
    qed
  qed
qed (use assms in \<open>simp_all add: handle_payload_def\<close>)

lemma push_history_list:
  "ms_state_history (push_history s seq g) =
     (if length (ms_state_history s) \<ge> 200 then tl (ms_state_history s @ [(seq, g)]) else ms_state_history s @ [(seq, g)])"
  by (simp add: push_history_def Let_def)

lemma feed_packet_effect:
  assumes "client_wf s"
  shows "ms_codec (fst (feed_packet C F s bs now)) = fst (open_server C (ms_codec s) bs)
    \<and> ms_session_id (fst (feed_packet C F s bs now)) = ms_session_id s
    \<and> ((ms_ack_seq_num (fst (feed_packet C F s bs now)) = ms_ack_seq_num s
          \<and> ms_state_history (fst (feed_packet C F s bs now)) = ms_state_history s)
       \<or> (\<exists>pkt payload stats. snd (open_server C (ms_codec s) bs) = Inr (Some (pkt, payload, stats))
            \<and> ms_ack_seq_num s < esp_seq_num pkt
            \<and> ms_ack_seq_num (fst (feed_packet C F s bs now)) = esp_seq_num pkt
            \<and> (ms_state_history (fst (feed_packet C F s bs now)) = ms_state_history s
               \<or> (\<exists>u base g. payload = Frame u \<and> update_base s u = Some base \<and> apply_diff base u = (g, Inr ())
                    \<and> ms_state_history (fst (feed_packet C F s bs now))
                        = ms_state_history (push_history s (esp_seq_num pkt) g)))))"
proof (cases "open_server C (ms_codec s) bs")
  case (Pair codec r)
  show ?thesis
  proof (cases "\<exists>pkt payload stats. r = Inr (Some (pkt, payload, stats))")
    case False
    then have "(\<exists>e. r = Inl e) \<or> r = Inr None" by (metis old.sum.exhaust option.exhaust prod_cases3)
    with Pair show ?thesis by (auto simp: feed_packet_closed)
  next
    case True
    then obtain pkt payload stats where r: "r = Inr (Some (pkt, payload, stats))" by blast
    define s1 where "s1 = fst (note_packet F (s\<lparr>ms_codec := codec\<rparr>) (esp_seq_num pkt) (esp_ack_seq_num pkt) stats now)"
    note step = feed_packet_opened [OF assms Pair [unfolded r] s1_def]
    have s1: "ms_ack_seq_num s1 = ms_ack_seq_num s" "ms_state_history s1 = ms_state_history s"
      "ms_codec s1 = codec" "ms_session_id s1 = ms_session_id s" by (simp_all add: s1_def note_packet_ack)
    define s2 where "s2 = fst (accept_packet s1 (esp_seq_num pkt) now)"
    show ?thesis
    proof (cases "esp_seq_num pkt \<le> ms_ack_seq_num s")
      case True
      with step(1) s1 Pair show ?thesis by simp
    next
      case False
      then have wf2: "client_wf s2"
        using accept_packet_accepted(1) [OF step(2), of "esp_seq_num pkt" now] s1(1) by (simp add: s2_def accepted_def)
      have s2: "ms_ack_seq_num s2 = esp_seq_num pkt" "ms_state_history s2 = ms_state_history s" "ms_codec s2 = codec"
        "ms_session_id s2 = ms_session_id s"
        by (simp_all add: s2_def accept_packet_view s1)
      have f: "fst (feed_packet C F s bs now) = s2
          \<or> fst (feed_packet C F s bs now) = fst (handle_payload C s2 (esp_seq_num pkt) payload now)"
        using False step(1) by (cases "accept_packet s1 (esp_seq_num pkt) now") (auto simp: s2_def st_then_def split: sum.splits)
      have base: "update_base s2 u = update_base s u" for u by (simp add: update_base_def s2)
      have hist: "ms_state_history (push_history s2 k g) = ms_state_history (push_history s k g)" for k g
        by (simp add: push_history_list s2)
      from f show ?thesis
        using handle_payload_view [OF wf2, of C "esp_seq_num pkt" payload now] s2 Pair r False base hist
        by (auto simp: not_le)
    qed
  qed
qed

section \<open>The other operations keep the invariant\<close>

lemma stdin_loop_wf:
  "client_wf s \<Longrightarrow> client_wf (fst (stdin_loop s buf to_send actions))"
proof (induction s buf to_send actions rule: stdin_loop.induct)
  case (2 s b buf to_send actions)
  obtain i r where h: "handle_byte (ms_interpreter s) b = (i, r)" by force
  have "client_wf (s\<lparr>ms_interpreter := i\<rparr>)" using "2.prems" by (simp add: client_wf_def)
  moreover from this have "client_wf (s\<lparr>ms_interpreter := i, ms_mirror := mark_dirty (ms_mirror s)\<rparr>)"
    "client_wf (s\<lparr>ms_interpreter := i, ms_mirror := toggle_overlay (ms_mirror s)\<rparr>)"
    by (simp_all add: client_wf_def telemetry_wf)
  ultimately show ?case
    using "2.IH" h by (auto simp: Let_def split: InterpreterResult.splits EscapeCommand.splits)
qed simp

lemma feed_stdin_wf [rumsh_inv]:
  assumes "client_wf s"
  shows "client_wf (fst (feed_stdin C s buf now))"
proof -
  obtain s1 to_send actions ret where l: "stdin_loop s buf [] [] = (s1, to_send, actions, ret)" by (metis prod_cases4)
  with stdin_loop_wf [OF assms, of buf "[]" "[]"] have wf: "client_wf s1" by simp
  note p = prepare_wf(1) [OF wf, of C to_send now]
  show ?thesis
  proof (cases "prepare_keystrokes C s1 to_send now")
    case (Pair s2 r)
    have "client_wf (fst (with_mirror s2 (\<lambda>m. predict_input m to_send seq)))" for seq
      using p Pair by (intro with_mirror_wf predict_input_ok client_wfD) simp_all
    with l wf p Pair show ?thesis
      by (auto simp: feed_stdin_def st_then_def split: sum.splits prod.splits) (metis fst_conv)+
  qed
qed

lemma on_winch_wf [rumsh_inv]: "client_wf s \<Longrightarrow> client_wf (fst (on_winch C s cols rows now))"
  unfolding on_winch_def
  by (intro st_then_wf [where P = client_wf] prepare_wf)
     (auto intro!: client_wf_mirror telemetry_wf with_mirror_wf abort_prediction_ok client_wfD)

lemma fold_update_hm: "hm_wf m \<Longrightarrow> hm_wf (fold (\<lambda>(k, v, _) m. AList.update k (v, t) m) xs m)"
  by (induction xs arbitrary: m) (auto simp: hash.invar_insert)

lemma tick_wf:
  assumes "client_wf s"
  shows "client_wf (fst (tick_keepalive C s now))" "client_wf (fst (tick_arq s now))"
    "client_wf (fst (tick_banner s now))" "client_wf (fst (tick_telemetry F s now))"
proof -
  have m: "mirror_wf (ms_mirror s)" using assms by (simp add: client_wf_def)
  show "client_wf (fst (tick_keepalive C s now))"
    using prepare_wf(3) [OF assms, of C now] assms by (auto simp: tick_keepalive_def fst_st_then_map)
  show "client_wf (fst (tick_arq s now))"
    using assms fold_update_hm [of "ms_unacked_packets s" now "due_packets s now"]
    by (simp add: tick_arq_def Let_def client_wf_def)
  show "client_wf (fst (tick_telemetry F s now))"
    using assms by (simp add: tick_telemetry_def Let_def client_wf_def telemetry_wf)
  show "client_wf (fst (tick_banner s now))"
  proof -
    have "client_wf (fst (with_mirror (s\<lparr>ms_is_reconnecting := b\<rparr>) (\<lambda>m. set_reconnecting m b)))" for b
      using assms set_reconnecting_ok(1) [OF m] by (intro with_mirror_wf; simp add: client_wf_def)
    then show ?thesis
      using assms unfolding tick_banner_def Let_def by (auto intro!: st_then_wf [where P = client_wf] client_wf_fields)
  qed
qed

lemma nack_loop_wf: "client_wf s \<Longrightarrow> client_wf (fst (nack_loop C s incomplete now))"
proof (induction C s incomplete now rule: nack_loop.induct)
  case (2 C s frame_seq rmask incomplete now)
  let ?s = "s\<lparr>ms_nacked_frames := AList.update frame_seq now (ms_nacked_frames s)\<rparr>"
  have "client_wf ?s" using "2.prems" by (simp add: client_wf_def hash.invar_insert)
  then have p: "client_wf (fst (prepare_fragment_nack C ?s frame_seq rmask))" by (rule prepare_wf)
  show ?case
  proof (cases "case map_of (ms_nacked_frames s) frame_seq of Some last_sent \<Rightarrow> duration_since now last_sent \<ge> from_millis 100
         | None \<Rightarrow> True")
    case True
    have "client_wf (fst (nack_loop C (fst (prepare_fragment_nack C ?s frame_seq rmask)) incomplete now))"
      if "snd (prepare_fragment_nack C ?s frame_seq rmask) = Inr x" for x
      using "2.IH"(1) [OF refl True] p that by simp
    with True p show ?thesis
      by (auto simp: Let_def fst_st_then_map intro!: st_then_wf [where P = client_wf])
  next
    case False
    with "2.IH"(2) [OF refl False] "2.prems" show ?thesis by (simp add: Let_def)
  qed
qed simp

lemma on_tick_wf [rumsh_inv]:
  assumes "client_wf s"
  shows "client_wf (fst (on_tick C F s now))"
proof -
  have nack: "client_wf (fst (tick_nack C t now))" if "client_wf t" for t
  proof -
    have "client_wf (t\<lparr>ms_last_nack_check := now\<rparr>)" using that by (simp add: client_wf_def)
    note n = nack_loop_wf [OF this, of C "incomplete_frames C (ms_codec t)" now]
    show ?thesis
    proof (cases "duration_since now (ms_last_nack_check t) \<ge> from_millis 40")
      case True
      show ?thesis unfolding tick_nack_def if_P [OF True]
        by (rule st_then_wf [where P = client_wf]) (simp_all add: n client_wf_fields)
    qed (use that in \<open>simp add: tick_nack_def\<close>)
  qed
  have tele: "client_wf (fst (case tick_telemetry F t now of (s4, a4) \<Rightarrow>
      st_then (tick_nack C s4 now) (\<lambda>s5 a5. (s5, Inr (a @ a4 @ a5)))))" if "client_wf t" for t a
    using nack [OF tick_wf(4) [OF that, of F now]] by (cases "tick_telemetry F t now") (simp add: fst_st_then_map)
  have arq: "client_wf (fst (case tick_arq t now of (s2, a2) \<Rightarrow>
      st_then (tick_banner s2 now) (\<lambda>s3 a3. (case tick_telemetry F s3 now of (s4, a4) \<Rightarrow>
      st_then (tick_nack C s4 now) (\<lambda>s5 a5. (s5, Inr (a1 @ a2 @ a3 @ a4 @ a5)))))))" if "client_wf t" for t a1
  proof (cases "tick_arq t now")
    case (Pair s2 a2)
    with tick_wf(2) [OF that, of now] have "client_wf (fst (tick_banner s2 now))" by (simp add: tick_wf)
    then show ?thesis
      using Pair tele [of "fst (tick_banner s2 now)" "a1 @ a2 @ _"]
      by (simp add: st_then_wf [where P = client_wf])
  qed
  show ?thesis
    unfolding on_tick_def by (rule st_then_wf [where P = client_wf]) (simp_all add: tick_wf assms arq)
qed

end
