(* ===== verification/Rumsh_Wire.thy ===== *)
theory Rumsh_Wire
  imports Rumsh_Codec
begin

text \<open>
  A reference instance of the library parameter \<open>codec_lib\<close>: a prefix-free byte format built from
  combinators, the identity as compression and a tagging cipher.  It is not \<open>bincode\<close>, LZ4 or
  ChaCha20-Poly1305; it shows that the hypotheses of \<open>wire_lib\<close> can hold together, and the witnesses of the
  development run on it.
\<close>

section \<open>Coders\<close>

record 'a coder =
  put :: "'a \<Rightarrow> bytes"
  get :: "bytes \<Rightarrow> ('a \<times> bytes) option"

definition coder_ok :: "'a coder \<Rightarrow> bool" where
  "coder_ok W \<longleftrightarrow> (\<forall>x rest. get W (put W x @ rest) = Some (x, rest))"

fun nat_bytes :: "nat \<Rightarrow> nat \<Rightarrow> bytes" where
  "nat_bytes 0 k = []"
| "nat_bytes (Suc n) k = of_nat (k mod 256) # nat_bytes n (k div 256)"

fun bytes_nat :: "bytes \<Rightarrow> nat" where
  "bytes_nat [] = 0"
| "bytes_nat (b # bs) = unat b + 256 * bytes_nat bs"

definition word_coder :: "nat \<Rightarrow> 'w::len word coder" where
  "word_coder n =
     \<lparr>put = (\<lambda>w. nat_bytes n (unat w)),
      get = (\<lambda>bs. if length bs < n then None else Some (of_nat (bytes_nat (take n bs)), drop n bs))\<rparr>"

definition bool_coder :: "bool coder" where
  "bool_coder =
     \<lparr>put = (\<lambda>b. [if b then 1 else 0]),
      get = (\<lambda>bs. case bs of [] \<Rightarrow> None | b # r \<Rightarrow> Some (b = 1, r))\<rparr>"

definition unit_coder :: "unit coder" where
  "unit_coder = \<lparr>put = (\<lambda>_. []), get = (\<lambda>bs. Some ((), bs))\<rparr>"

definition pair_coder :: "'a coder \<Rightarrow> 'b coder \<Rightarrow> ('a \<times> 'b) coder" where
  "pair_coder V W =
     \<lparr>put = (\<lambda>(x, y). put V x @ put W y),
      get = (\<lambda>bs. case get V bs of None \<Rightarrow> None | Some (x, r) \<Rightarrow>
               (case get W r of None \<Rightarrow> None | Some (y, r') \<Rightarrow> Some ((x, y), r')))\<rparr>"

definition sum_coder :: "'a coder \<Rightarrow> 'b coder \<Rightarrow> ('a + 'b) coder" where
  "sum_coder V W =
     \<lparr>put = (\<lambda>s. case s of Inl x \<Rightarrow> 0 # put V x | Inr y \<Rightarrow> 1 # put W y),
      get = (\<lambda>bs. case bs of [] \<Rightarrow> None | b # r \<Rightarrow>
               if b = 0 then map_option (apfst Inl) (get V r)
               else map_option (apfst Inr) (get W r))\<rparr>"

definition iso_coder :: "('b \<Rightarrow> 'a) \<Rightarrow> ('a \<Rightarrow> 'b) \<Rightarrow> 'a coder \<Rightarrow> 'b coder" where
  "iso_coder f g W = \<lparr>put = (\<lambda>y. put W (f y)), get = (\<lambda>bs. map_option (apfst g) (get W bs))\<rparr>"

fun put_list :: "'a coder \<Rightarrow> 'a list \<Rightarrow> bytes" where
  "put_list W [] = [0]"
| "put_list W (x # xs) = 1 # put W x @ put_list W xs"

text \<open>The fuel is the number of bytes left, and every element takes at least its marker byte.\<close>

fun get_list :: "'a coder \<Rightarrow> nat \<Rightarrow> bytes \<Rightarrow> ('a list \<times> bytes) option" where
  "get_list W 0 bs = None"
| "get_list W (Suc n) bs =
     (case bs of
        [] \<Rightarrow> None
      | b # r \<Rightarrow>
          if b = 0 then Some ([], r)
          else (case get W r of None \<Rightarrow> None | Some (x, r') \<Rightarrow>
                  map_option (apfst (Cons x)) (get_list W n r')))"

definition list_coder :: "'a coder \<Rightarrow> 'a list coder" where
  "list_coder W = \<lparr>put = put_list W, get = (\<lambda>bs. get_list W (length bs) bs)\<rparr>"

definition opt_coder :: "'a coder \<Rightarrow> 'a option coder" where
  "opt_coder W =
     iso_coder (\<lambda>x. case x of None \<Rightarrow> Inl () | Some y \<Rightarrow> Inr y)
       (\<lambda>s. case s of Inl _ \<Rightarrow> None | Inr y \<Rightarrow> Some y) (sum_coder unit_coder W)"

section \<open>Coders are correct\<close>

lemma length_nat_bytes [simp]: "length (nat_bytes n k) = n"
  by (induction n k rule: nat_bytes.induct) auto

lemma bytes_nat_bytes: "k < 256 ^ n \<Longrightarrow> bytes_nat (nat_bytes n k) = k"
  by (induction n k rule: nat_bytes.induct) (auto simp: unat_of_nat less_mult_imp_div_less mult.commute)

lemma word_coder_ok:
  assumes "(2::nat) ^ LENGTH('w::len) \<le> 256 ^ n"
  shows "coder_ok (word_coder n :: 'w word coder)"
proof -
  have "unat x < 256 ^ n" for x :: "'w word"
    by (rule order_less_le_trans [OF unsigned_less assms])
  then show ?thesis by (simp add: coder_ok_def word_coder_def bytes_nat_bytes)
qed

lemma bool_coder_ok: "coder_ok bool_coder"
  by (simp add: coder_ok_def bool_coder_def)

lemma unit_coder_ok: "coder_ok unit_coder"
  by (simp add: coder_ok_def unit_coder_def)

lemma pair_coder_ok: "coder_ok V \<Longrightarrow> coder_ok W \<Longrightarrow> coder_ok (pair_coder V W)"
  by (simp add: coder_ok_def pair_coder_def)

lemma sum_coder_ok: "coder_ok V \<Longrightarrow> coder_ok W \<Longrightarrow> coder_ok (sum_coder V W)"
  by (auto simp: coder_ok_def sum_coder_def split: sum.splits)

lemma iso_coder_ok: "(\<And>y. g (f y) = y) \<Longrightarrow> coder_ok W \<Longrightarrow> coder_ok (iso_coder f g W)"
  by (simp add: coder_ok_def iso_coder_def)

lemma get_put_list:
  "coder_ok W \<Longrightarrow> length xs < n \<Longrightarrow> get_list W n (put_list W xs @ rest) = Some (xs, rest)"
proof (induction xs arbitrary: n)
  case Nil
  then show ?case by (cases n) simp_all
next
  case (Cons x xs)
  then obtain m where m: "n = Suc m" "length xs < m" by (cases n) simp_all
  have "get_list W m (put_list W xs @ rest) = Some (xs, rest)" using Cons m by simp
  with m Cons.prems(1) show ?case by (simp add: coder_ok_def)
qed

lemma length_put_list: "length xs < length (put_list W xs)"
  by (induction xs) auto

lemma list_coder_ok:
  assumes "coder_ok W"
  shows "coder_ok (list_coder W)"
proof -
  have "get (list_coder W) (put (list_coder W) xs @ rest) = Some (xs, rest)" for xs rest
    using get_put_list [OF assms] length_put_list [of xs W] by (simp add: list_coder_def)
  then show ?thesis by (simp add: coder_ok_def)
qed

lemma opt_coder_ok: "coder_ok W \<Longrightarrow> coder_ok (opt_coder W)"
  unfolding opt_coder_def by (intro iso_coder_ok sum_coder_ok unit_coder_ok) (auto split: option.splits)

lemmas coder_oks = word_coder_ok bool_coder_ok unit_coder_ok pair_coder_ok sum_coder_ok iso_coder_ok
  list_coder_ok opt_coder_ok

section \<open>The message types\<close>

abbreviation u8c :: "u8 coder" where "u8c \<equiv> word_coder 1"
abbreviation u16c :: "u16 coder" where "u16c \<equiv> word_coder 2"
abbreviation u32c :: "u32 coder" where "u32c \<equiv> word_coder 4"
abbreviation u64c :: "u64 coder" where "u64c \<equiv> word_coder 8"
abbreviation bytesc :: "bytes coder" where "bytesc \<equiv> list_coder u8c"

definition rgb_coder :: "RgbColorUpdate coder" where
  "rgb_coder = iso_coder (\<lambda>c. (rgb_r c, rgb_g c, rgb_b c)) (\<lambda>(r, g, b). \<lparr>rgb_r = r, rgb_g = g, rgb_b = b\<rparr>)
     (pair_coder u8c (pair_coder u8c u8c))"

definition grapheme_coder :: "CompactGrapheme coder" where
  "grapheme_coder = iso_coder (\<lambda>g. (cg_bytes g, cg_len g)) (\<lambda>(b, l). \<lparr>cg_bytes = b, cg_len = l\<rparr>)
     (pair_coder bytesc u8c)"

definition cell_coder :: "LocalCellData coder" where
  "cell_coder = iso_coder (\<lambda>c. (graphemes c, fg c, bg c, style_flags c))
     (\<lambda>(g, f, b, s). \<lparr>graphemes = g, fg = f, bg = b, style_flags = s\<rparr>)
     (pair_coder grapheme_coder (pair_coder (opt_coder rgb_coder) (pair_coder (opt_coder rgb_coder) u8c)))"

definition cell_update_coder :: "CellUpdate coder" where
  "cell_update_coder = iso_coder (\<lambda>c. (cu_x c, cu_cell c)) (\<lambda>(x, c). \<lparr>cu_x = x, cu_cell = c\<rparr>)
     (pair_coder u16c cell_coder)"

definition row_coder :: "RowUpdate coder" where
  "row_coder = iso_coder (\<lambda>r. (ru_y r, ru_cells r, ru_is_wrapped r))
     (\<lambda>(y, c, w). \<lparr>ru_y = y, ru_cells = c, ru_is_wrapped = w\<rparr>)
     (pair_coder u16c (pair_coder (list_coder cell_update_coder) bool_coder))"

definition frame_coder :: "FrameUpdate coder" where
  "frame_coder = iso_coder
     (\<lambda>f. (fu_ref_seq f, fu_cols f, fu_rows f, fu_cursor_x f, fu_cursor_y f, fu_cursor_visible f,
           fu_row_updates f, fu_is_echo_enabled f))
     (\<lambda>(s, c, r, x, y, v, u, e). \<lparr>fu_ref_seq = s, fu_cols = c, fu_rows = r, fu_cursor_x = x, fu_cursor_y = y,
        fu_cursor_visible = v, fu_row_updates = u, fu_is_echo_enabled = e\<rparr>)
     (pair_coder u64c (pair_coder u16c (pair_coder u16c (pair_coder u16c (pair_coder u16c
       (pair_coder bool_coder (pair_coder (list_coder row_coder) bool_coder)))))))"

definition client_payload_coder :: "ClientPayload coder" where
  "client_payload_coder = iso_coder
     (\<lambda>p. case p of
        Handshake v c r \<Rightarrow> Inl (v, c, r)
      | Keystrokes b \<Rightarrow> Inr (Inl b)
      | Resize c r \<Rightarrow> Inr (Inr (Inl (c, r)))
      | FragmentNack s m \<Rightarrow> Inr (Inr (Inr (Inl (s, m))))
      | C_KeepAlive \<Rightarrow> Inr (Inr (Inr (Inr True)))
      | C_Ack \<Rightarrow> Inr (Inr (Inr (Inr False))))
     (\<lambda>s. case s of
        Inl (v, c, r) \<Rightarrow> Handshake v c r
      | Inr (Inl b) \<Rightarrow> Keystrokes b
      | Inr (Inr (Inl (c, r))) \<Rightarrow> Resize c r
      | Inr (Inr (Inr (Inl (s, m)))) \<Rightarrow> FragmentNack s m
      | Inr (Inr (Inr (Inr k))) \<Rightarrow> if k then C_KeepAlive else C_Ack)
     (sum_coder (pair_coder u32c (pair_coder u16c u16c)) (sum_coder bytesc (sum_coder (pair_coder u16c u16c)
       (sum_coder (pair_coder u64c (list_coder u64c)) bool_coder))))"

definition server_payload_coder :: "ServerPayload coder" where
  "server_payload_coder = iso_coder
     (\<lambda>p. case p of HandshakeAck s \<Rightarrow> Inl s | Frame f \<Rightarrow> Inr (Inl f)
        | S_KeepAlive \<Rightarrow> Inr (Inr True) | S_Shutdown \<Rightarrow> Inr (Inr False))
     (\<lambda>s. case s of Inl s \<Rightarrow> HandshakeAck s | Inr (Inl f) \<Rightarrow> Frame f
        | Inr (Inr k) \<Rightarrow> if k then S_KeepAlive else S_Shutdown)
     (sum_coder u64c (sum_coder frame_coder bool_coder))"

definition client_packet_coder :: "EncryptedClientPacket coder" where
  "client_packet_coder = iso_coder
     (\<lambda>p. (ecp_session_id p, ecp_seq_num p, ecp_ack_seq_num p, ecp_ciphertext p))
     (\<lambda>(i, s, a, c). \<lparr>ecp_session_id = i, ecp_seq_num = s, ecp_ack_seq_num = a, ecp_ciphertext = c\<rparr>)
     (pair_coder u64c (pair_coder u64c (pair_coder u64c bytesc)))"

definition server_packet_coder :: "EncryptedServerPacket coder" where
  "server_packet_coder = iso_coder
     (\<lambda>p. (esp_seq_num p, esp_ack_seq_num p, esp_frag_idx p, esp_total_frags p, esp_ciphertext p))
     (\<lambda>(s, a, i, t, c). \<lparr>esp_seq_num = s, esp_ack_seq_num = a, esp_frag_idx = i, esp_total_frags = t,
        esp_ciphertext = c\<rparr>)
     (pair_coder u64c (pair_coder u64c (pair_coder u16c (pair_coder u16c bytesc))))"

section \<open>The instance\<close>

definition serde_of :: "'a coder \<Rightarrow> 'a serde" where
  "serde_of W =
     \<lparr>enc = (\<lambda>x. Some (put W x)),
      dec = (\<lambda>bs. case get W bs of None \<Rightarrow> None | Some (x, r) \<Rightarrow> Some (x, length bs - length r))\<rparr>"

definition toy_tag :: "bytes \<Rightarrow> bytes \<Rightarrow> u8" where
  "toy_tag k n = sum_list k + sum_list n"

definition ref_lib :: codec_lib where
  "ref_lib =
     \<lparr>client_payload = serde_of client_payload_coder, server_payload = serde_of server_payload_coder,
      client_packet = serde_of client_packet_coder, server_packet = serde_of server_packet_coder,
      lz4_compress = (\<lambda>p. p), lz4_decompress = Some,
      aead_seal = (\<lambda>k n p. Some (toy_tag k n # p)),
      aead_open = (\<lambda>k n c. case c of [] \<Rightarrow> None | t # p \<Rightarrow> if t = toy_tag k n then Some p else None)\<rparr>"

lemma serde_of_ok: "coder_ok W \<Longrightarrow> serde_ok (serde_of W)"
  by (simp add: serde_ok_def serde_of_def coder_ok_def)

lemma payload_coders_ok:
  "coder_ok client_payload_coder" "coder_ok server_payload_coder"
  "coder_ok client_packet_coder" "coder_ok server_packet_coder"
  unfolding client_payload_coder_def server_payload_coder_def client_packet_coder_def server_packet_coder_def
    frame_coder_def row_coder_def cell_update_coder_def cell_coder_def grapheme_coder_def rgb_coder_def
  by (intro coder_oks; simp split: ClientPayload.splits ServerPayload.splits)+

interpretation ref: wire_lib ref_lib
proof unfold_locales
  fix k n c p :: bytes
  show "aead_open ref_lib k n c = Some p \<longleftrightarrow> aead_seal ref_lib k n p = Some c"
    by (cases c) (auto simp: ref_lib_def)
qed (simp_all add: ref_lib_def serde_of_ok payload_coders_ok)

lemma ref_lib_enc [simp]:
  "enc (client_payload ref_lib) cp = Some (put client_payload_coder cp)"
  "enc (server_payload ref_lib) sp = Some (put server_payload_coder sp)"
  "enc (client_packet ref_lib) ck = Some (put client_packet_coder ck)"
  "enc (server_packet ref_lib) sk = Some (put server_packet_coder sk)"
  by (simp_all add: ref_lib_def serde_of_def)

lemma ref_lib_crypto [simp]:
  "lz4_compress ref_lib p = p"
  "lz4_decompress ref_lib p = Some p"
  "encrypt ref_lib cm seq p = Inr (toy_tag (cm_key cm) (make_nonce cm seq) # p)"
  by (simp_all add: ref_lib_def encrypt_def)

lemma serialize_all_ref [simp]:
  "serialize_all (server_packet ref_lib) ps = Inr (map (put server_packet_coder) ps)"
  by (induction ps) (simp_all add: serialize_def)

end
