(* ===== verification/Rumsh_Wire_Props.thy ===== *)
theory Rumsh_Wire_Props
  imports Rumsh_Wire
begin

text \<open>
  The properties of the wire layer (\<open>protocol.rs\<close>, \<open>crypto.rs\<close>, \<open>codec.rs\<close>), stated over any
  libraries that meet \<open>wire_lib\<close> and witnessed on the reference instance \<open>ref_lib\<close>.
\<close>

section \<open>Running a codec over a sequence of datagrams\<close>

fun open_run :: "'c PacketCodec \<Rightarrow> 'c \<Rightarrow> bytes list \<Rightarrow> 'c \<times> opened_server option res list" where
  "open_run C c [] = (c, [])"
| "open_run C c (b # bs) =
     (case open_server C c b of (c', r) \<Rightarrow> (case open_run C c' bs of (c'', rs) \<Rightarrow> (c'', r # rs)))"

lemma open_run_Cons [simp]:
  "fst (open_run C c (b # bs)) = fst (open_run C (fst (open_server C c b)) bs)"
  "snd (open_run C c (b # bs)) = snd (open_server C c b) # snd (open_run C (fst (open_server C c b)) bs)"
  by (simp_all split: prod.splits)

declare open_run.simps(2) [simp del]

lemma chacha_open_server_crypto [simp]:
  "cc_crypto (fst (chacha_open_server L c b)) = cc_crypto c"
  "cc_session_id (fst (chacha_open_server L c b)) = cc_session_id c"
  by (auto simp: chacha_open_server_def split: sum.splits prod.splits option.splits)

lemma chacha_open_server_buffer:
  "cc_fragment_buffer (fst (chacha_open_server L c b)) =
     (case deserialize (server_packet L) b of Inl _ \<Rightarrow> cc_fragment_buffer c
      | Inr p \<Rightarrow> fst (FragmentBuffer_insert (cc_fragment_buffer c) p (length b)))"
  by (auto simp: chacha_open_server_def split: sum.splits prod.splits option.splits)

text \<open>What one datagram yields once its fragment is known.\<close>

definition chacha_finish ::
    "codec_lib \<Rightarrow> CryptoManager \<Rightarrow> (EncryptedServerPacket \<times> bytes \<times> nat) option \<Rightarrow> opened_server option res" where
  "chacha_finish L cm r =
     (case r of
        None \<Rightarrow> Inr None
      | Some (pkt, full_ciphertext, wl) \<Rightarrow>
          and_then (decrypt L cm (esp_seq_num pkt) full_ciphertext) (\<lambda>pb.
          and_then (deserialize_compressed_get_sizes L (server_payload L) pb) (\<lambda>(payload, comp, decomp).
            Inr (Some (pkt, payload, \<lparr>wire_len = wl, comp_len = comp, decomp_len = decomp\<rparr>)))))"

lemma chacha_open_server_finish:
  assumes "deserialize (server_packet L) b = Inr p"
  shows "snd (chacha_open_server L c b) =
    chacha_finish L (cc_crypto c) (snd (FragmentBuffer_insert (cc_fragment_buffer c) p (length b)))"
  using assms by (auto simp: chacha_open_server_def chacha_finish_def split: prod.splits option.splits)

lemma open_run_deliver:
  assumes "list_all2 (\<lambda>b p. deserialize (server_packet L) b = Inr p) bs ps"
  shows "snd (open_run (chacha_codec L) c bs) =
    map (chacha_finish L (cc_crypto c)) (deliver (cc_fragment_buffer c) (zip ps (map length bs)))"
  using assms
proof (induction bs ps arbitrary: c rule: list_all2_induct)
  case (Cons b bs p ps)
  obtain buf r where ins: "FragmentBuffer_insert (cc_fragment_buffer c) p (length b) = (buf, r)" by force
  have "open_server (chacha_codec L) = chacha_open_server L" by (simp add: chacha_codec_def)
  then show ?case
    using Cons ins chacha_open_server_finish [OF Cons.hyps(1), of c] chacha_open_server_buffer [of L c b]
    by simp
qed simp

lemma chacha_seal_server_Inr:
  assumes "seal_server (chacha_codec L) c seq ack payload = Inr packets"
  obtains pb ct where "serialize_compressed L (server_payload L) payload = Inr pb"
    "encrypt L (cc_crypto c) seq pb = Inr ct"
    "serialize_all (server_packet L) (fragment_packets seq ack ct) = Inr packets"
    "chacha_ct L (cc_crypto c) payload seq = Inr ct"
  using assms by (auto simp: chacha_codec_def chacha_seal_server_def chacha_ct_def)

context wire_lib
begin

lemma chacha_finish_ok:
  assumes "serialize_compressed L (server_payload L) payload = Inr pb" "encrypt L cm seq pb = Inr ct"
    and "esp_seq_num pkt = seq"
  shows "\<exists>stats. chacha_finish L cm (Some (pkt, ct, wl)) = Inr (Some (pkt, payload, stats))"
  using deserialize_serialize_compressed [OF server_payload_ok lz4_ok assms(1)] assms(2,3)
  by (auto simp: chacha_finish_def)

lemma arrival_packets:
  assumes "serialize_all (server_packet L) qs = Inr packets" "set arrivals \<subseteq> set packets"
  shows "\<exists>ps. list_all2 (\<lambda>b p. deserialize (server_packet L) b = Inr p \<and> enc (server_packet L) p = Some b)
      arrivals ps \<and> set ps \<subseteq> set qs"
  using assms(2)
proof (induction arrivals)
  case (Cons b bs)
  then obtain ps where ps: "list_all2 (\<lambda>b p. deserialize (server_packet L) b = Inr p
      \<and> enc (server_packet L) p = Some b) bs ps" "set ps \<subseteq> set qs" by auto
  obtain p where "p \<in> set qs" "enc (server_packet L) p = Some b"
    using serialize_all_Inr(2) [OF assms(1), of b] Cons.prems by auto
  with ps show ?case
    by (intro exI [of _ "p # ps"]) (simp add: server_packet_ok)
qed simp

lemma nth_fragment_idx:
  assumes "sendable c" "i < length (fragment_packets seq ack c)"
  shows "unat (esp_frag_idx (fragment_packets seq ack c ! i)) = i"
  using assms by (auto simp: fragment_packets_def Let_def nth_enumerate_eq sendable_def unat_of_nat split: if_splits)

lemma fragment_held_or_arrives:
  assumes "serialize_all (server_packet L) (fragment_packets seq ack c) = Inr packets" "sendable c"
    and "q \<in> set (fragment_packets seq ack c)"
    and "list_all2 (\<lambda>b p. deserialize (server_packet L) b = Inr p \<and> enc (server_packet L) p = Some b) arrivals ps"
    and "\<forall>i < length packets. i \<in> H \<or> packets ! i \<in> set arrivals"
  shows "unat (esp_frag_idx q) \<in> H \<or> q \<in> set ps"
proof -
  from assms(3) obtain i where i: "i < length (fragment_packets seq ack c)" "q = fragment_packets seq ack c ! i"
    by (auto simp: in_set_conv_nth)
  have e: "i < length packets" "enc (server_packet L) q = Some (packets ! i)"
    using serialize_all_list_all2 [OF assms(1)] i by (auto simp: list_all2_conv_all_nth)
  have "q \<in> set ps" if "packets ! i \<in> set arrivals"
  proof -
    from that obtain k where "k < length arrivals" "arrivals ! k = packets ! i" by (auto simp: in_set_conv_nth)
    moreover have "deserialize (server_packet L) (packets ! i) = Inr q" using e(2) by (simp add: server_packet_ok)
    ultimately have "k < length ps" "ps ! k = q" using assms(4) by (auto simp: list_all2_conv_all_nth)
    then show ?thesis by (auto simp: in_set_conv_nth)
  qed
  then show ?thesis using assms(5) e(1) nth_fragment_idx [OF assms(2) i(1)] i(2) by auto
qed

lemma held_bounded:
  assumes "honest_buffer ct frames"
  shows "held frames seq \<subseteq> {0..<length (frag_chunks (ct seq))}"
proof (cases "map_of frames seq")
  case (Some e)
  with assms have "honest_entry (ct seq) e" by (force simp: honest_buffer_def dest: map_of_SomeD)
  with Some show ?thesis by (force simp: held_def honest_entry_def)
qed (simp add: held_def)

text \<open>Delivering the fragments the buffer does not hold yet completes the frame.\<close>

lemma deliver_rest:
  assumes "buffer_wf frames" "honest_buffer ct frames" "has_room frames seq" "sendable (ct seq)"
    and "set ps \<subseteq> set (fragment_packets seq ack (ct seq))" "length ws = length ps"
    and "\<forall>q \<in> set (fragment_packets seq ack (ct seq)). unat (esp_frag_idx q) \<in> held frames seq \<or> q \<in> set ps"
  shows "\<exists>r \<in> set (deliver frames (zip ps ws)). r \<noteq> None"
proof (cases "length (ct seq) \<le> FRAGMENT_PAYLOAD_SIZE")
  case True
  have "held frames seq = {}"
  proof (cases "map_of frames seq")
    case (Some e)
    then have "(seq, e) \<in> set frames" by (rule map_of_SomeD)
    with assms(1,2) have "entry_wf e" "honest_entry (ct seq) e" by (force simp: buffer_wf_def honest_buffer_def)+
    moreover have "length (frag_chunks (ct seq)) \<le> 1" using True by (simp add: length_chunks FRAGMENT_PAYLOAD_SIZE_def)
    ultimately have False by (cases "snd (snd e)") (auto simp: entry_wf_def honest_entry_def)
    then show ?thesis ..
  qed (simp add: held_def)
  with assms(5,7) True obtain p ps' where "ps = p # ps'" "esp_total_frags p = 1"
    by (cases ps) (auto simp: fragment_packets_small)
  with assms(6) show ?thesis
    by (cases ws) (auto simp: FragmentBuffer_insert_def)
next
  case False
  then have large: "FRAGMENT_PAYLOAD_SIZE < length (ct seq)" by simp
  have fst: "fst ` set (zip ps ws) = set ps" using assms(6) by (metis list.set_map map_fst_zip)
  let ?idx = "\<lambda>p. unat (esp_frag_idx p)" and ?all = "{0..<length (frag_chunks (ct seq))}"
  have idx: "?idx ` set (fragment_packets seq ack (ct seq)) = ?all"
    by (rule fragment_packets_indices [OF large assms(4)])
  have "?all \<subseteq> held frames seq \<union> ?idx ` set ps" using assms(7) unfolding idx [symmetric] by blast
  moreover have "?idx ` set ps \<subseteq> ?all" using assms(5) unfolding idx [symmetric] by blast
  ultimately have "held frames seq \<union> ?idx ` set ps = ?all" using held_bounded [OF assms(2)] by blast
  moreover have "(\<lambda>x. ?idx (fst x)) ` set (zip ps ws) = ?idx ` set ps"
    by (simp add: image_image [symmetric, of ?idx fst] fst)
  ultimately show ?thesis
    using deliver_completes [of frames ct seq "zip ps ws" ack] assms large fst by simp
qed

lemma fragments_completed:
  assumes "seal_server (chacha_codec L) c seq ack payload = Inr packets" "length packets < 65536"
    and "chacha_cfg c' = chacha_cfg c" "chacha_honest L S c'" "S seq = Some (ack, payload)"
    and "has_room (cc_fragment_buffer c') seq" "set arrivals \<subseteq> set packets"
    and "\<forall>i < length packets. i \<in> held (cc_fragment_buffer c') seq \<or> packets ! i \<in> set arrivals"
  shows "(\<forall>r \<in> set (snd (open_run (chacha_codec L) c' arrivals)).
       r = Inr None \<or> (\<exists>pkt stats. r = Inr (Some (pkt, payload, stats)) \<and> esp_seq_num pkt = seq \<and> esp_ack_seq_num pkt = ack))
    \<and> (\<exists>pkt stats. Inr (Some (pkt, payload, stats)) \<in> set (snd (open_run (chacha_codec L) c' arrivals)))"
proof -
  obtain pb ct where ct: "serialize_compressed L (server_payload L) payload = Inr pb"
    "encrypt L (cc_crypto c') seq pb = Inr ct"
    "serialize_all (server_packet L) (fragment_packets seq ack ct) = Inr packets"
    "chacha_ct L (cc_crypto c') payload seq = Inr ct"
    using chacha_seal_server_Inr [OF assms(1)] assms(3) by (metis chacha_cfg_def prod.inject)
  let ?ct = "log_ct (chacha_ct L (cc_crypto c')) S" and ?buf = "cc_fragment_buffer c'"
  have seq: "?ct seq = ct" using assms(5) ct(4) by (simp add: log_ct_def)
  have send: "sendable (?ct seq)" using sendable_iff [OF ct(3) assms(2)] seq by simp
  have buf: "buffer_wf ?buf" "honest_buffer ?ct ?buf"
    using assms(4) by (simp_all add: chacha_honest_def buffer_honest_def)
  obtain ps where ps: "list_all2 (\<lambda>b p. deserialize (server_packet L) b = Inr p \<and> enc (server_packet L) p = Some b)
      arrivals ps" "set ps \<subseteq> set (fragment_packets seq ack ct)"
    using arrival_packets [OF ct(3)] assms(7) by blast
  then have "list_all2 (\<lambda>b p. deserialize (server_packet L) b = Inr p) arrivals ps"
    by (auto elim: list_all2_mono)
  note run = open_run_deliver [OF this, of c']
  let ?rs = "deliver ?buf (zip ps (map length arrivals))"
  have len: "length (map length arrivals) = length ps" using ps(1) by (simp add: list_all2_lengthD)
  have "unat (esp_frag_idx q) \<in> held ?buf seq \<or> q \<in> set ps" if "q \<in> set (fragment_packets seq ack ct)" for q
    using fragment_held_or_arrives [OF ct(3) _ that ps(1), of "held ?buf seq"] assms(8) send seq by auto
  then have some: "\<exists>r \<in> set ?rs. r \<noteq> None"
    using deliver_rest [OF buf assms(6) send _ len, of ack] ps(2) seq by simp
  have "fst ` set (zip ps (map length arrivals)) \<subseteq> set (fragment_packets seq ack (?ct seq))"
    using ps(2) seq by (auto dest: set_zip_leftD)
  from deliver_honest [OF buf send this]
  have each: "r = None \<or> (\<exists>pkt stats. chacha_finish L (cc_crypto c') r = Inr (Some (pkt, payload, stats))
      \<and> esp_seq_num pkt = seq \<and> esp_ack_seq_num pkt = ack)" if "r \<in> set ?rs" for r
    using that chacha_finish_ok [OF ct(1,2)] seq by (cases r) fastforce+
  have "chacha_finish L (cc_crypto c') None = Inr None" by (simp add: chacha_finish_def)
  with each have "\<forall>r \<in> set ?rs. chacha_finish L (cc_crypto c') r = Inr None \<or>
      (\<exists>pkt stats. chacha_finish L (cc_crypto c') r = Inr (Some (pkt, payload, stats))
        \<and> esp_seq_num pkt = seq \<and> esp_ack_seq_num pkt = ack)" by blast
  moreover from each some obtain r pkt stats where "r \<in> set ?rs"
    "chacha_finish L (cc_crypto c') r = Inr (Some (pkt, payload, stats))" by blast
  ultimately show ?thesis unfolding run by (force simp: image_iff)
qed

lemma fragments_delivered:
  assumes "seal_server (chacha_codec L) c seq ack payload = Inr packets" "length packets < 65536"
    and "chacha_cfg c' = chacha_cfg c" "chacha_honest L S c'" "S seq = Some (ack, payload)"
    and "has_room (cc_fragment_buffer c') seq" "set arrivals = set packets"
  shows "(\<forall>r \<in> set (snd (open_run (chacha_codec L) c' arrivals)).
       r = Inr None \<or> (\<exists>pkt stats. r = Inr (Some (pkt, payload, stats)) \<and> esp_seq_num pkt = seq \<and> esp_ack_seq_num pkt = ack))
    \<and> (\<exists>pkt stats. Inr (Some (pkt, payload, stats)) \<in> set (snd (open_run (chacha_codec L) c' arrivals)))"
  using assms(7) by (intro fragments_completed [OF assms(1-6)]) auto

lemma client_delivered:
  assumes "seal_client (chacha_codec L) c session seq ack payload = Inr bs" "chacha_cfg c' = chacha_cfg c"
  shows "if session = 0 \<or> session = cc_session_id c'
    then \<exists>pkt stats. open_client (chacha_codec L) c' bs = Inr (pkt, payload, stats)
      \<and> ecp_session_id pkt = session \<and> ecp_seq_num pkt = seq \<and> ecp_ack_seq_num pkt = ack
    else open_client (chacha_codec L) c' bs = Inl (SessionMismatch (cc_session_id c') session)"
proof (cases "session = 0 \<or> session = cc_session_id c'")
  case True
  with chacha.open_seal_client [OF assms] show ?thesis by auto
next
  case False
  from assms(1) obtain pkt where "enc (client_packet L) pkt = Some bs" "ecp_session_id pkt = session"
    by (auto simp: chacha_codec_def chacha_seal_client_def Let_def)
  with False show ?thesis
    by (simp add: chacha_codec_def chacha_open_client_def client_packet_ok)
qed

text \<open>Only the payload is authenticated: any other acknowledgement number in the packet opens just as well.\<close>

lemma ack_malleable:
  assumes "open_client (chacha_codec L) c bs = Inr (pkt, payload, stats)"
    and "enc (client_packet L) (pkt\<lparr>ecp_ack_seq_num := a\<rparr>) = Some bs'"
  shows "\<exists>stats'. open_client (chacha_codec L) c bs' = Inr (pkt\<lparr>ecp_ack_seq_num := a\<rparr>, payload, stats')"
  using assms by (auto simp: chacha_codec_def chacha_open_client_def client_packet_ok split: if_splits)

lemma open_client_authentic:
  assumes "open_client (chacha_codec L) c bs = Inr (pkt, payload, stats)"
  shows "\<exists>pb. deserialize (client_payload L) pb = Inr payload \<and>
     encrypt L (if ecp_session_id pkt = 0 then cc_handshake_crypto c else cc_crypto c) (ecp_seq_num pkt) pb
       = Inr (ecp_ciphertext pkt)"
  using assms by (auto simp: chacha_codec_def chacha_open_client_def decrypt_iff split: if_splits)

text \<open>A message of one datagram opens at once.\<close>

lemma single_delivered:
  assumes "seal_server (chacha_codec L) c seq ack payload = Inr [b]" "chacha_cfg c' = chacha_cfg c" "cc_fragment_buffer c' = []"
  shows "\<exists>c1 pkt stats. open_server (chacha_codec L) c' b = (c1, Inr (Some (pkt, payload, stats)))
    \<and> esp_seq_num pkt = seq \<and> esp_ack_seq_num pkt = ack"
proof -
  have "chacha_honest L [seq \<mapsto> (ack, payload)] c'" "has_room (cc_fragment_buffer c') seq"
    using assms(3) by (simp_all add: chacha_honest_def has_room_def)
  with fragments_delivered [OF assms(1) _ assms(2), of "[seq \<mapsto> (ack, payload)]" "[b]"] show ?thesis
    by (cases "open_server (chacha_codec L) c' b") auto
qed

end

section \<open>Properties\<close>

text \<open>Decoding a compressed serialisation returns the value, on both sides of the 256-byte
  threshold: small values are stored raw under flag 0, larger ones LZ4-compressed under flag 1, and the
  reported sizes are those of the wire payload and of the plain encoding.\<close>

theorem compressed_roundtrip:
  assumes "serde_ok S" "\<forall>p. lz4_decompress L (lz4_compress L p) = Some p"
    and "serialize_compressed L S x = Inr b"
  shows "\<exists>plain. enc S x = Some plain
    \<and> b = (if length plain < 256 then 0 # plain else 1 # lz4_compress L plain)
    \<and> deserialize_compressed_get_sizes L S b = Inr (x, length b, length plain)
    \<and> deserialize_compressed L S b = Inr x"
  using assms deserialize_serialize_compressed [OF assms(1) _ assms(3)]
  by (auto simp: serialize_compressed_def deserialize_compressed_def split: if_splits)

theorem compressed_roundtrip_witness:
  "\<exists>b plain. serialize_compressed ref_lib (server_payload ref_lib) (HandshakeAck 7) = Inr b
    \<and> plain = put server_payload_coder (HandshakeAck 7)
    \<and> deserialize_compressed_get_sizes ref_lib (server_payload ref_lib) b = Inr (HandshakeAck 7, length b, length plain)"
proof -
  have b: "serialize_compressed ref_lib (server_payload ref_lib) (HandshakeAck 7) =
      Inr (0 # put server_payload_coder (HandshakeAck 7))"
    by (simp add: serialize_compressed_def serialize_def server_payload_coder_def iso_coder_def sum_coder_def
        word_coder_def)
  with compressed_roundtrip [OF ref.server_payload_ok _ b] show ?thesis by simp
qed

text \<open>C6: Every datagram of a sealed server message, delivered in any order and any number of times to a
  peer with the same keys, opens without an error, yields either nothing or exactly the message that was
  sealed (with its sequence number and acknowledgement), and yields it at least once.  The peer's fragment
  buffer may already hold pieces of this and of other messages, as long as those were honestly sealed and
  the buffer has a slot for this message.\<close>

theorem fragmentation_roundtrip:
  assumes "wire_lib L"
    and "seal_server (chacha_codec L) c seq ack payload = Inr packets" "length packets < 65536"
    and "chacha_cfg c' = chacha_cfg c" "chacha_honest L S c'" "S seq = Some (ack, payload)"
    and "has_room (cc_fragment_buffer c') seq" "set arrivals = set packets"
  shows "(\<forall>r \<in> set (snd (open_run (chacha_codec L) c' arrivals)).
       r = Inr None \<or> (\<exists>pkt stats. r = Inr (Some (pkt, payload, stats)) \<and> esp_seq_num pkt = seq \<and> esp_ack_seq_num pkt = ack))
    \<and> (\<exists>pkt stats. Inr (Some (pkt, payload, stats)) \<in> set (snd (open_run (chacha_codec L) c' arrivals)))"
  by (rule wire_lib.fragments_delivered [OF assms])

text \<open>A screen row long enough to need several fragments.\<close>

definition long_frame :: FrameUpdate where
  "long_frame = \<lparr>fu_ref_seq = 0, fu_cols = 80, fu_rows = 24, fu_cursor_x = 0, fu_cursor_y = 0,
     fu_cursor_visible = True,
     fu_row_updates = replicate 700 \<lparr>ru_y = 1, ru_cells = [], ru_is_wrapped = False\<rparr>,
     fu_is_echo_enabled = True\<rparr>"

lemma length_put_list_replicate: "length (put_list W (replicate n x)) = Suc (n * Suc (length (put W x)))"
  by (induction n) simp_all

lemma long_frame_length: "length (put server_payload_coder (Frame long_frame)) = 3521"
  by (simp add: server_payload_coder_def frame_coder_def row_coder_def iso_coder_def sum_coder_def pair_coder_def
      word_coder_def bool_coder_def list_coder_def long_frame_def length_put_list_replicate)

lemma ref_seal_single:
  assumes "length (put server_payload_coder p) < 256"
  shows "\<exists>b. seal_server (chacha_codec ref_lib) c seq ack p = Inr [b]"
  using assms
  by (simp add: chacha_codec_def chacha_seal_server_def serialize_compressed_def serialize_def fragment_packets_small FRAGMENT_PAYLOAD_SIZE_def)

theorem fragmentation_roundtrip_witness:
  "\<exists>packets pkt stats. seal_server (chacha_codec ref_lib) (ChaChaCodec_new [] 9) 5 3 (Frame long_frame) = Inr packets
    \<and> length packets = 4
    \<and> Inr (Some (pkt, Frame long_frame, stats))
        \<in> set (snd (open_run (chacha_codec ref_lib) (ChaChaCodec_new [] 9) (rev packets @ packets)))"
proof -
  let ?c = "ChaChaCodec_new [] 9"
  let ?ct = "toy_tag [] (make_nonce (cc_crypto ?c) 5) # 1 # put server_payload_coder (Frame long_frame)"
  let ?packets = "map (put server_packet_coder) (fragment_packets 5 3 ?ct)"
  have seal: "seal_server (chacha_codec ref_lib) ?c 5 3 (Frame long_frame) = Inr ?packets"
    by (simp add: chacha_codec_def chacha_seal_server_def serialize_compressed_def serialize_def long_frame_length
        ChaChaCodec_new_def CryptoManager_new_def)
  have four: "length ?packets = 4"
    by (simp add: length_fragment_packets length_chunks FRAGMENT_PAYLOAD_SIZE_def long_frame_length)
  have "chacha_honest ref_lib [5 \<mapsto> (3, Frame long_frame)] ?c" "has_room (cc_fragment_buffer ?c) 5"
    by (simp_all add: chacha_honest_def ChaChaCodec_new_def has_room_def)
  then show ?thesis
    using fragmentation_roundtrip [OF ref.wire_lib_axioms seal, of ?c "[5 \<mapsto> (3, Frame long_frame)]" "rev ?packets @ ?packets"]
      seal four by auto
qed

text \<open>A client message sealed by one codec is opened by any codec with the same keys and session id,
  and yields the same payload, session, sequence number and acknowledgement; a message for another
  session (one that is neither 0, the handshake's, nor the codec's own) is refused as a session mismatch.\<close>

theorem client_roundtrip:
  assumes "wire_lib L" "seal_client (chacha_codec L) c session seq ack payload = Inr bs"
    and "chacha_cfg c' = chacha_cfg c"
  shows "if session = 0 \<or> session = cc_session_id c'
    then \<exists>pkt stats. open_client (chacha_codec L) c' bs = Inr (pkt, payload, stats)
      \<and> ecp_session_id pkt = session \<and> ecp_seq_num pkt = seq \<and> ecp_ack_seq_num pkt = ack
    else open_client (chacha_codec L) c' bs = Inl (SessionMismatch (cc_session_id c') session)"
  by (rule wire_lib.client_delivered [OF assms])

theorem client_roundtrip_witness:
  "\<exists>bs pkt stats. seal_client (chacha_codec ref_lib) (ChaChaCodec_new [1, 2] 9) 9 4 2 (Keystrokes [97]) = Inr bs
    \<and> open_client (chacha_codec ref_lib) (ChaChaCodec_new [1, 2] 9) bs = Inr (pkt, Keystrokes [97], stats)
    \<and> ecp_seq_num pkt = 4"
proof -
  let ?c = "ChaChaCodec_new [1, 2] 9"
  obtain bs where bs: "seal_client (chacha_codec ref_lib) ?c 9 4 2 (Keystrokes [97]) = Inr bs"
    by (simp add: chacha_codec_def chacha_seal_client_def serialize_def Let_def)
  have "cc_session_id ?c = 9" by (simp add: ChaChaCodec_new_def)
  with client_roundtrip [OF ref.wire_lib_axioms bs refl] bs show ?thesis by auto
qed

text \<open>C32: Whatever bytes arrive, the fragment buffer stays within bounds: at most 32 partial frames, sorted
  by sequence number, each with at least one and fewer than all of its fragments, none stored twice.  So a
  peer (or an attacker) cannot make the buffer grow without limit.\<close>

theorem fragment_buffer_bounded:
  assumes "buffer_wf (cc_fragment_buffer c)"
  shows "buffer_wf (cc_fragment_buffer (fst (open_run (chacha_codec L) c datagrams)))
    \<and> length (cc_fragment_buffer (fst (open_run (chacha_codec L) c datagrams))) \<le> 32"
proof -
  have "buffer_wf (cc_fragment_buffer (fst (open_run (chacha_codec L) c datagrams)))"
    using assms
  proof (induction datagrams arbitrary: c)
    case (Cons b bs)
    have "buffer_wf (cc_fragment_buffer (fst (chacha_open_server L c b)))"
      using Cons.prems by (auto simp: chacha_open_server_buffer FragmentBuffer_insert_wf split: sum.splits)
    moreover have "open_server (chacha_codec L) = chacha_open_server L" by (simp add: chacha_codec_def)
    ultimately show ?case using Cons.IH by simp
  qed simp
  then show ?thesis by (simp add: buffer_wf_def)
qed

theorem fragment_buffer_bounded_witness:
  "length (cc_fragment_buffer (fst (open_run (chacha_codec ref_lib) (ChaChaCodec_new [] 9) [[], [1, 2, 3]]))) \<le> 32"
  using fragment_buffer_bounded [of "ChaChaCodec_new [] 9" ref_lib "[[], [1, 2, 3]]"]
  by (simp add: ChaChaCodec_new_def buffer_wf_def bt_wf_def)

text \<open>C33: The masks a client reports are exact: every partial frame of the buffer is reported once, in
  order, and bit \<open>i\<close> of its mask is set if and only if fragment \<open>i\<close> of that frame was received; some bit
  below the fragment count is clear, so a report always asks for something.\<close>

theorem nack_mask_exact:
  assumes "buffer_wf (cc_fragment_buffer c)"
  shows "map fst (incomplete_frames (chacha_codec L) c) = map fst (cc_fragment_buffer c)
    \<and> (\<forall>(seq, tot, wl, frags) \<in> set (cc_fragment_buffer c).
         (seq, received_mask tot frags) \<in> set (incomplete_frames (chacha_codec L) c)
         \<and> (\<forall>i < unat tot. mask_bit (received_mask tot frags) i \<longleftrightarrow> of_nat i \<in> fst ` set frags)
         \<and> (\<exists>i < unat tot. \<not> mask_bit (received_mask tot frags) i))"
proof -
  let ?buf = "cc_fragment_buffer c"
  have wf: "\<forall>e \<in> set ?buf. entry_wf (snd e)" using assms by (simp add: buffer_wf_def)
  then have inc: "incomplete_frames (chacha_codec L) c
      = map (\<lambda>(seq, tot, _, frags). (seq, received_mask tot frags)) ?buf"
    by (simp add: chacha_codec_def get_incomplete_frames_map)
  have "(\<exists>i < unat tot. \<not> mask_bit (received_mask tot frags) i)" if "(seq, tot, wl, frags) \<in> set ?buf" for seq tot wl frags
    using missing_fragment [of "(tot, wl, frags)"] wf that by (fastforce simp: mask_bit_received)
  then show ?thesis
    unfolding inc by (force simp: mask_bit_received_word split: prod.splits)
qed

theorem nack_mask_exact_witness:
  "let c = (ChaChaCodec_new [] 9)\<lparr>cc_fragment_buffer := [(5, 3, 1100, [(1, [7])])]\<rparr>
   in incomplete_frames (chacha_codec ref_lib) c = [(5, [2])]
     \<and> map fst (incomplete_frames (chacha_codec ref_lib) c) = [5]
     \<and> (\<exists>i < 3. \<not> mask_bit (received_mask 3 [(1, [7])]) i)"
  using nack_mask_exact [of "(ChaChaCodec_new [] 9)\<lparr>cc_fragment_buffer := [(5, 3, 1100, [(1, [7])])]\<rparr>" ref_lib]
  by (simp add: Let_def buffer_wf_def entry_wf_def hm_wf_def bt_wf_def chacha_codec_def received_mask_def mask_set_def)

text \<open>A nonce is 12 bytes and determines the sequence number: two packets sealed with keys derived for
  sessions \<open>s\<close> and \<open>s'\<close> share a nonce exactly when the upper halves of the session ids and the sequence
  numbers agree.  So one direction of one session never repeats a nonce while its sequence numbers differ.\<close>

theorem nonce_determines_seq:
  "length (make_nonce (CryptoManager_new k s) a) = 12
   \<and> (make_nonce (CryptoManager_new k s) a = make_nonce (CryptoManager_new k' s') b \<longleftrightarrow>
        take 4 (to_be_bytes s) = take 4 (to_be_bytes s') \<and> a = b)"
  by (simp add: make_nonce_def CryptoManager_new_def to_be_bytes_inj)

text \<open>C39: The two directions share nonces: a client message and a server message of the same session and
  the same sequence number are sealed under one key and one nonce, since neither the nonce nor the key
  depends on the direction.\<close>

theorem nonce_shared_by_directions:
  assumes "session \<noteq> 0"
    and "seal_client (chacha_codec L) c session seq ack cp = Inr bs"
    and "seal_server (chacha_codec L) c seq ack' sp = Inr packets"
  shows "\<exists>x y cx cy. aead_seal L (cm_key (cc_crypto c)) (make_nonce (cc_crypto c) seq) x = Some cx
    \<and> aead_seal L (cm_key (cc_crypto c)) (make_nonce (cc_crypto c) seq) y = Some cy
    \<and> enc (client_payload L) cp = Some x \<and> serialize_compressed L (server_payload L) sp = Inr y
    \<and> enc (client_packet L) \<lparr>ecp_session_id = session, ecp_seq_num = seq, ecp_ack_seq_num = ack,
         ecp_ciphertext = cx\<rparr> = Some bs
    \<and> serialize_all (server_packet L) (fragment_packets seq ack' cy) = Inr packets"
proof -
  from assms(1,2) obtain x cx where "enc (client_payload L) cp = Some x" "encrypt L (cc_crypto c) seq x = Inr cx"
    "enc (client_packet L) \<lparr>ecp_session_id = session, ecp_seq_num = seq, ecp_ack_seq_num = ack,
       ecp_ciphertext = cx\<rparr> = Some bs"
    by (auto simp: chacha_codec_def chacha_seal_client_def)
  moreover from chacha_seal_server_Inr [OF assms(3)] obtain y cy where
    "serialize_compressed L (server_payload L) sp = Inr y" "encrypt L (cc_crypto c) seq y = Inr cy"
    "serialize_all (server_packet L) (fragment_packets seq ack' cy) = Inr packets" by metis
  ultimately show ?thesis by (auto simp: encrypt_def)
qed

theorem nonce_shared_by_directions_witness:
  "\<exists>bs packets. seal_client (chacha_codec ref_lib) (ChaChaCodec_new [1] 9) 9 1 0 (Keystrokes [97]) = Inr bs
    \<and> seal_server (chacha_codec ref_lib) (ChaChaCodec_new [1] 9) 1 0 S_KeepAlive = Inr packets
    \<and> (\<exists>cx cy. aead_seal ref_lib [1] (make_nonce (CryptoManager_new [1] 9) 1) (put client_payload_coder (Keystrokes [97])) = Some cx
        \<and> aead_seal ref_lib [1] (make_nonce (CryptoManager_new [1] 9) 1) (0 # put server_payload_coder S_KeepAlive) = Some cy)"
proof -
  let ?c = "ChaChaCodec_new [1] 9"
  have key: "cc_crypto ?c = CryptoManager_new [1] 9" "cm_key (CryptoManager_new [1] 9) = [1]"
    by (simp_all add: ChaChaCodec_new_def CryptoManager_new_def)
  have small: "length (put server_payload_coder S_KeepAlive) < 256"
    by (simp add: server_payload_coder_def iso_coder_def sum_coder_def bool_coder_def)
  obtain bs where bs: "seal_client (chacha_codec ref_lib) ?c 9 1 0 (Keystrokes [97]) = Inr bs"
    by (simp add: chacha_codec_def chacha_seal_client_def serialize_def Let_def)
  obtain packets where packets: "seal_server (chacha_codec ref_lib) ?c 1 0 S_KeepAlive = Inr packets"
    using small by (simp add: chacha_codec_def chacha_seal_server_def serialize_compressed_def serialize_def)
  from nonce_shared_by_directions [OF _ bs packets] bs packets small show ?thesis
    by (auto simp: key serialize_compressed_def serialize_def)
qed

text \<open>C34: An accepted client packet carries a payload that was sealed under the right key and the packet's
  own sequence number; the acknowledgement number in its header is not covered, so replacing it yields
  another accepted packet with the same payload.\<close>

theorem client_packet_authenticity:
  assumes "wire_lib L" "open_client (chacha_codec L) c bs = Inr (pkt, payload, stats)"
    and "enc (client_packet L) (pkt\<lparr>ecp_ack_seq_num := a\<rparr>) = Some bs'"
  shows "(\<exists>pb. deserialize (client_payload L) pb = Inr payload \<and>
      encrypt L (if ecp_session_id pkt = 0 then cc_handshake_crypto c else cc_crypto c) (ecp_seq_num pkt) pb
        = Inr (ecp_ciphertext pkt))
    \<and> (\<exists>stats'. open_client (chacha_codec L) c bs' = Inr (pkt\<lparr>ecp_ack_seq_num := a\<rparr>, payload, stats'))"
  using wire_lib.open_client_authentic [OF assms(1,2)] wire_lib.ack_malleable [OF assms] by blast

theorem client_packet_authenticity_witness:
  "\<exists>bs bs' pkt stats stats'. open_client (chacha_codec ref_lib) (ChaChaCodec_new [1] 9) bs = Inr (pkt, C_Ack, stats)
    \<and> ecp_ack_seq_num pkt = 2
    \<and> open_client (chacha_codec ref_lib) (ChaChaCodec_new [1] 9) bs' = Inr (pkt\<lparr>ecp_ack_seq_num := 99\<rparr>, C_Ack, stats')"
proof -
  let ?c = "ChaChaCodec_new [1] 9"
  obtain bs where bs: "seal_client (chacha_codec ref_lib) ?c 9 1 2 C_Ack = Inr bs"
    by (simp add: chacha_codec_def chacha_seal_client_def serialize_def Let_def)
  have "cc_session_id ?c = 9" by (simp add: ChaChaCodec_new_def)
  with ref.client_delivered [OF bs refl] obtain pkt stats where
    op: "open_client (chacha_codec ref_lib) ?c bs = Inr (pkt, C_Ack, stats)" "ecp_ack_seq_num pkt = 2" by auto
  from client_packet_authenticity [OF ref.wire_lib_axioms op(1) ref_lib_enc(3), of 99] op show ?thesis by blast
qed

end
