(* ===== verification/Rumsh_Client_Props.thy ===== *)
theory Rumsh_Client_Props
  imports Rumsh_Client_Session Rumsh_Wire_Props
begin

text \<open>
  Properties of the client session: what one received frame does, what a stale one does not do, what
  becomes of unacknowledged packets, and what is sent for a read from standard input.
\<close>

section \<open>Receiving a frame\<close>

text \<open>The mirror shows a grid.\<close>

definition displays :: "'f TerminalInner \<Rightarrow> GridState \<Rightarrow> bool" where
  "displays m g \<longleftrightarrow> tf_cols (ti_frame m) = gs_cols g \<and> tf_rows (ti_frame m) = gs_rows g \<and> tf_cell_cache (ti_frame m) = gs_cells g
     \<and> tf_cursor_x (ti_frame m) = gs_cursor_x g \<and> tf_cursor_y (ti_frame m) = gs_cursor_y g
     \<and> tf_cursor_visible (ti_frame m) = gs_cursor_visible g"

abbreviation pending :: "('c, 'f) MirrorSession \<Rightarrow> PredictionEntry list" where
  "pending s \<equiv> unconfirmed_inputs (ti_echo_engine (ms_mirror s))"

lemma apply_frame_engine:
  assumes "mirror_wf m" "grid_wf g" and c: "\<forall>e \<in> set (unconfirmed_inputs (ti_echo_engine m)). pe_seq_num e \<le> s"
  shows "unconfirmed_inputs (ti_echo_engine (fst (apply_frame m g s))) = []" "displays (fst (apply_frame m g s)) g"
proof -
  show "unconfirmed_inputs (ti_echo_engine (fst (apply_frame m g s))) = []"
    using update_from_grid_state_ok [OF assms(1,2)]
    by (auto simp: apply_frame_def with_echo_def reconcile_all_confirmed [OF c])
  show "displays (fst (apply_frame m g s)) g"
    using update_from_grid_state_ok [OF assms(1,2)]
    by (auto simp: displays_def apply_frame_confirmed [OF assms(1,2) c] resize_frame_def)
qed

lemma abort_nothing:
  "unconfirmed_inputs (ti_echo_engine m) = [] \<Longrightarrow> ti_frame (fst (abort_prediction m)) = ti_frame m
     \<and> unconfirmed_inputs (ti_echo_engine (fst (abort_prediction m))) = []"
  by (simp add: abort_prediction_def with_echo_def abort_def)

lemma apply_update_mirror:
  assumes "client_wf s" "update_base s u = Some base" "apply_diff base u = (g, Inr ())" "\<forall>e \<in> set (pending s). pe_seq_num e \<le> seq"
  shows "displays (ms_mirror (fst (apply_update C s seq u now))) g \<and> pending (fst (apply_update C s seq u now)) = []"
proof -
  have m: "mirror_wf (ms_mirror s)" using assms(1) by (simp add: client_wf_def)
  have g: "grid_wf g" using patch_wf [of base u] update_base_wf [OF assms(1,2)] assms(3) by (simp add: apply_diff_def)
  let ?m1 = "fst (apply_frame (ms_mirror s) g seq)"
  obtain r1 where 1: "apply_frame (ms_mirror s) g seq = (?m1, Inr r1)"
    using apply_frame_ok(1) [OF m g, of seq] by (metis prod.collapse)
  have 2: "abort_prediction ?m1 = (fst (abort_prediction ?m1), Inr ())"
    using abort_prediction_ok [OF apply_frame_ok(2) [OF m g]] by (metis prod.collapse)
  note e = apply_frame_engine [OF m g assms(4)]
  have ack: "ms_mirror (fst (try_ack C t now)) = ms_mirror t" for t :: "('a, 'b) MirrorSession"
    by (auto simp: try_ack_def prepare_ack_def Let_def split: sum.splits)
  have hist: "ms_mirror (push_history t q h) = ms_mirror t" for t :: "('a, 'b) MirrorSession" and q h
    by (simp add: push_history_def Let_def)
  let ?m = "if fu_is_echo_enabled u then ?m1 else fst (abort_prediction ?m1)"
  define s3 where "s3 = push_history (s\<lparr>ms_is_echo_enabled := fu_is_echo_enabled u, ms_mirror := ?m\<rparr>) seq g"
  have "ms_mirror (fst (apply_update C s seq u now)) = ms_mirror s3"
    unfolding apply_update_step [OF assms(2,3) 1 2 s3_def] using ack [of s3] by simp
  then have "ms_mirror (fst (apply_update C s seq u now)) = ?m" by (simp add: s3_def hist)
  then show ?thesis using e abort_nothing [of ?m1] by (simp add: displays_def)
qed

text \<open>Bookkeeping adds no prediction.\<close>

lemma telemetry_engine:
  "ti_echo_engine (record_rtt_loss F m r l) = ti_echo_engine m"
  "tf_rows (ti_frame (record_rtt_loss F m r l)) = tf_rows (ti_frame m)"
  by (auto simp: record_rtt_loss_def Let_def split: prod.splits option.splits)

lemma acknowledge_pending:
  assumes "mirror_wf m"
  shows "pe_seq_num ` set (unconfirmed_inputs (ti_echo_engine (fst (acknowledge m ack)))) \<subseteq> pe_seq_num ` set (unconfirmed_inputs (ti_echo_engine m))"
    and "tf_rows (ti_frame (fst (acknowledge m ack))) = tf_rows (ti_frame m)"
proof -
  obtain eng f r where r: "reconcile_frame (ti_echo_engine m, ti_frame m) ack = ((eng, f), r)" by (metis prod.exhaust)
  with reconcile_frame_ok [OF assms, of "ti_echo_engine m" ack]
  have "map fst (map (\<lambda>e. (pe_seq_num e, pe_bytes e)) (unconfirmed_inputs eng))
      = map fst (map (\<lambda>e. (pe_seq_num e, pe_bytes e)) (dropWhile (confirmed (ti_echo_engine m) ack) (unconfirmed_inputs (ti_echo_engine m))))"
    by simp
  then have "map pe_seq_num (unconfirmed_inputs eng) = map pe_seq_num (dropWhile (confirmed (ti_echo_engine m) ack) (unconfirmed_inputs (ti_echo_engine m)))"
    by (simp add: comp_def)
  then have "pe_seq_num ` set (unconfirmed_inputs eng) = pe_seq_num ` set (dropWhile (confirmed (ti_echo_engine m) ack) (unconfirmed_inputs (ti_echo_engine m)))"
    by (metis set_map)
  then show "pe_seq_num ` set (unconfirmed_inputs (ti_echo_engine (fst (acknowledge m ack)))) \<subseteq> pe_seq_num ` set (unconfirmed_inputs (ti_echo_engine m))"
    using r set_dropWhileD by (fastforce simp: acknowledge_def with_echo_def)
  show "tf_rows (ti_frame (fst (acknowledge m ack))) = tf_rows (ti_frame m)"
    using reconcile_frame_rows [OF assms, of "ti_echo_engine m" ack] r by (simp add: acknowledge_def with_echo_def)
qed

lemma note_packet_pending:
  assumes "client_wf s"
  shows "pe_seq_num ` set (pending (fst (note_packet F s seq ack stats now))) \<subseteq> pe_seq_num ` set (pending s)"
    and "tf_rows (ti_frame (ms_mirror (fst (note_packet F s seq ack stats now)))) = tf_rows (ti_frame (ms_mirror s))"
proof -
  define s3 where "s3 = update_loss_window (prune_acked (reset_after_outage (s\<lparr>ms_bytes_recv_acc := ms_bytes_recv_acc s + wire_len stats,
    ms_comp_acc := ms_comp_acc s + comp_len stats, ms_decomp_acc := ms_decomp_acc s + decomp_len stats\<rparr>) seq now) ack) seq"
  have m: "ms_mirror s3 = ms_mirror s"
    by (simp add: s3_def update_loss_window_def push_arrival_def prune_acked_def reset_after_outage_def Let_def)
  have wf: "mirror_wf (ms_mirror s)" using assms by (simp add: client_wf_def)
  obtain m1 where m1: "acknowledge (ms_mirror s) ack = (m1, Inr ())" using acknowledge_ok(1) [OF wf, of ack] by (metis prod.collapse)
  from acknowledge_pending [OF wf, of ack] m1
  show "pe_seq_num ` set (pending (fst (note_packet F s seq ack stats now))) \<subseteq> pe_seq_num ` set (pending s)"
    "tf_rows (ti_frame (ms_mirror (fst (note_packet F s seq ack stats now)))) = tf_rows (ti_frame (ms_mirror s))"
    unfolding note_packet_def Let_def s3_def [symmetric]
    by (simp_all add: with_mirror_def m telemetry_engine)
qed

lemma accept_packet_pending: "pending (fst (accept_packet s seq now)) = pending s"
  by (auto simp: accept_packet_def Let_def fst_with_mirror set_reconnecting_def split: sum.splits)

lemma apply_new_frame:
  assumes "client_wf s" "open_server C (ms_codec s) bs = (codec, Inr (Some (pkt, Frame u, stats)))"
    and "ms_ack_seq_num s < esp_seq_num pkt" "tf_rows (ti_frame (ms_mirror s)) > 0"
    and "\<forall>e \<in> set (pending s). pe_seq_num e \<le> esp_seq_num pkt"
    and "update_base s u = Some base" "apply_diff base u = (g, Inr ())"
  shows "let s' = fst (feed_packet C F s bs now) in
    (\<exists>acks. snd (feed_packet C F s bs now) = Inr (Paint # acks))
    \<and> ms_ack_seq_num s' = esp_seq_num pkt \<and> (\<exists>h. ms_state_history s' = h @ [(esp_seq_num pkt, g)])
    \<and> displays (ms_mirror s') g \<and> pending s' = []"
proof -
  let ?q = "esp_seq_num pkt"
  define s1 where "s1 = fst (note_packet F (s\<lparr>ms_codec := codec\<rparr>) ?q (esp_ack_seq_num pkt) stats now)"
  define s2 where "s2 = fst (accept_packet s1 ?q now)"
  note step = feed_packet_opened [OF assms(1,2) s1_def]
  have s1: "ms_ack_seq_num s1 = ms_ack_seq_num s" "ms_state_history s1 = ms_state_history s" "tf_rows (ti_frame (ms_mirror s1)) \<noteq> 0"
    using assms(4) note_packet_pending(2) [of "s\<lparr>ms_codec := codec\<rparr>"] assms(1) by (simp_all add: s1_def note_packet_ack client_wf_def)
  have p1: "\<forall>e \<in> set (pending s1). pe_seq_num e \<le> ?q"
    using note_packet_pending(1) [of "s\<lparr>ms_codec := codec\<rparr>" F ?q "esp_ack_seq_num pkt" stats now] assms(1,5)
    by (fastforce simp: s1_def client_wf_def)
  note acc = accept_packet_accepted [OF step(2), of ?q now]
  have "snd (accept_packet s1 ?q now) = Inr ()" using acc(2) s1(1,3) assms(3) by simp
  then have a: "accept_packet s1 ?q now = (s2, Inr ())" unfolding s2_def by (metis prod.collapse)
  have s2: "client_wf s2" "ms_ack_seq_num s2 = ?q" "ms_state_history s2 = ms_state_history s" "\<forall>e \<in> set (pending s2). pe_seq_num e \<le> ?q"
    using acc(1) s1 p1 assms(3) by (simp_all add: s2_def accepted_def accept_packet_view accept_packet_pending)
  have base: "update_base s2 u = Some base" using assms(6) by (auto simp: update_base_def s2 split: if_splits)
  have f: "feed_packet C F s bs now = apply_update C s2 ?q u now"
  proof -
    have "\<not> ?q \<le> ms_ack_seq_num s" using assms(3) by simp
    then show ?thesis unfolding step(1) a by (simp add: handle_payload_def)
  qed
  obtain m n t acks where e: "fst (apply_update C s2 ?q u now) = (push_history s2 ?q g)\<lparr>ms_mirror := m,
      ms_is_echo_enabled := fu_is_echo_enabled u, ms_transient_seq_num := n, ms_last_ack_sent := t\<rparr>"
    "snd (apply_update C s2 ?q u now) = Inr (Paint # acks)"
    using apply_update_ok [OF s2(1) base assms(7), of C ?q now] by blast
  have "\<exists>h. ms_state_history (push_history s2 ?q g) = h @ [(?q, g)]"
    unfolding push_history_list by (cases "ms_state_history s2") auto
  moreover have "ms_ack_seq_num (push_history s2 ?q g) = ?q" by (simp add: push_history_def Let_def s2)
  ultimately show ?thesis
    using apply_update_mirror [OF s2(1) base assms(7) s2(4), of C now] e by (simp add: f Let_def)
qed

section \<open>Properties\<close>

text \<open>C18: A new frame whose reference the client holds is applied: the session acknowledges its sequence number,
  records its grid as the newest history entry, asks for a repaint, and (when no
  prediction has a higher number than the frame) the mirror then shows exactly that grid, with no prediction left.
  The number of a prediction is the client's and the number of the frame the server's: a prediction the server has
  not yet seen is dropped by such a frame too.\<close>

theorem frame_applied:
  assumes "client_wf s" "open_server C (ms_codec s) bs = (codec, Inr (Some (pkt, Frame u, stats)))"
    and "ms_ack_seq_num s < esp_seq_num pkt" "tf_rows (ti_frame (ms_mirror s)) > 0"
    and "\<forall>e \<in> set (pending s). pe_seq_num e \<le> esp_seq_num pkt"
    and "update_base s u = Some base" "apply_diff base u = (g, Inr ())"
  shows "let s' = fst (feed_packet C F s bs now) in
    (\<exists>acks. snd (feed_packet C F s bs now) = Inr (Paint # acks))
    \<and> ms_ack_seq_num s' = esp_seq_num pkt \<and> (\<exists>h. ms_state_history s' = h @ [(esp_seq_num pkt, g)])
    \<and> displays (ms_mirror s') g \<and> pending s' = []"
  using assms by (rule apply_new_frame)

text \<open>A one-row screen with a letter, as a frame from scratch.\<close>

definition letter_update :: FrameUpdate where
  "letter_update = \<lparr>fu_ref_seq = 0, fu_cols = 3, fu_rows = 1, fu_cursor_x = 1, fu_cursor_y = 0, fu_cursor_visible = False,
     fu_row_updates = [\<lparr>ru_y = 0, ru_cells = [\<lparr>cu_x = 0, cu_cell = char_cell 97\<rparr>], ru_is_wrapped = False\<rparr>],
     fu_is_echo_enabled = True\<rparr>"

definition sample_client :: "(ChaChaCodec, unit) MirrorSession" where
  "sample_client = MirrorSession_new unit_f32 9 (ChaChaCodec_new [1, 2] 9) 0 3 1 False 0"

lemma sample_client_props [simp]:
  "client_wf sample_client" "ms_codec sample_client = ChaChaCodec_new [1, 2] 9" "ms_ack_seq_num sample_client = 0"
  "tf_rows (ti_frame (ms_mirror sample_client)) = 1" "pending sample_client = []" "ms_state_history sample_client = []"
  unfolding sample_client_def
  by (rule client_wf_new)
     (simp_all add: MirrorSession_new_def set_overlay_enabled_def ClientTerminal_new_def TerminalFrame_new_def LocalEchoEngine_new_def)

lemma letter_update_patch: "apply_diff (empty_grid_for letter_update) letter_update = (letter_grid, Inr ())"
proof -
  have "replicate 3 x = [x, x, x]" for x :: LocalCellData by (simp add: numeral_3_eq_3)
  then show ?thesis
    by (simp add: letter_update_def letter_grid_def empty_grid_for_blank blank_grid_def apply_diff_def patch_def
        resize_for_def vec_set_def vec_get_def)
qed

lemma letter_update_sealed:
  "\<exists>b. seal_server (chacha_codec ref_lib) (ChaChaCodec_new [1, 2] 9) seq ack (Frame letter_update) = Inr [b]"
  by (rule ref_seal_single)
     (simp add: server_payload_coder_def frame_coder_def row_coder_def cell_update_coder_def cell_coder_def
      grapheme_coder_def opt_coder_def iso_coder_def sum_coder_def pair_coder_def length_put_list_replicate
      word_coder_def bool_coder_def unit_coder_def list_coder_def letter_update_def char_cell_def CompactGrapheme_new_def)

theorem frame_applied_witness:
  "\<exists>b. seal_server (chacha_codec ref_lib) (ChaChaCodec_new [1, 2] 9) 1 0 (Frame letter_update) = Inr [b]
    \<and> displays (ms_mirror (fst (feed_packet (chacha_codec ref_lib) unit_f32 sample_client b 5))) letter_grid"
proof -
  obtain b where b: "seal_server (chacha_codec ref_lib) (ChaChaCodec_new [1, 2] 9) 1 0 (Frame letter_update) = Inr [b]"
    using letter_update_sealed by blast
  have "cc_fragment_buffer (ChaChaCodec_new [1, 2] 9) = []" by (simp add: ChaChaCodec_new_def)
  with ref.single_delivered [OF b refl] obtain c1 pkt stats where
    o: "open_server (chacha_codec ref_lib) (ms_codec sample_client) b = (c1, Inr (Some (pkt, Frame letter_update, stats)))"
      "esp_seq_num pkt = 1" by auto
  have "update_base sample_client letter_update = Some (empty_grid_for letter_update)"
    by (simp add: update_base_def letter_update_def)
  from frame_applied [OF _ o(1) _ _ _ this letter_update_patch, of unit_f32 5] o(2) b show ?thesis
    by (auto simp: Let_def)
qed

end
