(* ===== verification/Rumsh_Pty.thy ===== *)
theory Rumsh_Pty
  imports Rumsh_Server_Session
begin

text \<open>
  \<open>src/server/pty.rs\<close>: the PTY bridge.  The terminal device and \<open>/proc\<close> belong to the operating system and are the
  parameter \<open>os_tty\<close>: each system call takes the state \<open>'m\<close> of the device and of the processes behind it and
  returns the state it leaves, so that a call may fail and the processes may change between any two calls.
  The bridge holds the device and the foreground-process cache.  Its two mutexes are locked only
  inside these methods, by code that does not panic, so they are never poisoned.
\<close>

section \<open>Definitions\<close>

record 'm os_tty =
  tty_write_all :: "'m \<Rightarrow> bytes \<Rightarrow> 'm \<times> unit res"
  tty_flush :: "'m \<Rightarrow> 'm \<times> unit res"
  tty_resize :: "'m \<Rightarrow> u16 \<Rightarrow> u16 \<Rightarrow> 'm \<times> unit res"
  tty_raw_fd :: "'m \<Rightarrow> int option"
  tty_tcgetattr :: "'m \<Rightarrow> int \<Rightarrow> 'm \<times> u32 option"
  tty_ECHO :: u32
  tty_tcgetpgrp :: "'m \<Rightarrow> int \<Rightarrow> 'm \<times> int"
  tty_read_comm :: "'m \<Rightarrow> int \<Rightarrow> 'm \<times> string option"

record ProcessCache =
  last_pgrp :: int
  last_name :: "string option"

record 'm PtyBridge =
  pb_master :: 'm
  pb_foreground_cache :: ProcessCache

definition PtyBridge_new :: "'m \<Rightarrow> 'm PtyBridge" where
  "PtyBridge_new master = \<lparr>pb_master = master, pb_foreground_cache = \<lparr>last_pgrp = -1, last_name = None\<rparr>\<rparr>"

definition bridge_write :: "'m os_tty \<Rightarrow> 'm PtyBridge \<Rightarrow> bytes \<Rightarrow> 'm PtyBridge \<times> unit res" where
  "bridge_write T p data =
     (case tty_write_all T (pb_master p) data of
        (m, Inl e) \<Rightarrow> (p\<lparr>pb_master := m\<rparr>, Inl e)
      | (m, Inr _) \<Rightarrow> (case tty_flush T m of (m1, r) \<Rightarrow> (p\<lparr>pb_master := m1\<rparr>, r)))"

definition bridge_resize :: "'m os_tty \<Rightarrow> 'm PtyBridge \<Rightarrow> u16 \<Rightarrow> u16 \<Rightarrow> 'm PtyBridge \<times> unit res" where
  "bridge_resize T p cols rows =
     (case tty_resize T (pb_master p) cols rows of (m, r) \<Rightarrow> (p\<lparr>pb_master := m\<rparr>, r))"

definition is_echo_enabled :: "'m os_tty \<Rightarrow> 'm PtyBridge \<Rightarrow> 'm PtyBridge \<times> bool" where
  "is_echo_enabled T p =
     (case tty_raw_fd T (pb_master p) of
        None \<Rightarrow> (p, True)
      | Some fd \<Rightarrow>
          (case tty_tcgetattr T (pb_master p) fd of
             (m, Some lflag) \<Rightarrow> (p\<lparr>pb_master := m\<rparr>, (lflag AND tty_ECHO T) \<noteq> 0)
           | (m, None) \<Rightarrow> (p\<lparr>pb_master := m\<rparr>, True)))"

definition is_whitespace :: "char \<Rightarrow> bool" where
  "is_whitespace c \<longleftrightarrow> of_char c \<in> {9, 10, 11, 12, 13, 32 :: nat}"

definition trim :: "string \<Rightarrow> string" where
  "trim s = rev (dropWhile is_whitespace (rev (dropWhile is_whitespace s)))"

definition get_foreground_process_name :: "'m os_tty \<Rightarrow> 'm PtyBridge \<Rightarrow> 'm PtyBridge \<times> string option" where
  "get_foreground_process_name T p =
     (case tty_raw_fd T (pb_master p) of
        None \<Rightarrow> (p, None)
      | Some fd \<Rightarrow>
          (case tty_tcgetpgrp T (pb_master p) fd of
             (m, pgrp) \<Rightarrow>
               if pgrp > 0 then
                 (if last_pgrp (pb_foreground_cache p) = pgrp then (p\<lparr>pb_master := m\<rparr>, last_name (pb_foreground_cache p))
                  else
                    (case tty_read_comm T m pgrp of
                       (m1, Some comm) \<Rightarrow>
                         (\<lparr>pb_master = m1, pb_foreground_cache = \<lparr>last_pgrp = pgrp, last_name = Some (trim comm)\<rparr>\<rparr>, Some (trim comm))
                     | (m1, None) \<Rightarrow>
                         (\<lparr>pb_master = m1, pb_foreground_cache = \<lparr>last_pgrp = pgrp, last_name = None\<rparr>\<rparr>, None)))
               else (p\<lparr>pb_master := m\<rparr>, None)))"

definition shells :: "string list" where
  "shells = [''bash'', ''zsh'', ''sh'', ''fish'', ''rumsh'']"

definition is_echo_recommended :: "'m os_tty \<Rightarrow> 'm PtyBridge \<Rightarrow> 'm PtyBridge \<times> bool" where
  "is_echo_recommended T p =
     (case is_echo_enabled T p of
        (p1, True) \<Rightarrow> (p1, True)
      | (p1, False) \<Rightarrow>
          (case get_foreground_process_name T p1 of
             (p2, Some proc_name) \<Rightarrow> (p2, proc_name \<in> set shells)
           | (p2, None) \<Rightarrow> (p2, False)))"

definition pty_bridge :: "'m os_tty \<Rightarrow> 'm PtyBridge pty_backend" where
  "pty_bridge T =
     \<lparr>pty_write = bridge_write T, pty_resize = bridge_resize T, pty_echo_recommended = is_echo_recommended T\<rparr>"

section \<open>What the session relies on\<close>

text \<open>\<open>input p\<close> is the byte stream the shell has been given; only \<open>write\<close> extends it.\<close>

locale pty_log =
  fixes P :: "'p pty_backend" and input :: "'p \<Rightarrow> bytes"
  assumes input_write: "input (fst (pty_write P p data)) = input p @ data"
    and input_resize: "input (fst (pty_resize P p cols rows)) = input p"
    and input_echo: "input (fst (pty_echo_recommended P p)) = input p"

text \<open>A device that takes what it is given: \<open>write_all\<close> and \<open>flush\<close> succeed, and no other call is input.\<close>

locale accepting_tty =
  fixes T :: "'m os_tty" and received :: "'m \<Rightarrow> bytes"
  assumes write_all_ok: "snd (tty_write_all T m data) = Inr ()"
    and write_all_received: "received (fst (tty_write_all T m data)) = received m @ data"
    and flush_received: "received (fst (tty_flush T m)) = received m"
    and resize_received: "received (fst (tty_resize T m cols rows)) = received m"
    and tcgetattr_received: "received (fst (tty_tcgetattr T m fd)) = received m"
    and tcgetpgrp_received: "received (fst (tty_tcgetpgrp T m fd)) = received m"
    and read_comm_received: "received (fst (tty_read_comm T m pgrp)) = received m"
begin

lemma bridge_write_received: "received (pb_master (fst (bridge_write T p data))) = received (pb_master p) @ data"
  using write_all_ok [of "pb_master p" data] write_all_received [of "pb_master p" data] flush_received
  by (auto simp: bridge_write_def split: prod.splits sum.splits) (metis fst_conv)

lemma is_echo_enabled_received: "received (pb_master (fst (is_echo_enabled T p))) = received (pb_master p)"
  using tcgetattr_received [of "pb_master p"]
  by (auto simp: is_echo_enabled_def split: option.splits prod.splits) (metis fst_conv)+

lemma get_foreground_received: "received (pb_master (fst (get_foreground_process_name T p))) = received (pb_master p)"
proof (cases "tty_raw_fd T (pb_master p)")
  case (Some fd)
  obtain m pgrp where m: "tty_tcgetpgrp T (pb_master p) fd = (m, pgrp)" by force
  obtain m1 comm where m1: "tty_read_comm T m pgrp = (m1, comm)" by force
  have "received m = received (pb_master p)" "received m1 = received m"
    using tcgetpgrp_received [of "pb_master p" fd] read_comm_received [of m pgrp] m m1 by simp_all
  with Some m m1 show ?thesis by (simp add: get_foreground_process_name_def split: option.split)
qed (simp add: get_foreground_process_name_def)

lemma is_echo_recommended_received: "received (pb_master (fst (is_echo_recommended T p))) = received (pb_master p)"
proof -
  obtain p1 e where p1: "is_echo_enabled T p = (p1, e)" by force
  obtain p2 name where p2: "get_foreground_process_name T p1 = (p2, name)" by force
  show ?thesis using is_echo_enabled_received [of p] get_foreground_received [of p1] p1 p2
    by (simp add: is_echo_recommended_def split: bool.split option.split)
qed

end

sublocale accepting_tty \<subseteq> bridge: pty_log "pty_bridge T" "\<lambda>p. received (pb_master p)"
proof unfold_locales
  fix p cols rows
  show "received (pb_master (fst (pty_resize (pty_bridge T) p cols rows))) = received (pb_master p)"
    using resize_received [of "pb_master p" cols rows]
    by (cases "tty_resize T (pb_master p) cols rows") (simp add: pty_bridge_def bridge_resize_def)
qed (simp_all add: pty_bridge_def bridge_write_received is_echo_recommended_received)

text \<open>A device with a shell that replaces itself by another program when it is given a carriage return.\<close>

record tty_device =
  td_written :: bytes
  td_size :: "u16 \<times> u16"

definition tty_open :: "u16 \<Rightarrow> u16 \<Rightarrow> tty_device" where
  "tty_open cols rows = \<lparr>td_written = [], td_size = (cols, rows)\<rparr>"

definition sample_tty :: "tty_device os_tty" where
  "sample_tty =
     \<lparr>tty_write_all = (\<lambda>m data. (m\<lparr>td_written := td_written m @ data\<rparr>, Inr ())), tty_flush = (\<lambda>m. (m, Inr ())),
      tty_resize = (\<lambda>m cols rows. (m\<lparr>td_size := (cols, rows)\<rparr>, Inr ())), tty_raw_fd = (\<lambda>_. Some 3),
      tty_tcgetattr = (\<lambda>m _. (m, Some 0)), tty_ECHO = 8, tty_tcgetpgrp = (\<lambda>m _. (m, 42)),
      tty_read_comm = (\<lambda>m _. (m, Some ((if 13 \<in> set (td_written m) then ''sudo'' else ''zsh'') @ [CHR 0x0A])))\<rparr>"

interpretation device: accepting_tty sample_tty td_written
  by unfold_locales (simp_all add: sample_tty_def)

definition shell_input :: "tty_device PtyBridge \<Rightarrow> bytes" where
  "shell_input p = td_written (pb_master p)"

lemma device_log: "pty_log (pty_bridge sample_tty) shell_input"
  using device.bridge.pty_log_axioms by (simp add: shell_input_def [abs_def])

section \<open>The process cache\<close>

text \<open>What a call of \<open>is_echo_recommended\<close> finds: whether the terminal echoes, the foreground group, and the name the system
  has for the group at that moment, whether or not the call asks for it.\<close>

record echo_obs =
  eo_echo :: bool
  eo_group :: "int option"
  eo_name :: "string option"

definition observe :: "'m os_tty \<Rightarrow> 'm PtyBridge \<Rightarrow> echo_obs" where
  "observe T p =
     (case is_echo_enabled T p of (p1, echo) \<Rightarrow>
       (case tty_raw_fd T (pb_master p1) of
          None \<Rightarrow> \<lparr>eo_echo = echo, eo_group = None, eo_name = None\<rparr>
        | Some fd \<Rightarrow>
            (case tty_tcgetpgrp T (pb_master p1) fd of
               (m, pgrp) \<Rightarrow>
                 \<lparr>eo_echo = echo, eo_group = (if pgrp > 0 then Some pgrp else None),
                  eo_name = map_option trim (snd (tty_read_comm T m pgrp))\<rparr>)))"

text \<open>The calls that look at the foreground group, and the name that group had in the first of the latest calls
  that all found the same group.\<close>

definition group_calls :: "echo_obs list \<Rightarrow> echo_obs list" where
  "group_calls obs = filter (\<lambda>x. \<not> eo_echo x \<and> eo_group x \<noteq> None) obs"

definition name_at_entry :: "echo_obs list \<Rightarrow> string option" where
  "name_at_entry obs =
     (case rev (group_calls obs) of [] \<Rightarrow> None
      | x # xs \<Rightarrow> eo_name (last (x # takeWhile (\<lambda>y. eo_group y = eo_group x) xs)))"

definition recommendation :: "echo_obs list \<Rightarrow> bool" where
  "recommendation obs \<longleftrightarrow> eo_echo (last obs)
     \<or> (eo_group (last obs) \<noteq> None \<and> (case name_at_entry obs of Some name \<Rightarrow> name \<in> set shells | None \<Rightarrow> False))"

datatype pty_op = Op_write bytes | Op_resize u16 u16 | Op_echo

fun bridge_run :: "'m os_tty \<Rightarrow> 'm PtyBridge \<Rightarrow> pty_op list \<Rightarrow> (echo_obs \<times> bool) list" where
  "bridge_run T p [] = []"
| "bridge_run T p (Op_write data # ops) = bridge_run T (fst (bridge_write T p data)) ops"
| "bridge_run T p (Op_resize cols rows # ops) = bridge_run T (fst (bridge_resize T p cols rows)) ops"
| "bridge_run T p (Op_echo # ops) =
     (observe T p, snd (is_echo_recommended T p)) # bridge_run T (fst (is_echo_recommended T p)) ops"

definition cache_after :: "echo_obs list \<Rightarrow> ProcessCache" where
  "cache_after obs =
     (case rev (group_calls obs) of [] \<Rightarrow> \<lparr>last_pgrp = -1, last_name = None\<rparr>
      | x # _ \<Rightarrow> \<lparr>last_pgrp = the (eo_group x), last_name = name_at_entry obs\<rparr>)"

lemma group_positive: "eo_group (observe T p) = Some g \<Longrightarrow> g > 0"
  by (auto simp: observe_def split: prod.splits option.splits if_splits)

lemma is_echo_enabled_cache [simp]: "pb_foreground_cache (fst (is_echo_enabled T p)) = pb_foreground_cache p"
  by (auto simp: is_echo_enabled_def split: option.splits prod.splits)

lemma bridge_io_cache [simp]:
  "pb_foreground_cache (fst (bridge_write T p data)) = pb_foreground_cache p"
  "pb_foreground_cache (fst (bridge_resize T p cols rows)) = pb_foreground_cache p"
  by (auto simp: bridge_write_def bridge_resize_def split: prod.splits sum.splits)

text \<open>One call, against what it finds and the cache it starts with.\<close>

lemma is_echo_recommended_observed:
  "is_echo_recommended T p = (p', r) \<Longrightarrow>
   (if eo_echo (observe T p) then r \<and> pb_foreground_cache p' = pb_foreground_cache p
    else case eo_group (observe T p) of
      None \<Rightarrow> \<not> r \<and> pb_foreground_cache p' = pb_foreground_cache p
    | Some g \<Rightarrow>
        (let name = (if last_pgrp (pb_foreground_cache p) = g then last_name (pb_foreground_cache p) else eo_name (observe T p)) in
         r = (case name of Some n \<Rightarrow> n \<in> set shells | None \<Rightarrow> False)
         \<and> pb_foreground_cache p' = \<lparr>last_pgrp = g, last_name = name\<rparr>))"
proof -
  assume call: "is_echo_recommended T p = (p', r)"
  obtain p1 echo where p1: "is_echo_enabled T p = (p1, echo)" by force
  then have cache: "pb_foreground_cache p1 = pb_foreground_cache p" by (metis is_echo_enabled_cache fst_conv)
  show ?thesis
  proof (cases "tty_raw_fd T (pb_master p1)")
    case None
    with p1 cache call show ?thesis
      by (cases echo) (auto simp: is_echo_recommended_def observe_def get_foreground_process_name_def)
  next
    case (Some fd)
    obtain m pgrp where m: "tty_tcgetpgrp T (pb_master p1) fd = (m, pgrp)" by force
    obtain m1 comm where m1: "tty_read_comm T m pgrp = (m1, comm)" by force
    show ?thesis using p1 cache call Some m m1
      by (cases echo; cases comm; cases "pgrp > 0"; cases "last_pgrp (pb_foreground_cache p) = pgrp"; cases "last_name (pb_foreground_cache p)")
        (auto simp: is_echo_recommended_def observe_def get_foreground_process_name_def Let_def)
  qed
qed

lemma name_at_entry_snoc:
  "eo_echo x \<or> eo_group x = None \<Longrightarrow> name_at_entry (obs @ [x]) = name_at_entry obs"
  "\<not> eo_echo x \<Longrightarrow> eo_group x = Some g \<Longrightarrow> g > 0 \<Longrightarrow>
     name_at_entry (obs @ [x]) = (if last_pgrp (cache_after obs) = g then last_name (cache_after obs) else eo_name x)"
proof -
  show "eo_echo x \<or> eo_group x = None \<Longrightarrow> name_at_entry (obs @ [x]) = name_at_entry obs"
    by (auto simp: name_at_entry_def group_calls_def)
  assume x: "\<not> eo_echo x" "eo_group x = Some g" "g > 0"
  show "name_at_entry (obs @ [x]) = (if last_pgrp (cache_after obs) = g then last_name (cache_after obs) else eo_name x)"
  proof (cases "rev (group_calls obs)")
    case Nil
    with x show ?thesis by (simp add: name_at_entry_def cache_after_def group_calls_def)
  next
    case (Cons y ys)
    then have "y \<in> set (group_calls obs)" by (metis list.set_intros(1) set_rev)
    then obtain g' where "eo_group y = Some g'" by (auto simp: group_calls_def)
    with Cons x show ?thesis by (auto simp: name_at_entry_def cache_after_def group_calls_def)
  qed
qed

lemma cache_after_snoc:
  "eo_echo x \<or> eo_group x = None \<Longrightarrow> cache_after (obs @ [x]) = cache_after obs"
  "\<not> eo_echo x \<Longrightarrow> eo_group x = Some g \<Longrightarrow> cache_after (obs @ [x]) = \<lparr>last_pgrp = g, last_name = name_at_entry (obs @ [x])\<rparr>"
  using name_at_entry_snoc(1) [of x obs] by (auto simp: cache_after_def group_calls_def split: list.splits)

text \<open>A call after calls that found \<open>obs\<close> answers by the specification and leaves the cache it describes.\<close>

lemma is_echo_recommended_step:
  assumes "pb_foreground_cache p = cache_after obs"
  shows "snd (is_echo_recommended T p) = recommendation (obs @ [observe T p])"
    and "pb_foreground_cache (fst (is_echo_recommended T p)) = cache_after (obs @ [observe T p])"
proof -
  let ?x = "observe T p"
  obtain p' r where call: "is_echo_recommended T p = (p', r)" by force
  note o = is_echo_recommended_observed [OF call]
  have "r = recommendation (obs @ [?x]) \<and> pb_foreground_cache p' = cache_after (obs @ [?x])"
  proof (cases "eo_echo ?x \<or> eo_group ?x = None")
    case True
    with o assms show ?thesis by (auto simp: recommendation_def cache_after_snoc split: if_splits)
  next
    case False
    then obtain g where g: "\<not> eo_echo ?x" "eo_group ?x = Some g" by auto
    note n = name_at_entry_snoc(2) [OF g group_positive [OF g(2)], of obs]
    from o assms g show ?thesis by (simp add: recommendation_def cache_after_snoc(2) [OF g] n Let_def)
  qed
  with call show "snd (is_echo_recommended T p) = recommendation (obs @ [?x])"
    "pb_foreground_cache (fst (is_echo_recommended T p)) = cache_after (obs @ [?x])" by simp_all
qed

lemma bridge_run_spec:
  "pb_foreground_cache p = cache_after obs \<Longrightarrow> i < length (bridge_run T p ops) \<Longrightarrow>
   snd (bridge_run T p ops ! i) = recommendation (obs @ map fst (take (Suc i) (bridge_run T p ops)))"
proof (induction T p ops arbitrary: obs i rule: bridge_run.induct)
  case (4 T p ops)
  show ?case
  proof (cases i)
    case (Suc j)
    with "4.prems" "4.IH" [of "obs @ [observe T p]" j] show ?thesis
      by (simp add: is_echo_recommended_step(2))
  qed (simp add: is_echo_recommended_step(1) "4.prems")
qed simp_all

section \<open>Properties\<close>

text \<open>C38: Local echo over any history of writes, resizes and queries of a new bridge, while the system changes in any
  way between its calls: the \<open>i\<close>-th query recommends local echo exactly when the terminal echoes (or
  cannot be asked), or there is a foreground group and the name it had when the bridge first saw it,
  in the current series of queries that found this group, is one of the known shells.  So the name is
  current after every change of group, and after the group's leader has executed another program it is
  the old one, which the run below shows.\<close>

theorem is_echo_recommended_history:
  "map snd (bridge_run T (PtyBridge_new m) ops) =
     map (\<lambda>i. recommendation (map fst (take (Suc i) (bridge_run T (PtyBridge_new m) ops)))) [0..<length (bridge_run T (PtyBridge_new m) ops)]"
proof (rule nth_equalityI)
  have new: "pb_foreground_cache (PtyBridge_new m) = cache_after []"
    by (simp add: PtyBridge_new_def cache_after_def group_calls_def)
  fix i assume "i < length (map snd (bridge_run T (PtyBridge_new m) ops))"
  with bridge_run_spec [OF new, of i T ops]
  show "map snd (bridge_run T (PtyBridge_new m) ops) ! i =
    map (\<lambda>i. recommendation (map fst (take (Suc i) (bridge_run T (PtyBridge_new m) ops)))) [0..<length (bridge_run T (PtyBridge_new m) ops)] ! i"
    by simp
qed simp

text \<open>A query at the prompt, a line that makes the shell execute \<open>sudo\<close> in its place, and a query while \<open>sudo\<close> asks for the
  password: the system says \<open>sudo\<close>, the terminal does not echo, and local echo is still recommended.\<close>

theorem is_echo_recommended_history_witness:
  "\<exists>before after. bridge_run sample_tty (PtyBridge_new (tty_open 80 24)) [Op_echo, Op_write [13], Op_echo] = [(before, True), (after, True)]
    \<and> eo_name before = Some ''zsh'' \<and> eo_name after = Some ''sudo'' \<and> \<not> eo_echo after
    \<and> recommendation [before, after] \<and> \<not> recommendation [after]"
proof -
  let ?run = "bridge_run sample_tty (PtyBridge_new (tty_open 80 24)) [Op_echo, Op_write [13], Op_echo]"
  let ?o = "\<lambda>name. \<lparr>eo_echo = False, eo_group = Some 42, eo_name = Some name\<rparr>"
  have obs: "map fst ?run = [?o ''zsh'', ?o ''sudo'']"
    by (simp add: sample_tty_def PtyBridge_new_def tty_open_def observe_def is_echo_enabled_def is_echo_recommended_def
        get_foreground_process_name_def bridge_write_def trim_def is_whitespace_def)
  have r: "recommendation [?o ''zsh'']" "recommendation [?o ''zsh'', ?o ''sudo'']" "\<not> recommendation [?o ''sudo'']"
    by (simp_all add: recommendation_def name_at_entry_def group_calls_def shells_def)
  from obs obtain a b where run: "?run = [(?o ''zsh'', a), (?o ''sudo'', b)]" by auto
  have "a" "b"
    using is_echo_recommended_history [of sample_tty "tty_open 80 24" "[Op_echo, Op_write [13], Op_echo]", unfolded run] r
    by (simp_all add: upt_rec)
  with run r show ?thesis by simp
qed

end
