(* ===== verification/Rumsh_Delivery.thy ===== *)
theory Rumsh_Delivery
  imports Rumsh_Pty Rumsh_Wire_Props
begin

text \<open>
  Reliable input delivery at the server: whatever order, loss and duplication the network adds to the
  client's reliable packets, the shell receives their keystrokes once each and in sequence order, as
  far as there is no gap.  The abstract state is the set \<open>A\<close> of sequence numbers that have arrived; \<open>M\<close>
  gives the payload the client sealed under each.
\<close>

section \<open>The reorder buffer\<close>

definition seqs :: "u64 \<Rightarrow> u64 \<Rightarrow> u64 list" where
  "seqs a b = map of_nat [unat a..<unat b]"

lemma seqs_same [simp]: "seqs a a = []"
  by (simp add: seqs_def)

lemma unat_succ:
  fixes q :: u64
  assumes "Suc (unat q) < 2 ^ 64"
  shows "unat (q + 1) = Suc (unat q)"
proof -
  have "unat (q + 1) = (unat q + unat (1 :: u64)) mod 2 ^ LENGTH(64)" by (rule unat_word_ariths(1))
  with assms show ?thesis by simp
qed

lemma seqs_append: "a \<le> b \<Longrightarrow> b \<le> c \<Longrightarrow> seqs a c = seqs a b @ seqs b c"
proof -
  assume "a \<le> b" "b \<le> c"
  then have "[unat a..<unat c] = [unat a..<unat b] @ [unat b..<unat c]"
    using upt_add_eq_append [of "unat a" "unat b" "unat c - unat b"] by (simp add: word_le_nat_alt)
  then show ?thesis by (simp add: seqs_def)
qed

lemma seqs_Cons: "a < b \<Longrightarrow> seqs a b = a # seqs (a + 1) b"
proof -
  assume ab: "a < b"
  then have "unat a < unat b" by (simp add: word_less_nat_alt)
  moreover have "unat (a + 1) = Suc (unat a)"
  proof (rule unat_succ)
    have "unat b < 2 ^ 64" by (rule less_le_trans [OF unsigned_less]) simp
    with calculation show "Suc (unat a) < 2 ^ 64" by linarith
  qed
  ultimately show ?thesis by (simp add: seqs_def upt_conv_Cons)
qed

definition stream_buf :: "(u64 \<Rightarrow> ClientPayload) \<Rightarrow> u64 set \<Rightarrow> u64 \<Rightarrow> (u64 \<times> ClientPayload) list \<Rightarrow> bool" where
  "stream_buf M A e buf \<longleftrightarrow> bt_wf buf \<and> (\<forall>q. map_of buf q = (if q \<in> A \<and> e \<le> q then Some (M q) else None))"

abbreviation reliable_seq :: "u64 \<Rightarrow> bool" where
  "reliable_seq q \<equiv> unat q < 2 ^ 63"

lemma reliable_succ:
  assumes "reliable_seq q"
  shows "unat (q + 1) = Suc (unat q)"
proof (rule unat_succ)
  show "Suc (unat q) < 2 ^ 64" using assms by auto
qed

lemma reliable_top_bit:
  assumes "reliable_seq q"
  shows "\<not> bit q 63"
proof -
  have "\<not> bit (unat q) 63" unfolding bit_iff_odd using div_less [OF assms] by simp
  then show ?thesis by (simp add: bit_unsigned_iff)
qed

lemma succ_le_iff:
  assumes "unat (e + 1) = Suc (unat e)"
  shows "e + 1 \<le> q \<longleftrightarrow> e \<le> q \<and> q \<noteq> (e :: u64)"
  using assms by (auto simp: word_le_nat_alt Suc_le_eq le_less word_unat_eq_iff)

lemma drain_spec:
  assumes "stream_buf M A e buf" "\<forall>q \<in> A. reliable_seq q"
  shows "\<exists>e' buf'. drain buf e = (buf', e', map (\<lambda>q. (q, M q)) (seqs e e')) \<and> e \<le> e' \<and> e' \<notin> A
    \<and> (\<forall>q. e \<le> q \<longrightarrow> q < e' \<longrightarrow> q \<in> A) \<and> stream_buf M A e' buf'"
  using assms(1)
proof (induction buf e rule: drain.induct)
  case (1 buf e)
  show ?case
  proof (cases "map_of buf e")
    case None
    with "1.prems" have "e \<notin> A" by (auto simp: stream_buf_def split: if_splits)
    moreover have "drain buf e = (buf, e, [])" using None by (simp add: drain.simps)
    ultimately show ?thesis using "1.prems" by auto
  next
    case (Some payload)
    with "1.prems" have e: "e \<in> A" "payload = M e" by (auto simp: stream_buf_def split: if_splits)
    then have s: "unat (e + 1) = Suc (unat e)" using assms(2) reliable_succ by blast
    then have less: "e + 1 \<le> q \<longleftrightarrow> e \<le> q \<and> q \<noteq> e" for q by (rule succ_le_iff)
    have "stream_buf M A (e + 1) (map_remove e buf)"
      using "1.prems" by (auto simp: stream_buf_def btree.invar_remove btree.lookup_remove less)
    from "1.IH" [OF Some this] obtain e' buf' where
      IH: "drain (map_remove e buf) (e + 1) = (buf', e', map (\<lambda>q. (q, M q)) (seqs (e + 1) e'))" "e + 1 \<le> e'" "e' \<notin> A"
      "\<forall>q. e + 1 \<le> q \<longrightarrow> q < e' \<longrightarrow> q \<in> A" "stream_buf M A e' buf'" by blast
    have "e < e'" using IH(2) s by (simp add: word_le_nat_alt word_less_nat_alt)
    moreover have "\<forall>q. e \<le> q \<longrightarrow> q < e' \<longrightarrow> q \<in> A" using IH(4) e(1) less by blast
    ultimately show ?thesis
      using Some e(2) IH by (auto simp: drain.simps [of buf] seqs_Cons)
  qed
qed

section \<open>One packet\<close>

definition receive ::
    "u64 \<Rightarrow> (u64 \<times> ClientPayload) list \<Rightarrow> u64 \<Rightarrow> ClientPayload
      \<Rightarrow> u64 \<times> (u64 \<times> ClientPayload) list \<times> (u64 \<times> ClientPayload) list" where
  "receive expected buf seq payload =
     (if seq < expected then (expected, buf, [])
      else if seq > expected then (expected, bt_insert seq payload buf, [])
      else (case drain buf (expected + 1) of (buf1, expected1, rest) \<Rightarrow> (expected1, buf1, (seq, payload) # rest)))"

definition stream_inv :: "(u64 \<Rightarrow> ClientPayload) \<Rightarrow> u64 \<Rightarrow> u64 set \<Rightarrow> u64 \<Rightarrow> (u64 \<times> ClientPayload) list \<Rightarrow> bool" where
  "stream_inv M e0 A e buf \<longleftrightarrow> e0 \<le> e \<and> e \<notin> A \<and> (\<forall>q. e0 \<le> q \<longrightarrow> q < e \<longrightarrow> q \<in> A)
     \<and> (\<forall>q \<in> A. reliable_seq q) \<and> stream_buf M A e buf"

lemma receive_inv:
  assumes "stream_inv M e0 A e buf" "reliable_seq seq"
  shows "\<exists>e' buf'. receive e buf seq (M seq) = (e', buf', map (\<lambda>q. (q, M q)) (seqs e e'))
    \<and> e \<le> e' \<and> stream_inv M e0 (insert seq A) e' buf'"
proof -
  from assms(1) have I: "e0 \<le> e" "e \<notin> A" "\<forall>q. e0 \<le> q \<longrightarrow> q < e \<longrightarrow> q \<in> A" "\<forall>q \<in> A. reliable_seq q" "stream_buf M A e buf"
    by (simp_all add: stream_inv_def)
  consider "seq < e" | "e < seq" | "seq = e" by (rule linorder_cases)
  then show ?thesis
  proof cases
    case 1
    then have "stream_inv M e0 (insert seq A) e buf"
      using assms(2) I by (auto simp: stream_inv_def stream_buf_def)
    with 1 show ?thesis by (auto simp: receive_def)
  next
    case 2
    have "stream_buf M (insert seq A) e (bt_insert seq (M seq) buf)"
      using I(5) 2 by (auto simp: stream_buf_def bt_insert_sorted btree.lookup_insert)
    then have "stream_inv M e0 (insert seq A) e (bt_insert seq (M seq) buf)"
      using assms(2) I 2 by (auto simp: stream_inv_def)
    with 2 show ?thesis by (auto simp: receive_def)
  next
    case 3
    have s: "unat (e + 1) = Suc (unat e)" using assms(2) 3 reliable_succ by blast
    then have less: "e + 1 \<le> q \<longleftrightarrow> e \<le> q \<and> q \<noteq> e" for q by (rule succ_le_iff)
    have "stream_buf M (insert seq A) (e + 1) buf"
      using I(2,5) 3 by (auto simp: stream_buf_def less)
    moreover have "\<forall>q \<in> insert seq A. reliable_seq q" using I(4) assms(2) by simp
    ultimately obtain e' buf' where d: "drain buf (e + 1) = (buf', e', map (\<lambda>q. (q, M q)) (seqs (e + 1) e'))"
      "e + 1 \<le> e'" "e' \<notin> insert seq A" "\<forall>q. e + 1 \<le> q \<longrightarrow> q < e' \<longrightarrow> q \<in> insert seq A" "stream_buf M (insert seq A) e' buf'"
      using drain_spec by blast
    have ee: "e < e'" using d(2) s by (simp add: word_le_nat_alt word_less_nat_alt)
    have "q \<in> insert seq A" if "e0 \<le> q" "q < e'" for q
      using that I(3) d(4) less 3 by (metis insertCI linorder_not_le)
    with d I ee assms(2) have "stream_inv M e0 (insert seq A) e' buf'"
      by (auto simp: stream_inv_def)
    with 3 d ee show ?thesis by (auto simp: receive_def seqs_Cons)
  qed
qed

section \<open>What the shell is given\<close>

definition reliable_payload :: "ClientPayload \<Rightarrow> bool" where
  "reliable_payload p = (case p of Keystrokes _ \<Rightarrow> True | Resize _ _ \<Rightarrow> True | C_KeepAlive \<Rightarrow> True | _ \<Rightarrow> False)"

lemma reliable_not_transient:
  assumes "reliable_seq q" "reliable_payload p"
  shows "\<not> is_transient q p"
proof -
  have "\<not> bit q 63" using assms(1) by (rule reliable_top_bit)
  then have "bit (q AND push_bit 63 1) n = bit 0 n" for n
    unfolding bit_and_iff bit_push_bit_iff by (cases "n = 63") (auto simp: bit_1_iff)
  then have "q AND push_bit 63 1 = 0" by (intro bit_word_eqI)
  with assms(2) show ?thesis by (cases p) (simp_all add: is_transient_def reliable_payload_def)
qed

definition keys_of :: "ClientPayload \<Rightarrow> bytes" where
  "keys_of p = (case p of Keystrokes keys \<Rightarrow> keys | _ \<Rightarrow> [])"

text \<open>Sealing the server's own keep-alive reply does not fail.\<close>

definition keepalive_ok :: "'c PacketCodec \<Rightarrow> bool" where
  "keepalive_ok C \<longleftrightarrow> (\<forall>c q a. \<exists>ps. seal_server C c q a S_KeepAlive = Inr ps)"

context pty_log
begin

lemma process_payload_input:
  assumes "reliable_payload p" "keepalive_ok C"
  shows "\<exists>as. snd (process_payload C G P s p) = Inr as"
    and "input (as_pty (fst (process_payload C G P s p))) = input (as_pty s) @ keys_of p"
proof -
  obtain ps where ps: "seal_server C (as_codec s) (as_seq_num s + 1) (as_ack_seq_num s) S_KeepAlive = Inr ps"
    using assms(2) unfolding keepalive_ok_def by blast
  show "\<exists>as. snd (process_payload C G P s p) = Inr as"
    using assms(1) ps by (cases p) (simp_all add: process_payload_def reliable_payload_def Let_def)
  show "input (as_pty (fst (process_payload C G P s p))) = input (as_pty s) @ keys_of p"
    using assms(1) ps
    by (cases p) (simp_all add: process_payload_def reliable_payload_def keys_of_def Let_def input_write input_resize)
qed

lemma process_payloads_input:
  assumes "\<forall>(q, p) \<in> set ps. reliable_payload p" "keepalive_ok C"
  shows "(\<exists>as. snd (process_payloads C G P s ps) = Inr as)
    \<and> input (as_pty (fst (process_payloads C G P s ps))) = input (as_pty s) @ concat (map (\<lambda>(q, p). keys_of p) ps)"
  using assms(1)
proof (induction ps arbitrary: s)
  case (Cons x ps)
  obtain q p where x: "x = (q, p)" by (cases x)
  then have "reliable_payload p" using Cons.prems by simp
  note p = process_payload_input [OF this assms(2), of G s]
  obtain s1 a1 where 1: "process_payload C G P s p = (s1, Inr a1)" using p(1) by (metis prod.collapse)
  with Cons.IH [of s1] Cons.prems obtain s2 a2 where
    2: "process_payloads C G P s1 ps = (s2, Inr a2)" by (metis list.set_intros(2) prod.collapse)
  from Cons.IH [of s1] Cons.prems 1 2 p(2) x show ?case by simp
qed simp

lemma check_sync_input:
  assumes "server_wf s"
  shows "input (as_pty (fst (check_sync G P s now))) = input (as_pty s)"
proof (rule check_sync_cases [OF assms, of G P now])
  fix acc ts g
  assume "check_sync G P s now = (fst (queue_frame P (s\<lparr>as_pty_bytes_acc := acc, as_term_state := ts\<rparr>) g now),
         Inr (snd (queue_frame P (s\<lparr>as_pty_bytes_acc := acc, as_term_state := ts\<rparr>) g now)))"
  then show ?thesis by (simp add: queue_frame_eq Let_def input_echo)
qed simp

lemma then_sync_input: "server_wf s \<Longrightarrow> input (as_pty (fst (then_sync G P s now actions))) = input (as_pty s)"
  using check_sync_input [of s G now]
  by (cases "check_sync G P s now") (auto simp: then_sync_def st_then_def split: sum.splits)

lemma handle_in_order_input:
  assumes "server_wf s" "keepalive_ok C"
    and "drain (as_out_of_order_packets s) (as_expected_client_seq s + 1) = (buf, expected, rest)"
    and "reliable_payload payload" "\<forall>(q, p) \<in> set rest. reliable_payload p"
  shows "input (as_pty (fst (handle_in_order C G P s seq ack payload now))) =
    input (as_pty s) @ concat (map (\<lambda>(q, p). keys_of p) ((seq, payload) # rest))"
proof -
  define s1 where "s1 = s\<lparr>as_out_of_order_packets := buf, as_expected_client_seq := expected,
    as_ack_seq_num := expected - 1, as_client_ack_seq := ack\<rparr>"
  let ?ps = "(seq, payload) # rest"
  have wf: "server_wf s1"
    using assms(1,3) drain_wf [of "as_out_of_order_packets s" "as_expected_client_seq s + 1"]
    by (simp add: s1_def server_wf_def)
  have pp: "(\<exists>as. snd (process_payloads C G P s1 ?ps) = Inr as)
      \<and> input (as_pty (fst (process_payloads C G P s1 ?ps))) = input (as_pty s1) @ concat (map (\<lambda>(q, p). keys_of p) ?ps)"
    by (rule process_payloads_input) (use assms in auto)
  then obtain s2 a2 where p: "process_payloads C G P s1 ?ps = (s2, Inr a2)" by (metis prod.collapse)
  have "server_wf s2" using process_payloads_wf [OF wf, of C G P ?ps] p by (simp del: process_payloads.simps)
  moreover have "handle_in_order C G P s seq ack payload now = then_sync G P s2 now a2"
    using assms(3) p by (simp add: handle_in_order_def s1_def Let_def del: process_payloads.simps)
  ultimately show ?thesis using pp p by (simp add: s1_def then_sync_input del: process_payloads.simps)
qed

text \<open>One reliable packet of the session, seen through \<open>receive\<close>.\<close>

lemma feed_reliable:
  assumes "server_wf s" "keepalive_ok C" "as_session_id s \<noteq> 0"
    and "open_client C (as_codec s) bs = Inr (pkt, M (ecp_seq_num pkt), st)" "ecp_session_id pkt = as_session_id s"
    and "reliable_seq (ecp_seq_num pkt)" "\<forall>q. reliable_payload (M q)"
    and "stream_inv M e0 A (as_expected_client_seq s) (as_out_of_order_packets s)"
    and s'_def: "s' = fst (server_feed_packet C G P s bs addr now)"
  shows "stream_inv M e0 (insert (ecp_seq_num pkt) A) (as_expected_client_seq s') (as_out_of_order_packets s')
    \<and> as_expected_client_seq s \<le> as_expected_client_seq s'
    \<and> input (as_pty s') = input (as_pty s)
        @ concat (map (\<lambda>q. keys_of (M q)) (seqs (as_expected_client_seq s) (as_expected_client_seq s')))
    \<and> as_session_id s' = as_session_id s \<and> as_codec s' = as_codec s"
proof -
  let ?q = "ecp_seq_num pkt" and ?e = "as_expected_client_seq s" and ?buf = "as_out_of_order_packets s"
  let ?s = "s\<lparr>as_last_recv_time := now, as_current_client_addr := addr\<rparr>"
  have nt: "\<not> is_transient ?q (M ?q)" using assms(6,7) by (intro reliable_not_transient) auto
  have wf: "server_wf ?s" using assms(1) by (simp add: server_wf_def)
  have step: "server_feed_packet C G P s bs addr now =
      (if ?q < ?e then (?s, Inr [])
       else if ?q > ?e then (?s\<lparr>as_out_of_order_packets := bt_insert ?q (M ?q) ?buf\<rparr>, Inr [])
       else handle_in_order C G P ?s ?q (ecp_ack_seq_num pkt) (M ?q) now)"
    using assms(3,4,5) nt by (simp add: server_feed_packet_def Let_def)
  obtain e' buf' where r: "receive ?e ?buf ?q (M ?q) = (e', buf', map (\<lambda>q. (q, M q)) (seqs ?e e'))"
    "?e \<le> e'" "stream_inv M e0 (insert ?q A) e' buf'"
    using receive_inv [OF assms(8,6)] by blast
  have "as_expected_client_seq s' = e' \<and> as_out_of_order_packets s' = buf' \<and> as_session_id s' = as_session_id s
      \<and> as_codec s' = as_codec s
      \<and> input (as_pty s') = input (as_pty s) @ concat (map (\<lambda>q. keys_of (M q)) (seqs ?e e'))"
  proof (cases "?q = ?e")
    case False
    with step r(1) show ?thesis by (auto simp: s'_def receive_def split: if_splits)
  next
    case True
    obtain b x rest where d: "drain ?buf (?e + 1) = (b, x, rest)" by (metis prod_cases3)
    with r(1) True have eq: "x = e'" "b = buf'" "(?q, M ?q) # rest = map (\<lambda>q. (q, M q)) (seqs ?e e')"
      by (simp_all add: receive_def)
    have "\<forall>(q, p) \<in> set ((?q, M ?q) # rest). reliable_payload p" unfolding eq(3) using assms(7) by auto
    then have "input (as_pty (fst (handle_in_order C G P ?s ?q (ecp_ack_seq_num pkt) (M ?q) now))) =
        input (as_pty ?s) @ concat (map (\<lambda>(q, p). keys_of p) ((?q, M ?q) # rest))"
      by (intro handle_in_order_input [OF wf assms(2)]) (use d in auto)
    then have "input (as_pty s') = input (as_pty s) @ concat (map (\<lambda>q. keys_of (M q)) (seqs ?e e'))"
      using step True unfolding eq(3) by (simp add: s'_def comp_def)
    moreover have "stream_view s' = (as_session_id s, as_codec s, x - 1, x, b)"
      using handle_in_order_wf(2) [OF wf, of C G P ?q "ecp_ack_seq_num pkt" "M ?q" now] step True d by (simp add: s'_def)
    ultimately show ?thesis using eq(1,2) by (simp add: stream_view_def)
  qed
  with r(2,3) show ?thesis by simp
qed

end

section \<open>Any arrival order\<close>

text \<open>A run of arrivals: datagrams with the address they come from and the time they arrive.\<close>

fun feed_all ::
    "'c PacketCodec \<Rightarrow> 'v ghostty \<Rightarrow> 'p pty_backend \<Rightarrow> ('c, 'v, 'p) AuthoritativeSession
      \<Rightarrow> (bytes \<times> socket_addr \<times> instant) list \<Rightarrow> ('c, 'v, 'p) AuthoritativeSession" where
  "feed_all C G P s [] = s"
| "feed_all C G P s ((bs, addr, now) # xs) = feed_all C G P (fst (server_feed_packet C G P s bs addr now)) xs"

text \<open>The sequence number of a datagram that opens as a reliable packet of the session carrying \<open>M\<close>'s payload.\<close>

definition carries :: "'c PacketCodec \<Rightarrow> 'c \<Rightarrow> u64 \<Rightarrow> (u64 \<Rightarrow> ClientPayload) \<Rightarrow> bytes \<Rightarrow> u64 \<Rightarrow> bool" where
  "carries C c sid M bs q \<longleftrightarrow>
     (\<exists>pkt st. open_client C c bs = Inr (pkt, M q, st) \<and> ecp_seq_num pkt = q \<and> ecp_session_id pkt = sid \<and> reliable_seq q)"

context pty_log
begin

lemma feed_carries:
  assumes "keepalive_ok C" "\<forall>q. reliable_payload (M q)"
    and "server_wf s" "as_session_id s \<noteq> 0" "carries C (as_codec s) (as_session_id s) M bs q"
    and "stream_inv M e0 A (as_expected_client_seq s) (as_out_of_order_packets s)"
    and "input (as_pty s) = i0 @ concat (map (\<lambda>q. keys_of (M q)) (seqs e0 (as_expected_client_seq s)))"
    and s'_def: "s' = fst (server_feed_packet C G P s bs addr now)"
  shows "stream_inv M e0 (insert q A) (as_expected_client_seq s') (as_out_of_order_packets s')
    \<and> input (as_pty s') = i0 @ concat (map (\<lambda>q. keys_of (M q)) (seqs e0 (as_expected_client_seq s')))
    \<and> as_session_id s' = as_session_id s \<and> as_codec s' = as_codec s"
proof -
  obtain pkt st where o: "open_client C (as_codec s) bs = Inr (pkt, M (ecp_seq_num pkt), st)"
    "ecp_session_id pkt = as_session_id s" "reliable_seq (ecp_seq_num pkt)" "ecp_seq_num pkt = q"
    using assms(5) unfolding carries_def by blast
  have f: "stream_inv M e0 (insert q A) (as_expected_client_seq s') (as_out_of_order_packets s')"
    "as_expected_client_seq s \<le> as_expected_client_seq s'"
    "input (as_pty s') = input (as_pty s) @ concat (map (\<lambda>q. keys_of (M q)) (seqs (as_expected_client_seq s) (as_expected_client_seq s')))"
    "as_session_id s' = as_session_id s" "as_codec s' = as_codec s"
    using feed_reliable [OF assms(3,1,4) o(1-3) assms(2,6) s'_def] o(4) by auto
  have "e0 \<le> as_expected_client_seq s" using assms(6) by (simp add: stream_inv_def)
  then have "seqs e0 (as_expected_client_seq s') = seqs e0 (as_expected_client_seq s) @ seqs (as_expected_client_seq s) (as_expected_client_seq s')"
    using f(2) by (rule seqs_append)
  then show ?thesis using f assms(7) by simp
qed

lemma feed_all_stream:
  assumes "keepalive_ok C" "\<forall>q. reliable_payload (M q)"
    and "server_wf s" "sid \<noteq> 0" "list_all2 (\<lambda>(bs, _, _) q. carries C c sid M bs q) xs qs"
    and "as_codec s = c" "as_session_id s = sid"
    and "stream_inv M e0 A (as_expected_client_seq s) (as_out_of_order_packets s)"
    and "input (as_pty s) = i0 @ concat (map (\<lambda>q. keys_of (M q)) (seqs e0 (as_expected_client_seq s)))"
  shows "stream_inv M e0 (set qs \<union> A) (as_expected_client_seq (feed_all C G P s xs)) (as_out_of_order_packets (feed_all C G P s xs))
    \<and> input (as_pty (feed_all C G P s xs)) =
        i0 @ concat (map (\<lambda>q. keys_of (M q)) (seqs e0 (as_expected_client_seq (feed_all C G P s xs))))"
  using assms(5,3,6-)
proof (induction xs qs arbitrary: s A rule: list_all2_induct)
  case (Cons x xs q qs)
  obtain bs addr now where x: "x = (bs, addr, now)" by (cases x)
  define s' where "s' = fst (server_feed_packet C G P s bs addr now)"
  have "carries C (as_codec s) (as_session_id s) M bs q" using Cons.hyps(1) Cons.prems(2,3) x by simp
  note f = feed_carries [OF assms(1,2) Cons.prems(1) _ this Cons.prems(4,5) s'_def]
  moreover have "server_wf s'" unfolding s'_def using Cons.prems(1) by (rule server_feed_packet_wf)
  ultimately show ?case
    using Cons.IH [of s' "insert q A"] Cons.prems(2,3) assms(4) x by (simp add: s'_def [symmetric])
qed simp

end

section \<open>Replayed packets\<close>

text \<open>A duplicate changes nothing of the stream, but its source address becomes the client's before the duplicate is
  recognised: whoever replays a recorded packet receives the frames that follow.\<close>

lemma replay_redirects_client:
  assumes "as_session_id s \<noteq> 0" "carries C (as_codec s) (as_session_id s) M bs q" "\<forall>q. reliable_payload (M q)"
    and "q < as_expected_client_seq s"
  shows "server_feed_packet C G P s bs addr now = (s\<lparr>as_last_recv_time := now, as_current_client_addr := addr\<rparr>, Inr [])"
proof -
  obtain pkt st where o: "open_client C (as_codec s) bs = Inr (pkt, M q, st)" "ecp_seq_num pkt = q" "ecp_session_id pkt = as_session_id s" "reliable_seq q"
    using assms(2) unfolding carries_def by blast
  then have "\<not> is_transient q (M q)" using assms(3) by (intro reliable_not_transient) auto
  with o assms(1,4) show ?thesis by (simp add: server_feed_packet_def Let_def)
qed

section \<open>Properties\<close>

text \<open>C5: Keystrokes reach the shell exactly once and in order.  Whatever subset of the client's reliable
  packets arrives, in whatever order and however often, the bytes written to the PTY are those of the
  packets from the first expected one up to (and without) the first one missing: no packet below that
  is lost, repeated or out of place, and as soon as a gap closes everything behind it is delivered.\<close>

theorem input_delivered_in_order:
  assumes "pty_log P input" "keepalive_ok C" "\<forall>q. reliable_payload (M q)"
    and "server_wf s" "as_session_id s \<noteq> 0" "as_out_of_order_packets s = []" "reliable_seq (as_expected_client_seq s)"
    and "list_all2 (\<lambda>(bs, _, _) q. carries C (as_codec s) (as_session_id s) M bs q) arrivals qs"
  shows "let s' = feed_all C G P s arrivals; e = as_expected_client_seq s; e' = as_expected_client_seq s' in
    e \<le> e' \<and> e' \<notin> set qs \<and> (\<forall>q. e \<le> q \<longrightarrow> q < e' \<longrightarrow> q \<in> set qs)
    \<and> input (as_pty s') = input (as_pty s) @ concat (map (\<lambda>q. keys_of (M q)) (seqs e e'))"
proof -
  have "stream_inv M (as_expected_client_seq s) {} (as_expected_client_seq s) (as_out_of_order_packets s)"
    using assms(6) by (auto simp: stream_inv_def stream_buf_def bt_wf_def)
  from pty_log.feed_all_stream [OF assms(1,2,3,4,5,8) refl refl this, of "input (as_pty s)" G] show ?thesis
    by (auto simp: Let_def stream_inv_def)
qed

definition sample_stream :: "u64 \<Rightarrow> ClientPayload" where
  "sample_stream q = Keystrokes [ucast q]"

definition sample_session :: "(ChaChaCodec, u8, tty_device PtyBridge) AuthoritativeSession" where
  "sample_session =
     (case AuthoritativeSession_new tiny_vt 9 (ChaChaCodec_new [1, 2] 9) 4 ([127, 0, 0, 1], 4000) 1 1 (PtyBridge_new (tty_open 1 1)) 0 of
        Inr s \<Rightarrow> s)"

lemma sample_session_wf:
  "AuthoritativeSession_new tiny_vt 9 (ChaChaCodec_new [1, 2] 9) 4 ([127, 0, 0, 1], 4000) 1 1 (PtyBridge_new (tty_open 1 1)) 0 = Inr sample_session"
  "server_wf sample_session"
proof -
  have ts: "ServerTerminalState_new tiny_vt 1 1
      = Inr \<lparr>st_terminal = 32, st_cols = 1, st_rows = 1, st_grid_state = blank_grid 1 1, st_force_full = True\<rparr>"
    by (simp add: ServerTerminalState_new_def tiny_vt_def)
  then show "AuthoritativeSession_new tiny_vt 9 (ChaChaCodec_new [1, 2] 9) 4 ([127, 0, 0, 1], 4000) 1 1 (PtyBridge_new (tty_open 1 1)) 0 = Inr sample_session"
    by (simp add: sample_session_def AuthoritativeSession_new_def)
  from ServerTerminalState_new_wf [OF ts] ts show "server_wf sample_session"
    by (simp add: sample_session_def AuthoritativeSession_new_def server_wf_def bt_wf_def)
qed

lemma sample_session_fields [simp]:
  "as_session_id sample_session = 9" "as_codec sample_session = ChaChaCodec_new [1, 2] 9"
  "as_expected_client_seq sample_session = 5" "as_out_of_order_packets sample_session = []"
  "as_pty sample_session = PtyBridge_new (tty_open 1 1)"
  by (simp_all add: sample_session_def AuthoritativeSession_new_def ServerTerminalState_new_def tiny_vt_def)

lemma ref_keepalive_ok: "keepalive_ok (chacha_codec ref_lib)"
  by (simp add: keepalive_ok_def chacha_codec_def chacha_seal_server_def serialize_compressed_def serialize_def)

theorem input_delivered_in_order_witness:
  "\<exists>b5 b6. seal_client (chacha_codec ref_lib) (ChaChaCodec_new [1, 2] 9) 9 5 0 (Keystrokes [5]) = Inr b5
    \<and> seal_client (chacha_codec ref_lib) (ChaChaCodec_new [1, 2] 9) 9 6 0 (Keystrokes [6]) = Inr b6
    \<and> shell_input (as_pty (feed_all (chacha_codec ref_lib) tiny_vt (pty_bridge sample_tty) sample_session
          [(b6, ([127, 0, 0, 1], 4000), 1), (b5, ([127, 0, 0, 1], 4000), 2), (b6, ([127, 0, 0, 1], 4000), 3)])) = [5, 6]"
proof -
  let ?C = "chacha_codec ref_lib" and ?c = "ChaChaCodec_new [1, 2] 9"
  obtain b5 b6 where b: "seal_client ?C ?c 9 5 0 (Keystrokes [5]) = Inr b5" "seal_client ?C ?c 9 6 0 (Keystrokes [6]) = Inr b6"
    by (simp add: chacha_codec_def chacha_seal_client_def serialize_def Let_def)
  have sid: "cc_session_id ?c = 9" by (simp add: ChaChaCodec_new_def)
  have c: "carries ?C ?c 9 sample_stream b5 5" "carries ?C ?c 9 sample_stream b6 6"
    using ref.client_delivered [OF b(1) refl] ref.client_delivered [OF b(2) refl] sid
    by (auto simp: carries_def sample_stream_def)
  let ?xs = "[(b6, ([127, 0, 0, 1], 4000), 1), (b5, ([127, 0, 0, 1], 4000), 2), (b6, ([127, 0, 0, 1], 4000), 3)]"
  let ?s' = "feed_all ?C tiny_vt (pty_bridge sample_tty) sample_session ?xs"
  let ?e = "as_expected_client_seq ?s'"
  have r: "5 \<le> ?e" "?e \<notin> set [6, 5, 6]" "\<forall>q. 5 \<le> q \<longrightarrow> q < ?e \<longrightarrow> q \<in> set [6, 5, 6]"
    "shell_input (as_pty ?s') = shell_input (PtyBridge_new (tty_open 1 1)) @ concat (map (\<lambda>q. keys_of (sample_stream q)) (seqs 5 ?e))"
    using input_delivered_in_order [OF device_log ref_keepalive_ok _ sample_session_wf(2), of sample_stream ?xs "[6, 5, 6]" tiny_vt]
      c by (simp_all add: Let_def sample_stream_def reliable_payload_def)
  define e where "e = ?e"
  have "\<not> 7 < e" using r(3) [rule_format, of 7] unfolding e_def [symmetric] by auto
  moreover have "5 \<le> e" "e \<noteq> 5" "e \<noteq> 6" using r(1,2) unfolding e_def [symmetric] by auto
  ultimately have "unat e = 7" by (simp add: word_le_nat_alt word_less_nat_alt word_unat_eq_iff)
  then have "e = 7" by (simp add: word_unat_eq_iff)
  then have "shell_input (as_pty ?s') = [5, 6]"
    using r(4) unfolding e_def [symmetric] by (simp add: seqs_def sample_stream_def keys_of_def PtyBridge_new_def tty_open_def shell_input_def upt_rec)
  with b show ?thesis by blast
qed

end
