(* ===== verification/Rumsh_System.thy ===== *)
theory Rumsh_System
  imports Rumsh_Server_Out Rumsh_Client_Props Rumsh_Delivery
begin

text \<open>
  Server, client and network together.  The server session reacts to arbitrary datagrams (the client's or an
  attacker's), to the shell and to its timer; diff jobs run at any later time, in any order and more than
  once; the network may lose, delay, reorder and repeat what the server sent, so the datagrams ever sent
  form a set from which the client receives any member at any time.  \<open>sy_frames\<close> records, under each sequence
  number, the grid of the job queued under it: it is the specification the client is compared with.
\<close>

section \<open>Events\<close>

record ('c, 'v, 'p, 'f) system =
  sy_server :: "('c, 'v, 'p) AuthoritativeSession"
  sy_client :: "('c, 'f) MirrorSession"
  sy_jobs :: "'c UpdateJob set"
  sy_wire :: "bytes set"
  sy_frames :: "u64 \<rightharpoonup> GridState"

inductive server_event ::
    "'c PacketCodec \<Rightarrow> 'v ghostty \<Rightarrow> 'p pty_backend \<Rightarrow> ('c, 'v, 'p) AuthoritativeSession
      \<Rightarrow> 'c SessionAction list \<Rightarrow> ('c, 'v, 'p) AuthoritativeSession \<Rightarrow> bool"
  for C G P where
  se_packet: "server_feed_packet C G P s bs addr now = (s', r) \<Longrightarrow> server_event C G P s (acts_of r) s'"
| se_pty: "server_event C G P s [] (on_pty_bytes G P s data now)"
| se_tick: "server_on_tick G P s now = (s', r) \<Longrightarrow> server_event C G P s (acts_of r) s'"
| se_shutdown: "prepare_shutdown C s = (s', r) \<Longrightarrow>
    server_event C G P s (case r of Inl _ \<Rightarrow> [] | Inr a \<Rightarrow> [a]) s'"

inductive client_event ::
    "'c PacketCodec \<Rightarrow> 'f f32_ops \<Rightarrow> bytes set \<Rightarrow> ('c, 'f) MirrorSession \<Rightarrow> ('c, 'f) MirrorSession \<Rightarrow> bool"
  for C F wire where
  ce_packet: "b \<in> wire \<Longrightarrow> feed_packet C F s b now = (s', r) \<Longrightarrow> client_event C F wire s s'"
| ce_stdin: "feed_stdin C s buf now = (s', r) \<Longrightarrow> client_event C F wire s s'"
| ce_winch: "on_winch C s cols rows now = (s', r) \<Longrightarrow> client_event C F wire s s'"
| ce_tick: "on_tick C F s now = (s', r) \<Longrightarrow> client_event C F wire s s'"
| ce_paint: "copy_frame_if_dirty s dest = ((s', dest'), r) \<Longrightarrow> client_event C F wire s s'"

definition sent_by :: "'c SessionAction list \<Rightarrow> bytes set" where
  "sent_by acts = {b. \<exists>t. Send_packet b t \<in> set acts}"

definition jobs_in :: "'c SessionAction list \<Rightarrow> 'c UpdateJob set" where
  "jobs_in acts = {job. \<exists>t. OffloadDiffJob job t \<in> set acts}"

fun record_frames :: "'c SessionAction list \<Rightarrow> (u64 \<rightharpoonup> GridState) \<Rightarrow> u64 \<rightharpoonup> GridState" where
  "record_frames [] fr = fr"
| "record_frames (OffloadDiffJob job t # acts) fr = record_frames acts (fr(job_seq job \<mapsto> job_current_state job))"
| "record_frames (_ # acts) fr = record_frames acts fr"

inductive sys_step ::
    "'c PacketCodec \<Rightarrow> 'v ghostty \<Rightarrow> 'p pty_backend \<Rightarrow> 'f f32_ops \<Rightarrow> ('c, 'v, 'p, 'f) system \<Rightarrow> ('c, 'v, 'p, 'f) system \<Rightarrow> bool"
  for C G P F where
  st_server: "server_event C G P (sy_server y) acts s' \<Longrightarrow> seq_room (sy_server y) \<Longrightarrow>
    sys_step C G P F y (y\<lparr>sy_server := s', sy_jobs := jobs_in acts \<union> sy_jobs y,
      sy_wire := sent_by acts \<union> sy_wire y, sy_frames := record_frames acts (sy_frames y)\<rparr>)"
| st_job: "job \<in> sy_jobs y \<Longrightarrow> UpdateJob_run C job = Inr packets \<Longrightarrow> grid_fits (job_current_state job) \<Longrightarrow>
    length packets < 65536 \<Longrightarrow> sys_step C G P F y (y\<lparr>sy_wire := set packets \<union> sy_wire y\<rparr>)"
| st_client: "client_event C F (sy_wire y) (sy_client y) c' \<Longrightarrow> sys_step C G P F y (y\<lparr>sy_client := c'\<rparr>)"

inductive reachable ::
    "'c PacketCodec \<Rightarrow> 'v ghostty \<Rightarrow> 'p pty_backend \<Rightarrow> 'f f32_ops \<Rightarrow> ('c, 'v, 'p, 'f) system \<Rightarrow> ('c, 'v, 'p, 'f) system \<Rightarrow> bool"
  for C G P F y0 where
  reach_start: "reachable C G P F y0 y0"
| reach_step: "reachable C G P F y0 y \<Longrightarrow> sys_step C G P F y y' \<Longrightarrow> reachable C G P F y0 y'"

inductive_cases server_eventE: "server_event C G P s acts s'"
inductive_cases client_eventE: "client_event C F wire s s'"
inductive_cases sys_stepE: "sys_step C G P F y y'"

lemmas server_event_cases [consumes 1, case_names packet pty tick shutdown] = server_eventE
lemmas client_event_cases [consumes 1, case_names packet stdin winch tick paint] = client_eventE
lemmas sys_step_cases [consumes 1, case_names server job client] = sys_stepE

text \<open>The state after the handshake: fresh sessions on both sides, nothing in flight.\<close>

definition sys_init ::
    "('c, 'v, 'p) AuthoritativeSession \<Rightarrow> ('c, 'f) MirrorSession \<Rightarrow> ('c, 'v, 'p, 'f) system" where
  "sys_init s c = \<lparr>sy_server = s, sy_client = c, sy_jobs = {}, sy_wire = {}, sy_frames = Map.empty\<rparr>"

section \<open>What the other client events leave alone\<close>

definition sync_view :: "('c, 'f) MirrorSession \<Rightarrow> 'c \<times> (u64 \<times> GridState) list" where
  "sync_view s = (ms_codec s, ms_state_history s)"

lemma sync_view_fields [simp]:
  "sync_view (s\<lparr>ms_mirror := m\<rparr>) = sync_view s" "sync_view (s\<lparr>ms_interpreter := i\<rparr>) = sync_view s"
  "sync_view (s\<lparr>ms_unacked_packets := u\<rparr>) = sync_view s" "sync_view (s\<lparr>ms_nacked_frames := n\<rparr>) = sync_view s"
  "sync_view (s\<lparr>ms_is_reconnecting := b\<rparr>) = sync_view s" "sync_view (s\<lparr>ms_keepalive_interval := d\<rparr>) = sync_view s"
  "sync_view (s\<lparr>ms_last_nack_check := t\<rparr>) = sync_view s"
  by (simp_all add: sync_view_def)

lemma with_mirror_sync [simp]: "sync_view (fst (with_mirror s op)) = sync_view s"
  by (simp add: fst_with_mirror)

lemma st_then_sync:
  "sync_view (fst m) = v \<Longrightarrow> (\<And>s x. sync_view s = v \<Longrightarrow> sync_view (fst (k s x)) = v) \<Longrightarrow> sync_view (fst (st_then m k)) = v"
  by (rule st_then_wf [where P = "\<lambda>s. sync_view s = v"]) auto

lemma prepare_sync [simp]:
  "sync_view (fst (prepare_keystrokes C s keys now)) = sync_view s"
  "sync_view (fst (prepare_keepalive C s now)) = sync_view s"
  "sync_view (fst (prepare_resize C s cols rows now)) = sync_view s"
  "sync_view (fst (prepare_fragment_nack C s fseq rmask)) = sync_view s"
  by (auto simp: prepare_keystrokes_def prepare_keepalive_def prepare_resize_def prepare_fragment_nack_def
      seal_reliable_def Let_def sync_view_def st_then_def split: sum.splits)

lemma stdin_loop_sync [simp]: "sync_view (fst (stdin_loop s buf to_send actions)) = sync_view s"
  by (induction s buf to_send actions rule: stdin_loop.induct)
     (auto simp: Let_def split: prod.splits InterpreterResult.splits EscapeCommand.splits)

lemma feed_stdin_sync [simp]: "sync_view (fst (feed_stdin C s buf now)) = sync_view s"
proof -
  obtain s1 to_send actions ret where l: "stdin_loop s buf [] [] = (s1, to_send, actions, ret)" by (metis prod_cases4)
  with stdin_loop_sync [of s buf "[]" "[]"] have "sync_view s1 = sync_view s" by simp
  then show ?thesis by (auto simp: feed_stdin_def l intro!: st_then_sync)
qed

lemma on_winch_sync [simp]: "sync_view (fst (on_winch C s cols rows now)) = sync_view s"
  by (auto simp: on_winch_def intro!: st_then_sync)

lemma nack_loop_sync [simp]: "sync_view (fst (nack_loop C s incomplete now)) = sync_view s"
proof (induction incomplete arbitrary: s)
  case (Cons x incomplete)
  then show ?case by (cases x) (auto simp: Let_def intro!: st_then_sync)
qed simp

lemma tick_sync [simp]:
  "sync_view (fst (tick_keepalive C s now)) = sync_view s" "sync_view (fst (tick_arq s now)) = sync_view s"
  "sync_view (fst (tick_banner s now)) = sync_view s" "sync_view (fst (tick_telemetry F s now)) = sync_view s"
  "sync_view (fst (tick_nack C s now)) = sync_view s"
  by (auto simp: tick_keepalive_def tick_banner_def tick_nack_def Let_def intro!: st_then_sync)
     (simp_all add: tick_arq_def tick_telemetry_def Let_def sync_view_def)

lemma on_tick_sync [simp]: "sync_view (fst (on_tick C F s now)) = sync_view s"
  unfolding on_tick_def
  by (auto intro!: st_then_sync split: prod.splits) (metis fst_conv tick_sync)+

lemma copy_frame_sync [simp]: "sync_view (fst (fst (copy_frame_if_dirty s dest))) = sync_view s"
  by (auto simp: copy_frame_if_dirty_def sync_view_def split: prod.splits bool.splits)

section \<open>The invariant\<close>

text \<open>
  \<open>S\<close> is the log of sealed server messages: sequence number, acknowledgement and payload.  A frame in the log
  is the diff of a queued job; everything on the wire was sealed for a log entry; every reference and
  every grid the client keeps is the recorded frame of its number.
\<close>

definition job_inv :: "('c, 'v, 'p, 'f) system \<Rightarrow> 'c UpdateJob \<Rightarrow> bool" where
  "job_inv y job \<longleftrightarrow> job_codec job = as_codec (sy_server y)
     \<and> sy_frames y (job_seq job) = Some (job_current_state job)
     \<and> (case job_ref_state job of None \<Rightarrow> job_ref_seq job = 0 | Some r \<Rightarrow> sy_frames y (job_ref_seq job) = Some r)"

definition frame_logged :: "'c UpdateJob set \<Rightarrow> u64 \<Rightarrow> u64 \<Rightarrow> FrameUpdate \<Rightarrow> bool" where
  "frame_logged jobs q ack u \<longleftrightarrow>
     (\<exists>job \<in> jobs. job_seq job = q \<and> job_ack_seq job = ack \<and> grid_fits (job_current_state job)
        \<and> diff_from (job_current_state job) (job_ref_state job) (job_ref_seq job) (job_is_echo_recommended job) = Inr u)"

definition wire_logged :: "'c PacketCodec \<Rightarrow> 'c \<Rightarrow> (u64 \<rightharpoonup> u64 \<times> ServerPayload) \<Rightarrow> bytes \<Rightarrow> bool" where
  "wire_logged C cd S b \<longleftrightarrow>
     (\<exists>q ack p packets. S q = Some (ack, p) \<and> seal_server C cd q ack p = Inr packets \<and> b \<in> set packets \<and> length packets < 65536)"

definition server_inv :: "('c, 'v, 'p, 'f) system \<Rightarrow> bool" where
  "server_inv y \<longleftrightarrow> server_wf (sy_server y)
     \<and> (\<forall>q \<in> dom (sy_frames y). 0 < q \<and> q \<le> as_seq_num (sy_server y))
     \<and> (\<forall>q g. sy_frames y q = Some g \<longrightarrow> grid_wf g)
     \<and> (\<forall>(q, g) \<in> history (sy_server y). sy_frames y q = Some g)
     \<and> (\<forall>job \<in> sy_jobs y. job_inv y job)
     \<and> inj_on job_seq (sy_jobs y)"

definition log_inv :: "'c PacketCodec \<Rightarrow> (u64 \<rightharpoonup> u64 \<times> ServerPayload) \<Rightarrow> ('c, 'v, 'p, 'f) system \<Rightarrow> bool" where
  "log_inv C S y \<longleftrightarrow>
     (\<forall>q \<in> dom S. q \<le> as_seq_num (sy_server y))
     \<and> (\<forall>q ack u. S q = Some (ack, Frame u) \<longrightarrow> frame_logged (sy_jobs y) q ack u)
     \<and> (\<forall>q ack p. S q = Some (ack, p) \<longrightarrow> is_control_msg p \<longrightarrow> q \<notin> dom (sy_frames y))
     \<and> (\<forall>b \<in> sy_wire y. wire_logged C (as_codec (sy_server y)) S b)"

definition client_inv ::
    "('c \<Rightarrow> 'k) \<Rightarrow> ((u64 \<rightharpoonup> u64 \<times> ServerPayload) \<Rightarrow> 'c \<Rightarrow> bool) \<Rightarrow> (u64 \<rightharpoonup> u64 \<times> ServerPayload) \<Rightarrow> ('c, 'v, 'p, 'f) system \<Rightarrow> bool" where
  "client_inv cfg honest S y \<longleftrightarrow> client_wf (sy_client y)
     \<and> cfg (ms_codec (sy_client y)) = cfg (as_codec (sy_server y)) \<and> honest S (ms_codec (sy_client y))
     \<and> (\<forall>(q, g) \<in> set (ms_state_history (sy_client y)). sy_frames y q = Some g)"

section \<open>Recording frames\<close>

lemma record_frames_other: "q \<notin> fst ` frames_of acts \<Longrightarrow> record_frames acts fr q = fr q"
proof (induction acts fr rule: record_frames.induct)
  case (2 job t acts fr)
  have "frames_of (OffloadDiffJob job t # acts) = insert (job_seq job, job_current_state job) (frames_of acts)"
    using frames_of_append [of "[OffloadDiffJob job t]" acts] by simp
  with 2 show ?case by (simp add: fun_upd_def)
qed (auto simp: frames_of_def)

lemma record_frames_job:
  assumes "OffloadDiffJob job t \<in> set acts" "\<And>job' t'. OffloadDiffJob job' t' \<in> set acts \<Longrightarrow> job_seq job' = job_seq job \<Longrightarrow> job' = job"
  shows "record_frames acts fr (job_seq job) = Some (job_current_state job)"
  using assms
proof (induction acts fr arbitrary: t rule: record_frames.induct)
  case (2 job' t' acts fr)
  show ?case
  proof (cases "job_seq job \<in> fst ` frames_of acts")
    case True
    then obtain job'' t'' where j: "OffloadDiffJob job'' t'' \<in> set acts" "job_seq job'' = job_seq job"
      by (force elim: frames_ofE)
    with "2.prems"(2) have "OffloadDiffJob job t'' \<in> set acts" by (metis list.set_intros(2))
    then have "record_frames acts (fr(job_seq job' \<mapsto> job_current_state job')) (job_seq job) = Some (job_current_state job)"
      by (rule "2.IH") (use "2.prems"(2) in \<open>meson list.set_intros(2)\<close>)
    then show ?thesis by simp
  next
    case False
    then have "OffloadDiffJob job t \<notin> set acts" by (metis frames_ofI fst_conv image_eqI)
    with "2.prems"(1) have "job' = job" by simp
    with False show ?thesis by (simp add: record_frames_other)
  qed
qed auto

lemma emitted_jobs_unique:
  "emitted C cd n m M acts \<Longrightarrow> OffloadDiffJob job t \<in> set acts \<Longrightarrow> OffloadDiffJob job' t' \<in> set acts
    \<Longrightarrow> job_seq job' = job_seq job \<Longrightarrow> job' = job"
  unfolding emitted_def by (metis option.inject sum.inject(2))

lemma emitted_job_range:
  "emitted C cd n m M acts \<Longrightarrow> OffloadDiffJob job t \<in> set acts \<Longrightarrow> n < job_seq job \<and> job_seq job \<le> m"
  unfolding emitted_def by (metis domI)

section \<open>Server steps\<close>

text \<open>The frames recorded by an event extend the old ones: its numbers are above all earlier ones.\<close>

lemma record_frames_step:
  assumes "emitted C cd n m M acts" "\<forall>q \<in> dom fr. q \<le> n"
  shows "fr \<subseteq>\<^sub>m record_frames acts fr"
    and "dom (record_frames acts fr) \<subseteq> dom fr \<union> {q. n < q \<and> q \<le> m}"
    and "(q, g) \<in> frames_of acts \<Longrightarrow> record_frames acts fr q = Some g"
proof -
  have new: "n < q \<and> q \<le> m" if "q \<in> fst ` frames_of acts" for q
    using that emitted_job_range [OF assms(1)] by (force elim: frames_ofE)
  show "fr \<subseteq>\<^sub>m record_frames acts fr"
    unfolding map_le_def using new assms(2) record_frames_other by (metis leD)
  show "dom (record_frames acts fr) \<subseteq> dom fr \<union> {q. n < q \<and> q \<le> m}"
    using new record_frames_other by (metis (mono_tags, lifting) CollectI UnI1 UnI2 domIff subsetI)
  show "record_frames acts fr q = Some g" if "(q, g) \<in> frames_of acts"
  proof -
    from that obtain job t where j: "OffloadDiffJob job t \<in> set acts" "q = job_seq job" "g = job_current_state job"
      by (auto elim: frames_ofE)
    from record_frames_job [OF j(1) emitted_jobs_unique [OF assms(1) j(1)]] j(2,3) show ?thesis by simp
  qed
qed

lemma record_frames_values:
  assumes "record_frames acts fr q = Some g"
  shows "fr q = Some g \<or> (\<exists>job t. OffloadDiffJob job t \<in> set acts \<and> job_seq job = q \<and> job_current_state job = g)"
  using assms by (induction acts fr rule: record_frames.induct) (auto split: if_splits)

lemma server_event_out:
  assumes "server_event C G P s acts s'" "server_wf s" "seq_room s"
    and "\<And>cd q a ps. seal_server C cd q a S_Shutdown = Inr ps \<Longrightarrow> ps \<noteq> []"
  shows "server_wf s' \<and> srv_step C s s' acts"
  using assms(1)
proof (cases rule: server_event_cases)
  case (packet bs addr now r)
  with server_feed_packet_wf [OF assms(2), of C G P bs addr now] server_feed_packet_out [OF assms(2,3), of C G P bs addr now]
  show ?thesis by simp
next
  case (pty data now)
  with on_pty_bytes_wf [OF assms(2)] on_pty_bytes_out show ?thesis by simp
next
  case (tick now r)
  with check_sync_wf(1) [OF assms(2), of G P now] server_on_tick_out [OF assms(2,3), of C G P now]
  show ?thesis by (simp add: server_on_tick_def)
next
  case (shutdown r)
  with prepare_shutdown_wf [OF assms(2), of C] prepare_shutdown_out [OF assms(3), of C] assms(4) show ?thesis by simp
qed

lemma job_inv_mono:
  "job_inv y job \<Longrightarrow> sy_frames y \<subseteq>\<^sub>m sy_frames y' \<Longrightarrow> as_codec (sy_server y') = as_codec (sy_server y) \<Longrightarrow> job_inv y' job"
  unfolding job_inv_def map_le_def by (auto split: option.splits) (metis domI)+

lemma job_inv_fields [simp]:
  "job_inv (y\<lparr>sy_client := c\<rparr>) job \<longleftrightarrow> job_inv y job" "job_inv (y\<lparr>sy_wire := w\<rparr>) job \<longleftrightarrow> job_inv y job"
  by (simp_all add: job_inv_def split: option.split)

lemma wire_logged_mono: "wire_logged C cd S b \<Longrightarrow> S \<subseteq>\<^sub>m S' \<Longrightarrow> wire_logged C cd S' b"
  unfolding wire_logged_def map_le_def by (metis domI)

lemma frame_logged_mono: "frame_logged jobs q ack u \<Longrightarrow> jobs \<subseteq> jobs' \<Longrightarrow> frame_logged jobs' q ack u"
  unfolding frame_logged_def by blast

text \<open>The log entries of an event.\<close>

definition extend_log ::
    "(u64 \<rightharpoonup> (u64 \<times> ServerPayload) + 'c UpdateJob) \<Rightarrow> (u64 \<rightharpoonup> u64 \<times> ServerPayload) \<Rightarrow> u64 \<rightharpoonup> u64 \<times> ServerPayload" where
  "extend_log M S q = (case M q of Some (Inl (ack, p)) \<Rightarrow> if is_control_msg p then Some (ack, p) else S q | _ \<Rightarrow> S q)"

lemma extend_log_cases:
  assumes "extend_log M S q = Some (ack, p)"
  obtains "S q = Some (ack, p)" | "M q = Some (Inl (ack, p))" "is_control_msg p"
  using assms by (auto simp: extend_log_def split: option.splits sum.splits if_splits)

lemma extend_log_le:
  assumes "\<forall>q \<in> dom M. n < q" "\<forall>q \<in> dom S. q \<le> n"
  shows "S \<subseteq>\<^sub>m extend_log M S"
  unfolding map_le_def
proof
  fix q assume "q \<in> dom S"
  then have "q \<notin> dom M" using assms by (meson leD)
  then show "S q = extend_log M S q" by (simp add: extend_log_def domIff)
qed

text \<open>New jobs have new numbers.\<close>

lemma emitted_jobs_distinct:
  assumes "emitted C c n m M acts" "inj_on job_seq J" "\<forall>j \<in> J. job_seq j \<le> n"
  shows "inj_on job_seq (jobs_in acts \<union> J)"
proof (rule inj_onI)
  fix a b assume ab: "a \<in> jobs_in acts \<union> J" "b \<in> jobs_in acts \<union> J" "job_seq a = job_seq b"
  have news: "n < job_seq j" if "j \<in> jobs_in acts" for j
    using that emitted_job_range [OF assms(1)] unfolding jobs_in_def by blast
  show "a = b"
  proof (cases "a \<in> J \<and> b \<in> J")
    case True
    then show ?thesis using ab(3) assms(2) by (meson inj_onD)
  next
    case False
    then have "a \<in> jobs_in acts" "b \<in> jobs_in acts" using ab assms(3) news by (metis Un_iff leD)+
    then show ?thesis using ab(3) emitted_jobs_unique [OF assms(1)] by (auto simp: jobs_in_def)
  qed
qed

text \<open>A control message takes no number of a frame.\<close>

lemma emitted_control_unframed:
  assumes "emitted C c n m M acts" "\<forall>q \<in> dom fr. q \<le> n" "M q = Some (Inl x)"
  shows "q \<notin> dom (record_frames acts fr)"
proof -
  have "n < q" using assms(1,3) unfolding emitted_def by blast
  then have "q \<notin> dom fr" using assms(2) by (meson leD)
  moreover have "q \<notin> fst ` frames_of acts"
  proof
    assume "q \<in> fst ` frames_of acts"
    then obtain job t where "OffloadDiffJob job t \<in> set acts" "job_seq job = q" by (force elim: frames_ofE)
    then have "M q = Some (Inr job)" using assms(1) unfolding emitted_def by blast
    with assms(3) show False by simp
  qed
  ultimately show ?thesis using record_frames_other by (metis domIff)
qed

lemma server_inv_step:
  assumes "server_inv y" "srv_step C (sy_server y) s' acts" "server_wf s'"
    and "emitted C (as_codec (sy_server y)) (as_seq_num (sy_server y)) (as_seq_num s') M acts"
    and "y' = y\<lparr>sy_server := s', sy_jobs := jobs_in acts \<union> sy_jobs y, sy_wire := w, sy_frames := record_frames acts (sy_frames y)\<rparr>"
  shows "server_inv y'" and "sy_frames y \<subseteq>\<^sub>m sy_frames y'"
proof -
  let ?fr = "sy_frames y" and ?n = "as_seq_num (sy_server y)" and ?m = "as_seq_num s'"
  define rf where "rf = record_frames acts ?fr"
  have old: "\<forall>q \<in> dom ?fr. q \<le> ?n" using assms(1) by (simp add: server_inv_def)
  note rf = record_frames_step [OF assms(4) old, folded rf_def]
  show le: "sy_frames y \<subseteq>\<^sub>m sy_frames y'" using rf(1) assms(5) by (simp add: rf_def)
  have H: "rf q = Some g" if "(q, g) \<in> history (sy_server y) \<union> frames_of acts" for q g
  proof (cases "(q, g) \<in> frames_of acts")
    case False
    with that assms(1) have "?fr q = Some g" by (auto simp: server_inv_def)
    with rf(1) show ?thesis unfolding map_le_def by (metis domI)
  qed (rule rf(3))
  have nm: "?n \<le> ?m" using assms(4) by (simp add: emitted_def)
  have ok: "job_ok (history (sy_server y) \<union> frames_of acts) (as_codec (sy_server y)) job" if "OffloadDiffJob job t \<in> set acts" for job t
    using that assms(2) by (meson srv_step_def)
  have "0 < q \<and> q \<le> ?m" if "q \<in> dom rf" for q
  proof (cases "q \<in> dom ?fr")
    case True
    then have "0 < q" "q \<le> ?n" using assms(1) by (simp_all add: server_inv_def)
    with nm show ?thesis by auto
  next
    case False
    then have "?n < q" "q \<le> ?m" using that rf(2) by auto
    then show ?thesis by (auto intro: le_less_trans [OF word_zero_le])
  qed
  moreover have "grid_wf g" if "rf q = Some g" for q g
    using record_frames_values [of acts ?fr q g] that assms(1) ok unfolding rf_def server_inv_def job_ok_def by metis
  moreover have "\<forall>(q, g) \<in> history s'. rf q = Some g"
    using assms(2) H unfolding srv_step_def by blast
  moreover have "job_inv y' job" if j: "job \<in> jobs_in acts \<union> sy_jobs y" for job
  proof (cases "job \<in> sy_jobs y")
    case True
    then have "job_inv y job" using assms(1) by (simp add: server_inv_def)
    from this le show ?thesis by (rule job_inv_mono) (use assms(2,5) in \<open>simp add: srv_step_def\<close>)
  next
    case False
    then obtain t where t: "OffloadDiffJob job t \<in> set acts" using j unfolding jobs_in_def by blast
    from ok [OF t] H rf(3) [OF frames_ofI [OF t]] assms(2,5) show ?thesis
      unfolding job_inv_def job_ok_def srv_step_def by (auto simp: rf_def split: option.splits)
  qed
  moreover have "\<forall>j \<in> sy_jobs y. job_seq j \<le> ?n" using assms(1) unfolding server_inv_def job_inv_def by (meson domI)
  then have "inj_on job_seq (jobs_in acts \<union> sy_jobs y)"
    using assms(1) by (intro emitted_jobs_distinct [OF assms(4)]) (simp_all add: server_inv_def)
  ultimately show "server_inv y'" using assms(3,5) by (auto simp: server_inv_def rf_def)
qed

lemma log_inv_step:
  assumes "server_inv y" "log_inv C S y" "as_codec s' = as_codec (sy_server y)"
    and "emitted C (as_codec (sy_server y)) (as_seq_num (sy_server y)) (as_seq_num s') M acts"
    and "\<forall>cd q a p ps. is_control_msg p \<longrightarrow> seal_server C cd q a p = Inr ps \<longrightarrow> length ps < 65536"
    and "y' = y\<lparr>sy_server := s', sy_jobs := jobs_in acts \<union> sy_jobs y, sy_wire := sent_by acts \<union> sy_wire y,
      sy_frames := record_frames acts (sy_frames y)\<rparr>"
  shows "log_inv C (extend_log M S) y'" and "S \<subseteq>\<^sub>m extend_log M S"
proof -
  let ?n = "as_seq_num (sy_server y)" and ?cd = "as_codec (sy_server y)"
  have dM: "\<forall>q \<in> dom M. ?n < q \<and> q \<le> as_seq_num s'" and nm: "?n \<le> as_seq_num s'" using assms(4) by (simp_all add: emitted_def)
  have dS: "\<forall>q \<in> dom S. q \<le> ?n" using assms(2) by (simp add: log_inv_def)
  have old: "\<forall>q \<in> dom (sy_frames y). q \<le> ?n" using assms(1) by (simp add: server_inv_def)
  show le: "S \<subseteq>\<^sub>m extend_log M S" using dM dS by (intro extend_log_le) auto
  have "q \<le> as_seq_num s'" if q: "q \<in> dom (extend_log M S)" for q
  proof -
    from q obtain ack p where "extend_log M S q = Some (ack, p)" by auto
    then show ?thesis by (rule extend_log_cases) (use dM dS nm in \<open>auto dest: bspec order_trans\<close>)
  qed
  moreover have "frame_logged (jobs_in acts \<union> sy_jobs y) q ack u" if "extend_log M S q = Some (ack, Frame u)" for q ack u
    using that
  proof (rule extend_log_cases)
    assume "S q = Some (ack, Frame u)"
    then show ?thesis using assms(2) frame_logged_mono unfolding log_inv_def by blast
  qed (simp add: is_control_msg_def)
  moreover have "q \<notin> dom (record_frames acts (sy_frames y))" if "extend_log M S q = Some (ack, p)" "is_control_msg p" for q ack p
    using that(1)
  proof (rule extend_log_cases)
    assume q: "S q = Some (ack, p)"
    then have "q \<le> ?n" "q \<notin> dom (sy_frames y)" using dS assms(2) that(2) unfolding log_inv_def by blast+
    then show ?thesis using record_frames_step(2) [OF assms(4) old] by auto
  next
    assume "M q = Some (Inl (ack, p))"
    with assms(4) old show ?thesis by (rule emitted_control_unframed)
  qed
  moreover have "wire_logged C ?cd (extend_log M S) b" if b: "b \<in> sent_by acts \<union> sy_wire y" for b
  proof (cases "b \<in> sy_wire y")
    case True
    with assms(2) have "wire_logged C (as_codec (sy_server y)) S b" by (simp add: log_inv_def)
    from this le show ?thesis by (rule wire_logged_mono)
  next
    case False
    then obtain t where "Send_packet b t \<in> set acts" using b unfolding sent_by_def by blast
    then obtain q ack p packets where m: "M q = Some (Inl (ack, p))" "is_control_msg p" "seal_server C ?cd q ack p = Inr packets" "b \<in> set packets"
      using assms(4) unfolding emitted_def by meson
    then have "extend_log M S q = Some (ack, p)" by (simp add: extend_log_def)
    with m assms(5) show ?thesis unfolding wire_logged_def by blast
  qed
  ultimately show "log_inv C (extend_log M S) y'" using assms(3) unfolding log_inv_def assms(6) by simp
qed

section \<open>Jobs\<close>

lemma job_step:
  assumes "server_inv y" "log_inv C S y" "job \<in> sy_jobs y" "UpdateJob_run C job = Inr packets"
    and "grid_fits (job_current_state job)" "length packets < 65536"
  shows "\<exists>S'. S \<subseteq>\<^sub>m S' \<and> log_inv C S' (y\<lparr>sy_wire := set packets \<union> sy_wire y\<rparr>)"
proof -
  let ?q = "job_seq job" and ?ack = "job_ack_seq job"
  from assms(4) obtain u where u: "diff_from (job_current_state job) (job_ref_state job) (job_ref_seq job) (job_is_echo_recommended job) = Inr u"
    "seal_server C (job_codec job) ?q ?ack (Frame u) = Inr packets" by (auto simp: UpdateJob_run_def)
  have J: "job_inv y job" "inj_on job_seq (sy_jobs y)" using assms(1,3) by (simp_all add: server_inv_def)
  have q: "?q \<in> dom (sy_frames y)" "job_codec job = as_codec (sy_server y)" using J(1) by (auto simp: job_inv_def)
  have logged: "frame_logged (sy_jobs y) ?q ?ack u" using assms(3,5) u(1) by (auto simp: frame_logged_def)
  have same: "S ?q = None \<or> S ?q = Some (?ack, Frame u)"
  proof (cases "S ?q")
    case (Some x)
    obtain ack p where x: "x = (ack, p)" by (cases x)
    have "\<not> is_control_msg p" using assms(2) q Some x unfolding log_inv_def by blast
    then obtain v where p: "p = Frame v" by (cases p) (auto simp: is_control_msg_def)
    then have "frame_logged (sy_jobs y) ?q ack v" using assms(2) Some x unfolding log_inv_def by blast
    then obtain job' where "job' \<in> sy_jobs y" "job_seq job' = ?q" "job_ack_seq job' = ack"
      "diff_from (job_current_state job') (job_ref_state job') (job_ref_seq job') (job_is_echo_recommended job') = Inr v"
      by (auto simp: frame_logged_def)
    with J(2) assms(3) have "job' = job" by (meson inj_onD)
    with u(1) Some x p \<open>job_ack_seq job' = ack\<close> \<open>diff_from _ _ _ _ = Inr v\<close> show ?thesis by simp
  qed simp
  let ?S = "S(?q \<mapsto> (?ack, Frame u))"
  have le: "S \<subseteq>\<^sub>m ?S" unfolding map_le_def using same by (metis domIff fun_upd_apply)
  have "wire_logged C (as_codec (sy_server y)) ?S b" if "b \<in> set packets \<union> sy_wire y" for b
  proof (cases "b \<in> sy_wire y")
    case True
    with assms(2) have "wire_logged C (as_codec (sy_server y)) S b" by (simp add: log_inv_def)
    from this le show ?thesis by (rule wire_logged_mono)
  next
    case False
    then have "b \<in> set packets" using that by simp
    moreover have "?S ?q = Some (?ack, Frame u)" by simp
    ultimately show ?thesis using u(2) q(2) assms(6) unfolding wire_logged_def by metis
  qed
  moreover have "?q \<le> as_seq_num (sy_server y)" using assms(1) q(1) unfolding server_inv_def by blast
  then have "\<forall>q \<in> dom ?S. q \<le> as_seq_num (sy_server y)" using assms(2) by (simp add: log_inv_def)
  moreover have "frame_logged (sy_jobs y) q ack v" if "?S q = Some (ack, Frame v)" for q ack v
    using that logged assms(2) unfolding log_inv_def by (cases "q = ?q") simp_all
  moreover have "q \<notin> dom (sy_frames y)" if "?S q = Some (ack, p)" "is_control_msg p" for q ack p
  proof -
    have "q \<noteq> ?q" using that by (auto simp: is_control_msg_def)
    then show ?thesis using that assms(2) unfolding log_inv_def by (metis fun_upd_other)
  qed
  ultimately have "log_inv C ?S (y\<lparr>sy_wire := set packets \<union> sy_wire y\<rparr>)"
    unfolding log_inv_def by simp
  with le show ?thesis by blast
qed

section \<open>Client steps\<close>

lemma copy_frame_wf: "client_wf s \<Longrightarrow> client_wf (fst (fst (copy_frame_if_dirty s dest)))"
  by (auto simp: copy_frame_if_dirty_def consume_updates_def Let_def client_wf_def frame_wf_def split: prod.splits bool.splits)

lemma client_event_other:
  assumes "client_event C F wire s s'" "client_wf s"
  obtains b now where "b \<in> wire" "s' = fst (feed_packet C F s b now)" | "client_wf s'" "sync_view s' = sync_view s"
  using assms(1)
proof (cases rule: client_event_cases)
  case (packet b now r)
  then show thesis by (intro that(1) [of b now]) simp_all
next
  case (stdin buf now r)
  with feed_stdin_wf [OF assms(2), of C buf now] feed_stdin_sync [of C s buf now] that(2) show thesis by simp
next
  case (winch cols rows now r)
  with on_winch_wf [OF assms(2), of C cols rows now] on_winch_sync [of C s cols rows now] that(2) show thesis by simp
next
  case (tick now r)
  with on_tick_wf [OF assms(2), of C F now] on_tick_sync [of C F s now] that(2) show thesis by simp
next
  case (paint dest dest' r)
  with copy_frame_wf [OF assms(2), of dest] copy_frame_sync [of s dest] that(2) show thesis by simp
qed

text \<open>The base a client starts from is the one the job diffed against, so the patch gives the job's grid.\<close>

lemma patch_gives_frame:
  assumes "server_inv y" "client_wf c" "\<forall>(q, g) \<in> set (ms_state_history c). sy_frames y q = Some g"
    and "frame_logged (sy_jobs y) q ack u" "update_base c u = Some base" "apply_diff base u = (g, Inr ())"
  shows "sy_frames y q = Some g"
proof -
  from assms(4) obtain job where job: "job \<in> sy_jobs y" "job_seq job = q" "grid_fits (job_current_state job)"
    "diff_from (job_current_state job) (job_ref_state job) (job_ref_seq job) (job_is_echo_recommended job) = Inr u"
    by (auto simp: frame_logged_def)
  let ?g = "job_current_state job"
  have fr: "sy_frames y q = Some ?g" "case job_ref_state job of None \<Rightarrow> job_ref_seq job = 0 | Some r \<Rightarrow> sy_frames y (job_ref_seq job) = Some r"
    using assms(1) job(1,2) by (auto simp: server_inv_def job_inv_def)
  have wf: "grid_wf h" if "sy_frames y k = Some h" for k h using that assms(1) by (simp add: server_inv_def)
  have pos: "0 < k" if "sy_frames y k = Some h" for k h using that assms(1) unfolding server_inv_def by blast
  have refwf: "grid_wf r" if "job_ref_state job = Some r" for r using fr(2) that wf by simp
  obtain d where d: "diff_from ?g (job_ref_state job) (job_ref_seq job) (job_is_echo_recommended job) = Inr d"
    "patch (diff_base ?g (job_ref_state job)) d = (?g, Inr ())"
    using diff_patch [OF wf [OF fr(1)] job(3) refwf] by blast
  have du: "d = u" using d(1) job(4) by simp
  have u: "fu_ref_seq u = job_ref_seq job" "fu_cols u = gs_cols ?g" "fu_rows u = gs_rows ?g"
    using diff_from_ok [OF wf [OF fr(1)] job(3) refwf] job(4) by auto
  have "base = diff_base ?g (job_ref_state job)"
  proof (cases "job_ref_state job")
    case None
    with fr(2) u assms(5) show ?thesis by (simp add: update_base_def empty_grid_for_blank diff_base_def)
  next
    case (Some r)
    with fr(2) have r: "sy_frames y (job_ref_seq job) = Some r" by simp
    then have "fu_ref_seq u \<noteq> 0" using pos u(1) by force
    with assms(5) have "(job_ref_seq job, base) \<in> set (ms_state_history c)"
      by (auto simp: update_base_def u(1) dest: map_of_SomeD)
    with assms(3) r have "base = r" by auto
    with Some show ?thesis by (simp add: diff_base_def)
  qed
  with d(2) du assms(6) fr(1) show ?thesis by (simp add: apply_diff_def)
qed

section \<open>Reachable states\<close>

text \<open>A codec whose control messages fit into one datagram.\<close>

locale codec_net = packet_codec C cfg sid honest
  for C :: "'c PacketCodec" and cfg :: "'c \<Rightarrow> 'k" and sid :: "'c \<Rightarrow> u64"
    and honest :: "(u64 \<rightharpoonup> u64 \<times> ServerPayload) \<Rightarrow> 'c \<Rightarrow> bool" +
  assumes control_fits: "is_control_msg p \<Longrightarrow> seal_server C c q a p = Inr ps \<Longrightarrow> length ps = 1"
begin

definition sync_inv :: "(u64 \<rightharpoonup> u64 \<times> ServerPayload) \<Rightarrow> ('c, 'v, 'p, 'f) system \<Rightarrow> bool" where
  "sync_inv S y \<longleftrightarrow> server_inv y \<and> log_inv C S y \<and> client_inv cfg honest S y"

lemma client_step:
  assumes "sync_inv S y" "client_event C F (sy_wire y) (sy_client y) c'"
  shows "sync_inv S (y\<lparr>sy_client := c'\<rparr>)"
proof -
  let ?c = "sy_client y"
  have I: "server_inv y" "log_inv C S y" "client_wf ?c" "cfg (ms_codec ?c) = cfg (as_codec (sy_server y))"
    "honest S (ms_codec ?c)" "\<forall>(q, g) \<in> set (ms_state_history ?c). sy_frames y q = Some g"
    using assms(1) by (auto simp: sync_inv_def client_inv_def)
  have keep: "server_inv (y\<lparr>sy_client := c'\<rparr>)" "log_inv C S (y\<lparr>sy_client := c'\<rparr>)"
    using I(1,2) by (simp_all add: server_inv_def log_inv_def)
  have "client_wf c' \<and> cfg (ms_codec c') = cfg (ms_codec ?c) \<and> honest S (ms_codec c')
    \<and> (\<forall>(q, g) \<in> set (ms_state_history c'). sy_frames y q = Some g)"
    using assms(2) I(3)
  proof (rule client_event_other)
    assume "client_wf c'" "sync_view c' = sync_view ?c"
    then show ?thesis using I by (simp add: sync_view_def)
  next
    fix b now
    assume b: "b \<in> sy_wire y" "c' = fst (feed_packet C F ?c b now)"
    then obtain q ack p packets where l: "S q = Some (ack, p)" "seal_server C (as_codec (sy_server y)) q ack p = Inr packets"
      "b \<in> set packets" "length packets < 65536"
      using I(2) by (auto simp: log_inv_def wire_logged_def)
    from open_seal_server [OF l(2,4,3) I(4) l(1) I(5)] obtain c'' r where
      o: "open_server C (ms_codec ?c) b = (c'', Inr r)" "honest S c''"
        "\<And>spkt p' stats. r = Some (spkt, p', stats) \<Longrightarrow> p' = p \<and> esp_seq_num spkt = q \<and> esp_ack_seq_num spkt = ack" by blast
    have c'': "ms_codec c' = c''" "cfg c'' = cfg (ms_codec ?c)"
      using feed_packet_effect [OF I(3), of C F b now] b(2) o(1) open_server_cfg [of "ms_codec ?c" b] by simp_all
    have "(k, g) \<in> set (ms_state_history ?c) \<or> (k = q \<and> sy_frames y q = Some g)" if kg: "(k, g) \<in> set (ms_state_history c')" for k g
    proof (rule ccontr)
      assume new: "\<not> ((k, g) \<in> set (ms_state_history ?c) \<or> (k = q \<and> sy_frames y q = Some g))"
      with feed_packet_effect [OF I(3), of C F b now] b(2) o(1) kg obtain pkt payload stats u base g' where
        e: "r = Some (pkt, payload, stats)" "payload = Frame u" "update_base ?c u = Some base" "apply_diff base u = (g', Inr ())"
        "ms_state_history c' = ms_state_history (push_history ?c (esp_seq_num pkt) g')" by auto
      from o(3) [OF e(1)] e(2) have pk: "p = Frame u" "esp_seq_num pkt = q" by auto
      then have "frame_logged (sy_jobs y) q ack u" using I(2) l(1) by (simp add: log_inv_def)
      from patch_gives_frame [OF I(1,3,6) this e(3,4)] have g': "sy_frames y q = Some g'" .
      have "set (ms_state_history c') \<subseteq> insert (q, g') (set (ms_state_history ?c))"
        unfolding e(5) pk(2) push_history_list by (auto dest: list.set_sel(2) [rotated])
      with kg new g' show False by auto
    qed
    then have "\<forall>(q, g) \<in> set (ms_state_history c'). sy_frames y q = Some g" using I(6) by blast
    then show ?thesis using o(2) c'' b(2) feed_packet_wf [OF I(3), of C F b now] by simp
  qed
  with keep I(4) show ?thesis by (simp add: sync_inv_def client_inv_def)
qed

lemma server_step:
  assumes "sync_inv S y" "server_event C G P (sy_server y) acts s'" "seq_room (sy_server y)"
    and "y' = y\<lparr>sy_server := s', sy_jobs := jobs_in acts \<union> sy_jobs y, sy_wire := sent_by acts \<union> sy_wire y,
      sy_frames := record_frames acts (sy_frames y)\<rparr>"
  shows "\<exists>S'. sync_inv S' y'"
proof -
  have I: "server_inv y" "log_inv C S y" "client_inv cfg honest S y" using assms(1) by (simp_all add: sync_inv_def)
  have len: "\<forall>cd q a p ps. is_control_msg p \<longrightarrow> seal_server C cd q a p = Inr ps \<longrightarrow> length ps < 65536"
    using control_fits by force
  have "ps \<noteq> []" if "seal_server C cd q a S_Shutdown = Inr ps" for cd q a ps
    using control_fits [OF _ that] by (auto simp: is_control_msg_def)
  then have out: "server_wf s'" "srv_step C (sy_server y) s' acts"
    using server_event_out [OF assms(2) _ assms(3)] I(1) by (simp_all add: server_inv_def)
  then obtain M where M: "emitted C (as_codec (sy_server y)) (as_seq_num (sy_server y)) (as_seq_num s') M acts"
    by (auto simp: srv_step_def emits_def)
  have cd: "as_codec s' = as_codec (sy_server y)" using out(2) by (simp add: srv_step_def)
  note s = server_inv_step [OF I(1) out(2,1) M assms(4)] and l = log_inv_step [OF I(1,2) cd M len assms(4)]
  have "sy_frames y' q = Some g" if "sy_frames y q = Some g" for q g
    using that s(2) unfolding map_le_def by (metis domI)
  then have "client_inv cfg honest (extend_log M S) y'"
    using I(3) honest_mono [OF _ l(2)] cd assms(4) by (auto simp: client_inv_def)
  with s(1) l(1) show ?thesis unfolding sync_inv_def by blast
qed

lemma reachable_inv:
  assumes "reachable C G P F y0 y" "sync_inv S0 y0"
  shows "\<exists>S. sync_inv S y"
  using assms(1)
proof (induction rule: reachable.induct)
  case reach_start
  then show ?case using assms(2) by blast
next
  case (reach_step y y')
  then obtain S where S: "sync_inv S y" by blast
  from reach_step.hyps(2) show ?case
  proof (cases rule: sys_step_cases)
    case (server acts s')
    with server_step [OF S] show ?thesis by blast
  next
    case (job job packets)
    with job_step [of y C S job packets] S obtain S' where "S \<subseteq>\<^sub>m S'" "log_inv C S' y'" by (auto simp: sync_inv_def)
    moreover have "server_inv y'" using S job by (simp add: sync_inv_def server_inv_def)
    ultimately show ?thesis using S job honest_mono by (auto simp: sync_inv_def client_inv_def)
  next
    case (client c')
    with client_step [OF S] show ?thesis by blast
  qed
qed

lemma init_inv:
  assumes "server_wf s" "as_state_history s = []" "cfg codec = cfg (as_codec s)" "honest Map.empty codec"
  shows "sync_inv Map.empty (sys_init s (MirrorSession_new F session codec start cols rows overlay now))"
  using assms client_wf_new
  by (simp add: sync_inv_def server_inv_def log_inv_def client_inv_def sys_init_def MirrorSession_new_def) (simp add: MirrorSession_new_def [symmetric] client_wf_new)

end

section \<open>The encrypted codec\<close>

text \<open>
  What the libraries promise about sizes: a control message encodes to less than 256 bytes and the cipher adds at
  most its 16 byte tag.
\<close>

locale wire_lib_small = wire_lib L for L :: codec_lib +
  assumes control_small: "is_control_msg p \<Longrightarrow> enc (server_payload L) p = Some b \<Longrightarrow> length b < 256"
    and aead_overhead: "aead_seal L k n pt = Some ct \<Longrightarrow> length ct \<le> length pt + 16"

context wire_lib_small
begin

sublocale chacha_net: codec_net "chacha_codec L" chacha_cfg cc_session_id "chacha_honest L"
proof unfold_locales
  fix p c q a ps
  assume "is_control_msg p" "seal_server (chacha_codec L) c q a p = Inr ps"
  then show "length ps = 1"
    by (auto simp: chacha_codec_def chacha_seal_server_def serialize_compressed_def encrypt_def serialize_def
        fragment_packets_small FRAGMENT_PAYLOAD_SIZE_def dest!: control_small aead_overhead split: if_splits)
qed

lemma client_history_recorded:
  assumes "AuthoritativeSession_new G session (ChaChaCodec_new key session) start addr cols rows pty t0 = Inr s0"
    and "reachable (chacha_codec L) G P F
      (sys_init s0 (MirrorSession_new F session (ChaChaCodec_new key session) start' cols' rows' overlay t1)) y"
  shows "\<forall>(q, g) \<in> set (ms_state_history (sy_client y)). sy_frames y q = Some g"
proof -
  have s0: "server_wf s0" "as_state_history s0 = []" "as_codec s0 = ChaChaCodec_new key session"
    using AuthoritativeSession_new_wf [OF assms(1)] assms(1) by (auto simp: AuthoritativeSession_new_def)
  have "chacha_honest L Map.empty (ChaChaCodec_new key session)" by (simp add: chacha_honest_def ChaChaCodec_new_def)
  from chacha_net.reachable_inv [OF assms(2) chacha_net.init_inv [OF s0(1,2) _ this]] s0(3)
  show ?thesis by (auto simp: chacha_net.sync_inv_def client_inv_def)
qed

end

lemma ref_control_small: "is_control_msg p \<Longrightarrow> length (put server_payload_coder p) < 256"
  by (cases p) (simp_all add: is_control_msg_def server_payload_coder_def iso_coder_def sum_coder_def pair_coder_def
      word_coder_def unit_coder_def bool_coder_def)

interpretation ref_small: wire_lib_small ref_lib
proof unfold_locales
  fix p b
  assume "is_control_msg p" "enc (server_payload ref_lib) p = Some b"
  then show "length b < 256" using ref_control_small by auto
next
  fix k n pt ct
  assume "aead_seal ref_lib k n pt = Some ct"
  then show "length ct \<le> length pt + 16" by (auto simp: ref_lib_def)
qed

section \<open>Properties\<close>

text \<open>C2: The client never shows anything the server did not show.  In every state that server, network and client can
  reach from fresh sessions with a common key, whatever the network loses, repeats and reorders and
  whatever bytes anyone sends to the server, each grid the client has reconstructed under a sequence
  number is the grid the server recorded under that number.  (The guards of the steps: the server's 64 bit
  counter does not run out, a frame needs fewer than 65536 fragments and its grid at most 65536 cells.)\<close>

theorem client_mirrors_server:
  assumes "wire_lib_small L"
    and "AuthoritativeSession_new G session (ChaChaCodec_new key session) start addr cols rows pty t0 = Inr s0"
    and "reachable (chacha_codec L) G P F
      (sys_init s0 (MirrorSession_new F session (ChaChaCodec_new key session) start' cols' rows' overlay t1)) y"
    and "(q, g) \<in> set (ms_state_history (sy_client y))"
  shows "sy_frames y q = Some g"
  using wire_lib_small.client_history_recorded [OF assms(1-3)] assms(4) by blast

text \<open>A run of three steps: the server's first tick queues a frame, the job runs, the client receives it.\<close>

lemma tiny_update:
  "\<exists>ts. update_and_get_state tiny_vt (as_term_state sample_session) = (ts, Inr (grid_of (tiny_snapshot 32)))"
  by (simp add: sample_session_def AuthoritativeSession_new_def ServerTerminalState_new_def
    tiny_vt_def update_and_get_state_def Let_def tiny_snapshot_def grid_of_def read_row_def vec_set_def blank_grid_def
    set_wrapped_def set_cells_def set_cursor_def row_cells_def row_wrap_def)

lemma sample_tick:
  "\<exists>s job t. server_on_tick tiny_vt (pty_bridge sample_tty) sample_session 0 = (s, Inr [OffloadDiffJob job t])
    \<and> job_seq job = 1 \<and> job_ack_seq job = 4 \<and> job_ref_seq job = 0 \<and> job_ref_state job = None \<and> job_current_state job = grid_of (tiny_snapshot 32)
    \<and> job_codec job = ChaChaCodec_new [1, 2] 9"
proof -
  obtain ts where u: "update_and_get_state tiny_vt (as_term_state sample_session) = (ts, Inr (grid_of (tiny_snapshot 32)))" using tiny_update by blast
  have f: "as_seq_num sample_session = 0" "as_ack_seq_num sample_session = 4" "as_last_sent_ack_seq sample_session = 0" "as_state_history sample_session = []"
    "as_client_ack_seq sample_session = 0" "as_pty_bytes_acc sample_session = 0" "as_last_pty_bytes_time sample_session = 0"
    by (simp_all add: sample_session_def AuthoritativeSession_new_def ServerTerminalState_new_def tiny_vt_def)
  show ?thesis
   using u by (simp add: server_on_tick_def check_sync_def f Let_def queue_frame_eq duration_since_def from_millis_def)
qed

definition tiny_update_frame :: "bool \<Rightarrow> FrameUpdate" where
  "tiny_update_frame echo = \<lparr>fu_ref_seq = 0, fu_cols = 1, fu_rows = 1, fu_cursor_x = 0, fu_cursor_y = 0, fu_cursor_visible = True,
     fu_row_updates = [], fu_is_echo_enabled = echo\<rparr>"

lemma tiny_diff: "diff_from (grid_of (tiny_snapshot 32)) None 0 echo = Inr (tiny_update_frame echo)"
  by (simp add: diff_from_def grid_of_def tiny_snapshot_def row_cells_def row_wrap_def tiny_update_frame_def use_ref_of_def
      u16_range_def vec_get_def cell_index_def from_cell_def wrapping_changed_def cell_data_of_def cell_graphemes_def
      tiny_cell_def clean_char_def is_control_def encode_utf8_def default_cell_def cell_style_flags_def)

lemma tiny_patch: "apply_diff (empty_grid_for (tiny_update_frame echo)) (tiny_update_frame echo) = (grid_of (tiny_snapshot 32), Inr ())"
  by (simp add: apply_diff_def patch_def tiny_update_frame_def empty_grid_for_def resize_for_def grid_of_def tiny_snapshot_def
      row_cells_def row_wrap_def cell_data_of_def cell_graphemes_def tiny_cell_def clean_char_def is_control_def encode_utf8_def
      default_cell_def cell_style_flags_def)

lemma tiny_sealed:
  "\<exists>b. seal_server (chacha_codec ref_lib) (ChaChaCodec_new [1, 2] 9) seq ack (Frame (tiny_update_frame echo)) = Inr [b]"
  by (rule ref_seal_single)
     (simp add: server_payload_coder_def frame_coder_def iso_coder_def sum_coder_def pair_coder_def
      word_coder_def bool_coder_def list_coder_def tiny_update_frame_def)

definition tiny_client :: "(ChaChaCodec, unit) MirrorSession" where
  "tiny_client = MirrorSession_new unit_f32 9 (ChaChaCodec_new [1, 2] 9) 0 1 1 False 0"

lemma tiny_client_props:
  "client_wf tiny_client" "ms_codec tiny_client = ChaChaCodec_new [1, 2] 9" "ms_ack_seq_num tiny_client = 0"
  "tf_rows (ti_frame (ms_mirror tiny_client)) = 1" "pending tiny_client = []"
  unfolding tiny_client_def
  by (rule client_wf_new)
     (simp_all add: MirrorSession_new_def set_overlay_enabled_def ClientTerminal_new_def TerminalFrame_new_def LocalEchoEngine_new_def)

lemma tiny_receives:
  assumes "seal_server (chacha_codec ref_lib) (ChaChaCodec_new [1, 2] 9) 1 ack (Frame (tiny_update_frame echo)) = Inr [b]"
  shows "(1, grid_of (tiny_snapshot 32)) \<in> set (ms_state_history (fst (feed_packet (chacha_codec ref_lib) unit_f32 tiny_client b 5)))"
proof -
  have "cc_fragment_buffer (ChaChaCodec_new [1, 2] 9) = []" by (simp add: ChaChaCodec_new_def)
  with ref.single_delivered [OF assms refl] obtain c1 pkt stats where
    o: "open_server (chacha_codec ref_lib) (ms_codec tiny_client) b = (c1, Inr (Some (pkt, Frame (tiny_update_frame echo), stats)))"
      "esp_seq_num pkt = 1" by (auto simp: tiny_client_props)
  have base: "update_base tiny_client (tiny_update_frame echo) = Some (empty_grid_for (tiny_update_frame echo))"
    by (simp add: update_base_def tiny_update_frame_def)
  obtain h where "ms_state_history (fst (feed_packet (chacha_codec ref_lib) unit_f32 tiny_client b 5)) = h @ [(1, grid_of (tiny_snapshot 32))]"
    using apply_new_frame [OF _ o(1) _ _ _ base tiny_patch, of unit_f32 5] o(2) by (auto simp: Let_def tiny_client_props)
  then show ?thesis by simp
qed

theorem client_mirrors_server_witness:
  "\<exists>y. reachable (chacha_codec ref_lib) tiny_vt (pty_bridge sample_tty) unit_f32 (sys_init sample_session tiny_client) y
    \<and> (1, grid_of (tiny_snapshot 32)) \<in> set (ms_state_history (sy_client y)) \<and> sy_frames y 1 = Some (grid_of (tiny_snapshot 32))"
proof -
  let ?C = "chacha_codec ref_lib" and ?P = "pty_bridge sample_tty"
  let ?step = "sys_step ?C tiny_vt ?P unit_f32" and ?y0 = "sys_init sample_session tiny_client"
  obtain s job t where tick: "server_on_tick tiny_vt ?P sample_session 0 = (s, Inr [OffloadDiffJob job t])"
    and job: "job_seq job = 1" "job_ack_seq job = 4" "job_ref_seq job = 0" "job_ref_state job = None"
      "job_current_state job = grid_of (tiny_snapshot 32)" "job_codec job = ChaChaCodec_new [1, 2] 9"
    using sample_tick by blast
  obtain b where b: "seal_server ?C (ChaChaCodec_new [1, 2] 9) 1 4 (Frame (tiny_update_frame (job_is_echo_recommended job))) = Inr [b]"
    using tiny_sealed by blast
  define y1 where "y1 = ?y0\<lparr>sy_server := s, sy_jobs := jobs_in [OffloadDiffJob job t] \<union> sy_jobs ?y0,
    sy_wire := sent_by [OffloadDiffJob job t] \<union> sy_wire ?y0, sy_frames := record_frames [OffloadDiffJob job t] (sy_frames ?y0)\<rparr>"
  have "server_event ?C tiny_vt ?P sample_session (acts_of (Inr [OffloadDiffJob job t])) s" using tick by (rule se_tick)
  moreover have "seq_room sample_session"
    by (simp add: seq_room_def sample_session_def AuthoritativeSession_new_def ServerTerminalState_new_def tiny_vt_def)
  ultimately have 1: "?step ?y0 y1" unfolding y1_def by (intro st_server) (simp_all add: sys_init_def)
  define y2 where "y2 = y1\<lparr>sy_wire := set [b] \<union> sy_wire y1\<rparr>"
  have "UpdateJob_run ?C job = Inr [b]" using b by (simp add: UpdateJob_run_def job tiny_diff)
  moreover have "job \<in> sy_jobs y1" by (auto simp: y1_def jobs_in_def)
  moreover have "grid_fits (job_current_state job)" by (simp add: job grid_fits_def grid_of_def tiny_snapshot_def)
  ultimately have 2: "?step y1 y2" unfolding y2_def by (intro st_job) simp_all
  define c where "c = fst (feed_packet ?C unit_f32 tiny_client b 5)"
  define y3 where "y3 = y2\<lparr>sy_client := c\<rparr>"
  have "client_event ?C unit_f32 (sy_wire y2) (sy_client y2) c"
    by (rule ce_packet [of b _ _ _ _ 5 _ "snd (feed_packet ?C unit_f32 tiny_client b 5)"]) (simp_all add: y2_def y1_def sys_init_def c_def)
  then have 3: "?step y2 y3" unfolding y3_def by (rule st_client)
  have r: "reachable ?C tiny_vt ?P unit_f32 ?y0 y3"
    by (intro reach_step [OF reach_step [OF reach_step [OF reach_start 1] 2] 3])
  have h: "(1, grid_of (tiny_snapshot 32)) \<in> set (ms_state_history (sy_client y3))"
    using tiny_receives [OF b] by (simp add: y3_def c_def)
  from client_mirrors_server [OF ref_small.wire_lib_small_axioms sample_session_wf(1) r [unfolded tiny_client_def] h] r h
  show ?thesis by blast
qed

end
