(* ===== verification/Rumsh_Client_Arq.thy ===== *)
theory Rumsh_Client_Arq
  imports Rumsh_Client_Props
begin

text \<open>
  Retransmission, timers and user input of the client session: an unacknowledged packet stays queued until the
  server acknowledges it and is sent again once it is old enough; what the user types goes out exactly
  as the escape interpreter passes it on.
\<close>

section \<open>What receiving does to the queue of unacknowledged packets\<close>

lemma try_ack_unacked: "ms_unacked_packets (fst (try_ack C s now)) = ms_unacked_packets s"
  by (auto simp: try_ack_def prepare_ack_def Let_def split: sum.splits)

lemma push_history_unacked: "ms_unacked_packets (push_history s q g) = ms_unacked_packets s"
  by (simp add: push_history_def Let_def)

lemma handle_payload_unacked:
  assumes "client_wf s"
  shows "ms_unacked_packets (fst (handle_payload C s seq payload now)) = ms_unacked_packets s"
proof (cases payload)
  case (Frame u)
  show ?thesis
  proof (cases "update_base s u")
    case None
    with Frame show ?thesis by (simp add: handle_payload_def apply_update_missing try_ack_unacked)
  next
    case (Some base)
    show ?thesis
    proof (cases "snd (apply_diff base u)")
      case (Inl e)
      with Frame Some show ?thesis by (simp add: handle_payload_def apply_update_error)
    next
      case (Inr x)
      then obtain g where g: "apply_diff base u = (g, Inr ())" by (cases "apply_diff base u") simp
      from apply_update_ok [OF assms Some g, of C seq now] Frame show ?thesis
        by (auto simp: handle_payload_def push_history_unacked)
    qed
  qed
qed (simp_all add: handle_payload_def)

lemma note_packet_unacked:
  "ms_unacked_packets (fst (note_packet F s seq ack stats now)) = map_retain (\<lambda>k _. k > ack) (ms_unacked_packets s)"
proof -
  define s1 where "s1 = s\<lparr>ms_bytes_recv_acc := ms_bytes_recv_acc s + wire_len stats,
    ms_comp_acc := ms_comp_acc s + comp_len stats, ms_decomp_acc := ms_decomp_acc s + decomp_len stats\<rparr>"
  have "ms_unacked_packets (update_loss_window (prune_acked (reset_after_outage s1 seq now) ack) seq)
      = map_retain (\<lambda>k _. k > ack) (ms_unacked_packets s)"
    by (simp add: update_loss_window_def push_arrival_def prune_acked_def reset_after_outage_def s1_def Let_def)
  then show ?thesis
    unfolding note_packet_def Let_def s1_def [symmetric]
    by (auto simp: st_then_def with_mirror_def split: prod.splits sum.splits)
qed

lemma accept_packet_unacked: "ms_unacked_packets (fst (accept_packet s seq now)) = ms_unacked_packets s"
  by (simp add: accept_packet_def Let_def fst_with_mirror)

lemma feed_packet_unacked:
  assumes "client_wf s" "open_server C (ms_codec s) bs = (codec, Inr (Some (pkt, payload, stats)))"
  shows "ms_unacked_packets (fst (feed_packet C F s bs now)) =
    map_retain (\<lambda>k _. k > esp_ack_seq_num pkt) (ms_unacked_packets s)"
proof -
  define s1 where "s1 = fst (note_packet F (s\<lparr>ms_codec := codec\<rparr>) (esp_seq_num pkt) (esp_ack_seq_num pkt) stats now)"
  note step = feed_packet_opened [OF assms s1_def]
  have u: "ms_unacked_packets s1 = map_retain (\<lambda>k _. k > esp_ack_seq_num pkt) (ms_unacked_packets s)"
    by (simp add: s1_def note_packet_unacked)
  show ?thesis
  proof (cases "esp_seq_num pkt \<le> ms_ack_seq_num s")
    case False
    let ?s2 = "fst (accept_packet s1 (esp_seq_num pkt) now)"
    have "client_wf ?s2"
      using accept_packet_accepted(1) [OF step(2), of "esp_seq_num pkt" now] False by (simp add: accepted_def s1_def note_packet_ack)
    note h = handle_payload_unacked [OF this, of C "esp_seq_num pkt" payload now]
    show ?thesis unfolding step(1) if_not_P [OF False] using h u accept_packet_unacked [of s1 "esp_seq_num pkt" now]
      by (cases "accept_packet s1 (esp_seq_num pkt) now") (auto simp: st_then_def split: sum.splits)
  qed (simp add: step(1) u)
qed

section \<open>The timer\<close>

text \<open>A codec that can always seal a client message.\<close>

definition seals_client :: "'c PacketCodec \<Rightarrow> bool" where
  "seals_client C \<longleftrightarrow> (\<forall>c session q ack p. \<exists>b. seal_client C c session q ack p = Inr b)"

lemma nack_loop_total: "seals_client C \<Longrightarrow> \<exists>acts. snd (nack_loop C s incomplete now) = Inr acts"
proof (induction incomplete arbitrary: s)
  case (Cons x incomplete)
  obtain fseq rmask where x: "x = (fseq, rmask)" by (cases x)
  obtain s1 b where p: "prepare_fragment_nack C (s\<lparr>ms_nacked_frames := AList.update fseq now (ms_nacked_frames s)\<rparr>) fseq rmask = (s1, Inr b)"
    using Cons.prems unfolding seals_client_def prepare_fragment_nack_def Let_def by (metis (no_types, lifting))
  obtain s2 acts where "nack_loop C s1 incomplete now = (s2, Inr acts)" using Cons.IH [OF Cons.prems, of s1] by (metis prod.collapse)
  with p Cons.IH [OF Cons.prems, of s] show ?case by (simp add: x Let_def)
qed simp

lemma resend_lookup:
  assumes "distinct (map fst xs)" "(q, b, t) \<in> set xs"
  shows "map_of (fold (\<lambda>(k, v, _) m. AList.update k (v, now) m) xs m) q = Some (b, now)"
  using assms
proof (induction xs arbitrary: m)
  case (Cons x xs)
  obtain k v t' where x: "x = (k, v, t')" by (cases x)
  have other: "map_of (fold (\<lambda>(k, v, _) m. AList.update k (v, now) m) ys m') k' = map_of m' k'" if "k' \<notin> fst ` set ys" for ys m' k'
    using that by (induction ys arbitrary: m') (auto simp: update_conv')
  show ?case
  proof (cases "(q, b, t) = x")
    case True
    then show ?thesis using Cons.prems x other [of q xs] by (simp add: update_conv')
  next
    case False
    then show ?thesis using Cons x by auto
  qed
qed simp

lemma tick_arq_resends:
  assumes "hm_wf (ms_unacked_packets s)" "map_of (ms_unacked_packets s) q = Some (b, t)"
    and "duration_since now (ms_last_arq_check s) \<ge> from_millis 100" "duration_since now t \<ge> from_millis 1000"
  shows "SendPacket b \<in> set (snd (tick_arq s now))" "map_of (ms_unacked_packets (fst (tick_arq s now))) q = Some (b, now)"
proof -
  have "rtt_limit (rtt_ms (ms_mirror s)) \<le> from_millis 1000" by (simp add: rtt_limit_def from_millis_def)
  with assms(4) have due: "(q, b, t) \<in> set (due_packets s now)"
    using map_of_SomeD [OF assms(2)] by (auto simp: due_packets_def)
  have "distinct (map fst (due_packets s now))"
    using assms(1) by (simp add: due_packets_def hm_wf_def distinct_map_filter)
  from resend_lookup [OF this due] show "map_of (ms_unacked_packets (fst (tick_arq s now))) q = Some (b, now)"
    using assms(3) by (simp add: tick_arq_def Let_def)
  show "SendPacket b \<in> set (snd (tick_arq s now))"
    using assms(3) due by (force simp: tick_arq_def Let_def)
qed

lemma tick_keepalive_effect:
  assumes "seals_client C"
  obtains s1 a1 where "tick_keepalive C s now = (s1, Inr a1)" "ms_last_arq_check s1 = ms_last_arq_check s"
    "ms_mirror s1 = ms_mirror s" "\<And>q. q \<noteq> ms_seq_num s + 1 \<Longrightarrow> map_of (ms_unacked_packets s1) q = map_of (ms_unacked_packets s) q"
proof (cases "duration_since now (ms_last_keepalive_sent s) \<ge> ms_keepalive_interval s")
  case True
  obtain b where b: "seal_client C (ms_codec s) (ms_session_id s) (ms_seq_num s + 1) (ms_ack_seq_num s) C_KeepAlive = Inr b"
    using assms unfolding seals_client_def by blast
  let ?s1 = "s\<lparr>ms_seq_num := ms_seq_num s + 1, ms_sent_packets := AList.update (ms_seq_num s + 1) now (ms_sent_packets s),
    ms_last_keepalive_sent := now, ms_unacked_packets := AList.update (ms_seq_num s + 1) (b, now) (ms_unacked_packets s)\<rparr>"
  show thesis
    by (rule that [of ?s1 "[SendPacket b]"])
       (use True b in \<open>simp_all add: tick_keepalive_def prepare_keepalive_def seal_reliable_def Let_def update_conv'\<close>)
next
  case False
  then show thesis by (intro that [of s "[]"]) (simp_all add: tick_keepalive_def)
qed

lemma tick_rest_unacked:
  "ms_unacked_packets (fst (tick_banner s now)) = ms_unacked_packets s"
  "ms_unacked_packets (fst (tick_telemetry F s now)) = ms_unacked_packets s"
  "ms_unacked_packets (fst (nack_loop C s incomplete now)) = ms_unacked_packets s"
  "ms_unacked_packets (fst (tick_nack C s now)) = ms_unacked_packets s"
proof -
  show "ms_unacked_packets (fst (tick_banner s now)) = ms_unacked_packets s"
    by (auto simp: tick_banner_def Let_def st_then_def with_mirror_def split: prod.splits sum.splits)
  show "ms_unacked_packets (fst (tick_telemetry F s now)) = ms_unacked_packets s"
    by (simp add: tick_telemetry_def Let_def)
  show loop: "ms_unacked_packets (fst (nack_loop C s incomplete now)) = ms_unacked_packets s" for s :: "('c, 'f) MirrorSession" and C incomplete
  proof (induction incomplete arbitrary: s)
    case (Cons x incomplete)
    obtain fseq rmask where x: "x = (fseq, rmask)" by (cases x)
    let ?s = "s\<lparr>ms_nacked_frames := AList.update fseq now (ms_nacked_frames s)\<rparr>"
    have "ms_unacked_packets (fst (st_then (prepare_fragment_nack C ?s fseq rmask)
        (\<lambda>s1 b. st_then (nack_loop C s1 incomplete now) (\<lambda>s2 acts. (s2, Inr (SendPacket b # acts)))))) = ms_unacked_packets s"
      by (rule st_then_wf [where P = "\<lambda>t. ms_unacked_packets t = ms_unacked_packets s"])
         (simp_all add: prepare_fragment_nack_def Let_def fst_st_then_map Cons.IH)
    with Cons.IH [of s] show ?case by (simp add: x Let_def)
  qed simp
  show "ms_unacked_packets (fst (tick_nack C s now)) = ms_unacked_packets s"
    using loop [of C "s\<lparr>ms_last_nack_check := now\<rparr>" "incomplete_frames C (ms_codec s)"]
    by (auto simp: tick_nack_def st_then_def split: prod.splits sum.splits)
qed

lemma tick_banner_total:
  assumes "client_wf s" "tf_rows (ti_frame (ms_mirror s)) > 0"
  shows "\<exists>acts. snd (tick_banner s now) = Inr acts"
proof -
  have "snd (set_reconnecting (ms_mirror s) b) = Inr ()" for b
    using set_reconnecting_ok(2) [of "ms_mirror s" b] assms by (auto simp: client_wf_def)
  then show ?thesis
    by (auto simp: tick_banner_def Let_def st_then_def with_mirror_def split: prod.splits sum.splits)
       (metis Inl_Inr_False snd_conv)+
qed

lemma tick_nack_total: "seals_client C \<Longrightarrow> \<exists>acts. snd (tick_nack C s now) = Inr acts"
  using nack_loop_total [of C "s\<lparr>ms_last_nack_check := now\<rparr>" "incomplete_frames C (ms_codec s)" now]
  by (auto simp: tick_nack_def st_then_def split: prod.splits sum.splits)

lemma on_tick_resends:
  assumes "client_wf s" "seals_client C" "tf_rows (ti_frame (ms_mirror s)) > 0"
    and "map_of (ms_unacked_packets s) q = Some (b, t)" "q \<noteq> ms_seq_num s + 1"
    and "duration_since now (ms_last_arq_check s) \<ge> from_millis 100" "duration_since now t \<ge> from_millis 1000"
  shows "\<exists>s' acts. on_tick C F s now = (s', Inr acts) \<and> SendPacket b \<in> set acts \<and> map_of (ms_unacked_packets s') q = Some (b, now)"
proof -
  obtain s1 a1 where 1: "tick_keepalive C s now = (s1, Inr a1)" "ms_last_arq_check s1 = ms_last_arq_check s"
    "ms_mirror s1 = ms_mirror s" "map_of (ms_unacked_packets s1) q = Some (b, t)"
    using tick_keepalive_effect [OF assms(2)] assms(4,5) by metis
  have wf1: "client_wf s1" using tick_wf(1) [OF assms(1), of C now] 1(1) by simp
  then have "hm_wf (ms_unacked_packets s1)" by (simp add: client_wf_def)
  note r = tick_arq_resends [OF this 1(4), of now]
  obtain s2 a2 where 2: "tick_arq s1 now = (s2, a2)" by force
  have s2: "SendPacket b \<in> set a2" "map_of (ms_unacked_packets s2) q = Some (b, now)" "client_wf s2"
    using r assms(6,7) 1(2) 2 tick_wf(2) [OF wf1, of now] by simp_all
  have m2: "ms_mirror s2 = ms_mirror s" using 1(3) 2 by (auto simp: tick_arq_def Let_def split: if_splits)
  obtain s3 a3 where 3: "tick_banner s2 now = (s3, Inr a3)"
    using tick_banner_total [OF s2(3)] m2 assms(3) by (metis prod.collapse)
  obtain s4 a4 where 4: "tick_telemetry F s3 now = (s4, a4)" by force
  obtain s5 a5 where 5: "tick_nack C s4 now = (s5, Inr a5)" using tick_nack_total [OF assms(2)] by (metis prod.collapse)
  have "ms_unacked_packets s5 = ms_unacked_packets s2"
    using tick_rest_unacked(1) [of s2 now] tick_rest_unacked(2) [of F s3 now] tick_rest_unacked(4) [of C s4 now] 3 4 5 by simp
  with s2 show ?thesis by (simp add: on_tick_def 1 2 3 4 5)
qed

section \<open>Properties\<close>

text \<open>C20: Reliable delivery, client side: a packet from the server removes exactly the packets it acknowledges
  from the queue, whether or not its payload is new, and every other datagram leaves the queue alone.\<close>

theorem acked_packets_pruned:
  assumes "client_wf s"
  shows "map_of (ms_unacked_packets (fst (feed_packet C F s bs now))) k =
    (case snd (open_server C (ms_codec s) bs) of
       Inr (Some (pkt, _, _)) \<Rightarrow> if k > esp_ack_seq_num pkt then map_of (ms_unacked_packets s) k else None
     | _ \<Rightarrow> map_of (ms_unacked_packets s) k)"
proof (cases "\<exists>pkt payload stats. snd (open_server C (ms_codec s) bs) = Inr (Some (pkt, payload, stats))")
  case True
  then obtain codec pkt payload stats where o: "open_server C (ms_codec s) bs = (codec, Inr (Some (pkt, payload, stats)))"
    by (metis prod.collapse)
  have "hm_wf (ms_unacked_packets s)" using assms by (simp add: client_wf_def)
  then show ?thesis by (simp add: feed_packet_unacked [OF assms o] o hash.lookup_retain split: option.split)
next
  case False
  then have "(\<exists>e. snd (open_server C (ms_codec s) bs) = Inl e) \<or> snd (open_server C (ms_codec s) bs) = Inr None"
    by (metis old.sum.exhaust option.exhaust prod_cases3)
  then show ?thesis by (auto simp: feed_packet_closed)
qed

lemma ref_seals_client: "seals_client (chacha_codec ref_lib)"
  by (simp add: seals_client_def chacha_codec_def chacha_seal_client_def serialize_def Let_def)

definition busy_client :: "(ChaChaCodec, unit) MirrorSession" where
  "busy_client = sample_client\<lparr>ms_seq_num := 2, ms_unacked_packets := [(1, [7], 0), (2, [8], 0)]\<rparr>"

lemma busy_client_props [simp]:
  "client_wf busy_client" "ms_codec busy_client = ChaChaCodec_new [1, 2] 9"
  "ms_unacked_packets busy_client = [(1, [7], 0), (2, [8], 0)]" "ms_seq_num busy_client = 2"
  "tf_rows (ti_frame (ms_mirror busy_client)) = 1" "ms_last_arq_check busy_client = 0"
proof -
  show "client_wf busy_client"
    using sample_client_props(1) unfolding busy_client_def client_wf_def by (simp add: hm_wf_def)
  show "ms_last_arq_check busy_client = 0"
    unfolding busy_client_def sample_client_def by (simp add: MirrorSession_new_def)
qed (simp_all add: busy_client_def)

theorem acked_packets_pruned_witness:
  "\<exists>b. seal_server (chacha_codec ref_lib) (ChaChaCodec_new [1, 2] 9) 5 1 (Frame letter_update) = Inr [b]
    \<and> map_of (ms_unacked_packets (fst (feed_packet (chacha_codec ref_lib) unit_f32 busy_client b 5))) 1 = None
    \<and> map_of (ms_unacked_packets (fst (feed_packet (chacha_codec ref_lib) unit_f32 busy_client b 5))) 2 = Some ([8], 0)"
proof -
  obtain b where b: "seal_server (chacha_codec ref_lib) (ChaChaCodec_new [1, 2] 9) 5 1 (Frame letter_update) = Inr [b]"
    using letter_update_sealed by blast
  have "cc_fragment_buffer (ChaChaCodec_new [1, 2] 9) = []" by (simp add: ChaChaCodec_new_def)
  with ref.single_delivered [OF b refl] obtain c1 pkt stats where
    o: "open_server (chacha_codec ref_lib) (ChaChaCodec_new [1, 2] 9) b = (c1, Inr (Some (pkt, Frame letter_update, stats)))"
      "esp_ack_seq_num pkt = 1" by auto
  with acked_packets_pruned [OF busy_client_props(1), of "chacha_codec ref_lib" unit_f32 b 5] b show ?thesis by auto
qed

text \<open>C19: A packet that stays unacknowledged is sent again: a timer tick at least 100 ms after the last check resends
  every queued packet that is a second old (earlier on a fast link), unchanged, and keeps it queued.  So
  as long as ticks go on, a reliable packet is retransmitted until the server acknowledges it.\<close>

theorem unacked_packets_resent:
  assumes "client_wf s" "seals_client C" "tf_rows (ti_frame (ms_mirror s)) > 0"
    and "map_of (ms_unacked_packets s) q = Some (b, t)" "q \<noteq> ms_seq_num s + 1"
    and "duration_since now (ms_last_arq_check s) \<ge> from_millis 100" "duration_since now t \<ge> from_millis 1000"
  shows "\<exists>s' acts. on_tick C F s now = (s', Inr acts) \<and> SendPacket b \<in> set acts \<and> map_of (ms_unacked_packets s') q = Some (b, now)"
  using assms by (rule on_tick_resends)

theorem unacked_packets_resent_witness:
  "\<exists>s acts. on_tick (chacha_codec ref_lib) unit_f32 busy_client (from_millis 1500) = (s, Inr acts) \<and> SendPacket [7] \<in> set acts"
  using unacked_packets_resent [OF busy_client_props(1) ref_seals_client, of 1 "[7]" 0 "from_millis 1500" unit_f32]
  by (auto simp: duration_since_def from_millis_def)

section \<open>Standard input\<close>

text \<open>The loop runs the escape interpreter up to a disconnect command; the actions of its commands.\<close>

definition upto_disconnect :: "InterpreterResult list \<Rightarrow> InterpreterResult list" where
  "upto_disconnect rs = takeWhile (\<lambda>r. r \<noteq> Command Disconnect) rs"

definition command_action :: "EscapeCommand \<Rightarrow> ClientAction" where
  "command_action k = (case k of Disconnect \<Rightarrow> Disconnect_action | Suspend \<Rightarrow> Suspend_action | Help \<Rightarrow> ShowHelp | ToggleOverlay \<Rightarrow> Paint)"

fun input_actions :: "InterpreterResult list \<Rightarrow> ClientAction list" where
  "input_actions [] = []"
| "input_actions (Command k # rs) = command_action k # (if k = Disconnect then [] else input_actions rs)"
| "input_actions (_ # rs) = input_actions rs"

definition out_view :: "('c, 'f) MirrorSession \<Rightarrow> 'c \<times> u64 \<times> u64 \<times> u64 \<times> (u64 \<times> bytes \<times> instant) list \<times> bool" where
  "out_view s = (ms_codec s, ms_session_id s, ms_seq_num s, ms_ack_seq_num s, ms_unacked_packets s, ms_is_echo_enabled s)"

lemma stdin_loop_spec:
  "\<exists>s'. stdin_loop s buf to_send actions =
      (s', to_send @ sent_bytes (upto_disconnect (snd (handle_bytes (ms_interpreter s) buf))),
       actions @ input_actions (snd (handle_bytes (ms_interpreter s) buf)),
       Command Disconnect \<in> set (snd (handle_bytes (ms_interpreter s) buf)))
    \<and> out_view s' = out_view s"
proof (induction buf arbitrary: s to_send actions)
  case (Cons b buf)
  obtain i r where h: "handle_byte (ms_interpreter s) b = (i, r)" by force
  define rs where "rs = snd (handle_bytes i buf)"
  have rs: "snd (handle_bytes (ms_interpreter s) (b # buf)) = r # rs" by (simp add: h rs_def split: prod.splits)
  have IH: "\<exists>s'. stdin_loop t buf ts as = (s', ts @ sent_bytes (upto_disconnect rs), as @ input_actions rs, Command Disconnect \<in> set rs)
      \<and> out_view s' = out_view s" if "ms_interpreter t = i" "out_view t = out_view s" for t :: "('a, 'b) MirrorSession" and ts as
    using Cons.IH [of t ts as] that by (simp add: rs_def)
  let ?s = "s\<lparr>ms_interpreter := i\<rparr>"
  show ?case
  proof (cases r)
    case (SendBytes bs)
    then show ?thesis using IH [of ?s "to_send @ bs" actions] unfolding rs by (simp add: h out_view_def upto_disconnect_def)
  next
    case Consume
    then show ?thesis using IH [of ?s to_send actions] unfolding rs by (simp add: h out_view_def upto_disconnect_def)
  next
    case (Command k)
    show ?thesis
    proof (cases k)
      case Disconnect
      with Command show ?thesis unfolding rs by (simp add: h out_view_def upto_disconnect_def command_action_def)
    next
      case Suspend
      with Command IH [of "?s\<lparr>ms_mirror := mark_dirty (ms_mirror s)\<rparr>" to_send "actions @ [Suspend_action]"] show ?thesis
        unfolding rs by (simp add: h out_view_def upto_disconnect_def command_action_def)
    next
      case Help
      with Command IH [of "?s\<lparr>ms_mirror := mark_dirty (ms_mirror s)\<rparr>" to_send "actions @ [ShowHelp]"] show ?thesis
        unfolding rs by (simp add: h out_view_def upto_disconnect_def command_action_def)
    next
      case ToggleOverlay
      with Command IH [of "?s\<lparr>ms_mirror := toggle_overlay (ms_mirror s)\<rparr>" to_send "actions @ [Paint]"] show ?thesis
        unfolding rs by (simp add: h out_view_def upto_disconnect_def command_action_def)
    qed
  qed
qed (simp add: upto_disconnect_def)

text \<open>C21: What a read from standard input does.  The escape interpreter splits it into bytes for the shell and
  commands.  Every command causes its action, in order.  If one of them is a disconnect, nothing is sent:
  the bytes typed before it in the same read are lost.  Otherwise all bytes for the shell go out in one
  packet with the next sequence number, which is queued for retransmission; no bytes, no packet.\<close>

theorem stdin_sends_input:
  assumes "client_wf s" "seals_client C"
    and "rs = snd (handle_bytes (ms_interpreter s) buf)"
  shows "let s' = fst (feed_stdin C s buf now); q = ms_seq_num s + 1 in
    if Command Disconnect \<in> set rs then snd (feed_stdin C s buf now) = Inr (input_actions rs) \<and> out_view s' = out_view s
    else if sent_bytes rs = [] then snd (feed_stdin C s buf now) = Inr (input_actions rs) \<and> out_view s' = out_view s
    else \<exists>b paints. seal_client C (ms_codec s) (ms_session_id s) q (ms_ack_seq_num s) (Keystrokes (sent_bytes rs)) = Inr b
      \<and> snd (feed_stdin C s buf now) = Inr (input_actions rs @ paints @ [SendPacket b]) \<and> set paints \<subseteq> {Paint}
      \<and> ms_seq_num s' = q \<and> map_of (ms_unacked_packets s') q = Some (b, now)"
proof -
  obtain s1 where l: "stdin_loop s buf [] [] = (s1, sent_bytes (upto_disconnect rs), input_actions rs, Command Disconnect \<in> set rs)"
    "out_view s1 = out_view s"
    using stdin_loop_spec [of s buf "[]" "[]"] assms(3) by auto
  show ?thesis
  proof (cases "Command Disconnect \<in> set rs")
    case True
    then show ?thesis using l by (simp add: feed_stdin_def Let_def)
  next
    case False
    then have up: "upto_disconnect rs = rs" by (auto simp: upto_disconnect_def takeWhile_eq_all_conv)
    show ?thesis
    proof (cases "sent_bytes rs = []")
      case True
      then show ?thesis using l up False by (simp add: feed_stdin_def Let_def)
    next
      case ne: False
      let ?q = "ms_seq_num s + 1"
      obtain b where b: "seal_client C (ms_codec s) (ms_session_id s) ?q (ms_ack_seq_num s) (Keystrokes (sent_bytes rs)) = Inr b"
        using assms(2) unfolding seals_client_def by blast
      define s2 where "s2 = s1\<lparr>ms_seq_num := ?q, ms_sent_packets := AList.update ?q now (ms_sent_packets s1),
        ms_unacked_packets := AList.update ?q (b, now) (ms_unacked_packets s1)\<rparr>"
      have p: "prepare_keystrokes C s1 (sent_bytes rs) now = (s2, Inr (b, ?q))"
        using l(2) b by (simp add: prepare_keystrokes_def seal_reliable_def Let_def out_view_def s2_def)
      have s2: "ms_seq_num s2 = ?q" "map_of (ms_unacked_packets s2) ?q = Some (b, now)" by (simp_all add: s2_def update_conv')
      have "client_wf s1" using stdin_loop_wf [OF assms(1), of buf "[]" "[]"] l(1) by simp
      then have "client_wf s2" using prepare_wf(1) [of s1 C "sent_bytes rs" now] p by simp
      then obtain m where m: "predict_input (ms_mirror s2) (sent_bytes rs) ?q = (m, Inr ())"
        using predict_input_ok(1) [of "ms_mirror s2" "sent_bytes rs" ?q] by (metis client_wfD prod.collapse)
      show ?thesis
      proof (cases "ms_is_echo_enabled s2 \<and> (\<forall>b \<in> set (sent_bytes rs). \<not> is_ascii_control b)")
        case True
        then have "feed_stdin C s buf now = (s2\<lparr>ms_mirror := m\<rparr>, Inr (input_actions rs @ [Paint] @ [SendPacket b]))"
          using False ne p m by (simp add: feed_stdin_def l(1) up with_mirror_def)
        with False ne b s2 show ?thesis by (auto simp: Let_def intro!: exI [of _ "[Paint]"])
      next
        case no: False
        then have "feed_stdin C s buf now = (s2, Inr (input_actions rs @ [] @ [SendPacket b]))"
          unfolding feed_stdin_def l(1) up using False ne p by auto
        with False ne b s2 show ?thesis by (auto simp: Let_def intro!: exI [of _ "[]"])
      qed
    qed
  qed
qed

theorem stdin_sends_input_witness:
  "\<exists>b paints. snd (feed_stdin (chacha_codec ref_lib) sample_client [108, 115, 13] 5) = Inr (paints @ [SendPacket b])
    \<and> map_of (ms_unacked_packets (fst (feed_stdin (chacha_codec ref_lib) sample_client [108, 115, 13] 5))) 1 = Some (b, 5)"
proof -
  have "ms_interpreter sample_client = EscapeInterpreter_new" "ms_seq_num sample_client = 0"
    unfolding sample_client_def by (simp_all add: MirrorSession_new_def)
  then have i: "snd (handle_bytes (ms_interpreter sample_client) [108, 115, 13]) = [SendBytes [108], SendBytes [115], SendBytes [13]]"
    and q: "ms_seq_num sample_client + 1 = 1"
    by (simp_all add: EscapeInterpreter_new_def handle_byte_def is_newline_def)
  from stdin_sends_input [OF sample_client_props(1) ref_seals_client i [symmetric], of 5] show ?thesis
    unfolding Let_def q by auto
qed

section \<open>The remaining branches\<close>

text \<open>What of the mirror the user sees: its size, cells and cursor.\<close>

definition screen :: "'f TerminalInner \<Rightarrow> u16 \<times> u16 \<times> LocalCellData list \<times> u16 \<times> u16 \<times> bool" where
  "screen m = (tf_cols (ti_frame m), tf_rows (ti_frame m), tf_cell_cache (ti_frame m),
     tf_cursor_x (ti_frame m), tf_cursor_y (ti_frame m), tf_cursor_visible (ti_frame m))"

lemma record_rtt_loss_screen: "screen (record_rtt_loss F m r l) = screen m"
  by (auto simp: record_rtt_loss_def screen_def Let_def split: prod.splits option.splits)

lemma acknowledge_confirmed:
  "\<forall>e \<in> set (unconfirmed_inputs (ti_echo_engine m)). confirmed (ti_echo_engine m) ack e \<Longrightarrow> screen (fst (acknowledge m ack)) = screen m"
  by (simp add: acknowledge_def with_echo_def reconcile_frame_def screen_def Let_def)

lemma note_packet_screen:
  assumes "client_wf s"
  shows "screen (ms_mirror (fst (note_packet F s seq ack stats now))) = screen (fst (acknowledge (ms_mirror s) ack))"
    and "ms_last_recv_time (fst (note_packet F s seq ack stats now)) = ms_last_recv_time s"
proof -
  define s3 where "s3 = update_loss_window (prune_acked (reset_after_outage (s\<lparr>ms_bytes_recv_acc := ms_bytes_recv_acc s + wire_len stats,
    ms_comp_acc := ms_comp_acc s + comp_len stats, ms_decomp_acc := ms_decomp_acc s + decomp_len stats\<rparr>) seq now) ack) seq"
  have s3: "ms_mirror s3 = ms_mirror s" "ms_last_recv_time s3 = ms_last_recv_time s"
    by (simp_all add: s3_def update_loss_window_def push_arrival_def prune_acked_def reset_after_outage_def Let_def)
  have wf: "mirror_wf (ms_mirror s)" using assms by (simp add: client_wf_def)
  obtain m1 where m1: "acknowledge (ms_mirror s) ack = (m1, Inr ())" using acknowledge_ok(1) [OF wf, of ack] by (metis prod.collapse)
  show "screen (ms_mirror (fst (note_packet F s seq ack stats now))) = screen (fst (acknowledge (ms_mirror s) ack))"
    "ms_last_recv_time (fst (note_packet F s seq ack stats now)) = ms_last_recv_time s"
    unfolding note_packet_def Let_def s3_def [symmetric]
    by (simp_all add: with_mirror_def s3 m1 record_rtt_loss_screen)
qed

text \<open>C22: A stale packet (sequence number not above the last accepted one) records no grid, acknowledges nothing and causes
  no action, and its payload never reaches the screen.  The one thing it does to the screen is what its
  acknowledgement does: predictions it does not confirm are drawn again (\<open>acknowledge\<close>); if it leaves no
  prediction pending, size, cells and cursor are exactly as before.  So a replayed or late frame cannot
  turn the screen back.\<close>

theorem stale_packet_ignored:
  assumes "client_wf s" "open_server C (ms_codec s) bs = (codec, Inr (Some (pkt, payload, stats)))"
    and "esp_seq_num pkt \<le> ms_ack_seq_num s"
  shows "snd (feed_packet C F s bs now) = Inr []
    \<and> recv_view (fst (feed_packet C F s bs now)) = recv_view (s\<lparr>ms_codec := codec\<rparr>)
    \<and> ms_last_recv_time (fst (feed_packet C F s bs now)) = ms_last_recv_time s
    \<and> screen (ms_mirror (fst (feed_packet C F s bs now))) = screen (fst (acknowledge (ms_mirror s) (esp_ack_seq_num pkt)))
    \<and> ((\<forall>e \<in> set (pending s). confirmed (ti_echo_engine (ms_mirror s)) (esp_ack_seq_num pkt) e) \<longrightarrow>
         screen (ms_mirror (fst (feed_packet C F s bs now))) = screen (ms_mirror s))"
proof -
  let ?s = "s\<lparr>ms_codec := codec\<rparr>"
  define s1 where "s1 = fst (note_packet F ?s (esp_seq_num pkt) (esp_ack_seq_num pkt) stats now)"
  note step = feed_packet_opened [OF assms(1,2) s1_def]
  have wf: "client_wf ?s" using assms(1) by (simp add: client_wf_def)
  have "screen (ms_mirror s1) = screen (fst (acknowledge (ms_mirror s) (esp_ack_seq_num pkt)))" "ms_last_recv_time s1 = ms_last_recv_time s"
    using note_packet_screen [OF wf] by (simp_all add: s1_def)
  moreover have "recv_view s1 = recv_view ?s" by (simp add: s1_def note_packet_view)
  moreover from this have "feed_packet C F s bs now = (s1, Inr [])"
    using step(1) assms(3) note_packet_ack by (simp add: s1_def)
  ultimately show ?thesis using acknowledge_confirmed [of "ms_mirror s"] by simp
qed

theorem stale_packet_ignored_witness:
  "\<exists>b. seal_server (chacha_codec ref_lib) (ChaChaCodec_new [1, 2] 9) 5 1 (Frame letter_update) = Inr [b]
    \<and> snd (feed_packet (chacha_codec ref_lib) unit_f32 (sample_client\<lparr>ms_ack_seq_num := 7\<rparr>) b 5) = Inr []
    \<and> screen (ms_mirror (fst (feed_packet (chacha_codec ref_lib) unit_f32 (sample_client\<lparr>ms_ack_seq_num := 7\<rparr>) b 5))) = screen (ms_mirror sample_client)"
proof -
  let ?s = "sample_client\<lparr>ms_ack_seq_num := 7\<rparr>"
  obtain b where b: "seal_server (chacha_codec ref_lib) (ChaChaCodec_new [1, 2] 9) 5 1 (Frame letter_update) = Inr [b]"
    using letter_update_sealed by blast
  have "cc_fragment_buffer (ChaChaCodec_new [1, 2] 9) = []" by (simp add: ChaChaCodec_new_def)
  with ref.single_delivered [OF b refl] obtain c1 pkt stats where
    o: "open_server (chacha_codec ref_lib) (ms_codec ?s) b = (c1, Inr (Some (pkt, Frame letter_update, stats)))" "esp_seq_num pkt = 5"
    by auto
  have "client_wf ?s" using sample_client_props(1,6) by (simp add: client_wf_def history_wf_def)
  note r = stale_packet_ignored [OF this o(1), of unit_f32 5]
  have "esp_seq_num pkt \<le> ms_ack_seq_num ?s" "\<forall>e \<in> set (pending ?s). confirmed (ti_echo_engine (ms_mirror ?s)) (esp_ack_seq_num pkt) e"
    using o(2) by simp_all
  with r have "snd (feed_packet (chacha_codec ref_lib) unit_f32 ?s b 5) = Inr []"
    "screen (ms_mirror (fst (feed_packet (chacha_codec ref_lib) unit_f32 ?s b 5))) = screen (ms_mirror ?s)" by blast+
  with b show ?thesis by simp
qed

text \<open>C31: A frame whose reference is not in the client's history is dropped, but its sequence number is acknowledged all
  the same: the history does not gain it, the only packet sent is an acknowledgement of it, and a later
  frame that the server then diffs against it has no base either and meets the same fate.\<close>

theorem missing_reference_acknowledged:
  assumes "client_wf s" "open_server C (ms_codec s) bs = (codec, Inr (Some (pkt, Frame u, stats)))"
    and "ms_ack_seq_num s < esp_seq_num pkt" "tf_rows (ti_frame (ms_mirror s)) > 0" "update_base s u = None"
    and "fu_ref_seq u' = esp_seq_num pkt"
  shows "let s' = fst (feed_packet C F s bs now) in
    ms_ack_seq_num s' = esp_seq_num pkt \<and> ms_state_history s' = ms_state_history s
    \<and> (\<exists>acts. snd (feed_packet C F s bs now) = Inr acts \<and> length acts \<le> 1 \<and>
         (\<forall>b. SendPacket b \<in> set acts \<longrightarrow> (\<exists>n. seal_client C codec (ms_session_id s) (transient_seq n) (esp_seq_num pkt) C_Ack = Inr b)))
    \<and> update_base s' u' = None"
proof -
  let ?q = "esp_seq_num pkt"
  define s1 where "s1 = fst (note_packet F (s\<lparr>ms_codec := codec\<rparr>) ?q (esp_ack_seq_num pkt) stats now)"
  define s2 where "s2 = fst (accept_packet s1 ?q now)"
  note step = feed_packet_opened [OF assms(1,2) s1_def]
  have s1: "ms_ack_seq_num s1 = ms_ack_seq_num s" "ms_state_history s1 = ms_state_history s" "tf_rows (ti_frame (ms_mirror s1)) \<noteq> 0"
    "ms_codec s1 = codec" "ms_session_id s1 = ms_session_id s"
    using assms(1,4) note_packet_pending(2) [of "s\<lparr>ms_codec := codec\<rparr>"] by (simp_all add: s1_def note_packet_ack client_wf_def)
  have "snd (accept_packet s1 ?q now) = Inr ()"
    using accept_packet_accepted(2) [OF step(2), of ?q now] s1(1,3) assms(3) by simp
  then have a: "accept_packet s1 ?q now = (s2, Inr ())" unfolding s2_def by (metis prod.collapse)
  have s2: "ms_ack_seq_num s2 = ?q" "ms_state_history s2 = ms_state_history s" "ms_codec s2 = codec" "ms_session_id s2 = ms_session_id s"
    using s1 by (simp_all add: s2_def accept_packet_view)
  have base: "update_base s2 u = None" using assms(5) by (auto simp: update_base_def s2 split: if_splits)
  have "\<not> ?q \<le> ms_ack_seq_num s" using assms(3) by simp
  then have f: "feed_packet C F s bs now = (fst (try_ack C s2 now), Inr (snd (try_ack C s2 now)))"
    unfolding step(1) a by (simp add: handle_payload_def apply_update_missing [OF base])
  have t: "ms_ack_seq_num (fst (try_ack C s2 now)) = ?q" "ms_state_history (fst (try_ack C s2 now)) = ms_state_history s"
    "length (snd (try_ack C s2 now)) \<le> 1"
    "\<forall>b. SendPacket b \<in> set (snd (try_ack C s2 now)) \<longrightarrow> (\<exists>n. seal_client C codec (ms_session_id s) (transient_seq n) ?q C_Ack = Inr b)"
    using s2 by (auto simp: try_ack_def prepare_ack_def Let_def split: sum.splits)
  have "map_of (ms_state_history s) ?q = None"
  proof (rule ccontr)
    assume "map_of (ms_state_history s) ?q \<noteq> None"
    then obtain g where "(?q, g) \<in> set (ms_state_history s)" by (auto dest: map_of_SomeD)
    then have "?q \<le> ms_ack_seq_num s" using assms(1) by (auto simp: client_wf_def history_wf_def)
    with assms(3) show False by simp
  qed
  moreover have "?q \<noteq> 0" using assms(3) by (auto simp: word_gt_0)
  ultimately have "update_base (fst (try_ack C s2 now)) u' = None" using assms(6) t(2) by (simp add: update_base_def)
  with t show ?thesis by (simp add: f Let_def)
qed

theorem missing_reference_acknowledged_witness:
  "\<exists>b. seal_server (chacha_codec ref_lib) (ChaChaCodec_new [1, 2] 9) 5 1 (Frame (letter_update\<lparr>fu_ref_seq := 4\<rparr>)) = Inr [b]
    \<and> ms_ack_seq_num (fst (feed_packet (chacha_codec ref_lib) unit_f32 sample_client b 5)) = 5
    \<and> update_base (fst (feed_packet (chacha_codec ref_lib) unit_f32 sample_client b 5)) (letter_update\<lparr>fu_ref_seq := 5\<rparr>) = None"
proof -
  let ?u = "letter_update\<lparr>fu_ref_seq := 4\<rparr>"
  obtain b where b: "seal_server (chacha_codec ref_lib) (ChaChaCodec_new [1, 2] 9) 5 1 (Frame ?u) = Inr [b]"
    using ref_seal_single [of "Frame ?u" "ChaChaCodec_new [1, 2] 9" 5 1]
    by (auto simp: server_payload_coder_def frame_coder_def row_coder_def cell_update_coder_def cell_coder_def
      grapheme_coder_def opt_coder_def iso_coder_def sum_coder_def pair_coder_def length_put_list_replicate
      word_coder_def bool_coder_def unit_coder_def list_coder_def letter_update_def char_cell_def CompactGrapheme_new_def)
  have "cc_fragment_buffer (ChaChaCodec_new [1, 2] 9) = []" by (simp add: ChaChaCodec_new_def)
  with ref.single_delivered [OF b refl] obtain c1 pkt stats where
    o: "open_server (chacha_codec ref_lib) (ms_codec sample_client) b = (c1, Inr (Some (pkt, Frame ?u, stats)))" "esp_seq_num pkt = 5"
    by auto
  have "update_base sample_client ?u = None" by (simp add: update_base_def)
  from missing_reference_acknowledged [OF sample_client_props(1) o(1) _ _ this, of "letter_update\<lparr>fu_ref_seq := 5\<rparr>" unit_f32 5] o(2) b
  show ?thesis by (simp add: Let_def)
qed

definition in_outage :: "duration \<Rightarrow> instant \<Rightarrow> ('c, 'f) MirrorSession \<Rightarrow> bool" where
  "in_outage d r s \<longleftrightarrow> ms_keepalive_interval s = d \<and> ms_is_reconnecting s \<and> ms_last_recv_time s = r"

lemma prepare_outage:
  "in_outage d r s \<Longrightarrow> in_outage d r (fst (prepare_keepalive C s now))"
  "in_outage d r s \<Longrightarrow> in_outage d r (fst (prepare_fragment_nack C s fseq rmask))"
  by (auto simp: in_outage_def prepare_keepalive_def prepare_fragment_nack_def seal_reliable_def Let_def split: sum.splits)

lemma tick_outage:
  assumes "in_outage d r s" "duration_since now r > from_millis 5000"
  shows "in_outage d r (fst (tick_keepalive C s now))" "in_outage d r (fst (tick_arq s now))" "in_outage d r (fst (tick_banner s now))"
    "in_outage d r (fst (tick_telemetry F s now))" "in_outage d r (fst (tick_nack C s now))"
proof -
  show "in_outage d r (fst (tick_keepalive C s now))"
    using assms(1) prepare_outage(1) [OF assms(1), of C now] by (simp add: tick_keepalive_def fst_st_then_map)
  show "in_outage d r (fst (tick_arq s now))" using assms(1) by (simp add: tick_arq_def in_outage_def Let_def)
  show "in_outage d r (fst (tick_banner s now))" using assms by (simp add: tick_banner_def in_outage_def Let_def)
  show "in_outage d r (fst (tick_telemetry F s now))" using assms(1) by (simp add: tick_telemetry_def in_outage_def Let_def)
  have loop: "in_outage d r (fst (nack_loop C t incomplete now))" if "in_outage d r t" for t :: "('a, 'b) MirrorSession" and incomplete
    using that
  proof (induction incomplete arbitrary: t)
    case (Cons x incomplete)
    obtain fseq rmask where x: "x = (fseq, rmask)" by (cases x)
    let ?t = "t\<lparr>ms_nacked_frames := AList.update fseq now (ms_nacked_frames t)\<rparr>"
    have "in_outage d r ?t" using Cons.prems by (simp add: in_outage_def)
    then have "in_outage d r (fst (st_then (prepare_fragment_nack C ?t fseq rmask)
        (\<lambda>s1 b. st_then (nack_loop C s1 incomplete now) (\<lambda>s2 acts. (s2, Inr (SendPacket b # acts))))))"
      by (intro st_then_wf [where P = "in_outage d r"] prepare_outage) (simp_all add: fst_st_then_map Cons.IH)
    with Cons.IH [OF Cons.prems] show ?case by (simp add: x Let_def)
  qed simp
  have "in_outage d r (s\<lparr>ms_last_nack_check := now\<rparr>)" using assms(1) by (simp add: in_outage_def)
  note l = loop [OF this, of "incomplete_frames C (ms_codec s)"]
  show "in_outage d r (fst (tick_nack C s now))"
  proof (cases "duration_since now (ms_last_nack_check s) \<ge> from_millis 40")
    case True
    show ?thesis unfolding tick_nack_def if_P [OF True]
      by (rule st_then_wf [where P = "in_outage d r", OF l]) (simp add: in_outage_def)
  qed (use assms(1) in \<open>simp add: tick_nack_def\<close>)
qed

text \<open>The keep-alive interval does not back off during an outage: it is set once, when the banner comes up, and
  every later tick leaves it as it is while the silence lasts.\<close>

theorem keepalive_interval_frozen:
  assumes "ms_is_reconnecting s" "duration_since now (ms_last_recv_time s) > from_millis 5000"
  shows "ms_keepalive_interval (fst (on_tick C F s now)) = ms_keepalive_interval s"
proof -
  define Q :: "('a, 'b) MirrorSession \<Rightarrow> bool" where "Q = in_outage (ms_keepalive_interval s) (ms_last_recv_time s)"
  have Q: "Q s" using assms(1) by (simp add: Q_def in_outage_def)
  have T: "Q (fst (tick_keepalive C t now))" "Q (fst (tick_arq t now))" "Q (fst (tick_banner t now))"
    "Q (fst (tick_telemetry F t now))" "Q (fst (tick_nack C t now))" if "Q t" for t
    using tick_outage [OF that [unfolded Q_def] assms(2)] unfolding Q_def by blast+
  have rest: "Q (fst (case tick_telemetry F t now of (s4, a4) \<Rightarrow> st_then (tick_nack C s4 now) (\<lambda>s5 a5. (s5, Inr (a @ a4 @ a5)))))"
    if "Q t" for t a
    using T(5) [OF T(4) [OF that]] by (cases "tick_telemetry F t now") (simp add: fst_st_then_map)
  have "Q (fst (case tick_arq t now of (s2, a2) \<Rightarrow> st_then (tick_banner s2 now) (\<lambda>s3 a3. (case tick_telemetry F s3 now of (s4, a4) \<Rightarrow>
      st_then (tick_nack C s4 now) (\<lambda>s5 a5. (s5, Inr (a1 @ a2 @ a3 @ a4 @ a5)))))))" if "Q t" for t a1
  proof (cases "tick_arq t now")
    case (Pair s2 a2)
    with T(2) [OF that] have "Q (fst (tick_banner s2 now))" by (simp add: T)
    then show ?thesis using Pair rest [of "fst (tick_banner s2 now)" "a1 @ a2 @ _"] by (simp add: st_then_wf [where P = Q])
  qed
  then have "Q (fst (on_tick C F s now))"
    unfolding on_tick_def by (intro st_then_wf [where P = Q]) (simp_all add: T Q)
  then show ?thesis by (simp add: Q_def in_outage_def)
qed

theorem keepalive_interval_frozen_witness:
  "ms_keepalive_interval (fst (on_tick (chacha_codec ref_lib) unit_f32
     (sample_client\<lparr>ms_is_reconnecting := True, ms_keepalive_interval := from_secs 5\<rparr>) (from_secs 600))) = from_secs 5"
proof -
  let ?s = "sample_client\<lparr>ms_is_reconnecting := True, ms_keepalive_interval := from_secs 5\<rparr>"
  have "ms_last_recv_time sample_client = 0" unfolding sample_client_def by (simp add: MirrorSession_new_def)
  then have "duration_since (from_secs 600) (ms_last_recv_time ?s) > from_millis 5000"
    by (simp add: duration_since_def from_secs_def from_millis_def)
  from keepalive_interval_frozen [OF _ this, of "chacha_codec ref_lib" unit_f32] show ?thesis by simp
qed

end
