(* ===== verification/Rumsh_Server_Net.thy ===== *)
theory Rumsh_Server_Net
  imports Rumsh_System Rumsh_Client_Arq
begin

text \<open>
  \<open>src/server/network.rs\<close>, \<open>run_server\<close> after the handshake: the closure that executes the session's
  actions, the background diff task with its in-flight flag, the cache of sealed fragments, and the tasks
  that feed the session.  \<open>ex_sent\<close> lists the datagrams handed to the socket; what happens to them on the way is
  the network's choice.  The diff task is a state machine of its own, since the other tasks run between its
  awaits: it computes, then sends one fragment after the other, then clears the flag.  A panic of the job
  unwinds the task before it clears the flag.

  Each step of a node is matched by steps of the system of \<open>Rumsh_System\<close>, so what is proved there of the
  abstract wire holds of the datagrams this code sends.
\<close>

section \<open>The executor\<close>

datatype 'c diff_task =
    Idle
  | Computing "'c UpdateJob" socket_addr
  | Sending "bytes list" socket_addr
  | Panicked

text \<open>The shutdown handler: it waits for the channel, then holds its packet and how often it has still to send it.\<close>

datatype close_task =
    Waiting
  | Closing nat bytes socket_addr

record 'c executor =
  ex_in_flight :: bool
  ex_cache :: "(u64 \<times> bytes list) list"
  ex_task :: "'c diff_task"
  ex_sent :: "(bytes \<times> socket_addr) list"
  ex_shutdown :: bool
  ex_closing :: close_task

definition executor_new :: "'c executor" where
  "executor_new = \<lparr>ex_in_flight = False, ex_cache = [], ex_task = Idle, ex_sent = [], ex_shutdown = False,
     ex_closing = Waiting\<rparr>"

text \<open>\<open>(received_mask[word_idx] & (1u64 << bit_idx)) != 0\<close>, false beyond the mask.\<close>

definition is_received :: "u64 list \<Rightarrow> nat \<Rightarrow> bool" where
  "is_received rmask idx =
     (let word_idx = idx div 64; bit_idx = idx mod 64 in
      if word_idx < length rmask then (rmask ! word_idx AND push_bit bit_idx 1) \<noteq> 0 else False)"

definition missing_packets :: "u64 list \<Rightarrow> bytes list \<Rightarrow> bytes list" where
  "missing_packets rmask packets = map snd (filter (\<lambda>(idx, _). \<not> is_received rmask idx) (enumerate 0 packets))"

definition cache_push :: "u64 \<Rightarrow> bytes list \<Rightarrow> (u64 \<times> bytes list) list \<Rightarrow> (u64 \<times> bytes list) list" where
  "cache_push seq packets cache = (if length cache \<ge> 4 then tl cache else cache) @ [(seq, packets)]"

fun execute_action :: "'c SessionAction \<Rightarrow> 'c executor \<Rightarrow> 'c executor" where
  "execute_action (Send_packet bs target) ex = ex\<lparr>ex_sent := ex_sent ex @ [(bs, target)]\<rparr>"
| "execute_action (OffloadDiffJob job target) ex =
     (if ex_in_flight ex then ex
      else ex\<lparr>ex_in_flight := True, ex_task := Computing job target\<rparr>)"
| "execute_action (ResendFragments frame_seq rmask target) ex =
     (case map_of (ex_cache ex) frame_seq of
        Some packets \<Rightarrow> ex\<lparr>ex_sent := ex_sent ex @ map (\<lambda>p. (p, target)) (missing_packets rmask packets)\<rparr>
      | None \<Rightarrow> ex)"
| "execute_action Shutdown_action ex = ex\<lparr>ex_shutdown := True\<rparr>"

definition execute_actions :: "'c SessionAction list \<Rightarrow> 'c executor \<Rightarrow> 'c executor" where
  "execute_actions actions ex = fold execute_action actions ex"

text \<open>One turn of the spawned diff task.\<close>

definition task_step :: "'c PacketCodec \<Rightarrow> 'c executor \<Rightarrow> 'c executor" where
  "task_step C ex =
     (case ex_task ex of
        Computing job target \<Rightarrow>
          (case UpdateJob_run C job of
             Inr packets \<Rightarrow>
               ex\<lparr>ex_cache := (if length packets > 1 then cache_push (job_seq job) packets (ex_cache ex) else ex_cache ex),
                  ex_task := Sending packets target\<rparr>
           | Inl e \<Rightarrow> if is_panic e then ex\<lparr>ex_task := Panicked\<rparr> else ex\<lparr>ex_task := Idle, ex_in_flight := False\<rparr>)
      | Sending (serialized # packets) target \<Rightarrow>
          ex\<lparr>ex_sent := ex_sent ex @ [(serialized, target)], ex_task := Sending packets target\<rparr>
      | Sending [] target \<Rightarrow> ex\<lparr>ex_task := Idle, ex_in_flight := False\<rparr>
      | _ \<Rightarrow> ex)"

section \<open>The server's tasks\<close>

record ('c, 'v, 'p) server_node =
  sn_session :: "('c, 'v, 'p) AuthoritativeSession"
  sn_exec :: "'c executor"
  sn_exited :: bool

definition server_node_new :: "('c, 'v, 'p) AuthoritativeSession \<Rightarrow> ('c, 'v, 'p) server_node" where
  "server_node_new s = \<lparr>sn_session = s, sn_exec = executor_new, sn_exited = False\<rparr>"

text \<open>What every task does with a result of the session: execute it, log an error, or unwind.\<close>

definition after_session ::
    "('c, 'v, 'p) server_node \<Rightarrow> ('c, 'v, 'p) AuthoritativeSession \<times> 'c SessionAction list res \<Rightarrow> ('c, 'v, 'p) server_node" where
  "after_session n r =
     (case r of
        (s, Inr actions) \<Rightarrow> n\<lparr>sn_session := s, sn_exec := execute_actions actions (sn_exec n)\<rparr>
      | (s, Inl e) \<Rightarrow> n\<lparr>sn_session := s, sn_exited := is_panic e\<rparr>)"

definition node_recv ::
    "'c PacketCodec \<Rightarrow> 'v ghostty \<Rightarrow> 'p pty_backend \<Rightarrow> ('c, 'v, 'p) server_node \<Rightarrow> bytes \<Rightarrow> socket_addr \<Rightarrow> instant
      \<Rightarrow> ('c, 'v, 'p) server_node" where
  "node_recv C G P n bs src_addr now = after_session n (server_feed_packet C G P (sn_session n) bs src_addr now)"

definition node_pty ::
    "'v ghostty \<Rightarrow> 'p pty_backend \<Rightarrow> ('c, 'v, 'p) server_node \<Rightarrow> bytes option \<Rightarrow> instant \<Rightarrow> ('c, 'v, 'p) server_node" where
  "node_pty G P n received now =
     (case received of
        Some data \<Rightarrow> n\<lparr>sn_session := on_pty_bytes G P (sn_session n) data now\<rparr>
      | None \<Rightarrow> n\<lparr>sn_exec := (sn_exec n)\<lparr>ex_shutdown := True\<rparr>\<rparr>)"

definition node_tick ::
    "'v ghostty \<Rightarrow> 'p pty_backend \<Rightarrow> ('c, 'v, 'p) server_node \<Rightarrow> instant \<Rightarrow> ('c, 'v, 'p) server_node" where
  "node_tick G P n now =
     (if ex_in_flight (sn_exec n) then n else after_session n (server_on_tick G P (sn_session n) now))"

definition node_task :: "'c PacketCodec \<Rightarrow> ('c, 'v, 'p) server_node \<Rightarrow> ('c, 'v, 'p) server_node" where
  "node_task C n = n\<lparr>sn_exec := task_step C (sn_exec n)\<rparr>"

text \<open>One turn of the shutdown handler: it prepares its packet when the channel has a message, sends it three times with
  an await after each, and ends the process.\<close>

definition node_shutdown :: "'c PacketCodec \<Rightarrow> ('c, 'v, 'p) server_node \<Rightarrow> ('c, 'v, 'p) server_node" where
  "node_shutdown C n =
     (case ex_closing (sn_exec n) of
        Waiting \<Rightarrow>
          if ex_shutdown (sn_exec n) then
            (case prepare_shutdown C (sn_session n) of
               (s, Inr (Send_packet bs target)) \<Rightarrow>
                 n\<lparr>sn_session := s, sn_exec := (sn_exec n)\<lparr>ex_closing := Closing 3 bs target\<rparr>\<rparr>
             | (s, _) \<Rightarrow> n\<lparr>sn_session := s, sn_exited := True\<rparr>)
          else n
      | Closing (Suc left) bs target \<Rightarrow>
          n\<lparr>sn_exec := (sn_exec n)\<lparr>ex_sent := ex_sent (sn_exec n) @ [(bs, target)], ex_closing := Closing left bs target\<rparr>\<rparr>
      | Closing 0 bs target \<Rightarrow> n\<lparr>sn_exited := True\<rparr>)"

text \<open>The tasks interleave at their awaits.  A signal ends the run loop at any time.\<close>

inductive node_step ::
    "'c PacketCodec \<Rightarrow> 'v ghostty \<Rightarrow> 'p pty_backend \<Rightarrow> ('c, 'v, 'p) server_node \<Rightarrow> ('c, 'v, 'p) server_node \<Rightarrow> bool"
  for C G P n where
  ns_recv: "\<not> sn_exited n \<Longrightarrow> node_step C G P n (node_recv C G P n bs src now)"
| ns_pty: "\<not> sn_exited n \<Longrightarrow> node_step C G P n (node_pty G P n received now)"
| ns_tick: "\<not> sn_exited n \<Longrightarrow> node_step C G P n (node_tick G P n now)"
| ns_task: "\<not> sn_exited n \<Longrightarrow> node_step C G P n (node_task C n)"
| ns_shutdown: "\<not> sn_exited n \<Longrightarrow> node_step C G P n (node_shutdown C n)"
| ns_signal: "\<not> sn_exited n \<Longrightarrow> node_step C G P n (n\<lparr>sn_exited := True\<rparr>)"

inductive_cases node_stepE: "node_step C G P n n'"
lemmas node_step_cases [consumes 1, case_names recv pty tick task shutdown signal] = node_stepE

section \<open>The executor's invariant\<close>

definition executor_wf :: "'c executor \<Rightarrow> bool" where
  "executor_wf ex \<longleftrightarrow> (ex_in_flight ex \<longleftrightarrow> ex_task ex \<noteq> Idle) \<and> length (ex_cache ex) \<le> 4
     \<and> (\<forall>(q, packets) \<in> set (ex_cache ex). length packets > 1)"

lemma executor_new_wf [simp]: "executor_wf executor_new"
  by (simp add: executor_wf_def executor_new_def)

lemma execute_action_wf: "executor_wf ex \<Longrightarrow> executor_wf (execute_action a ex)"
  by (cases a) (auto simp: executor_wf_def split: option.splits)

lemma execute_actions_wf [rumsh_inv]: "executor_wf ex \<Longrightarrow> executor_wf (execute_actions actions ex)"
  unfolding execute_actions_def by (induction actions arbitrary: ex) (simp_all add: execute_action_wf)

lemma cache_push_wf:
  assumes "length cache \<le> 4" "\<forall>(q, ps) \<in> set cache. length ps > 1" "length packets > 1"
  shows "length (cache_push seq packets cache) \<le> 4" "\<forall>(q, ps) \<in> set (cache_push seq packets cache). length ps > 1"
  using assms by (auto simp: cache_push_def dest: list.set_sel(2) split: if_splits) (cases cache; force)+

lemma task_step_wf [rumsh_inv]: "executor_wf ex \<Longrightarrow> executor_wf (task_step C ex)"
  using cache_push_wf [of "ex_cache ex"]
  by (auto simp: executor_wf_def task_step_def split: diff_task.splits sum.splits list.splits)

lemma after_session_exec: "sn_exec (after_session n r) = execute_actions (acts_of (snd r)) (sn_exec n)"
  by (cases r; cases "snd r") (auto simp: after_session_def execute_actions_def)

lemma after_session_session [simp]: "sn_session (after_session n r) = fst r"
  by (cases r; cases "snd r") (auto simp: after_session_def)

lemma node_step_wf [rumsh_inv]:
  assumes "node_step C G P n n'" "executor_wf (sn_exec n)"
  shows "executor_wf (sn_exec n')"
  using assms
proof (cases rule: node_step_cases)
  case (shutdown)
  then show ?thesis using assms(2)
    by (auto simp: node_shutdown_def executor_wf_def split: close_task.splits nat.splits prod.splits sum.splits SessionAction.splits)
qed (auto simp: node_recv_def node_tick_def node_pty_def node_task_def after_session_exec execute_actions_wf task_step_wf
    executor_wf_def [of "_\<lparr>ex_shutdown := _\<rparr>"] executor_wf_def [of "sn_exec n"] split: option.splits)

lemma node_run_wf:
  assumes "(node_step C G P)\<^sup>*\<^sup>* (server_node_new s0) n"
  shows "executor_wf (sn_exec n)"
  using assms by (induction rule: rtranclp_induct) (auto simp: server_node_new_def node_step_wf)

section \<open>The node implements the system\<close>

text \<open>Everything the executor sends, caches or is about to send is on the wire \<open>W\<close>; its job is one of \<open>J\<close>.\<close>

definition traced :: "bytes set \<Rightarrow> 'c UpdateJob set \<Rightarrow> 'c executor \<Rightarrow> bool" where
  "traced W J ex \<longleftrightarrow> fst ` set (ex_sent ex) \<subseteq> W \<and> (\<forall>(q, packets) \<in> set (ex_cache ex). set packets \<subseteq> W)
     \<and> (case ex_task ex of Computing job t \<Rightarrow> job \<in> J | Sending packets t \<Rightarrow> set packets \<subseteq> W | _ \<Rightarrow> True)
     \<and> (case ex_closing ex of Closing k bs t \<Rightarrow> bs \<in> W | Waiting \<Rightarrow> True)"

lemma traced_mono: "traced W J ex \<Longrightarrow> W \<subseteq> W' \<Longrightarrow> J \<subseteq> J' \<Longrightarrow> traced W' J' ex"
  unfolding traced_def by (cases "ex_task ex"; cases "ex_closing ex") (auto simp: subset_iff)

lemma output_Cons: "sent_by (a # acts) = sent_by [a] \<union> sent_by acts" "jobs_in (a # acts) = jobs_in [a] \<union> jobs_in acts"
  by (auto simp: sent_by_def jobs_in_def)

lemma traced_shutdown [simp]: "traced W J (ex\<lparr>ex_shutdown := b\<rparr>) = traced W J ex"
  by (simp add: traced_def)

lemma set_missing_packets: "set (missing_packets rmask packets) \<subseteq> set packets"
  by (auto simp: missing_packets_def in_set_enumerate_eq)

lemma execute_action_traced:
  assumes "traced W J ex" "sent_by [a] \<subseteq> W" "jobs_in [a] \<subseteq> J"
  shows "traced W J (execute_action a ex)"
proof (cases a)
  case (ResendFragments q rmask t)
  show ?thesis
  proof (cases "map_of (ex_cache ex) q")
    case (Some packets)
    then have "set packets \<subseteq> W" using assms(1) by (fastforce simp: traced_def dest: map_of_SomeD)
    then show ?thesis using assms(1) ResendFragments Some set_missing_packets [of rmask packets] by (auto simp: traced_def image_image)
  qed (use assms ResendFragments in simp)
qed (use assms in \<open>auto simp: traced_def sent_by_def jobs_in_def\<close>)

lemma execute_actions_traced:
  "traced W J ex \<Longrightarrow> sent_by acts \<subseteq> W \<Longrightarrow> jobs_in acts \<subseteq> J \<Longrightarrow> traced W J (execute_actions acts ex)"
  unfolding execute_actions_def
proof (induction acts arbitrary: ex)
  case (Cons a acts)
  then have "traced W J (execute_action a ex)" "sent_by acts \<subseteq> W" "jobs_in acts \<subseteq> J"
    using output_Cons [of a acts] by (auto intro!: execute_action_traced)
  with Cons.IH show ?case by simp
qed simp

lemma cache_push_traced:
  "(q, ps) \<in> set (cache_push seq packets cache) \<Longrightarrow> (q, ps) \<in> set cache \<or> ps = packets"
  by (auto simp: cache_push_def split: if_splits) (metis list.set_sel(2) tl_Nil)

record ('c, 'v, 'p, 'f) program =
  pg_node :: "('c, 'v, 'p) server_node"
  pg_client :: "('c, 'f) MirrorSession"

text \<open>The bounds of a frame that the system's job step asks for.\<close>

definition task_fits :: "'c PacketCodec \<Rightarrow> 'c executor \<Rightarrow> bool" where
  "task_fits C ex \<longleftrightarrow>
     (case ex_task ex of
        Computing job _ \<Rightarrow> grid_fits (job_current_state job)
          \<and> (case UpdateJob_run C job of Inr packets \<Rightarrow> length packets < 65536 | Inl _ \<Rightarrow> True)
      | _ \<Rightarrow> True)"

inductive program_step ::
    "'c PacketCodec \<Rightarrow> 'v ghostty \<Rightarrow> 'p pty_backend \<Rightarrow> 'f f32_ops \<Rightarrow> ('c, 'v, 'p, 'f) program \<Rightarrow> ('c, 'v, 'p, 'f) program \<Rightarrow> bool"
  for C G P F where
  ps_server: "node_step C G P (pg_node g) n' \<Longrightarrow> seq_room (sn_session (pg_node g)) \<Longrightarrow> task_fits C (sn_exec (pg_node g)) \<Longrightarrow>
    program_step C G P F g (g\<lparr>pg_node := n'\<rparr>)"
| ps_client: "client_event C F (fst ` set (ex_sent (sn_exec (pg_node g)))) (pg_client g) c' \<Longrightarrow>
    program_step C G P F g (g\<lparr>pg_client := c'\<rparr>)"

definition implements :: "('c, 'v, 'p, 'f) program \<Rightarrow> ('c, 'v, 'p, 'f) system \<Rightarrow> bool" where
  "implements g y \<longleftrightarrow> sy_server y = sn_session (pg_node g) \<and> sy_client y = pg_client g
     \<and> traced (sy_wire y) (sy_jobs y) (sn_exec (pg_node g))"

text \<open>A step of the session and the execution of its actions is one server step of the system.\<close>

lemma server_event_simulated:
  assumes "implements g y" "reachable C G P F y0 y" "server_event C G P (sn_session (pg_node g)) acts s'"
    and "seq_room (sn_session (pg_node g))" "sn_session n' = s'"
    and "\<And>W J. traced W J (sn_exec (pg_node g)) \<Longrightarrow> sent_by acts \<subseteq> W \<Longrightarrow> jobs_in acts \<subseteq> J \<Longrightarrow> traced W J (sn_exec n')"
  shows "\<exists>y'. reachable C G P F y0 y' \<and> implements (g\<lparr>pg_node := n'\<rparr>) y'"
proof -
  let ?y = "y\<lparr>sy_server := s', sy_jobs := jobs_in acts \<union> sy_jobs y,
      sy_wire := sent_by acts \<union> sy_wire y, sy_frames := record_frames acts (sy_frames y)\<rparr>"
  have "sys_step C G P F y ?y" using assms(1,3,4) by (intro st_server) (simp_all add: implements_def)
  moreover have "traced (sy_wire ?y) (sy_jobs ?y) (sn_exec n')"
    using assms(1) by (intro assms(6)) (auto simp: implements_def elim: traced_mono)
  ultimately show ?thesis
    using assms(1,2,5) reach_step by (fastforce simp: implements_def)
qed

lemma after_session_simulated:
  assumes "implements g y" "reachable C G P F y0 y" "seq_room (sn_session (pg_node g))"
    and "server_event C G P (sn_session (pg_node g)) (acts_of (snd r)) (fst r)"
  shows "\<exists>y'. reachable C G P F y0 y' \<and> implements (g\<lparr>pg_node := after_session (pg_node g) r\<rparr>) y'"
  by (rule server_event_simulated [OF assms(1,2,4,3)]) (simp_all add: after_session_exec execute_actions_traced)

lemma task_simulated:
  assumes "implements g y" "reachable C G P F y0 y" "task_fits C (sn_exec (pg_node g))"
  shows "\<exists>y'. reachable C G P F y0 y' \<and> implements (g\<lparr>pg_node := node_task C (pg_node g)\<rparr>) y'"
proof (cases "\<exists>job t packets. ex_task (sn_exec (pg_node g)) = Computing job t \<and> UpdateJob_run C job = Inr packets")
  case True
  then obtain job t packets where job: "ex_task (sn_exec (pg_node g)) = Computing job t" "UpdateJob_run C job = Inr packets" by blast
  let ?y = "y\<lparr>sy_wire := set packets \<union> sy_wire y\<rparr>"
  have "sys_step C G P F y ?y"
    using assms(1,3) job by (intro st_job [where job = job]) (auto simp: implements_def traced_def task_fits_def)
  then have "reachable C G P F y0 ?y" using assms(2) reach_step by blast
  moreover have "implements (g\<lparr>pg_node := node_task C (pg_node g)\<rparr>) ?y"
    using assms(1) job by (auto simp: implements_def node_task_def task_step_def traced_def dest!: cache_push_traced split: close_task.splits)
  ultimately show ?thesis by blast
next
  case False
  then have "implements (g\<lparr>pg_node := node_task C (pg_node g)\<rparr>) y"
    using assms(1) by (auto simp: implements_def node_task_def task_step_def traced_def split: diff_task.splits sum.splits list.splits)
  with assms(2) show ?thesis by blast
qed

lemma node_step_simulated:
  assumes "implements g y" "reachable C G P F y0 y" "node_step C G P (pg_node g) n'"
    and "seq_room (sn_session (pg_node g))" "task_fits C (sn_exec (pg_node g))"
  shows "\<exists>y'. reachable C G P F y0 y' \<and> implements (g\<lparr>pg_node := n'\<rparr>) y'"
  using assms(3)
proof (cases rule: node_step_cases)
  case (recv bs src now)
  then show ?thesis using assms(1,2,4)
    by (auto simp: node_recv_def intro!: after_session_simulated se_packet [where bs = bs and addr = src and now = now])
next
  case (pty received now)
  show ?thesis
  proof (cases received)
    case None
    then show ?thesis using assms(1,2) pty by (auto simp: node_pty_def implements_def)
  next
    case (Some data)
    then show ?thesis using pty
      by (intro server_event_simulated [OF assms(1,2) se_pty [where data = data and now = now] assms(4)]) (simp_all add: node_pty_def)
  qed
next
  case (tick now)
  show ?thesis
  proof (cases "ex_in_flight (sn_exec (pg_node g))")
    case True
    then show ?thesis using assms(1,2) tick by (auto simp: node_tick_def)
  next
    case False
    then show ?thesis using assms(1,2,4) tick
      by (auto simp: node_tick_def intro!: after_session_simulated se_tick [where now = now])
  qed
next
  case task
  then show ?thesis using task_simulated [OF assms(1,2,5)] by simp
next
  case shutdown
  obtain s r where ps: "prepare_shutdown C (sn_session (pg_node g)) = (s, r)" by force
  note sim = server_event_simulated [OF assms(1,2) se_shutdown [OF ps] assms(4), of n']
  show ?thesis
  proof (cases "ex_shutdown (sn_exec (pg_node g)) \<and> ex_closing (sn_exec (pg_node g)) = Waiting")
    case True
    then show ?thesis using shutdown ps
      by (intro sim) (auto simp: node_shutdown_def traced_def sent_by_def split: sum.splits SessionAction.splits)
  next
    case False
    then have "implements (g\<lparr>pg_node := n'\<rparr>) y"
      using assms(1) shutdown by (auto simp: node_shutdown_def implements_def traced_def split: close_task.splits nat.splits)
    with assms(2) show ?thesis by blast
  qed
next
  case signal
  then show ?thesis using assms(1,2) by (auto simp: implements_def)
qed

lemma client_event_mono: "client_event C F W c c' \<Longrightarrow> W \<subseteq> W' \<Longrightarrow> client_event C F W' c c'"
  by (erule client_eventE) (auto intro: client_event.intros)

lemma program_step_simulated:
  assumes "program_step C G P F g g'" "implements g y" "reachable C G P F y0 y"
  shows "\<exists>y'. reachable C G P F y0 y' \<and> implements g' y'"
  using assms(1)
proof cases
  case (ps_server n')
  then show ?thesis using node_step_simulated [OF assms(2,3)] by simp
next
  case (ps_client c')
  then have "client_event C F (sy_wire y) (sy_client y) c'"
    using assms(2) by (auto simp: implements_def traced_def elim: client_event_mono)
  then have "reachable C G P F y0 (y\<lparr>sy_client := c'\<rparr>)" using assms(3) reach_step st_client by blast
  moreover have "implements g' (y\<lparr>sy_client := c'\<rparr>)" using assms(2) ps_client by (simp add: implements_def)
  ultimately show ?thesis by blast
qed

lemma program_implements:
  assumes "(program_step C G P F)\<^sup>*\<^sup>* \<lparr>pg_node = server_node_new s0, pg_client = c0\<rparr> g"
  shows "\<exists>y. reachable C G P F (sys_init s0 c0) y \<and> implements g y"
  using assms
proof (induction rule: rtranclp_induct)
  case base
  have "implements \<lparr>pg_node = server_node_new s0, pg_client = c0\<rparr> (sys_init s0 c0)"
    by (simp add: implements_def server_node_new_def sys_init_def traced_def executor_new_def)
  then show ?case using reach_start by blast
next
  case (step g g')
  then show ?case using program_step_simulated by blast
qed

section \<open>Resending\<close>

context wire_lib
begin

text \<open>What a report says about the buffer: the entry it was computed from counts the frame's fragments.\<close>

lemma nacked_entry:
  assumes "seal_server (chacha_codec L) c seq ack payload = Inr packets" "length packets < 65536"
    and "chacha_cfg c' = chacha_cfg c" "chacha_honest L S c'" "S seq = Some (ack, payload)"
    and "map_of (incomplete_frames (chacha_codec L) c') seq = Some rmask"
  obtains tot wl frags where "map_of (cc_fragment_buffer c') seq = Some (tot, wl, frags)"
    "rmask = received_mask tot frags" "length packets = unat tot" "entry_wf (tot, wl, frags)"
proof -
  let ?buf = "cc_fragment_buffer c'" and ?ct = "log_ct (chacha_ct L (cc_crypto c')) S"
  obtain pb ct where ct: "serialize_all (server_packet L) (fragment_packets seq ack ct) = Inr packets"
    "chacha_ct L (cc_crypto c') payload seq = Inr ct"
    using chacha_seal_server_Inr [OF assms(1)] assms(3) by (metis chacha_cfg_def prod.inject)
  have seq: "?ct seq = ct" using assms(5) ct(2) by (simp add: log_ct_def)
  have buf: "buffer_wf ?buf" "honest_buffer ?ct ?buf"
    using assms(4) by (simp_all add: chacha_honest_def buffer_honest_def)
  then have "incomplete_frames (chacha_codec L) c' = map (\<lambda>(seq, tot, _, frags). (seq, received_mask tot frags)) ?buf"
    by (simp add: chacha_codec_def get_incomplete_frames_map buffer_wf_def)
  moreover have "map_of (map (\<lambda>(seq, tot, _, frags). (seq, received_mask tot frags)) xs) seq
      = map_option (\<lambda>(tot, _, frags). received_mask tot frags) (map_of xs seq)" for xs :: fragment_buffer
    by (induction xs) auto
  ultimately obtain tot wl frags where e: "map_of ?buf seq = Some (tot, wl, frags)" "rmask = received_mask tot frags"
    using assms(6) by (auto split: prod.splits)
  then have "(seq, tot, wl, frags) \<in> set ?buf" by (simp add: map_of_SomeD)
  then have w: "entry_wf (tot, wl, frags)" "honest_entry ct (tot, wl, frags)"
    using buf seq by (force simp: buffer_wf_def honest_buffer_def)+
  then have "length (frag_chunks ct) > 1" by (cases frags) (auto simp: entry_wf_def honest_entry_def)
  then have "\<not> length ct \<le> FRAGMENT_PAYLOAD_SIZE" by (auto simp: length_chunks FRAGMENT_PAYLOAD_SIZE_def)
  then have "length packets = unat tot"
    using serialize_all_Inr(1) [OF ct(1)] w(2) by (simp add: length_fragment_packets honest_entry_def)
  then show thesis using that e w(1) by blast
qed

end

lemma is_received_mask_bit: "is_received rmask i \<longleftrightarrow> mask_bit rmask i"
  by (simp add: is_received_def mask_bit_def Let_def bit_iff_and_push_bit_not_eq_0)

lemma missing_packets_nth:
  "missing_packets rmask packets = map ((!) packets) (filter (\<lambda>i. \<not> mask_bit rmask i) [0..<length packets])"
proof -
  have "enumerate 0 packets = map (\<lambda>i. (i, packets ! i)) [0..<length packets]"
    by (intro nth_equalityI) (simp_all add: nth_enumerate_eq)
  then show ?thesis by (simp add: missing_packets_def is_received_mask_bit filter_map o_def)
qed

section \<open>Quiet sessions\<close>

text \<open>A session with nothing to send: no tick produces an action until something else happens.\<close>

definition quiet :: "('c, 'v, 'p) AuthoritativeSession \<Rightarrow> bool" where
  "quiet s \<longleftrightarrow> \<not> as_dirty s \<and> as_ack_seq_num s \<le> as_last_sent_ack_seq s"

lemma quiet_tick:
  assumes "quiet s"
  shows "snd (server_on_tick G P s now) = Inr []" "quiet (fst (server_on_tick G P s now))"
  using assms by (auto simp: quiet_def server_on_tick_def check_sync_def Let_def)

text \<open>The timer and the diff task, in any order, and what the task has still to send.\<close>

datatype turn = Timer_tick instant | Diff_turn

fun server_turn :: "'c PacketCodec \<Rightarrow> 'v ghostty \<Rightarrow> 'p pty_backend \<Rightarrow> turn \<Rightarrow> ('c, 'v, 'p) server_node \<Rightarrow> ('c, 'v, 'p) server_node" where
  "server_turn C G P (Timer_tick now) n = node_tick G P n now"
| "server_turn C G P Diff_turn n = node_task C n"

definition unsent :: "'c PacketCodec \<Rightarrow> 'c diff_task \<Rightarrow> (bytes \<times> socket_addr) list" where
  "unsent C task =
     (case task of
        Computing job target \<Rightarrow> (case UpdateJob_run C job of Inr packets \<Rightarrow> map (\<lambda>p. (p, target)) packets | Inl _ \<Rightarrow> [])
      | Sending packets target \<Rightarrow> map (\<lambda>p. (p, target)) packets
      | _ \<Rightarrow> [])"

definition task_ends :: "'c PacketCodec \<Rightarrow> 'c diff_task \<Rightarrow> bool" where
  "task_ends C task =
     (case task of
        Computing job target \<Rightarrow> (case UpdateJob_run C job of Inr _ \<Rightarrow> True | Inl e \<Rightarrow> \<not> is_panic e)
      | Panicked \<Rightarrow> False
      | _ \<Rightarrow> True)"

lemma task_step_unsent: "ex_sent (task_step C ex) @ unsent C (ex_task (task_step C ex)) = ex_sent ex @ unsent C (ex_task ex)"
  by (auto simp: task_step_def unsent_def split: diff_task.splits sum.splits list.splits)

lemma task_steps_unsent:
  "ex_sent ((task_step C ^^ k) ex) @ unsent C (ex_task ((task_step C ^^ k) ex)) = ex_sent ex @ unsent C (ex_task ex)"
  by (induction k) (simp_all add: task_step_unsent)

lemma idle_stays: "ex_task ex = Idle \<Longrightarrow> (task_step C ^^ k) ex = ex"
  by (induction k) (simp_all add: task_step_def)

lemma sending_ends:
  "ex_task ex = Sending packets target \<Longrightarrow> length packets < k \<Longrightarrow>
   ex_task ((task_step C ^^ k) ex) = Idle \<and> \<not> ex_in_flight ((task_step C ^^ k) ex)"
proof (induction packets arbitrary: ex k)
  case Nil
  then obtain j where k: "k = Suc j" by (cases k) auto
  have "ex_task (task_step C ex) = Idle" "\<not> ex_in_flight (task_step C ex)" using Nil.prems(1) by (simp_all add: task_step_def)
  then show ?case using idle_stays [of "task_step C ex" j C] by (simp add: k funpow_swap1)
next
  case (Cons p packets)
  then obtain j where k: "k = Suc j" by (cases k) auto
  have "ex_task (task_step C ex) = Sending packets target" using Cons.prems(1) by (simp add: task_step_def)
  from Cons.IH [OF this, of j] Cons.prems(2) show ?case by (simp add: k funpow_swap1)
qed

lemma task_runs_out:
  assumes "executor_wf ex" "task_ends C (ex_task ex)" "length (unsent C (ex_task ex)) + 2 \<le> k"
  shows "ex_task ((task_step C ^^ k) ex) = Idle \<and> \<not> ex_in_flight ((task_step C ^^ k) ex)"
proof (cases "ex_task ex")
  case Idle
  then show ?thesis using assms(1) idle_stays [OF Idle, of k C] by (simp add: executor_wf_def)
next
  case (Computing job target)
  obtain j where k: "k = Suc j" using assms(3) by (cases k) auto
  show ?thesis
  proof (cases "UpdateJob_run C job")
    case (Inl e)
    then have "ex_task (task_step C ex) = Idle" "\<not> ex_in_flight (task_step C ex)"
      using assms(2) Computing by (simp_all add: task_step_def task_ends_def)
    then show ?thesis using idle_stays [of "task_step C ex" j C] by (simp add: k funpow_swap1)
  next
    case (Inr packets)
    then have "ex_task (task_step C ex) = Sending packets target" using Computing by (simp add: task_step_def)
    from sending_ends [OF this, of j C] show ?thesis using assms(3) Computing Inr by (simp add: k funpow_swap1 unsent_def)
  qed
next
  case (Sending packets target)
  then show ?thesis using sending_ends [OF Sending, of k C] assms(3) by (simp add: unsent_def)
qed (use assms(2) in \<open>simp add: task_ends_def\<close>)

lemma quiet_turns:
  assumes "quiet (sn_session n)"
  shows "sn_exec (fold (server_turn C G P) turns n) = (task_step C ^^ count_list turns Diff_turn) (sn_exec n)"
  using assms
proof (induction turns arbitrary: n)
  case (Cons x turns)
  show ?case
  proof (cases x)
    case (Timer_tick now)
    have "quiet (sn_session (node_tick G P n now))" "sn_exec (node_tick G P n now) = sn_exec n"
      using quiet_tick [OF Cons.prems, of G P now] Cons.prems by (auto simp: node_tick_def after_session_exec execute_actions_def)
    with Cons.IH [of "node_tick G P n now"] show ?thesis by (simp add: Timer_tick)
  next
    case Diff_turn
    have "quiet (sn_session (node_task C n))" using Cons.prems by (simp add: node_task_def)
    from Cons.IH [OF this] show ?thesis by (simp add: Diff_turn funpow_swap1) (simp add: node_task_def)
  qed
qed simp

lemma check_sync_quiet:
  assumes "check_sync G P s now = (s', Inr acts)" "acts \<noteq> []"
  shows "quiet s'"
  using assms
  by (auto simp: check_sync_def Let_def queue_frame_eq quiet_def split: if_splits prod.splits sum.splits err.splits)

definition no_job :: "'c SessionAction list \<Rightarrow> bool" where
  "no_job acts \<longleftrightarrow> (\<forall>job t. OffloadDiffJob job t \<notin> set acts)"

lemma no_job_simps [simp]: "no_job []" "no_job (send_all packets t)" "no_job (a @ b) \<longleftrightarrow> no_job a \<and> no_job b"
  by (auto simp: no_job_def send_all_def)

lemma process_payload_no_job: "process_payload C G P s payload = (s', Inr acts) \<Longrightarrow> no_job acts"
  by (auto simp: process_payload_def Let_def no_job_def [of "[_]"] split: ClientPayload.splits sum.splits)

lemma process_payloads_no_job: "process_payloads C G P s ps = (s', Inr acts) \<Longrightarrow> no_job acts"
proof (induction ps arbitrary: s acts)
  case (Cons x ps)
  obtain q payload where x: "x = (q, payload)" by (cases x)
  with Cons show ?case
    by (auto simp: st_then_def dest: process_payload_no_job split: prod.splits sum.splits)
qed simp

lemma then_sync_quiet:
  assumes "then_sync G P s now a = (s', Inr acts)" "no_job a" "OffloadDiffJob job t \<in> set acts"
  shows "quiet s'"
proof -
  from assms(1) obtain more where "check_sync G P s now = (s', Inr more)" "acts = a @ more"
    by (auto simp: then_sync_def st_then_def split: prod.splits sum.splits)
  moreover from this(2) assms(2,3) have "more \<noteq> []" by (cases t) (auto simp: no_job_def)
  ultimately show ?thesis using check_sync_quiet by blast
qed

lemma feed_packet_job_quiet:
  assumes "server_feed_packet C G P s bs addr now = (s', Inr acts)" "OffloadDiffJob job t \<in> set acts"
  shows "quiet s'"
proof -
  have "handle_in_order C G P s1 seq ack payload now = (s', Inr acts) \<Longrightarrow> quiet s'" for s1 seq ack payload
    using assms(2) by (auto simp: handle_in_order_def Let_def st_then_def split: prod.splits sum.splits
        dest: process_payloads_no_job then_sync_quiet simp del: process_payloads.simps)
  moreover have "handle_transient G P s1 ack payload now = (s', Inr acts) \<Longrightarrow> quiet s'" for s1 ack payload
    using assms(2) by (auto simp: handle_transient_def Let_def no_job_def [of "[_]"] split: ClientPayload.splits if_splits
        elim!: then_sync_quiet [rotated 2])
  moreover have "handle_handshake C G P s1 seq addr now = (s', Inr acts) \<Longrightarrow> quiet s'" for s1 seq
    using assms(2) by (auto simp: handle_handshake_def Let_def split: sum.splits if_splits elim!: then_sync_quiet [rotated 2])
  ultimately show ?thesis using assms
    by (auto simp: server_feed_packet_def Let_def split: sum.splits prod.splits if_splits)
qed

lemma in_flight_keeps_task:
  assumes "ex_in_flight ex"
  shows "ex_task (execute_actions acts ex) = ex_task ex \<and> ex_in_flight (execute_actions acts ex)"
  using assms unfolding execute_actions_def
proof (induction acts arbitrary: ex)
  case (Cons a acts)
  then have "ex_task (execute_action a ex) = ex_task ex" "ex_in_flight (execute_action a ex)"
    by (cases a; simp split: option.split)+
  with Cons.IH show ?case by simp
qed simp

section \<open>Properties\<close>

text \<open>C12: The server's network code implements the abstract system.  Whatever interleaving of datagrams, PTY output, ticks,
  turns of the diff task, shutdown and client events a run of the program takes, some run of the abstract
  system reaches a state with the same server session and the same client session, in which every
  datagram the program has sent is on the wire.  Skipped jobs and resent fragments included.\<close>

theorem program_refines_system:
  assumes "(program_step C G P F)\<^sup>*\<^sup>* \<lparr>pg_node = server_node_new s0, pg_client = c0\<rparr> g"
  shows "\<exists>y. reachable C G P F (sys_init s0 c0) y \<and> sy_server y = sn_session (pg_node g) \<and> sy_client y = pg_client g
    \<and> fst ` set (ex_sent (sn_exec (pg_node g))) \<subseteq> sy_wire y"
  using program_implements [OF assms] by (auto simp: implements_def traced_def)

text \<open>A short run: the first tick queues a frame, the diff task seals it and sends it.\<close>

definition tiny_node :: "(ChaChaCodec, u8, tty_device PtyBridge) server_node" where
  "tiny_node = node_tick tiny_vt (pty_bridge sample_tty) (server_node_new sample_session) 0"

lemma tiny_node_props:
  "\<exists>job t b. ex_task (sn_exec tiny_node) = Computing job t \<and> UpdateJob_run (chacha_codec ref_lib) job = Inr [b]
    \<and> grid_fits (job_current_state job) \<and> ex_sent (sn_exec tiny_node) = [] \<and> ex_in_flight (sn_exec tiny_node)"
  "seq_room (sn_session tiny_node)" "\<not> sn_exited tiny_node"
proof -
  obtain s job t where tick: "server_on_tick tiny_vt (pty_bridge sample_tty) sample_session 0 = (s, Inr [OffloadDiffJob job t])"
    and job: "job_seq job = 1" "job_ack_seq job = 4" "job_ref_seq job = 0" "job_ref_state job = None"
      "job_current_state job = grid_of (tiny_snapshot 32)" "job_codec job = ChaChaCodec_new [1, 2] 9"
    using sample_tick by blast
  obtain b where b: "seal_server (chacha_codec ref_lib) (ChaChaCodec_new [1, 2] 9) 1 4 (Frame (tiny_update_frame (job_is_echo_recommended job))) = Inr [b]"
    using tiny_sealed by blast
  have n: "tiny_node = \<lparr>sn_session = s, sn_exec = executor_new\<lparr>ex_in_flight := True, ex_task := Computing job t\<rparr>, sn_exited = False\<rparr>"
    using tick by (simp add: tiny_node_def node_tick_def server_node_new_def after_session_def execute_actions_def executor_new_def)
  have "UpdateJob_run (chacha_codec ref_lib) job = Inr [b]" using b by (simp add: UpdateJob_run_def job tiny_diff)
  moreover have "grid_fits (job_current_state job)" by (simp add: job grid_fits_def grid_of_def tiny_snapshot_def)
  ultimately show "\<exists>job t b. ex_task (sn_exec tiny_node) = Computing job t \<and> UpdateJob_run (chacha_codec ref_lib) job = Inr [b]
      \<and> grid_fits (job_current_state job) \<and> ex_sent (sn_exec tiny_node) = [] \<and> ex_in_flight (sn_exec tiny_node)"
    unfolding n by (intro exI [of _ job] exI [of _ t] exI [of _ b]) (simp add: executor_new_def)
  have "seq_room (fst (server_on_tick tiny_vt (pty_bridge sample_tty) sample_session 0))"
  proof -
    obtain ts where u: "update_and_get_state tiny_vt (as_term_state sample_session) = (ts, Inr (grid_of (tiny_snapshot 32)))" using tiny_update by blast
    have f: "as_seq_num sample_session = 0" "as_ack_seq_num sample_session = 4" "as_last_sent_ack_seq sample_session = 0" "as_state_history sample_session = []"
      "as_client_ack_seq sample_session = 0" "as_pty_bytes_acc sample_session = 0" "as_last_pty_bytes_time sample_session = 0"
      by (simp_all add: sample_session_def AuthoritativeSession_new_def ServerTerminalState_new_def tiny_vt_def)
    show ?thesis
      using u by (simp add: server_on_tick_def check_sync_def f Let_def queue_frame_eq duration_since_def from_millis_def seq_room_def)
  qed
  then show "seq_room (sn_session tiny_node)" "\<not> sn_exited tiny_node" using tick unfolding n by simp_all
qed

theorem program_refines_system_witness:
  "\<exists>g y b t. (program_step (chacha_codec ref_lib) tiny_vt (pty_bridge sample_tty) unit_f32)\<^sup>*\<^sup>*
      \<lparr>pg_node = server_node_new sample_session, pg_client = tiny_client\<rparr> g
    \<and> ex_sent (sn_exec (pg_node g)) = [(b, t)]
    \<and> reachable (chacha_codec ref_lib) tiny_vt (pty_bridge sample_tty) unit_f32 (sys_init sample_session tiny_client) y \<and> b \<in> sy_wire y"
proof -
  let ?C = "chacha_codec ref_lib" and ?P = "pty_bridge sample_tty"
  let ?step = "program_step ?C tiny_vt ?P unit_f32" and ?g0 = "\<lparr>pg_node = server_node_new sample_session, pg_client = tiny_client\<rparr>"
  obtain job t b where job: "ex_task (sn_exec tiny_node) = Computing job t" "UpdateJob_run ?C job = Inr [b]"
    "grid_fits (job_current_state job)" "ex_sent (sn_exec tiny_node) = []" using tiny_node_props(1) by blast
  let ?n2 = "node_task ?C tiny_node" let ?n3 = "node_task ?C ?n2"
  have n2: "ex_task (sn_exec ?n2) = Sending [b] t" "ex_sent (sn_exec ?n2) = []" using job by (simp_all add: node_task_def task_step_def)
  have n3: "ex_sent (sn_exec ?n3) = [(b, t)]"
    using n2 by (simp add: node_task_def [of _ "node_task _ _"] task_step_def)
  have "seq_room sample_session"
    by (simp add: seq_room_def sample_session_def AuthoritativeSession_new_def ServerTerminalState_new_def tiny_vt_def)
  moreover have "node_step ?C tiny_vt ?P (server_node_new sample_session) tiny_node"
    unfolding tiny_node_def by (rule ns_tick) (simp add: server_node_new_def)
  ultimately have 1: "?step ?g0 (?g0\<lparr>pg_node := tiny_node\<rparr>)"
    by (intro ps_server) (simp_all add: server_node_new_def task_fits_def executor_new_def)
  have 2: "?step (?g0\<lparr>pg_node := tiny_node\<rparr>) (?g0\<lparr>pg_node := ?n2\<rparr>)"
    using ps_server [of ?C tiny_vt ?P "?g0\<lparr>pg_node := tiny_node\<rparr>" ?n2] job tiny_node_props(2,3) ns_task [of tiny_node ?C tiny_vt ?P]
    by (simp add: task_fits_def)
  have 3: "?step (?g0\<lparr>pg_node := ?n2\<rparr>) (?g0\<lparr>pg_node := ?n3\<rparr>)"
    using ps_server [of ?C tiny_vt ?P "?g0\<lparr>pg_node := ?n2\<rparr>" ?n3] n2 tiny_node_props(2,3) ns_task [of ?n2 ?C tiny_vt ?P]
    by (simp add: task_fits_def node_task_def)
  have r: "?step\<^sup>*\<^sup>* ?g0 (?g0\<lparr>pg_node := ?n3\<rparr>)" using 1 2 3 by (meson converse_rtranclp_into_rtranclp rtranclp.rtrancl_refl)
  from program_refines_system [OF this] n3 obtain y where
    "reachable ?C tiny_vt ?P unit_f32 (sys_init sample_session tiny_client) y" "b \<in> sy_wire y" by auto
  with r n3 show ?thesis by (intro exI [of _ "?g0\<lparr>pg_node := ?n3\<rparr>"]) auto
qed

text \<open>C14: The executor's invariant, in every state the server's tasks reach: the in-flight flag is set exactly while a diff task
  exists or after one has panicked, so there is at most one; the fragment cache holds at most four frames, each of several
  fragments; and a job that arrives while the flag is set is never started.\<close>

theorem executor_invariant:
  assumes "(node_step C G P)\<^sup>*\<^sup>* (server_node_new s0) n"
  shows "executor_wf (sn_exec n)
    \<and> (ex_in_flight (sn_exec n) \<longrightarrow> ex_task (execute_actions acts (sn_exec n)) = ex_task (sn_exec n))"
proof -
  have "executor_wf (sn_exec n)" using assms by (rule node_run_wf)
  then show ?thesis using in_flight_keeps_task by blast
qed

theorem executor_invariant_witness:
  "executor_wf (sn_exec tiny_node) \<and> ex_in_flight (sn_exec tiny_node)
    \<and> ex_task (execute_actions [OffloadDiffJob undefined undefined] (sn_exec tiny_node)) = ex_task (sn_exec tiny_node)"
proof -
  have "node_step (chacha_codec ref_lib) tiny_vt (pty_bridge sample_tty) (server_node_new sample_session) tiny_node"
    unfolding tiny_node_def by (rule ns_tick) (simp add: server_node_new_def)
  then have "(node_step (chacha_codec ref_lib) tiny_vt (pty_bridge sample_tty))\<^sup>*\<^sup>* (server_node_new sample_session) tiny_node" by blast
  from executor_invariant [OF this] tiny_node_props(1) show ?thesis by blast
qed

text \<open>C13: Selective retransmission works.  The client holds some fragments of a frame; its report names exactly
  the others; the server, which still has the frame in its cache, resends exactly those, in order; and
  when they arrive, in any order and however often, the client gets the frame.\<close>

theorem nack_recovers_frame:
  assumes "wire_lib L" "seal_server (chacha_codec L) c seq ack payload = Inr packets" "length packets < 65536"
    and "map_of (ex_cache ex) seq = Some packets"
    and "chacha_cfg c' = chacha_cfg c" "chacha_honest L S c'" "S seq = Some (ack, payload)"
    and "map_of (incomplete_frames (chacha_codec L) c') seq = Some rmask"
    and "resent = map ((!) packets) (filter (\<lambda>i. i \<notin> held (cc_fragment_buffer c') seq) [0..<length packets])"
    and "set arrivals = set resent"
  shows "ex_sent (execute_action (ResendFragments seq rmask target) ex) = ex_sent ex @ map (\<lambda>p. (p, target)) resent
    \<and> resent \<noteq> []
    \<and> (\<exists>pkt stats. Inr (Some (pkt, payload, stats)) \<in> set (snd (open_run (chacha_codec L) c' arrivals))
         \<and> esp_seq_num pkt = seq \<and> esp_ack_seq_num pkt = ack)"
proof -
  obtain tot wl frags where e: "map_of (cc_fragment_buffer c') seq = Some (tot, wl, frags)"
    "rmask = received_mask tot frags" "length packets = unat tot" "entry_wf (tot, wl, frags)"
    by (rule wire_lib.nacked_entry [OF assms(1-3,5-8)])
  have "mask_bit rmask i \<longleftrightarrow> i \<in> held (cc_fragment_buffer c') seq" if "i < length packets" for i
    using that e mask_bit_received [of i tot frags] by (simp add: held_def)
  then have r: "missing_packets rmask packets = resent"
    unfolding assms(9) missing_packets_nth by (intro arg_cong [where f = "map _"] filter_cong) auto
  have "resent \<noteq> []"
    using missing_fragment [OF e(4)] e(1,3) by (auto simp: assms(9) held_def filter_empty_conv Bex_def)
  moreover have "has_room (cc_fragment_buffer c') seq" using e(1) by (simp add: has_room_def)
  moreover have "set arrivals \<subseteq> set packets" "\<forall>i < length packets. i \<in> held (cc_fragment_buffer c') seq \<or> packets ! i \<in> set arrivals"
    using assms(9,10) by auto
  ultimately show ?thesis
    using wire_lib.fragments_completed [OF assms(1-3,5-7), of arrivals] r assms(4) by fastforce
qed

theorem nack_recovers_frame_witness:
  "\<exists>packets c' (ex :: ChaChaCodec executor) resent pkt stats. seal_server (chacha_codec ref_lib) (ChaChaCodec_new [] 9) 5 3 (Frame long_frame) = Inr packets
    \<and> held (cc_fragment_buffer c') 5 = {1} \<and> length resent = 3
    \<and> ex_sent (execute_action (ResendFragments 5 [2] ([127, 0, 0, 1], 4000)) ex) = map (\<lambda>p. (p, ([127, 0, 0, 1], 4000))) resent
    \<and> Inr (Some (pkt, Frame long_frame, stats)) \<in> set (snd (open_run (chacha_codec ref_lib) c' (rev resent)))"
proof -
  let ?c = "ChaChaCodec_new [] 9" and ?S = "[5 \<mapsto> (3, Frame long_frame)] :: u64 \<rightharpoonup> u64 \<times> ServerPayload"
  define ct where "ct = toy_tag [] (make_nonce (cc_crypto ?c) 5) # 1 # put server_payload_coder (Frame long_frame)"
  define packets where "packets = map (put server_packet_coder) (fragment_packets 5 3 ct)"
  have len: "length ct = 3523" by (simp add: ct_def long_frame_length)
  then have chunks: "length (frag_chunks ct) = 4" by (simp add: length_chunks FRAGMENT_PAYLOAD_SIZE_def)
  have enc: "chacha_ct ref_lib (cc_crypto ?c) (Frame long_frame) 5 = Inr ct"
    by (simp add: chacha_ct_def serialize_compressed_def serialize_def long_frame_length ct_def ChaChaCodec_new_def CryptoManager_new_def)
  then have seal: "seal_server (chacha_codec ref_lib) ?c 5 3 (Frame long_frame) = Inr packets"
    by (simp add: chacha_codec_def chacha_seal_server_def serialize_compressed_def serialize_def long_frame_length
        ChaChaCodec_new_def CryptoManager_new_def packets_def ct_def)
  have four: "length packets = 4" using chunks len by (simp add: packets_def length_fragment_packets FRAGMENT_PAYLOAD_SIZE_def)
  let ?c' = "?c\<lparr>cc_fragment_buffer := [(5, 4, 1100, [(1, frag_chunks ct ! 1)])]\<rparr>"
  let ?ex = "executor_new\<lparr>ex_cache := [(5, packets)]\<rparr> :: ChaChaCodec executor"
  have honest: "chacha_honest ref_lib ?S ?c'"
    using enc chunks by (simp add: chacha_honest_def buffer_honest_def buffer_wf_def entry_wf_def hm_wf_def bt_wf_def
        honest_buffer_def honest_entry_def log_ct_def)
  have held: "held (cc_fragment_buffer ?c') 5 = {1}" by (simp add: held_def)
  have mask: "map_of (incomplete_frames (chacha_codec ref_lib) ?c') 5 = Some [2]"
    by (simp add: chacha_codec_def received_mask_def mask_set_def Let_def)
  have cfg: "chacha_cfg ?c' = chacha_cfg ?c" by (simp add: chacha_cfg_def)
  have up: "[0..<4] = [0, 1, 2, 3 :: nat]" by (simp add: upt_rec)
  define resent where "resent = map ((!) packets) (filter (\<lambda>i. i \<notin> held (cc_fragment_buffer ?c') 5) [0..<length packets])"
  have "length resent = 3" unfolding resent_def held four up by simp
  moreover have "ex_sent (execute_action (ResendFragments 5 [2] ([127, 0, 0, 1], 4000)) ?ex) = ex_sent ?ex @ map (\<lambda>p. (p, ([127, 0, 0, 1], 4000))) resent
      \<and> resent \<noteq> [] \<and> (\<exists>pkt stats. Inr (Some (pkt, Frame long_frame, stats)) \<in> set (snd (open_run (chacha_codec ref_lib) ?c' (rev resent)))
         \<and> esp_seq_num pkt = 5 \<and> esp_ack_seq_num pkt = 3)"
    by (rule nack_recovers_frame [OF ref.wire_lib_axioms seal _ _ cfg honest _ mask resent_def]) (simp_all add: four)
  moreover have "ex_sent ?ex = []" by (simp add: executor_new_def)
  ultimately obtain pkt stats where "length resent = 3"
    "ex_sent (execute_action (ResendFragments 5 [2] ([127, 0, 0, 1], 4000)) ?ex) = map (\<lambda>p. (p, ([127, 0, 0, 1], 4000))) resent"
    "Inr (Some (pkt, Frame long_frame, stats)) \<in> set (snd (open_run (chacha_codec ref_lib) ?c' (rev resent)))"
    by (simp only: append_Nil) blast
  then show ?thesis using seal held by blast
qed

text \<open>C15: A frame can stay unsent.  A packet makes the session queue a frame while the previous diff is in flight, and the
  executor drops the job.  The session has already cleared its dirty flag, so from then on, in whatever
  order the timer ticks and the diff task takes its turns, no diff is started: what has been sent together
  with what the task has still to send never changes, and once the old task has sent its packets it is
  idle, with the flag clear, and stays so until a change or a packet comes.\<close>

theorem skipped_frame_unsent:
  assumes "executor_wf (sn_exec n)" "ex_in_flight (sn_exec n)"
    and "server_feed_packet C G P (sn_session n) bs src now = (s', Inr acts)" "OffloadDiffJob job t \<in> set acts"
    and "n1 = node_recv C G P n bs src now" "m = fold (server_turn C G P) turns n1"
  shows "ex_sent (sn_exec m) @ unsent C (ex_task (sn_exec m)) = ex_sent (sn_exec n1) @ unsent C (ex_task (sn_exec n))
    \<and> (task_ends C (ex_task (sn_exec n)) \<and> length (unsent C (ex_task (sn_exec n))) + 2 \<le> count_list turns Diff_turn \<longrightarrow>
         ex_task (sn_exec m) = Idle \<and> \<not> ex_in_flight (sn_exec m)
         \<and> ex_sent (sn_exec m) = ex_sent (sn_exec n1) @ unsent C (ex_task (sn_exec n)))"
proof -
  have "quiet (sn_session n1)" using feed_packet_job_quiet [OF assms(3,4)] assms(3,5) by (simp add: node_recv_def)
  from quiet_turns [OF this] have m: "sn_exec m = (task_step C ^^ count_list turns Diff_turn) (sn_exec n1)" by (simp add: assms(6))
  have n1: "sn_exec n1 = execute_actions acts (sn_exec n)" using assms(3,5) by (simp add: node_recv_def after_session_exec)
  then have task: "ex_task (sn_exec n1) = ex_task (sn_exec n)" and wf: "executor_wf (sn_exec n1)"
    using in_flight_keeps_task [OF assms(2)] execute_actions_wf [OF assms(1)] by simp_all
  have sent: "ex_sent (sn_exec m) @ unsent C (ex_task (sn_exec m)) = ex_sent (sn_exec n1) @ unsent C (ex_task (sn_exec n))"
    unfolding m task_steps_unsent task ..
  moreover have "ex_task (sn_exec m) = Idle \<and> \<not> ex_in_flight (sn_exec m)"
    if "task_ends C (ex_task (sn_exec n))" "length (unsent C (ex_task (sn_exec n))) + 2 \<le> count_list turns Diff_turn"
    using task_runs_out [OF wf] that unfolding m task by blast
  ultimately show ?thesis by (auto simp: unsent_def [of C Idle])
qed

theorem skipped_frame_unsent_witness:
  "\<exists>bs job t acts s' n1 m. server_feed_packet (chacha_codec ref_lib) tiny_vt (pty_bridge sample_tty) sample_session bs ([127, 0, 0, 1], 4000) 0 = (s', Inr acts)
    \<and> OffloadDiffJob job t \<in> set acts
    \<and> n1 = node_recv (chacha_codec ref_lib) tiny_vt (pty_bridge sample_tty)
        ((server_node_new sample_session)\<lparr>sn_exec := executor_new\<lparr>ex_in_flight := True, ex_task := Sending [[7]] ([], 0)\<rparr>\<rparr>) bs ([127, 0, 0, 1], 4000) 0
    \<and> m = fold (server_turn (chacha_codec ref_lib) tiny_vt (pty_bridge sample_tty))
        [Timer_tick 16, Diff_turn, Diff_turn, Timer_tick 32, Diff_turn, Timer_tick 48] n1
    \<and> ex_task (sn_exec m) = Idle \<and> \<not> ex_in_flight (sn_exec m) \<and> ex_sent (sn_exec m) = [([7], ([], 0))]"
proof -
  let ?C = "chacha_codec ref_lib" and ?P = "pty_bridge sample_tty" and ?a = "([127, 0, 0, 1], 4000) :: socket_addr"
  let ?ex = "executor_new\<lparr>ex_in_flight := True, ex_task := Sending [[7]] ([], 0)\<rparr> :: ChaChaCodec executor"
  let ?n = "(server_node_new sample_session)\<lparr>sn_exec := ?ex\<rparr>"
  let ?turns = "[Timer_tick 16, Diff_turn, Diff_turn, Timer_tick 32, Diff_turn, Timer_tick 48]"
  obtain bs where bs: "seal_client ?C (ChaChaCodec_new [1, 2] 9) 9 (push_bit 63 1) 0 C_Ack = Inr bs"
    using ref_seals_client unfolding seals_client_def by blast
  have "cc_session_id (ChaChaCodec_new [1, 2] 9) = 9" by (simp add: ChaChaCodec_new_def)
  with ref.client_delivered [OF bs refl] obtain pkt stats where o: "open_client ?C (ChaChaCodec_new [1, 2] 9) bs = Inr (pkt, C_Ack, stats)"
    "ecp_session_id pkt = 9" "ecp_seq_num pkt = push_bit 63 1" "ecp_ack_seq_num pkt = 0" by auto
  have same: "sample_session\<lparr>as_last_recv_time := 0, as_current_client_addr := ?a\<rparr> = sample_session"
    by (simp add: sample_session_def AuthoritativeSession_new_def ServerTerminalState_new_def tiny_vt_def)
  obtain s job t where tick: "server_on_tick tiny_vt ?P sample_session 0 = (s, Inr [OffloadDiffJob job t])"
    using sample_tick by blast
  have feed: "server_feed_packet ?C tiny_vt ?P sample_session bs ?a 0 = (s, Inr [OffloadDiffJob job t])"
    using tick by (simp add: server_feed_packet_def o is_transient_def same handle_transient_def then_sync_def server_on_tick_def)
  define n1 where "n1 = node_recv ?C tiny_vt ?P ?n bs ?a 0"
  define m where "m = fold (server_turn ?C tiny_vt ?P) ?turns n1"
  have ex: "executor_wf (sn_exec ?n)" "ex_in_flight (sn_exec ?n)" "task_ends ?C (ex_task (sn_exec ?n))"
    "unsent ?C (ex_task (sn_exec ?n)) = [([7], ([], 0))]" "count_list ?turns Diff_turn = 3"
    by (simp_all add: executor_wf_def executor_new_def task_ends_def unsent_def)
  have "server_feed_packet ?C tiny_vt ?P (sn_session ?n) bs ?a 0 = (s, Inr [OffloadDiffJob job t])" using feed by (simp add: server_node_new_def)
  from skipped_frame_unsent [OF ex(1,2) this _ n1_def m_def, of job t] ex(3-)
  have "ex_task (sn_exec m) = Idle \<and> \<not> ex_in_flight (sn_exec m) \<and> ex_sent (sn_exec m) = ex_sent (sn_exec n1) @ [([7], ([], 0))]" by simp
  moreover have "ex_sent (sn_exec n1) = []"
    using feed by (simp add: n1_def node_recv_def server_node_new_def after_session_exec execute_actions_def executor_new_def)
  ultimately have "ex_task (sn_exec m) = Idle \<and> \<not> ex_in_flight (sn_exec m) \<and> ex_sent (sn_exec m) = [([7], ([], 0))]" by simp
  with feed n1_def m_def show ?thesis by (meson list.set_intros(1))
qed

end
