(* ===== verification/Rumsh_Renderer.thy ===== *)
theory Rumsh_Renderer
  imports Rumsh_Mirror
begin

text \<open>
  The renderer of \<open>src/client/terminal.rs\<close>: \<open>ClientTerminalRenderer\<close> and its \<open>paint\<close>.  The output is the list of
  terminal commands \<open>crossterm\<close> queues, on a standard output that accepts them all.  The column counter is a
  \<open>u16\<close> advanced by the width of a cell, so on a frame of 65535 columns a wide character in the last column
  makes it wrap and the loop may run for ever: a row is a \<open>partial_function\<close> and not returning is \<open>None\<close>.
  The overlay's text formats \<open>f32\<close> values; it is a parameter.

  The second half is a specification: what a terminal shows after the commands, and that after \<open>paint\<close> it
  shows the dirty rows of the frame.
\<close>

section \<open>Commands\<close>

datatype color = Rgb u8 u8 u8 | Red | White

datatype attribute = Reset | Bold | Italic | Underlined | Reverse

datatype term_cmd =
    Clear_all
  | Flush
  | SetAttribute attribute
  | SetForegroundColor color
  | SetBackgroundColor color
  | MoveTo u16 u16
  | Write bytes
  | Show
  | Hide

type_synonym cell_style = "RgbColorUpdate option \<times> RgbColorUpdate option \<times> u8"

definition rgb :: "RgbColorUpdate \<Rightarrow> color" where
  "rgb c = Rgb (rgb_r c) (rgb_g c) (rgb_b c)"

definition apply_style :: "cell_style \<Rightarrow> term_cmd list" where
  "apply_style style =
     (case style of (fg_color, bg_color, flags) \<Rightarrow>
        [SetAttribute Reset]
        @ (if flags AND STYLE_BOLD \<noteq> 0 then [SetAttribute Bold] else [])
        @ (if flags AND STYLE_ITALIC \<noteq> 0 then [SetAttribute Italic] else [])
        @ (if flags AND STYLE_UNDERLINE \<noteq> 0 then [SetAttribute Underlined] else [])
        @ (if flags AND STYLE_INVERSE \<noteq> 0 then [SetAttribute Reverse] else [])
        @ (case fg_color of Some c \<Rightarrow> [SetForegroundColor (rgb c)] | None \<Rightarrow> [])
        @ (case bg_color of Some c \<Rightarrow> [SetBackgroundColor (rgb c)] | None \<Rightarrow> []))"

section \<open>Painting\<close>

definition cell_style_of :: "LocalCellData \<Rightarrow> cell_style" where
  "cell_style_of cell = (fg cell, bg cell, style_flags cell)"

text \<open>One turn of the column loop: whether the cursor was moved to the row, the active style, the commands and the
  width.\<close>

definition paint_cell ::
    "'f TerminalFrame \<Rightarrow> u16 \<Rightarrow> u16 \<Rightarrow> bool \<Rightarrow> cell_style option \<Rightarrow> (bool \<times> cell_style option \<times> term_cmd list \<times> u16) res" where
  "paint_cell st y x cursor_moved active_style =
     and_then (vec_get (tf_cell_cache st) (unat y * unat (tf_cols st) + unat x)) (\<lambda>cell.
     and_then (as_str (graphemes cell)) (\<lambda>g.
       (let width = max (of_nat (grapheme_width g)) 1 in
        if x = tf_cols st - 1 \<and> y = tf_rows st - 1 then Inr (cursor_moved, active_style, [], width)
        else
          (let current_style = cell_style_of cell in
           Inr (True, Some current_style,
                (if cursor_moved then [] else [MoveTo x y])
                @ (if active_style \<noteq> Some current_style then apply_style current_style else [])
                @ (if g \<noteq> [] then [Write g] else []), width)))))"

partial_function (option) paint_row ::
    "'f TerminalFrame \<Rightarrow> u16 \<Rightarrow> u16 \<Rightarrow> bool \<Rightarrow> cell_style option \<Rightarrow> term_cmd list \<Rightarrow> (cell_style option \<times> term_cmd list) res option" where
  "paint_row st y x cursor_moved active_style out =
     (if x < tf_cols st then
        (case paint_cell st y x cursor_moved active_style of
           Inl e \<Rightarrow> Some (Inl e)
         | Inr (moved1, style1, cmds, width) \<Rightarrow> paint_row st y (x + width) moved1 style1 (out @ cmds))
      else Some (Inr (active_style, out)))"

fun paint_rows ::
    "'f TerminalFrame \<Rightarrow> u16 list \<Rightarrow> cell_style option \<Rightarrow> term_cmd list \<Rightarrow> bool
      \<Rightarrow> ('f TerminalFrame \<times> (term_cmd list \<times> bool) res) option" where
  "paint_rows st [] active_style out real_update = Some (st, Inr (out, real_update))"
| "paint_rows st (y # ys) active_style out real_update =
     (case vec_get (tf_row_dirty st) (unat y) of
        Inl e \<Rightarrow> Some (st, Inl e)
      | Inr row_dirty \<Rightarrow>
          if \<not> row_dirty then paint_rows st ys active_style out real_update
          else
            (let st1 = st\<lparr>tf_row_dirty := (tf_row_dirty st)[unat y := False]\<rparr> in
             (case paint_row st1 y 0 False active_style out of
                None \<Rightarrow> None
              | Some (Inl e) \<Rightarrow> Some (st1, Inl e)
              | Some (Inr (style1, out1)) \<Rightarrow> paint_rows st1 ys style1 out1 True)))"

definition reconnect_banner :: "'f TerminalFrame \<Rightarrow> term_cmd list" where
  "reconnect_banner st =
     [MoveTo (saturating_sub (tf_cols st) 18) (if tf_rows st > 0 then tf_rows st - 1 else 0),
      SetAttribute Reset, SetForegroundColor Red, SetAttribute Bold, Write (map of_char ''[Reconnecting...]'')]"

definition overlay_cmds :: "bytes \<Rightarrow> 'f TerminalFrame \<Rightarrow> term_cmd list" where
  "overlay_cmds txt st =
     [MoveTo (saturating_sub (tf_cols st) (of_nat (length txt))) 0,
      SetAttribute Reset, SetForegroundColor White, SetBackgroundColor (Rgb 60 60 60), SetAttribute Bold,
      Write txt, SetAttribute Reset]"

definition paint ::
    "('f TerminalFrame \<Rightarrow> bytes) \<Rightarrow> 'f TerminalFrame \<Rightarrow> ('f TerminalFrame \<times> (term_cmd list \<times> bool) res) option" where
  "paint overlay_text st =
     (let clear = (if tf_clear_requested st then [Clear_all, Flush] else []);
          st1 = st\<lparr>tf_clear_requested := False\<rparr>
      in if \<not> tf_dirty st1 then Some (st1, Inr (clear, False))
         else
           (let st2 = st1\<lparr>tf_dirty := False\<rparr> in
            (case paint_rows st2 (u16_range (tf_rows st2)) None clear False of
               None \<Rightarrow> None
             | Some (st3, Inl e) \<Rightarrow> Some (st3, Inl e)
             | Some (st3, Inr (out, real_update)) \<Rightarrow>
                 Some (st3, Inr (out
                   @ (if tf_reconnecting st3 then reconnect_banner st3 else [])
                   @ (if tf_overlay_enabled st3 then overlay_cmds (overlay_text st3) st3 else [])
                   @ [MoveTo (tf_cursor_x st3) (tf_cursor_y st3), if tf_cursor_visible st3 then Show else Hide, Flush],
                   real_update)))))"

text \<open>The frame \<open>paint\<close> leaves when standard output takes the first \<open>k\<close> commands and fails on the next one: the clear request is
  taken back before anything is written, the frame's flag before the first row, and a row's flag before
  the row, so the rows up to the one that fails are no longer marked.\<close>

definition paint_cut :: "nat \<Rightarrow> 'f TerminalFrame \<Rightarrow> 'f TerminalFrame" where
  "paint_cut k st =
     (let clear = (if tf_clear_requested st then [Clear_all, Flush] else []);
          st1 = st\<lparr>tf_clear_requested := False\<rparr>
      in if k < length clear then st1
         else
           (let st2 = st1\<lparr>tf_dirty := False\<rparr>; ys = u16_range (tf_rows st2);
                begun = length (takeWhile (\<lambda>j. case paint_rows st2 (take j ys) None clear False of
                    Some (_, Inr (out, _)) \<Rightarrow> length out \<le> k | _ \<Rightarrow> False) [0..<Suc (length ys)])
            in (case paint_rows st2 (take begun ys) None clear False of Some (st3, _) \<Rightarrow> st3 | None \<Rightarrow> st2)))"

section \<open>What a terminal shows\<close>

text \<open>
  A terminal as far as \<open>paint\<close> relies on it: a cell remembers the text last written there and its attributes; writing
  moves the cursor by the width of the text, at least one column.
\<close>

record attrs =
  at_fg :: "color option"
  at_bg :: "color option"
  at_bold :: bool
  at_italic :: bool
  at_underlined :: bool
  at_reverse :: bool

definition no_attrs :: attrs where
  "no_attrs = \<lparr>at_fg = None, at_bg = None, at_bold = False, at_italic = False, at_underlined = False, at_reverse = False\<rparr>"

record display =
  d_x :: nat
  d_y :: nat
  d_attrs :: attrs
  d_cells :: "nat \<Rightarrow> nat \<Rightarrow> (bytes \<times> attrs) option"
  d_visible :: bool

definition glyph_width :: "bytes \<Rightarrow> nat" where
  "glyph_width g = max 1 (grapheme_width g)"

fun run_cmd :: "term_cmd \<Rightarrow> display \<Rightarrow> display" where
  "run_cmd Clear_all d = d\<lparr>d_cells := (\<lambda>_ _. None)\<rparr>"
| "run_cmd Flush d = d"
| "run_cmd (SetAttribute Reset) d = d\<lparr>d_attrs := no_attrs\<rparr>"
| "run_cmd (SetAttribute Bold) d = d\<lparr>d_attrs := (d_attrs d)\<lparr>at_bold := True\<rparr>\<rparr>"
| "run_cmd (SetAttribute Italic) d = d\<lparr>d_attrs := (d_attrs d)\<lparr>at_italic := True\<rparr>\<rparr>"
| "run_cmd (SetAttribute Underlined) d = d\<lparr>d_attrs := (d_attrs d)\<lparr>at_underlined := True\<rparr>\<rparr>"
| "run_cmd (SetAttribute Reverse) d = d\<lparr>d_attrs := (d_attrs d)\<lparr>at_reverse := True\<rparr>\<rparr>"
| "run_cmd (SetForegroundColor c) d = d\<lparr>d_attrs := (d_attrs d)\<lparr>at_fg := Some c\<rparr>\<rparr>"
| "run_cmd (SetBackgroundColor c) d = d\<lparr>d_attrs := (d_attrs d)\<lparr>at_bg := Some c\<rparr>\<rparr>"
| "run_cmd (MoveTo x y) d = d\<lparr>d_x := unat x, d_y := unat y\<rparr>"
| "run_cmd (Write g) d =
     d\<lparr>d_cells := (d_cells d)(d_y d := (d_cells d (d_y d))(d_x d := Some (g, d_attrs d))), d_x := d_x d + glyph_width g\<rparr>"
| "run_cmd Show d = d\<lparr>d_visible := True\<rparr>"
| "run_cmd Hide d = d\<lparr>d_visible := False\<rparr>"

definition run_cmds :: "term_cmd list \<Rightarrow> display \<Rightarrow> display" where
  "run_cmds cmds d = fold run_cmd cmds d"

text \<open>The attributes of a cell style, and what a cell of the frame should look like.\<close>

definition style_attrs :: "cell_style \<Rightarrow> attrs" where
  "style_attrs style =
     (case style of (fg_color, bg_color, flags) \<Rightarrow>
        \<lparr>at_fg = map_option rgb fg_color, at_bg = map_option rgb bg_color, at_bold = (flags AND STYLE_BOLD \<noteq> 0),
         at_italic = (flags AND STYLE_ITALIC \<noteq> 0), at_underlined = (flags AND STYLE_UNDERLINE \<noteq> 0),
         at_reverse = (flags AND STYLE_INVERSE \<noteq> 0)\<rparr>)"

definition cell_text :: "LocalCellData \<Rightarrow> bytes" where
  "cell_text cell = take (unat (cg_len (graphemes cell))) (cg_bytes (graphemes cell))"

definition frame_cell :: "'f TerminalFrame \<Rightarrow> nat \<Rightarrow> nat \<Rightarrow> LocalCellData" where
  "frame_cell st y x = tf_cell_cache st ! (y * unat (tf_cols st) + x)"

definition shown :: "'f TerminalFrame \<Rightarrow> nat \<Rightarrow> nat \<Rightarrow> (bytes \<times> attrs) option" where
  "shown st y x = Some (cell_text (frame_cell st y x), style_attrs (cell_style_of (frame_cell st y x)))"

text \<open>The columns where a character of row \<open>y\<close> starts, from column \<open>x\<close> on: a wide one covers the next column.\<close>

function starts :: "'f TerminalFrame \<Rightarrow> nat \<Rightarrow> nat \<Rightarrow> nat list" where
  "starts st y x =
     (if x < unat (tf_cols st) then x # starts st y (x + glyph_width (cell_text (frame_cell st y x))) else [])"
  by pat_completeness auto
termination
  by (relation "measure (\<lambda>(st, y, x). unat (tf_cols st) - x)") (auto simp: glyph_width_def)

declare starts.simps [simp del]

definition corner :: "'f TerminalFrame \<Rightarrow> nat \<Rightarrow> nat \<Rightarrow> bool" where
  "corner st x y \<longleftrightarrow> x = unat (tf_cols st) - 1 \<and> y = unat (tf_rows st) - 1"

definition printable :: "LocalCellData \<Rightarrow> bool" where
  "printable cell \<longleftrightarrow> unat (cg_len (graphemes cell)) \<le> length (cg_bytes (graphemes cell)) \<and> cell_text cell \<noteq> []"

text \<open>Row \<open>y\<close> is painted from column \<open>x\<close> on; everything else is as before.\<close>

definition row_painted :: "'f TerminalFrame \<Rightarrow> nat \<Rightarrow> nat \<Rightarrow> display \<Rightarrow> display \<Rightarrow> bool" where
  "row_painted st y x d d' \<longleftrightarrow>
     (\<forall>x' \<in> set (starts st y x). \<not> corner st x' y \<longrightarrow> d_cells d' y x' = shown st y x')
     \<and> (\<forall>y'. y' \<noteq> y \<longrightarrow> d_cells d' y' = d_cells d y') \<and> (\<forall>x' < x. d_cells d' y x' = d_cells d y x')"

section \<open>Lemmas\<close>

lemma run_cmds_simps [simp]:
  "run_cmds [] d = d" "run_cmds (c # cs) d = run_cmds cs (run_cmd c d)" "run_cmds (as @ bs) d = run_cmds bs (run_cmds as d)"
  by (simp_all add: run_cmds_def)

lemma run_apply_style [simp]: "run_cmds (apply_style style) d = d\<lparr>d_attrs := style_attrs style\<rparr>"
  by (auto simp: apply_style_def style_attrs_def no_attrs_def split: prod.split option.split)

lemma grapheme_width_bound: "grapheme_width g \<le> 2"
  by (auto simp: grapheme_width_def split: option.split)

lemma glyph_width_bounds: "1 \<le> glyph_width g" "glyph_width g \<le> 2"
  using grapheme_width_bound [of g] by (auto simp: glyph_width_def)

lemma unat_width: "unat (max (of_nat (grapheme_width g)) 1 :: u16) = glyph_width g"
proof -
  have "grapheme_width g = 0 \<or> grapheme_width g = 1 \<or> grapheme_width g = 2" using grapheme_width_bound [of g] by linarith
  then show ?thesis by (elim disjE) (simp_all add: glyph_width_def max_def word_le_nat_alt)
qed

lemma starts_frame [simp]: "starts (st\<lparr>tf_row_dirty := r\<rparr>) y x = starts st y x"
proof (induction st y x rule: starts.induct)
  case (1 st y x)
  have "frame_cell (st\<lparr>tf_row_dirty := r\<rparr>) y x = frame_cell st y x" by (simp add: frame_cell_def)
  with 1 show ?case by (subst starts.simps, subst (2) starts.simps) simp
qed

lemma starts_other: "starts (st\<lparr>tf_clear_requested := b, tf_dirty := c\<rparr>) y x = starts st y x"
proof (induction st y x rule: starts.induct)
  case (1 st y x)
  have "frame_cell (st\<lparr>tf_clear_requested := b, tf_dirty := c\<rparr>) y x = frame_cell st y x" by (simp add: frame_cell_def)
  with 1 show ?case by (subst starts.simps, subst (2) starts.simps) simp
qed

lemma starts_bound: "x' \<in> set (starts st y x) \<Longrightarrow> x \<le> x'"
proof (induction st y x rule: starts.induct)
  case (1 st y x)
  from "1.prems" "1.IH" show ?case by (subst (asm) starts.simps) (fastforce split: if_splits)
qed

lemma frame_index: "frame_wf st \<Longrightarrow> y < unat (tf_rows st) \<Longrightarrow> x < unat (tf_cols st) \<Longrightarrow> y * unat (tf_cols st) + x < length (tf_cell_cache st)"
proof -
  assume a: "frame_wf st" "y < unat (tf_rows st)" "x < unat (tf_cols st)"
  then have "y * unat (tf_cols st) + x < Suc y * unat (tf_cols st)" by simp
  also have "\<dots> \<le> unat (tf_rows st) * unat (tf_cols st)" using a(2) by (intro mult_le_mono1) simp
  finally show ?thesis using a(1) by (simp add: frame_wf_def mult.commute)
qed

lemma paint_cell_eq:
  assumes "frame_wf st" "y < tf_rows st" "x < tf_cols st" "\<forall>c \<in> set (tf_cell_cache st). printable c"
  shows "\<exists>cell w. cell = frame_cell st (unat y) (unat x) \<and> unat w = glyph_width (cell_text cell) \<and> cell_text cell \<noteq> []
    \<and> paint_cell st y x moved active =
      (if corner st (unat x) (unat y) then Inr (moved, active, [], w)
       else Inr (True, Some (cell_style_of cell), (if moved then [] else [MoveTo x y])
         @ (if active \<noteq> Some (cell_style_of cell) then apply_style (cell_style_of cell) else []) @ [Write (cell_text cell)], w))"
proof -
  let ?i = "unat y * unat (tf_cols st) + unat x" and ?cell = "frame_cell st (unat y) (unat x)"
  have i: "?i < length (tf_cell_cache st)" using frame_index [OF assms(1)] assms(2,3) by (simp add: word_less_nat_alt)
  then have p: "printable ?cell" using assms(4) by (simp add: frame_cell_def)
  have "a = b - 1 \<longleftrightarrow> unat a = unat b - 1" if "a < b" for a b :: u16
  proof -
    have "b \<noteq> 0" using that by auto
    then have "unat (b - 1) = unat b - 1" by (rule unat_minus_one)
    then show ?thesis by (simp add: word_unat_eq_iff)
  qed
  then have "x = tf_cols st - 1 \<longleftrightarrow> unat x = unat (tf_cols st) - 1" "y = tf_rows st - 1 \<longleftrightarrow> unat y = unat (tf_rows st) - 1"
    using assms(2,3) by blast+
  then have "corner st (unat x) (unat y) \<longleftrightarrow> x = tf_cols st - 1 \<and> y = tf_rows st - 1" by (simp add: corner_def)
  moreover have "as_str (graphemes ?cell) = Inr (cell_text ?cell)" using p by (simp add: printable_def as_str_def cell_text_def)
  ultimately show ?thesis
    using i p unat_width [of "cell_text ?cell"]
    by (intro exI [of _ ?cell] exI [of _ "max (of_nat (grapheme_width (cell_text ?cell))) 1"])
       (auto simp: paint_cell_def Let_def printable_def frame_cell_def)
qed

text \<open>The commands for one cell, what they do, and where the row goes on.\<close>

definition cell_cmds :: "u16 \<Rightarrow> u16 \<Rightarrow> bool \<Rightarrow> cell_style option \<Rightarrow> LocalCellData \<Rightarrow> term_cmd list" where
  "cell_cmds x y moved active cell = (if moved then [] else [MoveTo x y])
     @ (if active \<noteq> Some (cell_style_of cell) then apply_style (cell_style_of cell) else []) @ [Write (cell_text cell)]"

lemma cell_cmds_run:
  assumes "moved \<Longrightarrow> d_x d = unat x \<and> d_y d = unat y" "active = Some (cell_style_of cell) \<Longrightarrow> d_attrs d = style_attrs (cell_style_of cell)"
    and "d1 = run_cmds (cell_cmds x y moved active cell) d"
  shows "d_x d1 = unat x + glyph_width (cell_text cell)" "d_y d1 = unat y" "d_attrs d1 = style_attrs (cell_style_of cell)"
    "d_cells d1 = (d_cells d)(unat y := (d_cells d (unat y))(unat x := Some (cell_text cell, style_attrs (cell_style_of cell))))"
  using assms by (auto simp: cell_cmds_def)

lemma paint_cell_step:
  assumes "frame_wf st" "y < tf_rows st" "x < tf_cols st" "unat (tf_cols st) < 65535" "\<forall>c \<in> set (tf_cell_cache st). printable c"
  shows "\<exists>cell w. cell = frame_cell st (unat y) (unat x) \<and> unat (x + w) = unat x + glyph_width (cell_text cell)
    \<and> starts st (unat y) (unat x) = unat x # starts st (unat y) (unat (x + w))
    \<and> paint_cell st y x moved active =
        (if corner st (unat x) (unat y) then Inr (moved, active, [], w)
         else Inr (True, Some (cell_style_of cell), cell_cmds x y moved active cell, w))"
proof -
  have x: "unat x < unat (tf_cols st)" using assms(3) by (simp add: word_less_nat_alt)
  obtain cell w where c: "cell = frame_cell st (unat y) (unat x)" "unat w = glyph_width (cell_text cell)" "cell_text cell \<noteq> []"
    "paint_cell st y x moved active =
      (if corner st (unat x) (unat y) then Inr (moved, active, [], w)
       else Inr (True, Some (cell_style_of cell), (if moved then [] else [MoveTo x y])
         @ (if active \<noteq> Some (cell_style_of cell) then apply_style (cell_style_of cell) else []) @ [Write (cell_text cell)], w))"
    using paint_cell_eq [OF assms(1-3,5), of moved active] by blast
  note w = glyph_width_bounds [of "cell_text cell"]
  have nx: "unat (x + w) = unat x + glyph_width (cell_text cell)"
    using x w assms(4) c(2) by (simp add: unat_word_ariths)
  have st: "starts st (unat y) (unat x) = unat x # starts st (unat y) (unat (x + w))"
    using x nx c(1) by (subst starts.simps) simp
  from c nx st show ?thesis unfolding cell_cmds_def by blast
qed

lemma paint_row_run:
  assumes "frame_wf st" "y < tf_rows st" "unat (tf_cols st) < 65535" "\<forall>c \<in> set (tf_cell_cache st). printable c"
    and "moved \<Longrightarrow> d_x d = unat x \<and> d_y d = unat y" "active \<noteq> None \<Longrightarrow> d_attrs d = style_attrs (the active)"
  shows "\<exists>active' cmds. paint_row st y x moved active out = Some (Inr (active', out @ cmds))
    \<and> row_painted st (unat y) (unat x) d (run_cmds cmds d)
    \<and> (active' \<noteq> None \<longrightarrow> d_attrs (run_cmds cmds d) = style_attrs (the active'))"
  using assms(5,6)
proof (induction "unat (tf_cols st) - unat x" arbitrary: x moved active d out rule: less_induct)
  case less
  show ?case
  proof (cases "x < tf_cols st")
    case False
    then have "starts st (unat y) (unat x) = []" by (subst starts.simps) (simp add: word_less_nat_alt)
    moreover have "paint_row st y x moved active out = Some (Inr (active, out))" using False by (subst paint_row.simps) simp
    ultimately show ?thesis using less.prems(2)
      by (intro exI [of _ active] exI [of _ "[]"]) (simp add: row_painted_def)
  next
    case True
    then have x: "unat x < unat (tf_cols st)" by (simp add: word_less_nat_alt)
    obtain cell w where c: "cell = frame_cell st (unat y) (unat x)" "unat (x + w) = unat x + glyph_width (cell_text cell)"
      "starts st (unat y) (unat x) = unat x # starts st (unat y) (unat (x + w))"
      "paint_cell st y x moved active =
        (if corner st (unat x) (unat y) then Inr (moved, active, [], w)
         else Inr (True, Some (cell_style_of cell), cell_cmds x y moved active cell, w))"
      using paint_cell_step [OF assms(1,2) True assms(3,4), of moved active] by blast
    note nx = c(2) and st = c(3) and w = glyph_width_bounds [of "cell_text cell"]
    show ?thesis
    proof (cases "corner st (unat x) (unat y)")
      case True
      then have "\<not> x + w < tf_cols st" using nx w x by (simp add: corner_def word_less_nat_alt)
      then have "paint_row st y (x + w) moved active out = Some (Inr (active, out))" "starts st (unat y) (unat (x + w)) = []"
        by (simp_all add: paint_row.simps starts.simps word_less_nat_alt)
      then show ?thesis using True \<open>x < tf_cols st\<close> c(4) st less.prems(2)
        by (intro exI [of _ active] exI [of _ "[]"]) (subst paint_row.simps, simp add: row_painted_def)
    next
      case False
      define cmds where "cmds = cell_cmds x y moved active cell"
      define d1 where "d1 = run_cmds cmds d"
      have d1: "d_x d1 = unat (x + w)" "d_y d1 = unat y" "d_attrs d1 = style_attrs (cell_style_of cell)"
        "d_cells d1 = (d_cells d)(unat y := (d_cells d (unat y))(unat x := shown st (unat y) (unat x)))"
        using cell_cmds_run [OF less.prems(1) _ d1_def [unfolded cmds_def]] less.prems(2) nx c(1) by (simp_all add: d1_def cmds_def shown_def)
      have "unat (tf_cols st) - unat (x + w) < unat (tf_cols st) - unat x" using nx w x by simp
      from less.hyps [OF this, of True d1 "Some (cell_style_of cell)" "out @ cmds"] d1
      obtain active' cmds' where r: "paint_row st y (x + w) True (Some (cell_style_of cell)) (out @ cmds) = Some (Inr (active', (out @ cmds) @ cmds'))"
        "row_painted st (unat y) (unat (x + w)) d1 (run_cmds cmds' d1)"
        "active' \<noteq> None \<longrightarrow> d_attrs (run_cmds cmds' d1) = style_attrs (the active')" by auto
      have "paint_row st y x moved active out = Some (Inr (active', out @ cmds @ cmds'))"
        using r(1) c(4) False \<open>x < tf_cols st\<close> by (subst paint_row.simps) (simp add: cmds_def)
      moreover have "row_painted st (unat y) (unat x) d (run_cmds (cmds @ cmds') d)"
        using r(2) w unfolding row_painted_def st d1_def [symmetric] run_cmds_simps d1(4) nx by (auto dest: starts_bound)
      ultimately show ?thesis using r(3) by (intro exI [of _ active'] exI [of _ "cmds @ cmds'"]) (simp add: d1_def)
    qed
  qed
qed

text \<open>The dirty rows among \<open>Y\<close> are painted and marked clean; all others are as before.\<close>

definition rows_painted :: "'f TerminalFrame \<Rightarrow> nat set \<Rightarrow> bool list \<Rightarrow> display \<Rightarrow> display \<Rightarrow> bool" where
  "rows_painted st Y rd d d' \<longleftrightarrow>
     length rd = length (tf_row_dirty st) \<and> (\<forall>i < length rd. rd ! i \<longleftrightarrow> tf_row_dirty st ! i \<and> i \<notin> Y)
     \<and> (\<forall>y \<in> Y. tf_row_dirty st ! y \<longrightarrow> (\<forall>x \<in> set (starts st y 0). \<not> corner st x y \<longrightarrow> d_cells d' y x = shown st y x))
     \<and> (\<forall>i. (i \<in> Y \<longrightarrow> \<not> tf_row_dirty st ! i) \<longrightarrow> d_cells d' i = d_cells d i)"

lemma rows_painted_none: "rows_painted st {} (tf_row_dirty st) d d"
  by (simp add: rows_painted_def)

lemma rows_painted_skip: "rows_painted st Y rd d d' \<Longrightarrow> \<not> tf_row_dirty st ! y \<Longrightarrow> rows_painted st (insert y Y) rd d d'"
  by (auto simp: rows_painted_def)

lemma rows_painted_step:
  assumes "tf_row_dirty st ! y" "y \<notin> Y" "insert y Y \<subseteq> {..<length (tf_row_dirty st)}" "row_painted st y 0 d d1"
    and "rows_painted (st\<lparr>tf_row_dirty := (tf_row_dirty st)[y := False]\<rparr>) Y rd d1 d2"
  shows "rows_painted st (insert y Y) rd d d2"
proof -
  let ?st = "st\<lparr>tf_row_dirty := (tf_row_dirty st)[y := False]\<rparr>"
  have same: "corner ?st = corner st" "shown ?st = shown st" by (simp_all add: corner_def shown_def frame_cell_def fun_eq_iff)
  have dirty: "tf_row_dirty ?st ! i \<longleftrightarrow> tf_row_dirty st ! i \<and> i \<noteq> y" if "i < length (tf_row_dirty st)" for i
    using that by (cases "i = y") auto
  have other: "i \<noteq> y \<Longrightarrow> d_cells d1 i = d_cells d i" for i using assms(4) by (simp add: row_painted_def)
  have clean: "d_cells d2 i = d_cells d1 i" if "i \<in> Y \<longrightarrow> \<not> tf_row_dirty ?st ! i" for i
    using assms(5) that unfolding rows_painted_def by blast
  have "d_cells d2 i = d_cells d i" if "i \<in> insert y Y \<longrightarrow> \<not> tf_row_dirty st ! i" for i
    using clean [of i] other [of i] that assms(1,3) dirty by (cases "i = y") auto
  moreover have "\<forall>x \<in> set (starts st y' 0). \<not> corner st x y' \<longrightarrow> d_cells d2 y' x = shown st y' x"
    if "y' \<in> insert y Y" "tf_row_dirty st ! y'" for y'
  proof (cases "y' = y")
    case True
    then show ?thesis using clean [of y] assms(2,4) by (simp add: row_painted_def)
  next
    case False
    then show ?thesis using assms(3,5) that dirty [of y'] unfolding rows_painted_def by (auto simp: same)
  qed
  ultimately show ?thesis using assms(5) dirty unfolding rows_painted_def by auto
qed

lemma paint_rows_run:
  assumes "frame_wf st" "\<forall>y \<in> set ys. y < tf_rows st" "distinct ys" "unat (tf_cols st) < 65535" "\<forall>c \<in> set (tf_cell_cache st). printable c"
    and "active \<noteq> None \<Longrightarrow> d_attrs d = style_attrs (the active)"
  shows "\<exists>rd cmds. paint_rows st ys active out real =
      Some (st\<lparr>tf_row_dirty := rd\<rparr>, Inr (out @ cmds, real \<or> (\<exists>y \<in> unat ` set ys. tf_row_dirty st ! y)))
    \<and> rows_painted st (unat ` set ys) rd d (run_cmds cmds d)"
  using assms
proof (induction ys arbitrary: st active d out real)
  case Nil
  then show ?case using rows_painted_none by (intro exI [of _ "tf_row_dirty st"] exI [of _ "[]"]) simp
next
  case (Cons y ys)
  have ys: "insert (unat y) (unat ` set ys) \<subseteq> {..<length (tf_row_dirty st)}"
    using Cons.prems(1,2) by (auto simp: frame_wf_def word_less_nat_alt)
  show ?case
  proof (cases "tf_row_dirty st ! unat y")
    case False
    from Cons.IH [of st active d out real] Cons.prems obtain rd cmds where
      "paint_rows st ys active out real = Some (st\<lparr>tf_row_dirty := rd\<rparr>, Inr (out @ cmds, real \<or> (\<exists>y \<in> unat ` set ys. tf_row_dirty st ! y)))"
      "rows_painted st (unat ` set ys) rd d (run_cmds cmds d)" by auto
    then show ?thesis using ys False rows_painted_skip [of st "unat ` set ys" rd d "run_cmds cmds d" "unat y"]
      by (intro exI [of _ rd] exI [of _ cmds]) auto
  next
    case True
    define st1 where "st1 = st\<lparr>tf_row_dirty := (tf_row_dirty st)[unat y := False]\<rparr>"
    have st1: "frame_wf st1" "y < tf_rows st1" "tf_cols st1 = tf_cols st" "tf_cell_cache st1 = tf_cell_cache st" "tf_rows st1 = tf_rows st"
      using Cons.prems(1,2) by (simp_all add: st1_def frame_wf_def)
    obtain active1 cmds1 where p: "paint_row st1 y 0 False active out = Some (Inr (active1, out @ cmds1))"
      "row_painted st1 (unat y) 0 d (run_cmds cmds1 d)" "active1 \<noteq> None \<longrightarrow> d_attrs (run_cmds cmds1 d) = style_attrs (the active1)"
      using paint_row_run [OF st1(1,2), of False d 0 active out] Cons.prems(4-6) st1 by auto
    have "\<forall>y \<in> set ys. y < tf_rows st1" "distinct ys" "unat (tf_cols st1) < 65535" "\<forall>c \<in> set (tf_cell_cache st1). printable c"
      using Cons.prems st1 by auto
    from Cons.IH [OF st1(1) this, of active1 "run_cmds cmds1 d" "out @ cmds1" True] p(3) obtain rd cmds where
      r: "paint_rows st1 ys active1 (out @ cmds1) True = Some (st1\<lparr>tf_row_dirty := rd\<rparr>, Inr ((out @ cmds1) @ cmds, True))"
        "rows_painted st1 (unat ` set ys) rd (run_cmds cmds1 d) (run_cmds cmds (run_cmds cmds1 d))" by auto
    have "row_painted st (unat y) 0 d (run_cmds cmds1 d)"
      using p(2) by (simp add: row_painted_def st1_def corner_def shown_def frame_cell_def)
    moreover have "unat y \<notin> unat ` set ys" using Cons.prems(3) by (auto dest: unsigned_word_eqI)
    ultimately have "rows_painted st (unat ` set (y # ys)) rd d (run_cmds (cmds1 @ cmds) d)"
      using rows_painted_step [OF True _ ys _ r(2) [unfolded st1_def]] by simp
    moreover have "paint_rows st (y # ys) active out real = Some (st\<lparr>tf_row_dirty := rd\<rparr>, Inr (out @ cmds1 @ cmds, True))"
      using r(1) p(1) True ys by (simp add: st1_def [symmetric]) (simp add: st1_def)
    ultimately show ?thesis using True by (intro exI [of _ rd] exI [of _ "cmds1 @ cmds"]) simp
  qed
qed

section \<open>Termination\<close>

lemma paint_cell_width: "paint_cell st y x moved active = Inr (m, a, cmds, w) \<Longrightarrow> 1 \<le> unat w \<and> unat w \<le> 2"
  using unat_width glyph_width_bounds by (auto simp: paint_cell_def Let_def split: if_splits)

lemma paint_row_returns:
  assumes "unat (tf_cols st) < 65535"
  shows "\<exists>r. paint_row st y x moved active out = Some r"
proof (induction "unat (tf_cols st) - unat x" arbitrary: x moved active out rule: less_induct)
  case less
  show ?case
  proof (cases "x < tf_cols st")
    case True
    then have x: "unat x < unat (tf_cols st)" by (simp add: word_less_nat_alt)
    show ?thesis
    proof (cases "paint_cell st y x moved active")
      case (Inr p)
      obtain m a cmds w where p: "p = (m, a, cmds, w)" by (cases p)
      have w: "1 \<le> unat w" "unat w \<le> 2" using paint_cell_width Inr p by blast+
      then have "unat (x + w) = unat x + unat w" using x assms by (simp add: unat_word_ariths)
      then have "unat (tf_cols st) - unat (x + w) < unat (tf_cols st) - unat x" using w x by simp
      from less.hyps [OF this] show ?thesis using True Inr p by (subst paint_row.simps) simp
    qed (use True in \<open>simp add: paint_row.simps\<close>)
  qed (simp add: paint_row.simps)
qed

lemma paint_rows_returns:
  "unat (tf_cols st) < 65535 \<Longrightarrow> \<exists>r. paint_rows st ys active out real = Some r"
proof (induction ys arbitrary: st active out real)
  case (Cons y ys)
  let ?st = "st\<lparr>tf_row_dirty := (tf_row_dirty st)[unat y := False]\<rparr>"
  have "\<exists>r. paint_row ?st y 0 False active out = Some r" by (rule paint_row_returns) (use Cons.prems in simp)
  then obtain r where r: "paint_row ?st y 0 False active out = Some r" by blast
  have "unat (tf_cols ?st) < 65535" using Cons.prems by simp
  note IH = Cons.IH [OF Cons.prems] Cons.IH [OF this]
  show ?case
  proof (cases r)
    case (Inr q)
    then show ?thesis using IH r by (cases q) (auto simp: Let_def split: sum.split)
  qed (use IH r in \<open>auto simp: Let_def split: sum.split\<close>)
qed simp

lemma paint_returns:
  assumes "unat (tf_cols st) < 65535"
  shows "\<exists>st' r. paint overlay_text st = Some (st', r)"
proof -
  let ?st = "st\<lparr>tf_clear_requested := False, tf_dirty := False\<rparr>"
  have "\<exists>p. paint_rows ?st (u16_range (tf_rows ?st)) None (if tf_clear_requested st then [Clear_all, Flush] else []) False = Some p"
    by (rule paint_rows_returns) (use assms in simp)
  then obtain p where "paint_rows ?st (u16_range (tf_rows ?st)) None (if tf_clear_requested st then [Clear_all, Flush] else []) False = Some p"
    by blast
  then show ?thesis by (cases p) (auto simp: paint_def Let_def split: sum.split)
qed

text \<open>The bound is the best possible: a row of 65535 columns with only wide characters is painted for ever.\<close>

definition diverging :: "'f TerminalFrame \<Rightarrow> u16 \<Rightarrow> u16 \<Rightarrow> bool" where
  "diverging st y x \<longleftrightarrow> tf_cols st = 65535 \<and> even (unat x)
     \<and> (\<forall>x moved active. \<exists>m a cmds. paint_cell st y x moved active = Inr (m, a, cmds, 2))"

lemma diverging_step:
  assumes "diverging st y x"
  shows "x < tf_cols st" "\<exists>m a cmds. paint_cell st y x moved active = Inr (m, a, cmds, 2)" "diverging st y (x + 2)"
proof -
  have "unat x < 65536" using unsigned_less [of x, where 'a = nat] by simp
  moreover have "unat x \<noteq> 65535"
  proof
    assume "unat x = 65535"
    with assms have "even (65535 :: nat)" by (simp add: diverging_def)
    then show False by simp
  qed
  ultimately have "unat x < 65535" by simp
  then show "x < tf_cols st" using assms by (simp add: diverging_def word_less_nat_alt)
  have "unat (x + 2) = (unat x + 2) mod 65536" by (simp add: unat_word_ariths)
  moreover have "even ((unat x + 2) mod 65536)" using assms by (subst dvd_mod_iff) (simp_all add: diverging_def)
  ultimately have "even (unat (x + 2))" by simp
  then show "diverging st y (x + 2)" "\<exists>m a cmds. paint_cell st y x moved active = Inr (m, a, cmds, 2)"
    using assms by (simp_all add: diverging_def)
qed

lemma paint_row_returned: "paint_row st y x moved active out = Some r \<Longrightarrow> \<not> diverging st y x"
proof (rule paint_row.raw_induct [where P = "\<lambda>st y x moved active out r. \<not> diverging st y x"
      and xa = "(((((st, y), x), moved), active), out)" and ya = r, unfolded prod.case])
  fix f :: "'f TerminalFrame \<Rightarrow> u16 \<Rightarrow> u16 \<Rightarrow> bool \<Rightarrow> _ \<Rightarrow> _ \<Rightarrow> _ option" and st y x moved active out r
  assume IH: "\<And>st y x moved active out r. f st y x moved active out = Some r \<Longrightarrow> \<not> diverging st y x"
    and eq: "(if x < tf_cols st then case paint_cell st y x moved active of Inl e \<Rightarrow> Some (Inl e)
        | Inr (moved1, style1, cmds, width) \<Rightarrow> f st y (x + width) moved1 style1 (out @ cmds)
      else Some (Inr (active, out))) = Some r"
  show "\<not> diverging st y x"
  proof
    assume d: "diverging st y x"
    then obtain m a cmds where "paint_cell st y x moved active = Inr (m, a, cmds, 2)" using diverging_step(2) by blast
    with eq diverging_step(1) [OF d] IH diverging_step(3) [OF d] show False by auto
  qed
qed

lemma paint_row_diverges: "diverging st y 0 \<Longrightarrow> paint_row st y 0 moved active out = None"
  using paint_row_returned [of st y 0 moved active out] by (cases "paint_row st y 0 moved active out") auto

section \<open>Properties\<close>

text \<open>C16: Painting shows the frame.  For a frame of at most 65534 columns whose cells all have text, \<open>paint\<close> returns; every
  dirty row then shows, at each column where a character starts (the bottom right corner apart), that
  cell's text in that cell's colours and attributes, whatever the terminal showed and whatever style was
  active before; clean rows are not touched unless a clear was asked for; the cursor is where the frame has
  it; and nothing is dirty any more.\<close>

theorem paint_shows_frame:
  assumes "frame_wf st" "tf_dirty st" "unat (tf_cols st) < 65535" "\<forall>c \<in> set (tf_cell_cache st). printable c"
    and "\<not> tf_reconnecting st" "\<not> tf_overlay_enabled st"
  shows "\<exists>cmds. paint overlay_text st = Some (st\<lparr>tf_clear_requested := False, tf_dirty := False,
        tf_row_dirty := replicate (unat (tf_rows st)) False\<rparr>, Inr (cmds, True \<in> set (tf_row_dirty st)))
    \<and> (\<forall>y < unat (tf_rows st). tf_row_dirty st ! y \<longrightarrow>
         (\<forall>x \<in> set (starts st y 0). \<not> corner st x y \<longrightarrow> d_cells (run_cmds cmds d) y x = shown st y x))
    \<and> (\<forall>y < unat (tf_rows st). \<not> tf_row_dirty st ! y \<and> \<not> tf_clear_requested st \<longrightarrow> d_cells (run_cmds cmds d) y = d_cells d y)
    \<and> d_x (run_cmds cmds d) = unat (tf_cursor_x st) \<and> d_y (run_cmds cmds d) = unat (tf_cursor_y st)
    \<and> d_visible (run_cmds cmds d) = tf_cursor_visible st"
proof -
  define st2 where "st2 = st\<lparr>tf_clear_requested := False, tf_dirty := False\<rparr>"
  define clear where "clear = (if tf_clear_requested st then [Clear_all, Flush] else [])"
  define d1 where "d1 = run_cmds clear d"
  let ?ys = "u16_range (tf_rows st2)"
  have rows: "unat ` set ?ys = {..<unat (tf_rows st)}"
    by (auto simp: st2_def word_less_nat_alt image_iff) (metis unat_of_nat_below)
  have wf: "frame_wf st2" "\<forall>y \<in> set ?ys. y < tf_rows st2" "distinct ?ys" "unat (tf_cols st2) < 65535" "\<forall>c \<in> set (tf_cell_cache st2). printable c"
    using assms(1,3,4) by (simp_all add: st2_def frame_wf_def)
  have sst: "starts st2 a b = starts st a b" "corner st2 = corner st" "shown st2 = shown st" "tf_row_dirty st2 = tf_row_dirty st" for a b
    by (simp_all add: st2_def corner_def shown_def frame_cell_def fun_eq_iff starts_other)
  have len: "length (tf_row_dirty st) = unat (tf_rows st)" using assms(1) by (simp add: frame_wf_def)
  from paint_rows_run [OF wf, of None d1 clear False] obtain rd cmds where
    r: "paint_rows st2 ?ys None clear False = Some (st2\<lparr>tf_row_dirty := rd\<rparr>, Inr (clear @ cmds, \<exists>y < unat (tf_rows st). tf_row_dirty st ! y))"
      "rows_painted st {..<unat (tf_rows st)} rd d1 (run_cmds cmds d1)"
    unfolding rows by (auto simp: rows_painted_def sst lessThan_def)
  have rd: "rd = replicate (unat (tf_rows st)) False"
    using r(2) len by (intro nth_equalityI) (auto simp: rows_painted_def)
  have real: "(\<exists>y < unat (tf_rows st). tf_row_dirty st ! y) \<longleftrightarrow> True \<in> set (tf_row_dirty st)" using len by (auto simp: in_set_conv_nth)
  let ?tail = "[MoveTo (tf_cursor_x st) (tf_cursor_y st), if tf_cursor_visible st then Show else Hide, Flush]"
  have p: "paint overlay_text st = Some (st\<lparr>tf_clear_requested := False, tf_dirty := False,
      tf_row_dirty := replicate (unat (tf_rows st)) False\<rparr>, Inr (clear @ cmds @ ?tail, True \<in> set (tf_row_dirty st)))"
    using r(1) assms(2,5,6) real rd by (simp add: paint_def Let_def clear_def st2_def)
  have cells: "d_cells (run_cmds (clear @ cmds @ ?tail) d) = d_cells (run_cmds cmds d1)" by (simp add: d1_def)
  have "\<forall>y < unat (tf_rows st). tf_row_dirty st ! y \<longrightarrow>
      (\<forall>x \<in> set (starts st y 0). \<not> corner st x y \<longrightarrow> d_cells (run_cmds cmds d1) y x = shown st y x)"
    using r(2) unfolding rows_painted_def by blast
  moreover have "\<not> tf_row_dirty st ! y \<and> \<not> tf_clear_requested st \<Longrightarrow> d_cells (run_cmds cmds d1) y = d_cells d y" for y
    using r(2) unfolding rows_painted_def by (auto simp: d1_def clear_def)
  ultimately show ?thesis using p unfolding cells [symmetric] by (intro exI [of _ "clear @ cmds @ ?tail"]) auto
qed

text \<open>A fresh frame of three columns and two rows.\<close>

definition blank_frame :: "unit TerminalFrame" where
  "blank_frame = TerminalFrame_new unit_f32 3 2"

lemma blank_frame_fields:
  "tf_cols blank_frame = 3" "tf_rows blank_frame = 2" "tf_cell_cache blank_frame = replicate 6 default_cell"
  "tf_row_dirty blank_frame = replicate 2 True" "tf_dirty blank_frame" "\<not> tf_reconnecting blank_frame"
  "\<not> tf_overlay_enabled blank_frame" "tf_cursor_x blank_frame = 0"
  by (simp_all add: blank_frame_def TerminalFrame_new_def)

theorem paint_shows_frame_witness:
  "\<exists>st cmds. paint (\<lambda>_. []) blank_frame = Some (st, Inr (cmds, True))
    \<and> (\<forall>d. d_cells (run_cmds cmds d) 0 2 = Some ([32], no_attrs) \<and> d_x (run_cmds cmds d) = 0)"
proof -
  have cell: "cell_text default_cell = [32]" "cell_style_of default_cell = (None, None, 0)"
    by (simp_all add: cell_text_def default_cell_def cell_style_of_def CompactGrapheme_new_def)
  have cells: "frame_cell blank_frame 0 x = default_cell" if "x < 3" for x using that by (simp add: frame_cell_def blank_frame_fields)
  have width: "glyph_width [32] = 1" by (simp add: glyph_width_def grapheme_width_def first_char_def)
  have step: "starts blank_frame 0 x = (if x < 3 then x # starts blank_frame 0 (x + 1) else [])" for x
    by (subst starts.simps) (simp add: blank_frame_fields cells cell width)
  have "starts blank_frame 0 0 = [0, 1, 2]"
    by (simp add: step [of 0] step [of "Suc 0"] step [of "Suc (Suc 0)"] step [of "Suc (Suc (Suc 0))"])
  moreover have "printable default_cell" using cell(1) by (simp add: printable_def default_cell_def CompactGrapheme_new_def)
  moreover have "frame_wf blank_frame" unfolding blank_frame_def by (rule TerminalFrame_new_wf)
  moreover have "shown blank_frame 0 2 = Some ([32], no_attrs)" by (simp add: shown_def cells cell style_attrs_def no_attrs_def)
  ultimately have main: "\<exists>cmds. paint (\<lambda>_. []) blank_frame = Some (blank_frame\<lparr>tf_clear_requested := False, tf_dirty := False,
        tf_row_dirty := replicate 2 False\<rparr>, Inr (cmds, True)) \<and> d_cells (run_cmds cmds d) 0 2 = Some ([32], no_attrs) \<and> d_x (run_cmds cmds d) = 0" for d
    using paint_shows_frame [of blank_frame "\<lambda>_. []" d] by (auto simp: blank_frame_fields corner_def)
  then show ?thesis by (metis Pair_inject option.inject sum.inject(2))
qed

end
