(* ===== verification/Rumsh_Lifecycle.thy ===== *)
theory Rumsh_Lifecycle
  imports Rumsh_Prelude
begin

text \<open>
  \<open>src/client/lifecycle.rs\<close>: the guard that switches the user's terminal to raw mode and the alternate screen
  and back.  The trait \<open>LifecycleBackend\<close> is a record of operations over a terminal state; \<open>CrosstermBackend\<close>
  implements it with the crate \<open>crossterm\<close> and \<open>libc::kill\<close>, which are the fields of the parameter
  \<open>crossterm_lib\<close>, and the test double \<open>FakeLifecycleBackend\<close> implements it with three flags and a counter.
  The interface \<open>terminal_backend\<close> is what the guard relies on.
\<close>

section \<open>The trait and its implementations\<close>

record 't lifecycle_backend =
  enable_raw_mode :: "'t \<Rightarrow> 't \<times> unit res"
  disable_raw_mode :: "'t \<Rightarrow> 't \<times> unit res"
  enter_alternate_screen :: "'t \<Rightarrow> 't \<times> unit res"
  leave_alternate_screen :: "'t \<Rightarrow> 't \<times> unit res"
  terminal_size :: "'t \<Rightarrow> (u16 \<times> u16) res"
  send_sigtstp :: "'t \<Rightarrow> 't \<times> unit res"

datatype screen_cmd = EnterAlternateScreen | LeaveAlternateScreen | HideCursor | ShowCursor | ClearAll

record 't crossterm_lib =
  ct_enable_raw_mode :: "'t \<Rightarrow> 't \<times> unit res"
  ct_disable_raw_mode :: "'t \<Rightarrow> 't \<times> unit res"
  ct_execute :: "'t \<Rightarrow> screen_cmd list \<Rightarrow> 't \<times> unit res"
  ct_size :: "'t \<Rightarrow> (u16 \<times> u16) res"
  ct_kill_self :: "'t \<Rightarrow> 't"

definition crossterm_backend :: "'t crossterm_lib \<Rightarrow> 't lifecycle_backend" where
  "crossterm_backend X =
     \<lparr>enable_raw_mode = ct_enable_raw_mode X,
      disable_raw_mode = ct_disable_raw_mode X,
      enter_alternate_screen = (\<lambda>t. ct_execute X t [EnterAlternateScreen, HideCursor, ClearAll]),
      leave_alternate_screen = (\<lambda>t. (fst (ct_execute X t [LeaveAlternateScreen, ShowCursor]), Inr ())),
      terminal_size = ct_size X,
      send_sigtstp = (\<lambda>t. (ct_kill_self X t, Inr ()))\<rparr>"

record fake_terminal =
  fk_raw_mode :: bool
  fk_alt_screen :: bool
  fk_sigtstp_count :: nat
  fk_size :: "u16 \<times> u16"

definition fake_new :: "u16 \<Rightarrow> u16 \<Rightarrow> fake_terminal" where
  "fake_new cols rows = \<lparr>fk_raw_mode = False, fk_alt_screen = False, fk_sigtstp_count = 0, fk_size = (cols, rows)\<rparr>"

definition fake_backend :: "fake_terminal lifecycle_backend" where
  "fake_backend =
     \<lparr>enable_raw_mode = (\<lambda>t. (t\<lparr>fk_raw_mode := True\<rparr>, Inr ())),
      disable_raw_mode = (\<lambda>t. (t\<lparr>fk_raw_mode := False\<rparr>, Inr ())),
      enter_alternate_screen = (\<lambda>t. (t\<lparr>fk_alt_screen := True\<rparr>, Inr ())),
      leave_alternate_screen = (\<lambda>t. (t\<lparr>fk_alt_screen := False\<rparr>, Inr ())),
      terminal_size = (\<lambda>t. Inr (fk_size t)),
      send_sigtstp = (\<lambda>t. (t\<lparr>fk_sigtstp_count := fk_sigtstp_count t + 1\<rparr>, Inr ()))\<rparr>"

section \<open>The guard\<close>

definition with_backend :: "'t lifecycle_backend \<Rightarrow> 't \<Rightarrow> 't \<times> (u16 \<times> u16) res" where
  "with_backend B t =
     st_then (enable_raw_mode B t) (\<lambda>t1 _.
     st_then (enter_alternate_screen B t1) (\<lambda>t2 _. (t2, terminal_size B t2)))"

text \<open>The second component is the size the callback is called with, if it is.\<close>

definition suspend :: "'t lifecycle_backend \<Rightarrow> 't \<Rightarrow> 't \<times> (u16 \<times> u16) option" where
  "suspend B t =
     (let t1 = fst (disable_raw_mode B t);
          t2 = fst (leave_alternate_screen B t1);
          t3 = fst (send_sigtstp B t2);
          t4 = fst (enable_raw_mode B t3);
          t5 = fst (enter_alternate_screen B t4)
      in (t5, case terminal_size B t5 of Inr sz \<Rightarrow> Some sz | Inl _ \<Rightarrow> None))"

definition clear_and_resize :: "'t lifecycle_backend \<Rightarrow> 't \<Rightarrow> 't \<times> (u16 \<times> u16) option" where
  "clear_and_resize B t =
     (let t1 = fst (enter_alternate_screen B t)
      in (t1, case terminal_size B t1 of Inr sz \<Rightarrow> Some sz | Inl _ \<Rightarrow> None))"

text \<open>The sizes the resize loop reports when \<open>SIGWINCH\<close> finds the terminal in the given states.\<close>

definition resize_loop :: "'t lifecycle_backend \<Rightarrow> 't list \<Rightarrow> (u16 \<times> u16) list" where
  "resize_loop B ts = concat (map (\<lambda>t. case terminal_size B t of Inr sz \<Rightarrow> [sz] | Inl _ \<Rightarrow> []) ts)"

definition drop_lifecycle :: "'t lifecycle_backend \<Rightarrow> 't \<Rightarrow> 't" where
  "drop_lifecycle B t = fst (disable_raw_mode B (fst (leave_alternate_screen B t)))"

datatype life_op = Op_suspend | Op_clear

fun life_op_run :: "'t lifecycle_backend \<Rightarrow> life_op \<Rightarrow> 't \<Rightarrow> 't" where
  "life_op_run B Op_suspend t = fst (suspend B t)"
| "life_op_run B Op_clear t = fst (clear_and_resize B t)"

section \<open>What the guard relies on\<close>

definition in_session :: "('t \<Rightarrow> bool) \<Rightarrow> ('t \<Rightarrow> bool) \<Rightarrow> ('t \<Rightarrow> bool) \<Rightarrow> 't \<Rightarrow> bool" where
  "in_session ok raw alt t \<longleftrightarrow> ok t \<and> raw t \<and> alt t"

text \<open>
  \<open>ok t\<close>: the terminal accepts the switches; \<open>raw\<close> and \<open>alt\<close> read its two modes.  Nothing is assumed of a
  terminal that does not accept them.
\<close>

locale terminal_backend =
  fixes B :: "'t lifecycle_backend" and ok raw alt :: "'t \<Rightarrow> bool"
  assumes enable: "ok t \<Longrightarrow> ok (fst (enable_raw_mode B t)) \<and> raw (fst (enable_raw_mode B t)) \<and> alt (fst (enable_raw_mode B t)) = alt t
      \<and> snd (enable_raw_mode B t) = Inr ()"
    and disable: "ok t \<Longrightarrow> ok (fst (disable_raw_mode B t)) \<and> \<not> raw (fst (disable_raw_mode B t)) \<and> alt (fst (disable_raw_mode B t)) = alt t"
    and enter: "ok t \<Longrightarrow> ok (fst (enter_alternate_screen B t)) \<and> alt (fst (enter_alternate_screen B t))
      \<and> raw (fst (enter_alternate_screen B t)) = raw t \<and> snd (enter_alternate_screen B t) = Inr ()"
    and leave: "ok t \<Longrightarrow> ok (fst (leave_alternate_screen B t)) \<and> \<not> alt (fst (leave_alternate_screen B t))
      \<and> raw (fst (leave_alternate_screen B t)) = raw t"
    and stop: "ok t \<Longrightarrow> ok (fst (send_sigtstp B t)) \<and> raw (fst (send_sigtstp B t)) = raw t \<and> alt (fst (send_sigtstp B t)) = alt t"
begin

lemma start_session: "ok t \<Longrightarrow> in_session ok raw alt (fst (with_backend B t)) \<and> snd (with_backend B t) = terminal_size B (fst (with_backend B t))"
  using enable [of t] enter [of "fst (enable_raw_mode B t)"] by (simp add: with_backend_def st_then_Inr in_session_def)

lemma suspend_session:
  assumes "in_session ok raw alt t"
  shows "in_session ok raw alt (fst (suspend B t))"
    "\<exists>t2. ok t2 \<and> \<not> raw t2 \<and> \<not> alt t2 \<and> fst (suspend B t) = fst (enter_alternate_screen B (fst (enable_raw_mode B (fst (send_sigtstp B t2)))))"
proof -
  let ?t2 = "fst (leave_alternate_screen B (fst (disable_raw_mode B t)))"
  have 2: "ok ?t2 \<and> \<not> raw ?t2 \<and> \<not> alt ?t2" using assms disable leave by (simp add: in_session_def)
  then show "\<exists>t2. ok t2 \<and> \<not> raw t2 \<and> \<not> alt t2 \<and> fst (suspend B t) = fst (enter_alternate_screen B (fst (enable_raw_mode B (fst (send_sigtstp B t2)))))"
    by (intro exI [of _ ?t2]) (simp add: suspend_def Let_def)
  show "in_session ok raw alt (fst (suspend B t))" using 2 stop enable enter by (simp add: suspend_def Let_def in_session_def)
qed

lemma ops_session: "in_session ok raw alt t \<Longrightarrow> in_session ok raw alt (fold (life_op_run B) ops t)"
proof (induction ops arbitrary: t)
  case (Cons a ops)
  then show ?case using suspend_session(1) enter by (cases a) (simp_all add: in_session_def clear_and_resize_def Let_def)
qed simp

lemma drop_session: "in_session ok raw alt t \<Longrightarrow> \<not> raw (drop_lifecycle B t) \<and> \<not> alt (drop_lifecycle B t)"
  using leave disable by (simp add: in_session_def drop_lifecycle_def)

end

text \<open>The interface of \<open>crossterm\<close> itself, and that the real backend then meets the guard's.\<close>

locale crossterm_terminal =
  fixes X :: "'t crossterm_lib" and ok raw alt :: "'t \<Rightarrow> bool"
  assumes ct_enable: "ok t \<Longrightarrow> ok (fst (ct_enable_raw_mode X t)) \<and> raw (fst (ct_enable_raw_mode X t))
      \<and> alt (fst (ct_enable_raw_mode X t)) = alt t \<and> snd (ct_enable_raw_mode X t) = Inr ()"
    and ct_disable: "ok t \<Longrightarrow> ok (fst (ct_disable_raw_mode X t)) \<and> \<not> raw (fst (ct_disable_raw_mode X t)) \<and> alt (fst (ct_disable_raw_mode X t)) = alt t"
    and ct_exec: "ok t \<Longrightarrow> ok (fst (ct_execute X t cmds)) \<and> raw (fst (ct_execute X t cmds)) = raw t \<and> snd (ct_execute X t cmds) = Inr ()
      \<and> alt (fst (ct_execute X t cmds)) = fold (\<lambda>c a. case c of EnterAlternateScreen \<Rightarrow> True | LeaveAlternateScreen \<Rightarrow> False | _ \<Rightarrow> a) cmds (alt t)"
    and ct_kill: "ok t \<Longrightarrow> ok (ct_kill_self X t) \<and> raw (ct_kill_self X t) = raw t \<and> alt (ct_kill_self X t) = alt t"

sublocale crossterm_terminal \<subseteq> terminal_backend "crossterm_backend X" ok raw alt
  by unfold_locales (simp_all add: crossterm_backend_def ct_enable ct_disable ct_exec ct_kill)

context crossterm_terminal
begin

lemma restores:
  assumes "ok t" "t1 = fold (life_op_run (crossterm_backend X)) ops (fst (with_backend (crossterm_backend X) t))"
  shows "raw t1 \<and> alt t1
    \<and> (\<exists>t2. \<not> raw t2 \<and> \<not> alt t2 \<and> fst (suspend (crossterm_backend X) t1) =
         fst (ct_execute X (fst (ct_enable_raw_mode X (ct_kill_self X t2))) [EnterAlternateScreen, HideCursor, ClearAll]))
    \<and> \<not> raw (drop_lifecycle (crossterm_backend X) t1) \<and> \<not> alt (drop_lifecycle (crossterm_backend X) t1)"
proof -
  have t1: "in_session ok raw alt t1" using start_session [OF assms(1)] ops_session assms(2) by blast
  then have "raw t1 \<and> alt t1" by (simp add: in_session_def)
  then show ?thesis using suspend_session(2) [OF t1] drop_session [OF t1] by (auto simp: crossterm_backend_def)
qed

end

interpretation fake: terminal_backend fake_backend "\<lambda>_. True" fk_raw_mode fk_alt_screen
  by unfold_locales (simp_all add: fake_backend_def)

text \<open>A terminal with the two modes, a cursor and a size.\<close>

record tty =
  tty_raw :: bool
  tty_alt :: bool
  tty_cursor :: bool
  tty_size :: "u16 \<times> u16"

fun tty_cmd :: "screen_cmd \<Rightarrow> tty \<Rightarrow> tty" where
  "tty_cmd EnterAlternateScreen t = t\<lparr>tty_alt := True\<rparr>"
| "tty_cmd LeaveAlternateScreen t = t\<lparr>tty_alt := False\<rparr>"
| "tty_cmd HideCursor t = t\<lparr>tty_cursor := False\<rparr>"
| "tty_cmd ShowCursor t = t\<lparr>tty_cursor := True\<rparr>"
| "tty_cmd ClearAll t = t"

definition tty_lib :: "tty crossterm_lib" where
  "tty_lib = \<lparr>ct_enable_raw_mode = (\<lambda>t. (t\<lparr>tty_raw := True\<rparr>, Inr ())), ct_disable_raw_mode = (\<lambda>t. (t\<lparr>tty_raw := False\<rparr>, Inr ())),
     ct_execute = (\<lambda>t cmds. (fold tty_cmd cmds t, Inr ())), ct_size = (\<lambda>t. Inr (tty_size t)), ct_kill_self = (\<lambda>t. t)\<rparr>"

interpretation tty: crossterm_terminal tty_lib "\<lambda>_. True" tty_raw tty_alt
proof unfold_locales
  have "tty_raw (fold tty_cmd cmds t) = tty_raw t
    \<and> tty_alt (fold tty_cmd cmds t) = fold (\<lambda>c a. case c of EnterAlternateScreen \<Rightarrow> True | LeaveAlternateScreen \<Rightarrow> False | _ \<Rightarrow> a) cmds (tty_alt t)" for cmds t
  proof (induction cmds arbitrary: t)
    case (Cons c cmds)
    then show ?case by (cases c) simp_all
  qed simp
  then show "True \<and> tty_raw (fst (ct_execute tty_lib t cmds)) = tty_raw t \<and> snd (ct_execute tty_lib t cmds) = Inr ()
      \<and> tty_alt (fst (ct_execute tty_lib t cmds)) = fold (\<lambda>c a. case c of EnterAlternateScreen \<Rightarrow> True | LeaveAlternateScreen \<Rightarrow> False | _ \<Rightarrow> a) cmds (tty_alt t)" for cmds t
    by (simp add: tty_lib_def)
qed (simp_all add: tty_lib_def)

section \<open>Properties\<close>

text \<open>C30: The user's terminal comes back.  On a terminal that accepts the switches, the guard puts it into raw mode and
  the alternate screen, every suspension and every return from the help screen leaves it so, the process
  is stopped only while the terminal is in its normal state, and dropping the guard restores both modes.\<close>

theorem lifecycle_restores:
  assumes "crossterm_terminal X ok raw alt" "ok t"
    and "t1 = fold (life_op_run (crossterm_backend X)) ops (fst (with_backend (crossterm_backend X) t))"
  shows "raw t1 \<and> alt t1
    \<and> (\<exists>t2. \<not> raw t2 \<and> \<not> alt t2 \<and> fst (suspend (crossterm_backend X) t1) =
         fst (ct_execute X (fst (ct_enable_raw_mode X (ct_kill_self X t2))) [EnterAlternateScreen, HideCursor, ClearAll]))
    \<and> \<not> raw (drop_lifecycle (crossterm_backend X) t1) \<and> \<not> alt (drop_lifecycle (crossterm_backend X) t1)"
  using assms by (rule crossterm_terminal.restores)

theorem lifecycle_restores_witness:
  "let t1 = fold (life_op_run (crossterm_backend tty_lib)) [Op_suspend, Op_clear]
     (fst (with_backend (crossterm_backend tty_lib) \<lparr>tty_raw = False, tty_alt = False, tty_cursor = True, tty_size = (80, 24)\<rparr>))
   in tty_raw t1 \<and> tty_alt t1 \<and> \<not> tty_raw (drop_lifecycle (crossterm_backend tty_lib) t1) \<and> \<not> tty_alt (drop_lifecycle (crossterm_backend tty_lib) t1)"
  unfolding Let_def using lifecycle_restores [OF tty.crossterm_terminal_axioms TrueI refl] by blast

text \<open>When entering the alternate screen or reading the size fails, no guard exists that could leave raw mode again.\<close>

lemma failed_start_unrestored:
  assumes "enable_raw_mode B t = (t1, Inr ())" "enter_alternate_screen B t1 = (t2, r)" "r = Inl e \<or> terminal_size B t2 = Inl e"
  shows "\<exists>e. with_backend B t = (t2, Inl e)"
  using assms by (cases r) (auto simp: with_backend_def)

end
