(* ===== verification/Rumsh_Client_Net.thy ===== *)
theory Rumsh_Client_Net
  imports Rumsh_Server_Net Rumsh_Renderer Rumsh_Lifecycle
begin

text \<open>
  \<open>src/client/network.rs\<close>, \<open>run_client\<close> after the handshake: the start of the session, the event loop and the
  execution of the session's actions with the adaptive tick interval.  A datagram, the timer, standard
  input and the window size arrive as loop events; the clock readings an event needs come with it.  Not
  returning (a row of the renderer that loops) is \<open>None\<close>; leaving the loop sets \<open>cn_exited\<close>.
\<close>

section \<open>The node\<close>

record ('c, 'f, 't) client_node =
  cn_session :: "('c, 'f) MirrorSession"
  cn_back_buffer :: "'f TerminalFrame"
  cn_tick_interval :: duration
  cn_terminal :: 't
  cn_sent :: "bytes list"
  cn_output :: "term_cmd list"
  cn_discarded :: bytes
  cn_exited :: bool

text \<open>What the outside does during a turn.  Clock readings: at the event, after a suspension or the help screen, and how
  long a paint takes.  After how many commands of a paint standard output fails, if it does.  What the help
  screen's read of standard input returns (a byte, nothing at the end of the input).\<close>

record clock =
  ck_now :: instant
  ck_later :: instant
  ck_paint :: duration
  ck_io :: "nat option"
  ck_key :: bytes

datatype loop_event =
    Ev_tick
  | Ev_recv bytes socket_addr
  | Ev_recv_error
  | Ev_stdin bytes
  | Ev_resize u16 u16
  | Ev_closed

definition ClientTerminalRenderer_new :: "'f f32_ops \<Rightarrow> 'f TerminalFrame" where
  "ClientTerminalRenderer_new F = TerminalFrame_new F 0 0"

definition packets_of :: "ClientAction list \<Rightarrow> bytes list" where
  "packets_of actions = concat (map (\<lambda>a. case a of SendPacket bs \<Rightarrow> [bs] | _ \<Rightarrow> []) actions)"

text \<open>\<open>send\<close> is the socket's \<open>send_to\<close> with the server's address; here, and only here, its error ends the client.\<close>

fun send_each :: "(bytes \<Rightarrow> unit res) \<Rightarrow> bytes list \<Rightarrow> unit res" where
  "send_each send [] = Inr ()"
| "send_each send (bs # packets) = and_then (send bs) (\<lambda>_. send_each send packets)"

definition client_start ::
    "'c PacketCodec \<Rightarrow> 'f f32_ops \<Rightarrow> 't lifecycle_backend \<Rightarrow> (bytes \<Rightarrow> unit res) \<Rightarrow> 't \<Rightarrow> u64 \<Rightarrow> 'c \<Rightarrow> u64 \<Rightarrow> bool \<Rightarrow> instant
      \<Rightarrow> ('c, 'f, 't) client_node res" where
  "client_start C F B send t session_id codec server_seq overlay now =
     (case with_backend B t of
        (_, Inl e) \<Rightarrow> Inl e
      | (t1, Inr (cols, rows)) \<Rightarrow>
          (case on_winch C (MirrorSession_new F session_id codec server_seq cols rows overlay now) cols rows now of
             (_, Inl e) \<Rightarrow> Inl e
           | (s, Inr init_actions) \<Rightarrow>
               and_then (send_each send (packets_of init_actions)) (\<lambda>_.
                 Inr \<lparr>cn_session = s, cn_back_buffer = ClientTerminalRenderer_new F, cn_tick_interval = from_millis 16,
                      cn_terminal = t1, cn_sent = packets_of init_actions, cn_output = [], cn_discarded = [], cn_exited = False\<rparr>)))"

section \<open>Actions\<close>

definition interval_after_paint :: "duration \<Rightarrow> duration" where
  "interval_after_paint paint_duration = min (max (paint_duration * 3) (from_millis 16)) (from_millis 100)"

definition interval_when_idle :: "duration \<Rightarrow> duration" where
  "interval_when_idle tick_interval =
     (if tick_interval > from_millis 16 then max (tick_interval - from_millis 1) (from_millis 16) else tick_interval)"

text \<open>The callback of the lifecycle guard; its result is dropped, a panic in it ends the client.\<close>

definition winch_callback ::
    "'c PacketCodec \<Rightarrow> ('c, 'f, 't) client_node \<Rightarrow> 't \<times> (u16 \<times> u16) option \<Rightarrow> instant \<Rightarrow> ('c, 'f, 't) client_node" where
  "winch_callback C n r now =
     (case r of
        (t, None) \<Rightarrow> n\<lparr>cn_terminal := t\<rparr>
      | (t, Some (cols, rows)) \<Rightarrow>
          (case on_winch C (cn_session n) cols rows now of
             (s, Inl e) \<Rightarrow> n\<lparr>cn_session := s, cn_terminal := t, cn_exited := is_panic e\<rparr>
           | (s, Inr _) \<Rightarrow> n\<lparr>cn_session := s, cn_terminal := t\<rparr>))"

text \<open>An error of \<open>paint\<close> is logged, and the loop goes on with what has been written; a panic ends the client.\<close>

definition paint_action ::
    "('f TerminalFrame \<Rightarrow> bytes) \<Rightarrow> ('c, 'f, 't) client_node \<Rightarrow> clock \<Rightarrow> ('c, 'f, 't) client_node option" where
  "paint_action overlay_text n ck =
     (case copy_frame_if_dirty (cn_session n) (cn_back_buffer n) of
        ((s, back), True) \<Rightarrow>
          (case paint overlay_text back of
             None \<Rightarrow> None
           | Some (back1, Inl e) \<Rightarrow> Some (n\<lparr>cn_session := s, cn_back_buffer := back1, cn_exited := True\<rparr>)
           | Some (back1, Inr (cmds, _)) \<Rightarrow>
               (let n1 = n\<lparr>cn_session := s, cn_tick_interval := interval_after_paint (ck_paint ck)\<rparr> in
                (case ck_io ck of
                   Some k \<Rightarrow>
                     if k < length cmds then Some (n1\<lparr>cn_back_buffer := paint_cut k back, cn_output := cn_output n @ take k cmds\<rparr>)
                     else Some (n1\<lparr>cn_back_buffer := back1, cn_output := cn_output n @ cmds\<rparr>)
                 | None \<Rightarrow> Some (n1\<lparr>cn_back_buffer := back1, cn_output := cn_output n @ cmds\<rparr>))))
      | ((s, back), False) \<Rightarrow>
          Some (n\<lparr>cn_session := s, cn_back_buffer := back, cn_tick_interval := interval_when_idle (cn_tick_interval n)\<rparr>))"

definition help_lines :: "string list" where
  "help_lines =
     [[CHR 0x0A] @ ''--- Rumsh Local Escape Sequences ---'',
      ''  ~.  - Terminate connection gracefully'',
      ''  ~^Z - Suspend rumsh (return to local shell)'',
      ''  ~o  - Toggle latency/loss debugging overlay'',
      ''  ~?  - Display this help message'',
      ''  ~~  - Send a literal '' @ [CHR 0x27] @ ''~'' @ [CHR 0x27] @ '' character'',
      [CHR 0x0D, CHR 0x0A] @ ''Press any key to return to session...'']"

text \<open>The help text is printed, the read returns, the byte is dropped, and the screen is cleared.\<close>

definition show_help ::
    "'c PacketCodec \<Rightarrow> 't lifecycle_backend \<Rightarrow> ('c, 'f, 't) client_node \<Rightarrow> clock \<Rightarrow> ('c, 'f, 't) client_node" where
  "show_help C B n ck =
     (let printed = [CHR 0x0D, CHR 0x0A] @ concat (map (\<lambda>line. line @ [CHR 0x0D, CHR 0x0A]) help_lines);
          n1 = n\<lparr>cn_output := cn_output n @ [Write (map of_char printed), Flush], cn_discarded := cn_discarded n @ take 1 (ck_key ck)\<rparr>
      in winch_callback C n1 (clear_and_resize B (cn_terminal n1)) (ck_later ck))"

fun client_actions ::
    "'c PacketCodec \<Rightarrow> 't lifecycle_backend \<Rightarrow> ('f TerminalFrame \<Rightarrow> bytes) \<Rightarrow> clock \<Rightarrow> ClientAction list
      \<Rightarrow> ('c, 'f, 't) client_node \<Rightarrow> ('c, 'f, 't) client_node option" where
  "client_actions C B txt ck [] n = Some n"
| "client_actions C B txt ck (a # actions) n =
     (if cn_exited n then Some n
      else (case a of
          SendPacket bs \<Rightarrow> client_actions C B txt ck actions (n\<lparr>cn_sent := cn_sent n @ [bs]\<rparr>)
        | Paint \<Rightarrow> Option.bind (paint_action txt n ck) (client_actions C B txt ck actions)
        | Suspend_action \<Rightarrow> client_actions C B txt ck actions (winch_callback C n (suspend B (cn_terminal n)) (ck_later ck))
        | ShowHelp \<Rightarrow> client_actions C B txt ck actions (show_help C B n ck)
        | Disconnect_action \<Rightarrow> Some (n\<lparr>cn_exited := True\<rparr>)))"

section \<open>The event loop\<close>

text \<open>What the session makes of an event; \<open>None\<close> breaks the loop.\<close>

definition session_event ::
    "'c PacketCodec \<Rightarrow> 'f f32_ops \<Rightarrow> socket_addr \<Rightarrow> ('c, 'f) MirrorSession \<Rightarrow> loop_event \<Rightarrow> instant
      \<Rightarrow> (('c, 'f) MirrorSession \<times> ClientAction list res) option" where
  "session_event C F server_addr s ev now =
     (case ev of
        Ev_tick \<Rightarrow> Some (on_tick C F s now)
      | Ev_recv bs src \<Rightarrow> Some (if src = server_addr then feed_packet C F s bs now else (s, Inr []))
      | Ev_recv_error \<Rightarrow> None
      | Ev_stdin bs \<Rightarrow> Some (feed_stdin C s bs now)
      | Ev_resize c r \<Rightarrow> Some (on_winch C s c r now)
      | Ev_closed \<Rightarrow> None)"

definition loop_turn ::
    "'c PacketCodec \<Rightarrow> 'f f32_ops \<Rightarrow> 't lifecycle_backend \<Rightarrow> ('f TerminalFrame \<Rightarrow> bytes) \<Rightarrow> socket_addr
      \<Rightarrow> loop_event \<times> clock \<Rightarrow> ('c, 'f, 't) client_node \<Rightarrow> ('c, 'f, 't) client_node option" where
  "loop_turn C F B txt server_addr x n =
     (case x of (ev, ck) \<Rightarrow>
        (case session_event C F server_addr (cn_session n) ev (ck_now ck) of
           None \<Rightarrow> Some (n\<lparr>cn_exited := True\<rparr>)
         | Some (s, Inl e) \<Rightarrow> Some (n\<lparr>cn_session := s, cn_exited := True\<rparr>)
         | Some (s, Inr actions) \<Rightarrow> client_actions C B txt ck actions (n\<lparr>cn_session := s\<rparr>)))"

fun client_loop ::
    "'c PacketCodec \<Rightarrow> 'f f32_ops \<Rightarrow> 't lifecycle_backend \<Rightarrow> ('f TerminalFrame \<Rightarrow> bytes) \<Rightarrow> socket_addr
      \<Rightarrow> (loop_event \<times> clock) list \<Rightarrow> ('c, 'f, 't) client_node \<Rightarrow> ('c, 'f, 't) client_node option" where
  "client_loop C F B txt server_addr [] n = Some n"
| "client_loop C F B txt server_addr (x # xs) n =
     (if cn_exited n then Some n
      else Option.bind (loop_turn C F B txt server_addr x n) (client_loop C F B txt server_addr xs))"

section \<open>The loop drives the session by its events\<close>

definition tick_bounded :: "('c, 'f, 't) client_node \<Rightarrow> bool" where
  "tick_bounded n \<longleftrightarrow> from_millis 16 \<le> cn_tick_interval n \<and> cn_tick_interval n \<le> from_millis 100"

lemma interval_bounds:
  "from_millis 16 \<le> interval_after_paint d" "interval_after_paint d \<le> from_millis 100"
  "from_millis 16 \<le> i \<Longrightarrow> from_millis 16 \<le> interval_when_idle i" "interval_when_idle i \<le> max i (from_millis 16)"
  by (auto simp: interval_after_paint_def interval_when_idle_def from_millis_def)

text \<open>\<open>drives\<close>: the session of the second node is reached from that of the first by events of the client, and the
  second node's tick interval is within its bounds.\<close>

definition drives ::
    "'c PacketCodec \<Rightarrow> 'f f32_ops \<Rightarrow> bytes set \<Rightarrow> ('c, 'f, 't) client_node \<Rightarrow> ('c, 'f, 't) client_node \<Rightarrow> bool" where
  "drives C F W n n' \<longleftrightarrow> (client_event C F W)\<^sup>*\<^sup>* (cn_session n) (cn_session n') \<and> (tick_bounded n \<longrightarrow> tick_bounded n')"

lemma drives_refl [simp]: "drives C F W n n"
  by (simp add: drives_def)

lemma drives_trans: "drives C F W n n1 \<Longrightarrow> drives C F W n1 n2 \<Longrightarrow> drives C F W n n2"
  by (auto simp: drives_def)

lemma drives_step:
  "client_event C F W (cn_session n) s \<Longrightarrow> cn_session n' = s \<Longrightarrow> cn_tick_interval n' = cn_tick_interval n \<Longrightarrow> drives C F W n n'"
  by (auto simp: drives_def tick_bounded_def)

lemma drives_same:
  "cn_session n' = cn_session n \<Longrightarrow> cn_tick_interval n' = cn_tick_interval n \<Longrightarrow> drives C F W n n'"
  by (simp add: drives_def tick_bounded_def)

lemma winch_callback_drives: "drives C F W n (winch_callback C n r now)"
proof -
  obtain t sz where r: "r = (t, sz)" by (cases r)
  show ?thesis
  proof (cases sz)
    case None
    then show ?thesis using r by (auto simp: winch_callback_def intro: drives_same)
  next
    case (Some p)
    obtain c w where p: "p = (c, w)" by (cases p)
    obtain s res where o: "on_winch C (cn_session n) c w now = (s, res)" by force
    have "client_event C F W (cn_session n) s" using o by (rule ce_winch)
    from drives_step [OF this] show ?thesis
      using r Some p o by (cases res) (simp_all add: winch_callback_def)
  qed
qed

lemma show_help_drives: "drives C F W n (show_help C B n ck)"
proof -
  let ?n1 = "\<lambda>t. n\<lparr>cn_output := cn_output n @ [Write t, Flush], cn_discarded := cn_discarded n @ take 1 (ck_key ck)\<rparr>"
  have "drives C F W n (?n1 t)" for t by (simp add: drives_same)
  from drives_trans [OF this winch_callback_drives] show ?thesis by (simp add: show_help_def Let_def)
qed

lemma paint_action_drives: "paint_action txt n ck = Some n' \<Longrightarrow> drives C F W n n'"
proof -
  assume a: "paint_action txt n ck = Some n'"
  obtain s bb b where c: "copy_frame_if_dirty (cn_session n) (cn_back_buffer n) = ((s, bb), b)" by (metis prod.collapse)
  have s: "cn_session n' = s" and t: "tick_bounded n \<longrightarrow> tick_bounded n'"
    using a c interval_bounds(1,2) [of "ck_paint ck"] interval_bounds(3,4) [of "cn_tick_interval n"]
    by (auto simp: paint_action_def tick_bounded_def from_millis_def Let_def split: bool.splits option.splits sum.splits if_splits)
  show ?thesis using ce_paint [OF c, of C F W] s t by (auto simp: drives_def)
qed

lemma client_actions_drives: "client_actions C B txt ck actions n = Some n' \<Longrightarrow> drives C F W n n'"
proof (induction actions arbitrary: n)
  case (Cons a actions)
  show ?case
  proof (cases "cn_exited n")
    case True
    with Cons.prems show ?thesis by simp
  next
    case False
    show ?thesis
    proof (cases a)
      case (SendPacket bs)
      have "drives C F W n (n\<lparr>cn_sent := cn_sent n @ [bs]\<rparr>)" by (simp add: drives_same)
      then show ?thesis using Cons SendPacket False by (auto intro: drives_trans)
    next
      case Paint
      then obtain n1 where "paint_action txt n ck = Some n1" "client_actions C B txt ck actions n1 = Some n'"
        using Cons.prems False by (auto split: Option.bind_splits)
      then show ?thesis using Cons.IH paint_action_drives drives_trans by blast
    next
      case Disconnect_action
      then have "n' = n\<lparr>cn_exited := True\<rparr>" using Cons.prems False by simp
      then show ?thesis by (simp add: drives_same)
    next
      case Suspend_action
      then have "client_actions C B txt ck actions (winch_callback C n (suspend B (cn_terminal n)) (ck_later ck)) = Some n'"
        using Cons.prems False by simp
      from drives_trans [OF winch_callback_drives Cons.IH [OF this]] show ?thesis .
    next
      case ShowHelp
      then have "client_actions C B txt ck actions (show_help C B n ck) = Some n'"
        using Cons.prems False by simp
      from drives_trans [OF show_help_drives Cons.IH [OF this]] show ?thesis .
    qed
  qed
qed simp

lemma session_event_client:
  assumes "session_event C F server_addr s ev now = Some (s', r)" "\<And>bs. ev = Ev_recv bs server_addr \<Longrightarrow> bs \<in> W"
  shows "(client_event C F W)\<^sup>*\<^sup>* s s'"
proof (cases ev)
  case Ev_tick
  then show ?thesis using assms(1) by (auto simp: session_event_def intro: ce_tick)
next
  case (Ev_recv bs src)
  then show ?thesis using assms ce_packet [of bs W C F s now s' r] by (auto simp: session_event_def split: if_splits)
next
  case (Ev_stdin bs)
  then show ?thesis using assms(1) by (auto simp: session_event_def intro: ce_stdin)
next
  case (Ev_resize c w)
  then show ?thesis using assms(1) by (auto simp: session_event_def intro: ce_winch)
qed (use assms(1) in \<open>simp_all add: session_event_def\<close>)

lemma loop_turn_drives:
  assumes "loop_turn C F B txt server_addr (ev, ck) n = Some n'" "\<And>bs. ev = Ev_recv bs server_addr \<Longrightarrow> bs \<in> W"
  shows "drives C F W n n'"
proof (cases "session_event C F server_addr (cn_session n) ev (ck_now ck)")
  case None
  then have "n' = n\<lparr>cn_exited := True\<rparr>" using assms(1) by (simp add: loop_turn_def)
  then show ?thesis by (simp add: drives_same)
next
  case (Some p)
  obtain s r where p: "p = (s, r)" by (cases p)
  have ev: "(client_event C F W)\<^sup>*\<^sup>* (cn_session n) s" using session_event_client [OF Some [unfolded p] assms(2)] .
  show ?thesis
  proof (cases r)
    case (Inl e)
    then have "n' = n\<lparr>cn_session := s, cn_exited := True\<rparr>" using assms(1) Some p by (simp add: loop_turn_def)
    then show ?thesis using ev by (simp add: drives_def tick_bounded_def)
  next
    case (Inr actions)
    then have "drives C F W (n\<lparr>cn_session := s\<rparr>) n'" using assms(1) Some p by (auto simp: loop_turn_def intro: client_actions_drives)
    moreover have "drives C F W n (n\<lparr>cn_session := s\<rparr>)" using ev by (simp add: drives_def tick_bounded_def)
    ultimately show ?thesis using drives_trans by blast
  qed
qed

lemma client_loop_drives:
  assumes "client_loop C F B txt server_addr xs n = Some n'" "\<And>bs ck. (Ev_recv bs server_addr, ck) \<in> set xs \<Longrightarrow> bs \<in> W"
  shows "drives C F W n n'"
  using assms
proof (induction xs arbitrary: n)
  case (Cons x xs)
  obtain ev ck where x: "x = (ev, ck)" by (cases x)
  show ?case
  proof (cases "cn_exited n")
    case True
    with Cons.prems(1) show ?thesis by simp
  next
    case False
    then obtain n1 where n1: "loop_turn C F B txt server_addr (ev, ck) n = Some n1" "client_loop C F B txt server_addr xs n1 = Some n'"
      using Cons.prems(1) x by (auto split: Option.bind_splits)
    have "drives C F W n n1" using loop_turn_drives [OF n1(1)] Cons.prems(2) x by auto
    moreover have "drives C F W n1 n'" using Cons.IH [OF n1(2)] Cons.prems(2) by auto
    ultimately show ?thesis by (rule drives_trans)
  qed
qed simp

section \<open>Properties\<close>

text \<open>C24: The client's event loop drives its session by the session's own events and nothing else.  Whatever ticks, datagrams,
  keystrokes and resizes arrive, and whatever actions, suspensions and paints they cause, if the loop
  returns, the session it leaves is reached from the first one by client events; only datagrams from
  the server's address (the set \<open>W\<close>) reach it; and the tick interval stays between 16 and 100 ms.\<close>

theorem client_loop_refines:
  assumes "client_loop C F B txt server_addr xs n = Some n'"
    and "\<forall>bs ck. (Ev_recv bs server_addr, ck) \<in> set xs \<longrightarrow> bs \<in> W"
    and "from_millis 16 \<le> cn_tick_interval n" "cn_tick_interval n \<le> from_millis 100"
  shows "(client_event C F W)\<^sup>*\<^sup>* (cn_session n) (cn_session n')
    \<and> from_millis 16 \<le> cn_tick_interval n' \<and> cn_tick_interval n' \<le> from_millis 100"
  using client_loop_drives [OF assms(1), of W] assms(2-4) by (simp add: drives_def tick_bounded_def)

text \<open>A datagram from a stranger, then the end of the event channel.\<close>

definition tiny_client_node :: "(ChaChaCodec, unit, fake_terminal) client_node" where
  "tiny_client_node = \<lparr>cn_session = tiny_client, cn_back_buffer = ClientTerminalRenderer_new unit_f32,
     cn_tick_interval = from_millis 16, cn_terminal = fake_new 1 1, cn_sent = [], cn_output = [],
     cn_discarded = [], cn_exited = False\<rparr>"

theorem client_loop_refines_witness:
  "\<exists>n'. client_loop (chacha_codec ref_lib) unit_f32 fake_backend (\<lambda>_. []) ([127, 0, 0, 1], 4000)
      [(Ev_recv [1] ([10, 0, 0, 1], 4000), \<lparr>ck_now = 1, ck_later = 1, ck_paint = 0, ck_io = None, ck_key = []\<rparr>), (Ev_closed, \<lparr>ck_now = 2, ck_later = 2, ck_paint = 0, ck_io = None, ck_key = []\<rparr>)]
      tiny_client_node = Some n'
    \<and> cn_exited n' \<and> (client_event (chacha_codec ref_lib) unit_f32 {})\<^sup>*\<^sup>* tiny_client (cn_session n') \<and> cn_tick_interval n' \<le> from_millis 100"
proof -
  let ?xs = "[(Ev_recv [1] ([10, 0, 0, 1], 4000), \<lparr>ck_now = 1, ck_later = 1, ck_paint = 0, ck_io = None, ck_key = []\<rparr>), (Ev_closed, \<lparr>ck_now = 2, ck_later = 2, ck_paint = 0, ck_io = None, ck_key = []\<rparr>)]"
  have l: "client_loop (chacha_codec ref_lib) unit_f32 fake_backend (\<lambda>_. []) ([127, 0, 0, 1], 4000) ?xs tiny_client_node
      = Some (tiny_client_node\<lparr>cn_exited := True\<rparr>)"
    by (simp add: loop_turn_def session_event_def tiny_client_node_def)
  from client_loop_refines [OF this, of "{}"] l show ?thesis
    by (auto simp: tiny_client_node_def from_millis_def)
qed

end
