(* ===== verification/Rumsh_Client_Screen.thy ===== *)
theory Rumsh_Client_Screen
  imports Rumsh_Client_Net
begin

text \<open>
  What a turn of the client's loop does to the screen: that it returns, and what the user sees after a suspension or
  the help screen.  Only lemmas; the definitions are those of \<open>Rumsh_Client_Net\<close> and \<open>Rumsh_Renderer\<close>.
\<close>

section \<open>A turn returns\<close>

abbreviation mirror_cols :: "('c, 'f) MirrorSession \<Rightarrow> u16" where
  "mirror_cols s \<equiv> tf_cols (ti_frame (ms_mirror s))"

lemma restore_cells_cols: "tf_cols (fst (restore_cells f cells)) = tf_cols f"
  by (induction f cells rule: restore_cells.induct) (auto split: sum.splits)

lemma undo_entries_cols: "tf_cols (fst (undo_entries f entries)) = tf_cols f"
proof (induction entries arbitrary: f)
  case (Cons entry entries)
  obtain f1 r where "restore_cells (f\<lparr>tf_cursor_x := pe_old_cursor_x entry, tf_cursor_y := pe_old_cursor_y entry\<rparr>) (rev (pe_old_cells entry)) = (f1, r)"
    by force
  moreover from this have "tf_cols f1 = tf_cols f" using restore_cells_cols [of "f\<lparr>tf_cursor_x := pe_old_cursor_x entry, tf_cursor_y := pe_old_cursor_y entry\<rparr>" "rev (pe_old_cells entry)"] by simp
  ultimately show ?case using Cons.IH by (cases r) simp_all
qed simp

lemma abort_prediction_cols: "tf_cols (ti_frame (fst (abort_prediction m))) = tf_cols (ti_frame m)"
  using undo_entries_cols [of "ti_frame m" "rev (unconfirmed_inputs (ti_echo_engine m))"]
  by (auto simp: abort_prediction_def with_echo_def abort_def split: prod.splits sum.splits)

lemma prepare_resize_mirror: "ms_mirror (fst (prepare_resize C s cols rows now)) = ms_mirror s"
  by (auto simp: prepare_resize_def seal_reliable_def Let_def split: sum.splits)

lemma on_winch_mirror:
  "ms_mirror (fst (on_winch C s cols rows now)) \<in>
     {ms_mirror s, fst (abort_prediction (ms_mirror s)), mark_dirty (fst (abort_prediction (ms_mirror s)))}"
proof -
  obtain s1 r where p: "prepare_resize C s cols rows now = (s1, r)" by force
  then have m: "ms_mirror s1 = ms_mirror s" using prepare_resize_mirror [of C s cols rows now] by simp
  obtain m1 r1 where "abort_prediction (ms_mirror s) = (m1, r1)" by force
  then show ?thesis using p m by (cases r; cases r1) (simp_all add: on_winch_def with_mirror_def)
qed

lemma on_winch_cols: "mirror_cols (fst (on_winch C s cols rows now)) = mirror_cols s"
  using on_winch_mirror [of C s cols rows now] abort_prediction_cols [of "ms_mirror s"] by (auto simp: mark_dirty_def)

lemma winch_callback_session:
  "cn_session (winch_callback C n r now) = cn_session n
   \<or> (\<exists>cols rows. cn_session (winch_callback C n r now) = fst (on_winch C (cn_session n) cols rows now))"
  by (cases r) (auto simp: winch_callback_def split: option.splits prod.splits sum.splits, (metis fst_conv)+)

lemma winch_callback_cols: "mirror_cols (cn_session (winch_callback C n r now)) = mirror_cols (cn_session n)"
  using winch_callback_session [of C n r now] on_winch_cols by auto

lemma show_help_session:
  "cn_session (show_help C B n ck) = cn_session n
   \<or> (\<exists>cols rows. cn_session (show_help C B n ck) = fst (on_winch C (cn_session n) cols rows (ck_later ck)))"
proof -
  let ?n1 = "\<lambda>t. n\<lparr>cn_output := cn_output n @ [Write t, Flush], cn_discarded := cn_discarded n @ take 1 (ck_key ck)\<rparr>"
  show ?thesis using winch_callback_session [of C "?n1 _"] unfolding show_help_def Let_def by simp
qed

lemma show_help_cols: "mirror_cols (cn_session (show_help C B n ck)) = mirror_cols (cn_session n)"
  using show_help_session [of C B n ck] on_winch_cols by auto

lemma paint_action_returns:
  assumes "unat (mirror_cols (cn_session n)) < 65535"
  shows "\<exists>n'. paint_action overlay n ck = Some n' \<and> mirror_cols (cn_session n') = mirror_cols (cn_session n)"
proof -
  obtain s buf b where c: "copy_frame_if_dirty (cn_session n) (cn_back_buffer n) = ((s, buf), b)" by (metis prod.collapse)
  then have s: "mirror_cols s = mirror_cols (cn_session n)" "b \<Longrightarrow> tf_cols buf = mirror_cols (cn_session n)"
    by (auto simp: copy_frame_if_dirty_def consume_updates_def Let_def split: if_splits)
  show ?thesis
  proof (cases b)
    case True
    then obtain buf1 r where p: "paint overlay buf = Some (buf1, r)"
      using paint_returns [of buf overlay] s(2) assms by auto
    then show ?thesis using c s(1) True by (cases r) (auto simp: paint_action_def Let_def split: option.split)
  qed (use c s(1) in \<open>simp add: paint_action_def\<close>)
qed

lemma client_actions_return:
  "unat (mirror_cols (cn_session n)) < 65535 \<Longrightarrow> \<exists>n'. client_actions C B overlay ck actions n = Some n'"
proof (induction actions arbitrary: n)
  case (Cons a actions)
  show ?case
  proof (cases a)
    case Paint
    obtain n1 where "paint_action overlay n ck = Some n1" "unat (mirror_cols (cn_session n1)) < 65535"
      using paint_action_returns [OF Cons.prems] Cons.prems by metis
    then show ?thesis using Cons.IH Paint by simp
  next
    case Suspend_action
    then show ?thesis using Cons.IH [of "winch_callback C n (suspend B (cn_terminal n)) (ck_later ck)"] Cons.prems
      by (simp add: winch_callback_cols)
  next
    case ShowHelp
    then show ?thesis using Cons.IH [of "show_help C B n ck"] Cons.prems
      by (simp add: show_help_cols)
  qed (use Cons in simp_all)
qed simp

section \<open>Repainting\<close>

text \<open>With no row marked, painting moves the cursor and writes nothing.\<close>

lemma paint_rows_clean:
  "True \<notin> set (tf_row_dirty st) \<Longrightarrow> \<forall>y \<in> set ys. unat y < length (tf_row_dirty st) \<Longrightarrow>
     paint_rows st ys active out real = Some (st, Inr (out, real))"
proof (induction ys)
  case (Cons y ys)
  then have "\<not> tf_row_dirty st ! unat y" by (metis list.set_intros(1) nth_mem)
  with Cons show ?case by (simp add: vec_get_def)
qed simp

lemma paint_clean:
  assumes "frame_wf st" "True \<notin> set (tf_row_dirty st)" "\<not> tf_clear_requested st" "\<not> tf_reconnecting st" "\<not> tf_overlay_enabled st"
  shows "\<exists>st' cmds. paint overlay st = Some (st', Inr (cmds, False)) \<and> d_cells (run_cmds cmds d) = d_cells d"
proof -
  let ?st = "st\<lparr>tf_clear_requested := False, tf_dirty := False\<rparr>"
  have "\<forall>y \<in> set (u16_range (tf_rows ?st)). unat y < length (tf_row_dirty ?st)"
    using assms(1) by (auto simp: frame_wf_def word_less_nat_alt set_u16_range)
  then have "paint_rows ?st (u16_range (tf_rows ?st)) None [] False = Some (?st, Inr ([], False))"
    using assms(2) by (intro paint_rows_clean) simp_all
  then show ?thesis using assms(3-5) by (simp add: paint_def Let_def run_cmds_def)
qed

definition clean :: "'f TerminalInner \<Rightarrow> bool" where
  "clean m \<longleftrightarrow> True \<notin> set (tf_row_dirty (ti_frame m)) \<and> \<not> tf_clear_requested (ti_frame m)
     \<and> \<not> tf_reconnecting (ti_frame m) \<and> \<not> tf_overlay_enabled (ti_frame m)"

lemma consume_clean:
  assumes "mirror_wf m" "clean m" "snd (consume_updates m dest)"
  shows "\<exists>st' cmds. paint overlay (snd (fst (consume_updates m dest))) = Some (st', Inr (cmds, False)) \<and> d_cells (run_cmds cmds d) = d_cells d"
proof -
  have "snd (fst (consume_updates m dest)) = copy_to (ti_frame m) dest" using assms(3) by (auto simp: consume_updates_def Let_def split: if_splits)
  then show ?thesis using assms(1,2) by (intro paint_clean) (simp_all add: clean_def frame_wf_def)
qed

lemma apply_frame_same_clean:
  assumes "mirror_wf m" "grid_wf g" "unconfirmed_inputs (ti_echo_engine m) = []" "displays m g" "clean m"
  shows "mirror_wf (fst (apply_frame m g q)) \<and> clean (fst (apply_frame m g q))"
proof -
  have new: "ti_frame (fst (apply_frame m g q)) = (fst (update_from_grid_state (ti_frame m) g))\<lparr>tf_last_seq := q\<rparr>"
    using assms(3) by (intro apply_frame_confirmed assms(1,2)) simp
  have same: "fst (resize_frame (ti_frame m) g) = ti_frame m" using assms(4) by (simp add: resize_frame_def displays_def)
  have "\<not> row_differs (ti_frame m) g y" for y using assms(4) by (simp add: row_differs_def displays_def)
  moreover have "length (tf_row_dirty (ti_frame m)) = unat (gs_rows g)" using assms(1,4) by (simp add: frame_wf_def displays_def)
  ultimately obtain rd d where u: "fst (update_from_grid_state (ti_frame m) g) = (ti_frame m)\<lparr>tf_cell_cache := gs_cells g, tf_row_dirty := rd,
      tf_cursor_x := gs_cursor_x g, tf_cursor_y := gs_cursor_y g, tf_cursor_visible := gs_cursor_visible g, tf_dirty := d\<rparr>"
    "length rd = length (tf_row_dirty (ti_frame m))" "\<forall>y < length rd. rd ! y \<longleftrightarrow> tf_row_dirty (ti_frame m) ! y"
    using update_from_grid_state_ok [OF assms(1,2)] same by auto
  then have "rd = tf_row_dirty (ti_frame m)" by (intro nth_equalityI) simp_all
  then show ?thesis using assms(1,4,5) new u(1) by (simp add: clean_def frame_wf_def displays_def)
qed

lemma on_winch_clean:
  assumes "client_wf s" "pending s = []" "clean (ms_mirror s)"
  shows "clean (ms_mirror (fst (on_winch C s cols rows now)))" "pending (fst (on_winch C s cols rows now)) = []"
    "displays (ms_mirror s) g \<Longrightarrow> displays (ms_mirror (fst (on_winch C s cols rows now))) g"
proof -
  have "abort_prediction (ms_mirror s) = ((ms_mirror s)\<lparr>ti_echo_engine := (ti_echo_engine (ms_mirror s))\<lparr>unconfirmed_inputs := [],
      current_epoch := current_epoch (ti_echo_engine (ms_mirror s)) + 1\<rparr>\<rparr>, Inr ())"
    using assms(2) by (simp add: abort_prediction_def with_echo_def abort_def)
  with on_winch_mirror [of C s cols rows now] assms(2,3)
  show "clean (ms_mirror (fst (on_winch C s cols rows now)))" "pending (fst (on_winch C s cols rows now)) = []"
    "displays (ms_mirror s) g \<Longrightarrow> displays (ms_mirror (fst (on_winch C s cols rows now))) g"
    by (auto simp: clean_def mark_dirty_def displays_def)
qed

section \<open>Properties\<close>

text \<open>C17: A turn of the client's loop returns, whatever the event and whatever actions, suspensions and paints it causes, as
  long as the mirror it leaves has at most 65534 columns: no cell makes the renderer's column loop run for
  ever.  The waits inside a turn, for the shell that resumes the client and for the key that leaves the help
  screen, are over when the turn goes on; what they end with is part of the event.  (With 65535 columns a
  row of wide characters does loop: \<open>paint_row_diverges\<close>.)\<close>

theorem loop_turn_returns:
  assumes "\<And>s r. session_event C F server_addr (cn_session n) ev (ck_now ck) = Some (s, r) \<Longrightarrow> unat (tf_cols (ti_frame (ms_mirror s))) < 65535"
  shows "\<exists>n'. loop_turn C F B overlay server_addr (ev, ck) n = Some n'"
proof (cases "session_event C F server_addr (cn_session n) ev (ck_now ck)")
  case (Some p)
  obtain s r where p: "p = (s, r)" by (cases p)
  have "\<exists>n'. client_actions C B overlay ck actions (n\<lparr>cn_session := s\<rparr>) = Some n'" for actions
    by (rule client_actions_return) (use assms Some p in simp)
  then show ?thesis using Some p by (cases r) (simp_all add: loop_turn_def)
qed (simp add: loop_turn_def)

theorem loop_turn_returns_witness:
  "\<exists>n'. loop_turn (chacha_codec ref_lib) unit_f32 fake_backend (\<lambda>_. []) ([127, 0, 0, 1], 4000)
     (Ev_resize 1 1, \<lparr>ck_now = 1, ck_later = 1, ck_paint = 0, ck_io = None, ck_key = []\<rparr>) tiny_client_node = Some n'"
proof (rule loop_turn_returns)
  fix s r
  assume "session_event (chacha_codec ref_lib) unit_f32 ([127, 0, 0, 1], 4000) (cn_session tiny_client_node) (Ev_resize 1 1)
    (ck_now \<lparr>ck_now = 1, ck_later = 1, ck_paint = 0, ck_io = None, ck_key = []\<rparr>) = Some (s, r)"
  then have "s = fst (on_winch (chacha_codec ref_lib) tiny_client 1 1 1)" by (simp add: session_event_def tiny_client_node_def)
  then show "unat (tf_cols (ti_frame (ms_mirror s))) < 65535" using on_winch_cols [of "chacha_codec ref_lib" tiny_client 1 1 1]
    by (simp add: tiny_client_def MirrorSession_new_def set_overlay_enabled_def ClientTerminal_new_def TerminalFrame_new_def)
qed

text \<open>C23: The screen stays blank after a suspension and after the help text.  Both clear the terminal and end in the resize
  callback, which marks the frame but no row for painting; so when everything was painted before, the
  next paint writes no cell, and neither does the paint after the full frame the server sends for
  the resize, as long as it shows the screen as it was: only rows that change come back.\<close>

theorem resumed_screen_stays_blank:
  assumes "a = Suspend_action \<or> a = ShowHelp" "client_actions C B overlay ck [a] n = Some n'"
    and "client_wf (cn_session n)" "pending (cn_session n) = []" "clean (ms_mirror (cn_session n))"
    and "grid_wf g" "displays (ms_mirror (cn_session n)) g"
    and "m = ms_mirror (cn_session n') \<or> m = fst (apply_frame (ms_mirror (cn_session n')) g q)"
    and "snd (consume_updates m dest)"
  shows "\<exists>st' cmds. paint overlay (snd (fst (consume_updates m dest))) = Some (st', Inr (cmds, False))
    \<and> d_cells (run_cmds cmds d) = d_cells d"
proof -
  let ?s = "cn_session n" and ?s' = "cn_session n'"
  have "n' = n \<or> n' = winch_callback C n (suspend B (cn_terminal n)) (ck_later ck)
      \<or> n' = show_help C B n ck"
    using assms(1,2) by (auto split: if_splits)
  then have "?s' = ?s \<or> (\<exists>cols rows now. ?s' = fst (on_winch C ?s cols rows now))"
    using winch_callback_session show_help_session by blast
  then have s': "client_wf ?s'" "clean (ms_mirror ?s')" "pending ?s' = []" "displays (ms_mirror ?s') g"
    using assms(3-5,7) on_winch_clean [OF assms(3-5)] on_winch_wf by auto
  then have "mirror_wf m \<and> clean m"
    using assms(8) client_wfD [OF s'(1)] apply_frame_same_clean [OF client_wfD [OF s'(1)] assms(6) s'(3,4,2)] by auto
  then show ?thesis using consume_clean assms(9) by blast
qed

definition painted_client_node :: "(ChaChaCodec, unit, fake_terminal) client_node" where
  "painted_client_node = tiny_client_node\<lparr>cn_session := fst (fst (copy_frame_if_dirty tiny_client (TerminalFrame_new unit_f32 0 0)))\<rparr>"

theorem resumed_screen_stays_blank_witness:
  "\<exists>n' st' cmds. client_actions (chacha_codec ref_lib) fake_backend (\<lambda>_. []) \<lparr>ck_now = 1, ck_later = 1, ck_paint = 0, ck_io = None, ck_key = []\<rparr> [Suspend_action] painted_client_node = Some n'
    \<and> snd (consume_updates (ms_mirror (cn_session n')) (TerminalFrame_new unit_f32 0 0))
    \<and> paint (\<lambda>_. []) (snd (fst (consume_updates (ms_mirror (cn_session n')) (TerminalFrame_new unit_f32 0 0)))) = Some (st', Inr (cmds, False))
    \<and> d_cells (run_cmds cmds \<lparr>d_x = 0, d_y = 0, d_attrs = no_attrs, d_cells = \<lambda>_ _. None, d_visible = True\<rparr>) 0 0 = None"
proof -
  let ?s = "cn_session painted_client_node" and ?d = "\<lparr>d_x = 0, d_y = 0, d_attrs = no_attrs, d_cells = \<lambda>_ _. None, d_visible = True\<rparr>"
  let ?ck = "\<lparr>ck_now = 1, ck_later = 1, ck_paint = 0, ck_io = None, ck_key = []\<rparr>" and ?C = "chacha_codec ref_lib" and ?dest = "TerminalFrame_new unit_f32 0 0"
  have m: "ms_mirror tiny_client = set_overlay_enabled (ClientTerminal_new unit_f32 1 1) False"
    by (simp add: tiny_client_def MirrorSession_new_def)
  have wf: "client_wf ?s" using copy_frame_wf [OF tiny_client_props(1)] by (simp add: painted_client_node_def)
  have s: "pending ?s = []" "clean (ms_mirror ?s)" "displays (ms_mirror ?s) (blank_grid 1 1)"
    by (simp_all add: painted_client_node_def copy_frame_if_dirty_def consume_updates_def m set_overlay_enabled_def ClientTerminal_new_def
        TerminalFrame_new_def LocalEchoEngine_new_def Let_def clean_def displays_def blank_grid_def)
  obtain n' where n': "client_actions ?C fake_backend (\<lambda>_. []) ?ck [Suspend_action] painted_client_node = Some n'"
    by (simp add: painted_client_node_def tiny_client_node_def)
  obtain s1 b where w: "on_winch ?C ?s 1 1 1 = (s1, Inr [SendPacket b, Paint])" "tf_dirty (ti_frame (ms_mirror s1))"
    using s(1) by (auto simp: on_winch_def prepare_resize_def seal_reliable_def with_mirror_def Let_def mark_dirty_def
        chacha_codec_def chacha_seal_client_def serialize_def abort_prediction_def with_echo_def abort_def)
  have "cn_session n' = s1"
    using n' w(1) by (auto simp: painted_client_node_def tiny_client_node_def winch_callback_def suspend_def fake_backend_def fake_new_def)
  then have "snd (consume_updates (ms_mirror (cn_session n')) ?dest)" using w(2) by (simp add: consume_updates_cases)
  with resumed_screen_stays_blank [OF _ n' wf s(1,2) _ s(3), of "ms_mirror (cn_session n')" 0 ?dest ?d] n' show ?thesis by auto
qed

end
