(* ===== verification/Rumsh_Handshake.thy ===== *)
theory Rumsh_Handshake
  imports Rumsh_Client_Session Rumsh_Delivery
begin

text \<open>
  The handshake before a session exists: \<open>wait_for_client_handshake\<close> of \<open>src/server/network.rs\<close> and the first
  phase of \<open>run_client\<close> in \<open>src/client/network.rs\<close>.  Both sides seal with the key and session id 0.  Time
  and the network are the lists of events that end each side's wait: a datagram, an error of the socket,
  the timer, a signal.  A side that is still waiting at the end of its list has no result yet.
\<close>

section \<open>The server's side\<close>

record HandshakeResult =
  hr_client_addr :: socket_addr
  hr_session_id :: u64
  hr_client_start_seq :: u64
  hr_cols :: u16
  hr_rows :: u16

datatype wait_event =
    Wait_datagram bytes socket_addr
  | Wait_error
  | Wait_timeout
  | Wait_signal

text \<open>The chain of \<open>if let\<close> conditions: the sequence number and size of a valid handshake.\<close>

definition accept_handshake :: "codec_lib \<Rightarrow> CryptoManager \<Rightarrow> bytes \<Rightarrow> (u64 \<times> u16 \<times> u16) option" where
  "accept_handshake L crypto bs =
     (case deserialize (client_packet L) bs of
        Inl _ \<Rightarrow> None
      | Inr wire_packet \<Rightarrow>
          if ecp_session_id wire_packet = 0 then
            (case decrypt L crypto (ecp_seq_num wire_packet) (ecp_ciphertext wire_packet) of
               Inl _ \<Rightarrow> None
             | Inr payload_bytes \<Rightarrow>
                 (case deserialize (client_payload L) payload_bytes of
                    Inr (Handshake client_version cols rows) \<Rightarrow> Some (ecp_seq_num wire_packet, cols, rows)
                  | _ \<Rightarrow> None))
          else None)"

text \<open>The reply; both \<open>unwrap\<close>s panic on an error, a packet that cannot be serialised is not sent.\<close>

definition handshake_reply :: "codec_lib \<Rightarrow> CryptoManager \<Rightarrow> u64 \<Rightarrow> u64 \<Rightarrow> bytes option res" where
  "handshake_reply L crypto session_id wire_seq =
     (case serialize (server_payload L) (HandshakeAck session_id) of
        Inl _ \<Rightarrow> Inl UnwrapPanic
      | Inr ack_bytes \<Rightarrow>
          (case encrypt L crypto 1 ack_bytes of
             Inl _ \<Rightarrow> Inl UnwrapPanic
           | Inr ciphertext \<Rightarrow>
               (case serialize (server_packet L)
                   \<lparr>esp_seq_num = 1, esp_ack_seq_num = wire_seq, esp_frag_idx = 0, esp_total_frags = 1,
                    esp_ciphertext = ciphertext\<rparr> of
                  Inl _ \<Rightarrow> Inr None
                | Inr serialized \<Rightarrow> Inr (Some serialized))))"

fun wait_for_client_handshake ::
    "codec_lib \<Rightarrow> CryptoManager \<Rightarrow> u64 \<Rightarrow> wait_event list \<Rightarrow> (HandshakeResult \<times> bytes option) res option" where
  "wait_for_client_handshake L crypto session_id [] = None"
| "wait_for_client_handshake L crypto session_id (Wait_datagram bs src_addr # events) =
     (case accept_handshake L crypto bs of
        None \<Rightarrow> wait_for_client_handshake L crypto session_id events
      | Some (wire_seq, cols, rows) \<Rightarrow>
          Some (and_then (handshake_reply L crypto session_id wire_seq) (\<lambda>reply.
            Inr (\<lparr>hr_client_addr = src_addr, hr_session_id = session_id, hr_client_start_seq = wire_seq,
                  hr_cols = cols, hr_rows = rows\<rparr>, reply))))"
| "wait_for_client_handshake L crypto session_id (Wait_error # events) = Some (Inl ReceiveError)"
| "wait_for_client_handshake L crypto session_id (Wait_timeout # events) = Some (Inl HandshakeTimeout)"
| "wait_for_client_handshake L crypto session_id (Wait_signal # events) = Some (Inl TerminatedBySignal)"

section \<open>The client's side\<close>

datatype reply_event =
    Reply bytes
  | Reply_error
  | Reply_timeout
  | Send_error

definition handshake_packet :: "codec_lib \<Rightarrow> CryptoManager \<Rightarrow> u16 \<Rightarrow> u16 \<Rightarrow> u64 \<Rightarrow> bytes res" where
  "handshake_packet L crypto cols rows handshake_seq =
     and_then (serialize (client_payload L) (Handshake 1 cols rows)) (\<lambda>payload_bytes.
     and_then (encrypt L crypto handshake_seq payload_bytes) (\<lambda>ciphertext.
       serialize (client_packet L)
         \<lparr>ecp_session_id = 0, ecp_seq_num = handshake_seq, ecp_ack_seq_num = 0, ecp_ciphertext = ciphertext\<rparr>))"

definition accept_reply :: "codec_lib \<Rightarrow> CryptoManager \<Rightarrow> u64 \<Rightarrow> bytes \<Rightarrow> (u64 \<times> u64) option" where
  "accept_reply L crypto handshake_seq bs =
     (case deserialize (server_packet L) bs of
        Inl _ \<Rightarrow> None
      | Inr spacket \<Rightarrow>
          if esp_ack_seq_num spacket = handshake_seq then
            (case decrypt L crypto (esp_seq_num spacket) (esp_ciphertext spacket) of
               Inl _ \<Rightarrow> None
             | Inr payload_bytes \<Rightarrow>
                 (case deserialize (server_payload L) payload_bytes of
                    Inr (HandshakeAck s_id) \<Rightarrow> Some (s_id, esp_seq_num spacket)
                  | _ \<Rightarrow> None))
          else None)"

text \<open>The loop: what it sends, and its result (session id, the server's first sequence number and the number of
  the handshake that was answered) once it has one.\<close>

fun client_handshake ::
    "codec_lib \<Rightarrow> CryptoManager \<Rightarrow> u16 \<Rightarrow> u16 \<Rightarrow> u64 \<Rightarrow> reply_event list \<Rightarrow> bytes list \<times> (u64 \<times> u64 \<times> u64) option res" where
  "client_handshake L crypto cols rows handshake_seq events =
     (case handshake_packet L crypto cols rows handshake_seq of
        Inl e \<Rightarrow> ([], Inl e)
      | Inr serialized \<Rightarrow>
          (case events of
             [] \<Rightarrow> ([serialized], Inr None)
           | Send_error # _ \<Rightarrow> ([], Inl IoError)
           | Reply bs # rest \<Rightarrow>
               (case accept_reply L crypto handshake_seq bs of
                  Some (s_id, server_seq) \<Rightarrow> ([serialized], Inr (Some (s_id, server_seq, handshake_seq)))
                | None \<Rightarrow> apfst (Cons serialized) (client_handshake L crypto cols rows handshake_seq rest))
           | _ # rest \<Rightarrow> apfst (Cons serialized) (client_handshake L crypto cols rows (handshake_seq + 1) rest)))"

declare client_handshake.simps [simp del]

section \<open>Lemmas\<close>

text \<open>The number of the handshake the client is trying after some events.\<close>

fun attempt :: "u64 \<Rightarrow> reply_event list \<Rightarrow> u64" where
  "attempt h [] = h"
| "attempt h (Reply _ # evs) = attempt h evs"
| "attempt h (_ # evs) = attempt (h + 1) evs"

lemma client_handshake_waiting:
  assumes "client_handshake L crypto cols rows h evs = (sent, Inr None)"
  shows "sent \<noteq> [] \<and> handshake_packet L crypto cols rows (attempt h evs) = Inr (last sent)
    \<and> client_handshake L crypto cols rows h (evs @ later) =
        apfst (append (butlast sent)) (client_handshake L crypto cols rows (attempt h evs) later)"
  using assms
proof (induction evs arbitrary: h sent)
  case Nil
  then show ?case by (subst (asm) client_handshake.simps) (auto simp: apfst_def map_prod_def split: sum.splits prod.splits)
next
  case (Cons ev evs)
  from Cons.prems obtain p where p: "handshake_packet L crypto cols rows h = Inr p"
    by (subst (asm) client_handshake.simps) (auto split: sum.splits)
  have unf: "client_handshake L crypto cols rows h (ev # es) = apfst (Cons p) (client_handshake L crypto cols rows (attempt h [ev]) es)" for es
    using Cons.prems p
    by (subst client_handshake.simps, subst (asm) client_handshake.simps) (auto split: reply_event.splits option.splits prod.splits)
  have step: "\<exists>sent'. client_handshake L crypto cols rows (attempt h [ev]) evs = (sent', Inr None) \<and> sent = p # sent'"
    using Cons.prems unfolding unf by (auto simp: apfst_def map_prod_def split: prod.splits)
  have att: "attempt h (ev # evs) = attempt (attempt h [ev]) evs" by (cases ev) simp_all
  from step obtain sent' where s: "client_handshake L crypto cols rows (attempt h [ev]) evs = (sent', Inr None)" "sent = p # sent'" by blast
  note IH = Cons.IH [OF s(1)]
  obtain a b where "client_handshake L crypto cols rows (attempt (attempt h [ev]) evs) later = (a, b)" by force
  then show ?case using IH att s(2) unf [of "evs @ later"] by auto
qed

text \<open>An event that does not answer the attempts from \<open>h\<close> on: no datagram the client accepts, except the reply to an
  earlier attempt.\<close>

definition no_answer :: "codec_lib \<Rightarrow> CryptoManager \<Rightarrow> u64 \<Rightarrow> u64 \<Rightarrow> reply_event \<Rightarrow> bool" where
  "no_answer L crypto sid h e \<longleftrightarrow>
     (case e of
        Reply b \<Rightarrow> (\<forall>h'. accept_reply L crypto h' b = None) \<or> (\<exists>h0 < h. handshake_reply L crypto sid h0 = Inr (Some b))
      | Send_error \<Rightarrow> False
      | _ \<Rightarrow> True)"

lemma no_answer_mono: "no_answer L crypto sid h e \<Longrightarrow> h \<le> h' \<Longrightarrow> no_answer L crypto sid h' e"
  unfolding no_answer_def by (cases e) (auto intro: less_le_trans)

text \<open>The pieces of a ciphertext that travel in one datagram each, and what is asked of the cipher for the messages of a session:
  a piece of a ciphertext that was sealed under the session's nonce for a number is rejected under the
  handshake's nonce for that number when the two nonces differ.\<close>

definition pieces :: "bytes \<Rightarrow> bytes list" where
  "pieces ct = map esp_ciphertext (fragment_packets 0 0 ct)"

definition wrong_nonce_rejected :: "codec_lib \<Rightarrow> bytes \<Rightarrow> u64 \<Rightarrow> (u64 \<times> ServerPayload) set \<Rightarrow> bool" where
  "wrong_nonce_rejected L key sid msgs \<longleftrightarrow>
     (\<forall>q payload ct. (q, payload) \<in> msgs \<longrightarrow> chacha_ct L (CryptoManager_new key sid) payload q = Inr ct \<longrightarrow>
        make_nonce (CryptoManager_new key 0) q \<noteq> make_nonce (CryptoManager_new key sid) q \<longrightarrow>
        (\<forall>piece \<in> set (pieces ct). aead_open L key (make_nonce (CryptoManager_new key 0) q) piece = None))"

lemma wait_skips:
  assumes "\<forall>e \<in> set junk. \<exists>b a. e = Wait_datagram b a \<and> accept_handshake L crypto b = None"
  shows "wait_for_client_handshake L crypto sid (junk @ events) = wait_for_client_handshake L crypto sid events"
  using assms by (induction junk) auto

context wire_lib
begin

lemma handshake_packet_accepted:
  "handshake_packet L crypto cols rows h = Inr bs \<Longrightarrow> accept_handshake L crypto bs = Some (h, cols, rows)"
  by (auto simp: handshake_packet_def accept_handshake_def client_packet_ok client_payload_ok)

lemma reply_accepted:
  "handshake_reply L crypto sid h = Inr (Some bs) \<Longrightarrow>
     accept_reply L crypto h' bs = (if h = h' then Some (sid, 1) else None)"
  by (auto simp: handshake_reply_def accept_reply_def server_packet_ok server_payload_ok split: sum.splits)

lemma agreement:
  assumes "client_handshake L crypto cols rows h evs = (sent, Inr None)"
    and "\<forall>e \<in> set junk. \<exists>b a. e = Wait_datagram b a \<and> accept_handshake L crypto b = None"
    and "wait_for_client_handshake L crypto sid (junk @ Wait_datagram (last sent) src # rest) = Some (Inr (res, Some reply))"
  shows "res = \<lparr>hr_client_addr = src, hr_session_id = sid, hr_client_start_seq = attempt h evs, hr_cols = cols, hr_rows = rows\<rparr>
    \<and> snd (client_handshake L crypto cols rows h (evs @ Reply reply # later)) = Inr (Some (sid, 1, attempt h evs))"
proof -
  have w: "handshake_packet L crypto cols rows (attempt h evs) = Inr (last sent)"
    "client_handshake L crypto cols rows h (evs @ Reply reply # later) =
       apfst (append (butlast sent)) (client_handshake L crypto cols rows (attempt h evs) (Reply reply # later))"
    using client_handshake_waiting [OF assms(1)] by blast+
  have r: "handshake_reply L crypto sid (attempt h evs) = Inr (Some reply)"
    and "res = \<lparr>hr_client_addr = src, hr_session_id = sid, hr_client_start_seq = attempt h evs, hr_cols = cols, hr_rows = rows\<rparr>"
    using assms(3) handshake_packet_accepted [OF w(1)] by (auto simp: wait_skips [OF assms(2)])
  moreover have "snd (client_handshake L crypto cols rows (attempt h evs) (Reply reply # later)) = Inr (Some (sid, 1, attempt h evs))"
    using w(1) reply_accepted [OF r] by (subst client_handshake.simps) simp
  ultimately show ?thesis using w(2) by simp
qed

lemma sealed_fragment:
  assumes "seal_server (chacha_codec L) c q a payload = Inr bs" "b \<in> set bs"
  obtains ct pkt where "chacha_ct L (cc_crypto c) payload q = Inr ct" "deserialize (server_packet L) b = Inr pkt"
    "pkt \<in> set (fragment_packets q a ct)" "esp_seq_num pkt = q"
proof -
  obtain ct where ct: "chacha_ct L (cc_crypto c) payload q = Inr ct" "serialize_all (server_packet L) (fragment_packets q a ct) = Inr bs"
    using chacha_seal_server_Inr [OF assms(1)] by blast
  obtain pkt where pkt: "pkt \<in> set (fragment_packets q a ct)" "enc (server_packet L) pkt = Some b"
    using serialize_all_Inr(2) [OF ct(2) assms(2)] by blast
  moreover from this have "deserialize (server_packet L) b = Inr pkt" using server_packet_ok by (simp add: serialize_def)
  moreover from pkt(1) have "esp_seq_num pkt = q" by (auto simp: fragment_packets_def Let_def split: if_splits)
  ultimately show thesis using that ct(1) by blast
qed

lemma session_reply_refused:
  assumes "wrong_nonce_rejected L key sid msgs" "take 4 (to_be_bytes sid) \<noteq> take 4 (to_be_bytes 0)" "(q, payload) \<in> msgs"
    and "seal_server (chacha_codec L) (ChaChaCodec_new key sid) q a payload = Inr bs" "b \<in> set bs"
  shows "accept_reply L (CryptoManager_new key 0) h b = None"
proof -
  obtain ct pkt where pkt: "chacha_ct L (CryptoManager_new key sid) payload q = Inr ct" "deserialize (server_packet L) b = Inr pkt"
    "pkt \<in> set (fragment_packets q a ct)" "esp_seq_num pkt = q"
    using sealed_fragment [OF assms(4,5)] by (auto simp: ChaChaCodec_new_def)
  have "make_nonce (CryptoManager_new key 0) q \<noteq> make_nonce (CryptoManager_new key sid) q" using assms(2) by (simp add: make_nonce_new)
  moreover have "esp_ciphertext pkt \<in> set (pieces ct)"
    using pkt(3) by (force simp: pieces_def fragment_packets_def Let_def split: if_splits)
  ultimately have "aead_open L key (make_nonce (CryptoManager_new key 0) q) (esp_ciphertext pkt) = None"
    using assms(1,3) pkt(1) unfolding wrong_nonce_rejected_def by blast
  then show ?thesis using pkt(2,4) by (simp add: accept_reply_def decrypt_def CryptoManager_new_def)
qed

lemma never_accepts:
  assumes "\<forall>e \<in> set evs. no_answer L crypto sid h e" "unat h + length evs < 2 ^ 64"
  shows "snd (client_handshake L crypto cols rows h evs) \<noteq> Inr (Some x)"
  using assms
proof (induction evs arbitrary: h)
  case Nil
  then show ?case by (subst client_handshake.simps) (simp split: sum.split)
next
  case (Cons ev evs)
  have suc: "h \<le> h + 1" "unat (h + 1) + length evs < 2 ^ 64"
    using Cons.prems(2) by (simp_all add: word_le_nat_alt unat_word_ariths)
  have "\<forall>e \<in> set evs. no_answer L crypto sid h e" "\<forall>e \<in> set evs. no_answer L crypto sid (h + 1) e"
    using Cons.prems(1) no_answer_mono suc(1) by auto
  then have IH: "snd (client_handshake L crypto cols rows h evs) \<noteq> Inr (Some x)" "snd (client_handshake L crypto cols rows (h + 1) evs) \<noteq> Inr (Some x)"
    using Cons.IH Cons.prems(2) suc by auto
  have "accept_reply L crypto h b = None" if "ev = Reply b" for b
    using Cons.prems(1) that reply_accepted by (auto simp: no_answer_def)
  then show ?case using IH Cons.prems(1)
    by (subst client_handshake.simps) (auto simp: no_answer_def split: sum.split reply_event.splits)
qed

end

section \<open>Properties\<close>

text \<open>C25: The handshake agrees.  Whatever the client received or timed out on before, when the packet of its current
  attempt reaches the waiting server (after any number of datagrams that are no handshake) and the
  server's reply arrives next, both sides have the same session id, the server knows the client's
  terminal size, and both know the number of that attempt.\<close>

theorem handshake_agreement:
  assumes "wire_lib L" "client_handshake L crypto cols rows 1 evs = (sent, Inr None)"
    and "\<forall>e \<in> set junk. \<exists>b a. e = Wait_datagram b a \<and> accept_handshake L crypto b = None"
    and "wait_for_client_handshake L crypto sid (junk @ Wait_datagram (last sent) src # rest) = Some (Inr (res, Some reply))"
  shows "res = \<lparr>hr_client_addr = src, hr_session_id = sid, hr_client_start_seq = attempt 1 evs, hr_cols = cols, hr_rows = rows\<rparr>
    \<and> snd (client_handshake L crypto cols rows 1 (evs @ Reply reply # later)) = Inr (Some (sid, 1, attempt 1 evs))"
  by (rule wire_lib.agreement [OF assms])

theorem handshake_agreement_witness:
  "\<exists>sent reply. client_handshake ref_lib (CryptoManager_new [1, 2] 0) 80 24 1 [Reply [7], Reply_timeout] = (sent, Inr None)
    \<and> wait_for_client_handshake ref_lib (CryptoManager_new [1, 2] 0) 9 [Wait_datagram [] ([], 0), Wait_datagram (last sent) ([127, 0, 0, 1], 4000)]
        = Some (Inr (\<lparr>hr_client_addr = ([127, 0, 0, 1], 4000), hr_session_id = 9, hr_client_start_seq = 2, hr_cols = 80, hr_rows = 24\<rparr>, Some reply))
    \<and> snd (client_handshake ref_lib (CryptoManager_new [1, 2] 0) 80 24 1 [Reply [7], Reply_timeout, Reply reply]) = Inr (Some (9, 1, 2))"
proof -
  let ?cm = "CryptoManager_new [1, 2] 0" and ?src = "([127, 0, 0, 1], 4000) :: socket_addr"
  have p: "\<exists>b. handshake_packet ref_lib ?cm 80 24 h = Inr b" for h by (simp add: handshake_packet_def serialize_def)
  have bad: "accept_reply ref_lib ?cm 1 [7] = None"
    by (simp add: accept_reply_def deserialize_def ref_lib_def serde_of_def server_packet_coder_def iso_coder_def pair_coder_def word_coder_def)
  obtain b1 b2 where b: "handshake_packet ref_lib ?cm 80 24 1 = Inr b1" "handshake_packet ref_lib ?cm 80 24 2 = Inr b2" using p by metis
  have sent: "client_handshake ref_lib ?cm 80 24 1 [Reply [7], Reply_timeout] = ([b1, b1, b2], Inr None)"
    using b bad by (simp add: client_handshake.simps)
  obtain reply where r: "handshake_reply ref_lib ?cm 9 2 = Inr (Some reply)"
    by (simp add: handshake_reply_def serialize_def)
  have none: "accept_handshake ref_lib ?cm [] = None"
    by (simp add: accept_handshake_def deserialize_def ref_lib_def serde_of_def client_packet_coder_def iso_coder_def pair_coder_def word_coder_def)
  let ?res = "\<lparr>hr_client_addr = ?src, hr_session_id = 9, hr_client_start_seq = 2, hr_cols = 80, hr_rows = 24\<rparr>"
  have w: "wait_for_client_handshake ref_lib ?cm 9 ([Wait_datagram [] ([], 0)] @ Wait_datagram (last [b1, b1, b2]) ?src # []) = Some (Inr (?res, Some reply))"
    using none r ref.handshake_packet_accepted [OF b(2)] by simp
  have "snd (client_handshake ref_lib ?cm 80 24 1 ([Reply [7], Reply_timeout] @ Reply reply # [])) = Inr (Some (9, 1, attempt 1 [Reply [7], Reply_timeout]))"
    using handshake_agreement [OF ref.wire_lib_axioms sent _ w] none by simp
  then have "snd (client_handshake ref_lib ?cm 80 24 1 [Reply [7], Reply_timeout, Reply reply]) = Inr (Some (9, 1, 2))" by simp
  with sent w show ?thesis unfolding append_Cons append_Nil by blast
qed

text \<open>C26: A client whose first reply is lost or late never connects.  The server answers one handshake with the handshake
  cipher and then starts the session, which answers every repeated handshake, and sends everything else,
  with the session's cipher.  The waiting client can open none of those datagrams, fragments of frames
  included, given that the cipher rejects the session's messages \<open>msgs\<close> under a nonce they were not sealed
  with and that the session id's upper half is not zero (so that the nonces differ); and it drops the
  reply to an attempt it has given up.  So with any such datagrams and any timeouts its loop goes on.\<close>

theorem lost_reply_never_connects:
  assumes "wire_lib L" "wrong_nonce_rejected L key sid msgs"
    and "take 4 (to_be_bytes sid) \<noteq> take 4 (to_be_bytes 0)" "unat h + length evs < 2 ^ 64"
    and "\<forall>e \<in> set evs. e = Reply_timeout \<or> e = Reply_error
      \<or> (\<exists>q a payload bs b. e = Reply b \<and> (q, payload) \<in> msgs
           \<and> seal_server (chacha_codec L) (ChaChaCodec_new key sid) q a payload = Inr bs \<and> b \<in> set bs)
      \<or> (\<exists>b h0. e = Reply b \<and> h0 < h \<and> handshake_reply L (CryptoManager_new key 0) sid h0 = Inr (Some b))"
  shows "\<forall>x. snd (client_handshake L (CryptoManager_new key 0) cols rows h evs) \<noteq> Inr (Some x)"
proof -
  have "no_answer L (CryptoManager_new key 0) sid h e" if "e \<in> set evs" for e
    using bspec [OF assms(5) that] wire_lib.session_reply_refused [OF assms(1-3)]
    by (cases e) (auto simp: no_answer_def)
  then show ?thesis using wire_lib.never_accepts [OF assms(1) _ assms(4)] by blast
qed

text \<open>A cipher whose ciphertexts begin with their nonce.\<close>

definition nonce_lib :: codec_lib where
  "nonce_lib = ref_lib\<lparr>aead_seal := (\<lambda>k n p. if length n = 12 then Some (n @ p) else None),
     aead_open := (\<lambda>k n c. if length n = 12 \<and> length c \<ge> 12 \<and> take 12 c = n then Some (drop 12 c) else None)\<rparr>"

lemma nonce_lib_ok: "wire_lib nonce_lib"
proof
  fix k n c p :: bytes
  show "aead_open nonce_lib k n c = Some p \<longleftrightarrow> aead_seal nonce_lib k n p = Some c"
    by (auto simp: nonce_lib_def) (metis append_take_drop_id same_append_eq)
qed (use ref.client_payload_ok ref.server_payload_ok ref.client_packet_ok ref.server_packet_ok ref.lz4_ok in \<open>simp_all add: nonce_lib_def\<close>)

theorem lost_reply_never_connects_witness:
  "\<exists>b. seal_server (chacha_codec nonce_lib) (ChaChaCodec_new [1, 2] (2 ^ 40)) 1 2 (HandshakeAck (2 ^ 40)) = Inr [b]
    \<and> (\<forall>x. snd (client_handshake nonce_lib (CryptoManager_new [1, 2] 0) 80 24 2 [Reply b, Reply_timeout, Reply b]) \<noteq> Inr (Some x))"
proof -
  have len: "length (put server_payload_coder (HandshakeAck (2 ^ 40))) < 256"
    by (simp add: server_payload_coder_def iso_coder_def sum_coder_def word_coder_def)
  have n: "length (make_nonce (CryptoManager_new [1, 2] (2 ^ 40)) 1) = 12" by simp
  have "\<exists>b. seal_server (chacha_codec nonce_lib) (ChaChaCodec_new [1, 2] (2 ^ 40)) 1 2 (HandshakeAck (2 ^ 40)) = Inr [b]"
    using len n by (simp add: chacha_codec_def chacha_seal_server_def serialize_compressed_def serialize_def nonce_lib_def encrypt_def
        ref_lib_def serde_of_def fragment_packets_small FRAGMENT_PAYLOAD_SIZE_def ChaChaCodec_new_def)
  then obtain b where b: "seal_server (chacha_codec nonce_lib) (ChaChaCodec_new [1, 2] (2 ^ 40)) 1 2 (HandshakeAck (2 ^ 40)) = Inr [b]" ..
  have rej: "wrong_nonce_rejected nonce_lib [1, 2] (2 ^ 40) {(1, HandshakeAck (2 ^ 40))}"
    using len n by (auto simp: wrong_nonce_rejected_def pieces_def chacha_ct_def serialize_compressed_def serialize_def nonce_lib_def
        encrypt_def ref_lib_def serde_of_def fragment_packets_small FRAGMENT_PAYLOAD_SIZE_def CryptoManager_new_def)
  have salt: "take 4 (to_be_bytes (2 ^ 40)) \<noteq> take 4 (to_be_bytes 0)" by code_simp
  show ?thesis
    using lost_reply_never_connects [OF nonce_lib_ok rej salt, of 2 "[Reply b, Reply_timeout, Reply b]" 80 24] b by fastforce
qed

text \<open>C27: The client's first packets are lost for good.  The server expects the packet after the handshake's number, while
  the session the client then starts counts from 1 again; so the resize the client sends first is dropped
  as a duplicate, and since the server already acknowledges the handshake's number, the client will take
  it for delivered.\<close>

theorem initial_resize_lost:
  assumes "wire_lib L" "sid \<noteq> 0" "1 \<le> h" "unat h + 1 < 2 ^ 64"
    and "AuthoritativeSession_new G sid (ChaChaCodec_new key sid) h addr cols rows pty t0 = Inr s0"
    and "on_winch (chacha_codec L) (MirrorSession_new F sid (ChaChaCodec_new key sid) start cols rows overlay t1) cols' rows' t1 = (c, Inr acts)"
    and "SendPacket b \<in> set acts"
  shows "server_feed_packet (chacha_codec L) G P s0 b addr' t2 = (s0\<lparr>as_last_recv_time := t2, as_current_client_addr := addr'\<rparr>, Inr [])
    \<and> map_of (ms_unacked_packets c) 1 = Some (b, t1) \<and> 1 \<le> as_ack_seq_num s0"
proof -
  let ?c = "ChaChaCodec_new key sid"
  have s: "as_codec s0 = ?c" "as_session_id s0 = sid" "as_expected_client_seq s0 = h + 1" "as_ack_seq_num s0 = h"
    using assms(5) by (auto simp: AuthoritativeSession_new_def)
  have b: "seal_client (chacha_codec L) ?c sid 1 0 (Resize cols' rows') = Inr b" "map_of (ms_unacked_packets c) 1 = Some (b, t1)"
    using assms(6,7)
    by (auto simp: on_winch_def prepare_resize_def seal_reliable_def MirrorSession_new_def st_then_def with_mirror_def Let_def split: sum.splits prod.splits)
  have "cc_session_id ?c = sid" by (simp add: ChaChaCodec_new_def)
  with wire_lib.client_delivered [OF assms(1) b(1) refl] obtain pkt stats where
    o: "open_client (chacha_codec L) ?c b = Inr (pkt, Resize cols' rows', stats)" "ecp_session_id pkt = sid" "ecp_seq_num pkt = 1" by auto
  have "1 < h + 1" using assms(3,4) by (simp add: word_less_nat_alt word_le_nat_alt unat_word_ariths)
  then show ?thesis using o s b(2) assms(2,3)
    by (auto simp: server_feed_packet_def Let_def is_transient_def)
qed

theorem initial_resize_lost_witness:
  "\<exists>c b. on_winch (chacha_codec ref_lib) (MirrorSession_new unit_f32 9 (ChaChaCodec_new [1, 2] 9) 1 1 1 False 0) 80 24 0 = (c, Inr [SendPacket b, Paint])
    \<and> server_feed_packet (chacha_codec ref_lib) tiny_vt (pty_bridge sample_tty) sample_session b ([127, 0, 0, 1], 4000) 5
        = (sample_session\<lparr>as_last_recv_time := 5, as_current_client_addr := ([127, 0, 0, 1], 4000)\<rparr>, Inr [])"
proof -
  let ?s = "MirrorSession_new unit_f32 9 (ChaChaCodec_new [1, 2] 9) 1 1 1 False 0"
  have "\<exists>m. abort_prediction (ms_mirror ?s) = (m, Inr ())"
    by (simp add: MirrorSession_new_def abort_prediction_def with_echo_def abort_def set_overlay_enabled_def ClientTerminal_new_def LocalEchoEngine_new_def)
  then obtain c b where w: "on_winch (chacha_codec ref_lib) ?s 80 24 0 = (c, Inr [SendPacket b, Paint])"
    by (auto simp: on_winch_def prepare_resize_def seal_reliable_def with_mirror_def Let_def
        chacha_codec_def chacha_seal_client_def serialize_def)
  from initial_resize_lost [OF ref.wire_lib_axioms _ _ _ sample_session_wf(1) w, of b "pty_bridge sample_tty" "([127, 0, 0, 1], 4000)" 5] w
  show ?thesis by auto
qed

end
