(* ===== verification/Rumsh_Text.thy ===== *)
theory Rumsh_Text
  imports Rumsh_Prelude
begin

text \<open>
  What the source uses of Rust's strings.  A \<open>str\<close> is the list of its UTF-8 bytes.  The pieces are:
  literals, splitting at an ASCII character, splitting at white space (every Unicode white space
  character, by its encoding), lines of a reader, integer parsing (\<open>from_str_radix\<close>: an optional plus
  sign, digits, a checked accumulator) and the two integer formats the source prints.
\<close>

section \<open>Definitions\<close>

definition str :: "string \<Rightarrow> bytes" where
  "str s = map of_char s"

definition starts_with :: "bytes \<Rightarrow> bytes \<Rightarrow> bool" where
  "starts_with p s \<longleftrightarrow> take (length p) s = p"

fun split_on :: "u8 \<Rightarrow> bytes \<Rightarrow> bytes list" where
  "split_on c [] = [[]]"
| "split_on c (b # bs) = (if b = c then [] # split_on c bs
     else (case split_on c bs of [] \<Rightarrow> [[b]] | w # ws \<Rightarrow> (b # w) # ws))"

text \<open>The length of the white space character a text starts with, 0 if it starts with another.\<close>

fun ws_len :: "bytes \<Rightarrow> nat" where
  "ws_len [] = 0"
| "ws_len (a # r) =
     (if a = 32 \<or> 9 \<le> a \<and> a \<le> 13 then 1
      else if a = 0xC2 \<and> take 1 r \<in> {[0x85], [0xA0]} then 2
      else if a = 0xE1 \<and> take 2 r = [0x9A, 0x80] then 3
      else if a = 0xE2 \<and> length r \<ge> 2 \<and> r ! 0 = 0x80 \<and> (r ! 1 \<ge> 0x80 \<and> r ! 1 \<le> 0x8A \<or> r ! 1 \<in> {0xA8, 0xA9, 0xAF}) then 3
      else if a = 0xE2 \<and> take 2 r = [0x81, 0x9F] then 3
      else if a = 0xE3 \<and> take 2 r = [0x80, 0x80] then 3
      else 0)"

declare ws_len.simps [simp del]

function words_from :: "bytes \<Rightarrow> bytes \<Rightarrow> bytes list" where
  "words_from acc [] = (if acc = [] then [] else [acc])"
| "words_from acc (b # bs) =
     (if ws_len (b # bs) = 0 then words_from (acc @ [b]) bs
      else (if acc = [] then [] else [acc]) @ words_from [] (drop (ws_len (b # bs)) (b # bs)))"
  by pat_completeness auto
termination
  by (relation "measure (\<lambda>(acc, bs). length bs)") (auto simp: diff_less_Suc)

definition split_whitespace :: "bytes \<Rightarrow> bytes list" where
  "split_whitespace s = words_from [] s"

text \<open>\<open>BufRead::lines\<close>: pieces up to a line feed, without it and without a carriage return before it; there
  is no line after the last line feed.  A line that is not UTF-8 is an error.\<close>

definition strip_cr :: "bytes \<Rightarrow> bytes" where
  "strip_cr l = (if l \<noteq> [] \<and> last l = 13 then butlast l else l)"

definition reader_lines :: "bytes \<Rightarrow> bytes list" where
  "reader_lines s = (let ps = split_on 10 s in
     map strip_cr (butlast ps) @ (if last ps = [] then [] else [last ps]))"

definition cont :: "u8 \<Rightarrow> bool" where
  "cont b \<longleftrightarrow> 0x80 \<le> b \<and> b \<le> 0xBF"

fun utf8_valid :: "bytes \<Rightarrow> bool" where
  "utf8_valid [] \<longleftrightarrow> True"
| "utf8_valid (a # r) \<longleftrightarrow>
     (if a < 0x80 then utf8_valid r
      else (case r of
          [] \<Rightarrow> False
        | b # r2 \<Rightarrow>
            if 0xC2 \<le> a \<and> a \<le> 0xDF then cont b \<and> utf8_valid r2
            else (case r2 of
                [] \<Rightarrow> False
              | c # r3 \<Rightarrow>
                  if 0xE0 \<le> a \<and> a \<le> 0xEF then
                    cont b \<and> (a = 0xE0 \<longrightarrow> 0xA0 \<le> b) \<and> (a = 0xED \<longrightarrow> b \<le> 0x9F) \<and> cont c \<and> utf8_valid r3
                  else (case r3 of
                      [] \<Rightarrow> False
                    | d # r4 \<Rightarrow>
                        0xF0 \<le> a \<and> a \<le> 0xF4 \<and> cont b \<and> (a = 0xF0 \<longrightarrow> 0x90 \<le> b) \<and> (a = 0xF4 \<longrightarrow> b \<le> 0x8F)
                        \<and> cont c \<and> cont d \<and> utf8_valid r4))))"

text \<open>\<open>from_str_radix\<close> of the unsigned integers, with the largest value as a parameter.\<close>

definition digit_of :: "nat \<Rightarrow> u8 \<Rightarrow> nat option" where
  "digit_of radix b =
     (let v = (if 48 \<le> b \<and> b \<le> 57 then unat b - 48
               else if 97 \<le> b \<and> b \<le> 122 then unat b - 87
               else if 65 \<le> b \<and> b \<le> 90 then unat b - 55 else 36)
      in if v < radix then Some v else None)"

fun parse_digits :: "nat \<Rightarrow> nat \<Rightarrow> nat \<Rightarrow> bytes \<Rightarrow> nat option" where
  "parse_digits radix hi acc [] = Some acc"
| "parse_digits radix hi acc (b # bs) =
     (case digit_of radix b of
        None \<Rightarrow> None
      | Some v \<Rightarrow> if acc * radix + v > hi then None else parse_digits radix hi (acc * radix + v) bs)"

definition from_str_radix :: "nat \<Rightarrow> nat \<Rightarrow> bytes \<Rightarrow> nat option" where
  "from_str_radix radix hi s =
     (if s = [] \<or> s = [43] \<or> s = [45] then None
      else if hd s = 43 then parse_digits radix hi 0 (tl s) else parse_digits radix hi 0 s)"

definition parse_u16 :: "bytes \<Rightarrow> u16 res" where
  "parse_u16 s = ok_or ParseIntError (map_option of_nat (from_str_radix 10 65535 s))"

text \<open>The formats \<open>{}\<close> of an unsigned integer and \<open>{:02x}\<close> of a byte.\<close>

fun dec_digits :: "nat \<Rightarrow> bytes" where
  "dec_digits n = (if n < 10 then [] else dec_digits (n div 10)) @ [48 + of_nat (n mod 10)]"

declare dec_digits.simps [simp del]

definition hex_digit :: "nat \<Rightarrow> u8" where
  "hex_digit v = (if v < 10 then 48 + of_nat v else 87 + of_nat v)"

definition hex_byte :: "u8 \<Rightarrow> bytes" where
  "hex_byte b = [hex_digit (unat b div 16), hex_digit (unat b mod 16)]"

section \<open>Splitting\<close>

lemma split_on_nonempty [simp]: "split_on c s \<noteq> []"
  by (cases s) (auto split: list.splits)

lemma split_on_none: "c \<notin> set s \<Longrightarrow> split_on c s = [s]"
  by (induction s) auto

lemma split_on_append: "c \<notin> set x \<Longrightarrow> split_on c (x @ c # y) = x # split_on c y"
  by (induction x) (auto split: list.splits)

lemma split_on_pieces: "split_on c s = ps \<Longrightarrow> \<forall>p \<in> set ps. c \<notin> set p"
proof (induction s arbitrary: ps)
  case (Cons b s)
  then show ?case
    by (cases "split_on c s") (auto split: if_splits)
qed auto

lemma split_on_single: "split_on c s = [x] \<longleftrightarrow> s = x \<and> c \<notin> set x"
proof
  assume a: "split_on c s = [x]"
  have "c \<notin> set s"
  proof
    assume "c \<in> set s"
    then obtain u v where "s = u @ c # v" "c \<notin> set u" by (meson split_list_first)
    with a split_on_append [of c u v] show False by simp
  qed
  with a show "s = x \<and> c \<notin> set x" by (simp add: split_on_none)
qed (simp add: split_on_none)

lemma split_on_two: "split_on c s = [x, y] \<longleftrightarrow> s = x @ c # y \<and> c \<notin> set x \<and> c \<notin> set y"
proof
  assume a: "split_on c s = [x, y]"
  then have "c \<in> set s" by (metis list.distinct(1) list.inject split_on_none)
  then obtain u v where uv: "s = u @ c # v" "c \<notin> set u" by (meson split_list_first)
  with a split_on_append [of c u v] have "u = x" "split_on c v = [y]" by auto
  with uv show "s = x @ c # y \<and> c \<notin> set x \<and> c \<notin> set y" by (simp add: split_on_single)
qed (simp add: split_on_append split_on_none)

text \<open>Visible ASCII is not white space.\<close>

definition visible :: "u8 \<Rightarrow> bool" where
  "visible b \<longleftrightarrow> 33 \<le> b \<and> b \<le> 126"

lemma ws_len_visible: "visible b \<Longrightarrow> ws_len (b # bs) = 0"
  by (auto simp: visible_def word_le_nat_alt ws_len.simps)

lemma words_from_visible: "\<forall>b \<in> set w. visible b \<Longrightarrow> words_from acc (w @ bs) = words_from (acc @ w) bs"
proof (induction w arbitrary: acc)
  case (Cons b w)
  then have "ws_len (b # w @ bs) = 0" using ws_len_visible by simp
  with Cons show ?case by simp
qed simp

lemma words_from_space: "w \<noteq> [] \<Longrightarrow> words_from w (32 # bs) = w # words_from [] bs"
  by (simp add: ws_len.simps)

lemma split_whitespace_join:
  assumes "\<forall>w \<in> set ws. w \<noteq> [] \<and> (\<forall>b \<in> set w. visible b)"
  shows "split_whitespace (concat (map (\<lambda>w. w @ [32]) ws)) = ws"
  using assms unfolding split_whitespace_def
proof (induction ws)
  case (Cons w ws)
  then show ?case using words_from_visible [of w "[]" "32 # concat (map (\<lambda>w. w @ [32]) ws)"] words_from_space
    by (simp del: words_from.simps(2))
qed simp

section \<open>Numbers\<close>

lemma parse_digits_append:
  "parse_digits r hi acc (xs @ ys) = (case parse_digits r hi acc xs of None \<Rightarrow> None | Some v \<Rightarrow> parse_digits r hi v ys)"
  by (induction xs arbitrary: acc) (auto split: option.splits)

lemma digit_of_dec: "v < 10 \<Longrightarrow> digit_of 10 (48 + of_nat v) = Some v"
proof -
  assume v: "v < 10"
  then have "unat (48 + of_nat v :: u8) = 48 + v" by (simp add: unat_word_ariths unat_of_nat)
  with v show ?thesis by (simp add: digit_of_def word_le_nat_alt)
qed

lemma dec_digits_spec: "n \<le> hi \<Longrightarrow> parse_digits 10 hi 0 (dec_digits n) = Some n"
proof (induction n rule: dec_digits.induct)
  case (1 n)
  show ?case
  proof (cases "n < 10")
    case True
    with "1.prems" show ?thesis by (simp add: dec_digits.simps [of n] digit_of_dec)
  next
    case False
    have "n div 10 * 10 + n mod 10 = n" by simp
    with False "1.IH" "1.prems" show ?thesis
      by (simp add: dec_digits.simps [of n] parse_digits_append digit_of_dec)
  qed
qed

lemma dec_digits_range: "b \<in> set (dec_digits n) \<Longrightarrow> 48 \<le> b \<and> b \<le> 57"
proof (induction n rule: dec_digits.induct)
  case (1 n)
  have "unat (48 + of_nat (n mod 10) :: u8) = 48 + n mod 10"
    by (simp add: unat_word_ariths unat_of_nat)
  with 1 show ?case
    by (subst (asm) dec_digits.simps) (auto simp: word_le_nat_alt split: if_splits)
qed

lemma dec_digits_nonempty [simp]: "dec_digits n \<noteq> []"
  by (simp add: dec_digits.simps [of n])

lemma from_str_radix_dec: "n \<le> hi \<Longrightarrow> from_str_radix 10 hi (dec_digits n) = Some n"
proof -
  assume n: "n \<le> hi"
  have "hd (dec_digits n) \<in> set (dec_digits n)" by simp
  then have "48 \<le> hd (dec_digits n)" using dec_digits_range by blast
  then have "hd (dec_digits n) \<noteq> 43" "dec_digits n \<noteq> [43]" "dec_digits n \<noteq> [45]" by (auto simp: word_le_nat_alt)
  then show ?thesis using n by (simp add: from_str_radix_def dec_digits_spec)
qed

lemma parse_u16_dec [simp]: "parse_u16 (dec_digits (unat p)) = Inr p"
proof -
  have "unat p \<le> 65535" using unsigned_less [of p, where 'a = nat] by simp
  then show ?thesis by (simp add: parse_u16_def from_str_radix_dec)
qed

lemma hex_digit_props:
  assumes "v < 16"
  shows "digit_of 16 (hex_digit v) = Some v" "hex_digit v \<noteq> 43" "visible (hex_digit v)" "hex_digit v < 0x80"
proof -
  have "unat (48 + of_nat v :: u8) = 48 + v" "unat (87 + of_nat v :: u8) = 87 + v"
    using assms by (simp_all add: unat_word_ariths unat_of_nat)
  then have u: "unat (hex_digit v) = (if v < 10 then 48 + v else 87 + v)" by (simp add: hex_digit_def)
  then show "digit_of 16 (hex_digit v) = Some v" "visible (hex_digit v)" "hex_digit v < 0x80"
    using assms by (auto simp: digit_of_def visible_def word_le_nat_alt word_less_nat_alt)
  show "hex_digit v \<noteq> 43"
  proof
    assume "hex_digit v = 43"
    then have "unat (hex_digit v) = 43" by simp
    with u assms show False by (simp split: if_splits)
  qed
qed

lemma from_str_radix_hex: "from_str_radix 16 255 (hex_byte b) = Some (unat b)"
proof -
  have b: "unat b < 256" using unsigned_less [of b, where 'a = nat] by simp
  then have "unat b div 16 < 16" "unat b mod 16 < 16" by auto
  note h = hex_digit_props [OF this(1)] hex_digit_props [OF this(2)]
  have "unat b div 16 * 16 + unat b mod 16 = unat b" by simp
  with h b show ?thesis by (simp add: from_str_radix_def hex_byte_def del: div_mod_decomp mult_div_mod_eq)
qed

lemma utf8_valid_ascii: "\<forall>b \<in> set x. b < 0x80 \<Longrightarrow> utf8_valid (x @ y) = utf8_valid y"
  by (induction x) auto

end
