(* ===== verification/Rumsh_Shell.thy ===== *)
theory Rumsh_Shell
  imports Rumsh_Pty Rumsh_Text
begin

text \<open>
  \<open>src/server/pty.rs\<close>, the rest: \<open>PtyBridge::new\<close>, which starts the shell, the thread that reads its output,
  and the test double \<open>FakePty\<close>.  The system calls of the crate \<open>portable_pty\<close> are the parameter
  \<open>pty_system\<close>: each succeeds, with the device as it leaves it, or fails.  The thread is a function of what its reads return; with each read
  comes whether the receiver of the channel still exists.
\<close>

section \<open>Starting the shell\<close>

record 'm pty_system =
  sys_openpty :: "u16 \<Rightarrow> u16 \<Rightarrow> 'm res"
  sys_spawn_command :: "'m \<Rightarrow> bytes list \<Rightarrow> (bytes \<times> bytes) list \<Rightarrow> 'm res"
  sys_take_writer :: "'m \<Rightarrow> 'm res"
  sys_clone_reader :: "'m \<Rightarrow> 'm res"

definition shell_argv :: "bytes \<Rightarrow> bytes list res" where
  "shell_argv shell_cmd = (case split_whitespace shell_cmd of [] \<Rightarrow> Inl EmptyShell | parts \<Rightarrow> Inr parts)"

definition PtyBridge_spawn :: "'m pty_system \<Rightarrow> u16 \<Rightarrow> u16 \<Rightarrow> bytes \<Rightarrow> 'm PtyBridge res" where
  "PtyBridge_spawn S cols rows shell_cmd =
     and_then (sys_openpty S rows cols) (\<lambda>m.
     and_then (shell_argv shell_cmd) (\<lambda>argv.
     and_then (sys_spawn_command S m argv [(str ''TERM'', str ''xterm-256color'')]) (\<lambda>m.
     and_then (sys_take_writer S m) (\<lambda>m.
     and_then (sys_clone_reader S m) (\<lambda>m.
       Inr (PtyBridge_new m))))))"

text \<open>The chunks the thread puts into the channel, and whether it has ended.\<close>

fun reader_thread :: "(bytes res \<times> bool) list \<Rightarrow> bytes list \<times> bool" where
  "reader_thread [] = ([], False)"
| "reader_thread ((Inl _, _) # reads) = ([], True)"
| "reader_thread ((Inr data, receiver_open) # reads) =
     (if data = [] \<or> \<not> receiver_open then ([], True) else apfst (Cons data) (reader_thread reads))"

section \<open>The test double\<close>

record FakePty =
  fp_written :: "bytes list"
  fp_resized :: "(u16 \<times> u16) list"
  fp_echo_recommended :: bool

definition FakePty_new :: FakePty where
  "FakePty_new = \<lparr>fp_written = [], fp_resized = [], fp_echo_recommended = False\<rparr>"

definition fake_pty :: "FakePty pty_backend" where
  "fake_pty =
     \<lparr>pty_write = (\<lambda>p data. (p\<lparr>fp_written := fp_written p @ [data]\<rparr>, Inr ())),
      pty_resize = (\<lambda>p cols rows. (p\<lparr>fp_resized := fp_resized p @ [(cols, rows)]\<rparr>, Inr ())),
      pty_echo_recommended = (\<lambda>p. (p, fp_echo_recommended p))\<rparr>"

interpretation fake_log: pty_log fake_pty "\<lambda>p. concat (fp_written p)"
  by unfold_locales (simp_all add: fake_pty_def)

section \<open>Lemmas\<close>

lemma PtyBridge_spawn_Inr:
  "PtyBridge_spawn S cols rows shell_cmd = Inr p \<longleftrightarrow>
     (\<exists>m m1 m2 m3. p = PtyBridge_new m3 \<and> split_whitespace shell_cmd \<noteq> [] \<and> sys_openpty S rows cols = Inr m
       \<and> sys_spawn_command S m (split_whitespace shell_cmd) [(str ''TERM'', str ''xterm-256color'')] = Inr m1
       \<and> sys_take_writer S m1 = Inr m2 \<and> sys_clone_reader S m2 = Inr m3)"
  by (auto simp: PtyBridge_spawn_def shell_argv_def and_then_def split: sum.splits list.splits)

text \<open>The channel carries the output up to the end of the stream, in order and nothing else.\<close>

lemma reader_thread_prefix:
  "reader_thread (map (\<lambda>d. (Inr d, True)) ds @ reads) =
     apfst (append (takeWhile (\<lambda>d. d \<noteq> []) ds)) (if [] \<in> set ds then ([], True) else reader_thread reads)"
  by (induction ds) (auto simp: apfst_def map_prod_def split: prod.splits)

end
