(* ===== verification/Rumsh_Program.thy ===== *)
theory Rumsh_Program
  imports Rumsh_Client_Screen Rumsh_Handshake Rumsh_Shell
begin

text \<open>
  The two processes together, from the handshake on: \<open>run_server\<close> of \<open>src/server/network.rs\<close> and \<open>run_client\<close> of
  \<open>src/client/network.rs\<close>.  A step is a step of one of the server's tasks or one turn of the client's loop.  The
  server may receive any datagram; from the server's address the client receives what the server's
  socket was given, in any order and any number of times.
\<close>

section \<open>Definitions\<close>

text \<open>\<open>run_server\<close> between the handshake and its tasks.\<close>

definition server_start ::
    "'m pty_system \<Rightarrow> 'v ghostty \<Rightarrow> bytes \<Rightarrow> bytes \<Rightarrow> HandshakeResult \<Rightarrow> instant \<Rightarrow> (ChaChaCodec, 'v, 'm PtyBridge) server_node res" where
  "server_start S G shell_cmd key_bytes handshake now =
     and_then (PtyBridge_spawn S (hr_cols handshake) (hr_rows handshake) shell_cmd) (\<lambda>pty.
     and_then (AuthoritativeSession_new G (hr_session_id handshake) (ChaChaCodec_new key_bytes (hr_session_id handshake))
         (hr_client_start_seq handshake) (hr_client_addr handshake) (hr_cols handshake) (hr_rows handshake) pty now)
       (\<lambda>s. Inr (server_node_new s)))"

record ('c, 'v, 'p, 'f, 't) rumsh =
  rm_server :: "('c, 'v, 'p) server_node"
  rm_client :: "('c, 'f, 't) client_node"

inductive rumsh_step ::
    "'c PacketCodec \<Rightarrow> 'v ghostty \<Rightarrow> 'p pty_backend \<Rightarrow> 'f f32_ops \<Rightarrow> 't lifecycle_backend \<Rightarrow> ('f TerminalFrame \<Rightarrow> bytes)
      \<Rightarrow> socket_addr \<Rightarrow> ('c, 'v, 'p, 'f, 't) rumsh \<Rightarrow> ('c, 'v, 'p, 'f, 't) rumsh \<Rightarrow> bool"
  for C G P F B overlay server_addr where
  rs_server: "node_step C G P (rm_server r) n' \<Longrightarrow> seq_room (sn_session (rm_server r)) \<Longrightarrow> task_fits C (sn_exec (rm_server r)) \<Longrightarrow>
    rumsh_step C G P F B overlay server_addr r (r\<lparr>rm_server := n'\<rparr>)"
| rs_client: "\<not> cn_exited (rm_client r) \<Longrightarrow> loop_turn C F B overlay server_addr (ev, ck) (rm_client r) = Some n' \<Longrightarrow>
    (\<And>bs. ev = Ev_recv bs server_addr \<Longrightarrow> bs \<in> fst ` set (ex_sent (sn_exec (rm_server r)))) \<Longrightarrow>
    rumsh_step C G P F B overlay server_addr r (r\<lparr>rm_client := n'\<rparr>)"

inductive_cases rumsh_stepE: "rumsh_step C G P F B overlay server_addr r r'"
lemmas rumsh_step_cases [consumes 1, case_names server client] = rumsh_stepE

section \<open>Simulation\<close>

definition program_of :: "('c, 'v, 'p, 'f, 't) rumsh \<Rightarrow> ('c, 'v, 'p, 'f) program" where
  "program_of r = \<lparr>pg_node = rm_server r, pg_client = cn_session (rm_client r)\<rparr>"

lemma client_events_program:
  assumes "(client_event C F (fst ` set (ex_sent (sn_exec n)))) \<^sup>*\<^sup>* c c'"
  shows "(program_step C G P F)\<^sup>*\<^sup>* \<lparr>pg_node = n, pg_client = c\<rparr> \<lparr>pg_node = n, pg_client = c'\<rparr>"
  using assms
proof (induction rule: rtranclp_induct)
  case (step c1 c2)
  have "program_step C G P F \<lparr>pg_node = n, pg_client = c1\<rparr> (\<lparr>pg_node = n, pg_client = c1\<rparr>\<lparr>pg_client := c2\<rparr>)"
    by (rule ps_client) (simp add: step)
  with step.IH show ?case by (simp add: rtranclp.rtrancl_into_rtrancl)
qed simp

lemma rumsh_step_program:
  assumes "rumsh_step C G P F B overlay server_addr r r'"
  shows "(program_step C G P F)\<^sup>*\<^sup>* (program_of r) (program_of r')"
  using assms
proof (cases rule: rumsh_step_cases)
  case (server n')
  have "program_step C G P F (program_of r) ((program_of r)\<lparr>pg_node := n'\<rparr>)"
    by (rule ps_server) (simp_all add: server program_of_def)
  then show ?thesis using server(1) by (simp add: program_of_def)
next
  case (client ev ck n')
  have "drives C F (fst ` set (ex_sent (sn_exec (rm_server r)))) (rm_client r) n'"
    using client(3,4) by (rule loop_turn_drives)
  then have "(client_event C F (fst ` set (ex_sent (sn_exec (rm_server r)))))\<^sup>*\<^sup>* (cn_session (rm_client r)) (cn_session n')"
    by (simp add: drives_def)
  from client_events_program [OF this] show ?thesis using client(1) by (simp add: program_of_def)
qed

lemma rumsh_run_program:
  assumes "(rumsh_step C G P F B overlay server_addr)\<^sup>*\<^sup>* r r'"
  shows "(program_step C G P F)\<^sup>*\<^sup>* (program_of r) (program_of r')"
  using assms by (induction rule: rtranclp_induct) (auto dest: rumsh_step_program)

lemma client_start_event:
  assumes "client_start C F B send t sid codec start overlay now = Inr n"
  shows "\<exists>cols rows. client_event C F W (MirrorSession_new F sid codec start cols rows overlay now) (cn_session n)"
    "cn_tick_interval n = from_millis 16" "cn_back_buffer n = TerminalFrame_new F 0 0"
proof -
  obtain t1 cols rows s acts where "with_backend B t = (t1, Inr (cols, rows))"
    "on_winch C (MirrorSession_new F sid codec start cols rows overlay now) cols rows now = (s, Inr acts)"
    and n: "n = \<lparr>cn_session = s, cn_back_buffer = ClientTerminalRenderer_new F, cn_tick_interval = from_millis 16,
       cn_terminal = t1, cn_sent = packets_of acts, cn_output = [], cn_discarded = [], cn_exited = False\<rparr>"
    using assms by (auto simp: client_start_def and_then_def split: prod.splits sum.splits)
  then show "\<exists>cols rows. client_event C F W (MirrorSession_new F sid codec start cols rows overlay now) (cn_session n)"
    "cn_tick_interval n = from_millis 16" "cn_back_buffer n = TerminalFrame_new F 0 0"
    by (auto simp: ClientTerminalRenderer_new_def intro: ce_winch)
qed

lemma server_start_session:
  assumes "server_start S G shell_cmd key h now = Inr n"
  obtains s pty where "n = server_node_new s" "AuthoritativeSession_new G (hr_session_id h) (ChaChaCodec_new key (hr_session_id h))
    (hr_client_start_seq h) (hr_client_addr h) (hr_cols h) (hr_rows h) pty now = Inr s"
  using assms by (auto simp: server_start_def PtyBridge_spawn_Inr)

section \<open>Well-formedness\<close>

definition rumsh_wf :: "('c, 'v, 'p, 'f, 't) rumsh \<Rightarrow> bool" where
  "rumsh_wf r \<longleftrightarrow> server_wf (sn_session (rm_server r)) \<and> executor_wf (sn_exec (rm_server r))
     \<and> client_wf (cn_session (rm_client r)) \<and> frame_wf (cn_back_buffer (rm_client r)) \<and> tick_bounded (rm_client r)"

lemma client_event_wf: "client_event C F W s s' \<Longrightarrow> client_wf s \<Longrightarrow> client_wf s'"
  by (erule client_event_other) (auto simp: feed_packet_wf)

lemma client_events_wf: "(client_event C F W)\<^sup>*\<^sup>* s s' \<Longrightarrow> client_wf s \<Longrightarrow> client_wf s'"
  by (induction rule: rtranclp_induct) (auto dest: client_event_wf)

lemma node_step_session_wf:
  assumes "node_step C G P n n'" "server_wf (sn_session n)"
  shows "server_wf (sn_session n')"
  using assms(1)
proof (cases rule: node_step_cases)
  case (recv bs src now)
  then show ?thesis using assms(2) by (simp add: node_recv_def server_feed_packet_wf)
next
  case (pty received now)
  then show ?thesis using assms(2) by (simp add: node_pty_def on_pty_bytes_wf split: option.split)
next
  case (tick now)
  then show ?thesis using assms(2) by (simp add: node_tick_def server_on_tick_def check_sync_wf)
next
  case shutdown
  then show ?thesis using assms(2) prepare_shutdown_wf [OF assms(2), of C]
    by (auto simp: node_shutdown_def split: close_task.splits nat.splits prod.splits sum.splits SessionAction.splits)
qed (use assms(2) in \<open>simp_all add: node_task_def\<close>)

lemma paint_rows_wf: "paint_rows st ys active out real = Some (st', r) \<Longrightarrow> frame_wf st \<Longrightarrow> frame_wf st'"
proof (induction ys arbitrary: st active out real)
  case (Cons y ys)
  have "frame_wf (st\<lparr>tf_row_dirty := (tf_row_dirty st)[unat y := False]\<rparr>)" using Cons.prems(2) by (simp add: frame_wf_def)
  with Cons show ?case by (auto simp: Let_def split: sum.splits if_splits option.splits)
qed simp

lemma paint_wf: "paint overlay st = Some (st', r) \<Longrightarrow> frame_wf st \<Longrightarrow> frame_wf st'"
  using paint_rows_wf [of "st\<lparr>tf_clear_requested := False, tf_dirty := False\<rparr>"]
  by (auto simp: paint_def Let_def frame_wf_def split: if_splits option.splits sum.splits prod.splits)

lemma paint_cut_wf: "frame_wf st \<Longrightarrow> frame_wf (paint_cut k st)"
  using paint_rows_wf [of "st\<lparr>tf_clear_requested := False, tf_dirty := False\<rparr>"]
  by (auto simp: paint_cut_def Let_def frame_wf_def split: option.splits)

lemma consume_updates_frame_wf: "mirror_wf m \<Longrightarrow> frame_wf dest \<Longrightarrow> frame_wf (snd (fst (consume_updates m dest)))"
  by (auto simp: consume_updates_def Let_def frame_wf_def)

text \<open>Events keep the session's invariant, so the frame it hands over fits the back buffer.\<close>

lemma winch_callback_buffer [simp]: "cn_back_buffer (winch_callback C n r now) = cn_back_buffer n"
  by (auto simp: winch_callback_def split: prod.splits option.splits sum.splits)

definition client_node_wf :: "('c, 'f, 't) client_node \<Rightarrow> bool" where
  "client_node_wf n \<longleftrightarrow> client_wf (cn_session n) \<and> frame_wf (cn_back_buffer n)"

lemma winch_callback_wf: "client_node_wf n \<Longrightarrow> client_node_wf (winch_callback C n r now)"
  using winch_callback_drives [of C F UNIV n r now] client_events_wf by (force simp: client_node_wf_def drives_def)

lemma show_help_wf: "client_node_wf n \<Longrightarrow> client_node_wf (show_help C B n ck)"
  unfolding show_help_def Let_def by (rule winch_callback_wf) (simp add: client_node_wf_def)

lemma paint_action_wf: "paint_action overlay n ck = Some n' \<Longrightarrow> client_node_wf n \<Longrightarrow> client_node_wf n'"
proof -
  assume a: "paint_action overlay n ck = Some n'" "client_node_wf n"
  obtain s bb b where c: "copy_frame_if_dirty (cn_session n) (cn_back_buffer n) = ((s, bb), b)" by (metis prod.collapse)
  have "client_wf s" using copy_frame_wf [of "cn_session n" "cn_back_buffer n"] a(2) c by (simp add: client_node_wf_def)
  moreover have "frame_wf bb"
    using consume_updates_frame_wf [of "ms_mirror (cn_session n)" "cn_back_buffer n"] a(2) c client_wfD
    by (force simp: client_node_wf_def copy_frame_if_dirty_def split: prod.splits bool.splits)
  ultimately show ?thesis using a(1) c paint_wf [of overlay bb] paint_cut_wf [of bb]
    by (auto simp: paint_action_def client_node_wf_def Let_def split: bool.splits option.splits sum.splits if_splits)
qed

lemma client_actions_wf: "client_actions C B overlay ck actions n = Some n' \<Longrightarrow> client_node_wf n \<Longrightarrow> client_node_wf n'"
proof (induction actions arbitrary: n)
  case (Cons a actions)
  have "client_node_wf (n\<lparr>cn_sent := bs\<rparr>)" "client_node_wf (n\<lparr>cn_exited := e\<rparr>)" for bs e
    using Cons.prems(2) by (simp_all add: client_node_wf_def)
  with Cons winch_callback_wf [OF Cons.prems(2)] show_help_wf [OF Cons.prems(2)] show ?case
    by (cases a) (auto split: if_splits Option.bind_splits dest: paint_action_wf)
qed simp

lemma loop_turn_wf:
  assumes "loop_turn C F B overlay server_addr x n = Some n'" "client_node_wf n"
  shows "client_node_wf n'"
proof (cases "session_event C F server_addr (cn_session n) (fst x) (ck_now (snd x))")
  case None
  then have "n' = n\<lparr>cn_exited := True\<rparr>" using assms(1) by (auto simp: loop_turn_def split: prod.splits)
  then show ?thesis using assms(2) by (simp add: client_node_wf_def)
next
  case (Some p)
  obtain s r where p: "p = (s, r)" by (cases p)
  have "(client_event C F UNIV)\<^sup>*\<^sup>* (cn_session n) s" using session_event_client [OF Some [unfolded p]] by simp
  then have wf: "client_node_wf (n\<lparr>cn_session := s\<rparr>)" using client_events_wf assms(2) by (auto simp: client_node_wf_def)
  show ?thesis
  proof (cases r)
    case (Inl e)
    then have "n' = n\<lparr>cn_session := s, cn_exited := True\<rparr>" using assms(1) Some p by (auto simp: loop_turn_def split: prod.splits)
    then show ?thesis using wf by (simp add: client_node_wf_def)
  next
    case (Inr actions)
    then have "client_actions C B overlay (snd x) actions (n\<lparr>cn_session := s\<rparr>) = Some n'"
      using assms(1) Some p by (auto simp: loop_turn_def split: prod.splits)
    then show ?thesis using wf by (rule client_actions_wf)
  qed
qed

lemma rumsh_step_wf [rumsh_inv]:
  assumes "rumsh_step C G P F B overlay server_addr r r'" "rumsh_wf r"
  shows "rumsh_wf r'"
  using assms(1)
proof (cases rule: rumsh_step_cases)
  case (server n')
  then show ?thesis using assms(2) node_step_wf node_step_session_wf by (auto simp: rumsh_wf_def)
next
  case (client ev ck n')
  have "drives C F UNIV (rm_client r) n'" using client(3) by (rule loop_turn_drives) simp
  then have "tick_bounded n'" using assms(2) by (simp add: drives_def rumsh_wf_def)
  moreover have "client_node_wf n'" using loop_turn_wf [OF client(3)] assms(2) by (simp add: rumsh_wf_def client_node_wf_def)
  ultimately show ?thesis using assms(2) client(1) by (simp add: rumsh_wf_def client_node_wf_def)
qed

lemma rumsh_start_wf:
  assumes "server_start S G shell_cmd key h now = Inr n" "client_start C F B send t sid codec start overlay now' = Inr c"
  shows "rumsh_wf \<lparr>rm_server = n, rm_client = c\<rparr>"
proof -
  obtain s where s: "n = server_node_new s" "server_wf s"
    by (rule server_start_session [OF assms(1)]) (auto dest: AuthoritativeSession_new_wf)
  have "client_wf (cn_session c)" using client_start_event(1) [OF assms(2), of UNIV] client_event_wf client_wf_new by meson
  then show ?thesis using s client_start_event(2,3) [OF assms(2)]
    by (simp add: rumsh_wf_def server_node_new_def tick_bounded_def from_millis_def TerminalFrame_new_wf)
qed

section \<open>Properties\<close>

text \<open>C1: From the handshake to the screen.  The server answers the client's current handshake, both processes start with
  what the handshake told them, and any steps of the server's tasks and turns of the client's loop follow,
  over a network that loses, repeats and reorders, while anyone sends anything to the server: each
  grid the client holds under a sequence number is the grid the server queued under that number.
  (\<open>y\<close> is the run of the sessions that this one implements; it records the grids.)\<close>

theorem session_mirrors_server:
  assumes "wire_lib_small L" "crypto = CryptoManager_new key 0"
    and "client_handshake L crypto cols rows 1 evs = (sent, Inr None)"
    and "\<forall>e \<in> set junk. \<exists>b a. e = Wait_datagram b a \<and> accept_handshake L crypto b = None"
    and "wait_for_client_handshake L crypto sid (junk @ Wait_datagram (last sent) src # rest) = Some (Inr (res, Some reply))"
    and "snd (client_handshake L crypto cols rows 1 (evs @ Reply reply # later)) = Inr (Some (sid', start, h))"
    and "server_start S G shell_cmd key res t0 = Inr n"
    and "client_start (chacha_codec L) F B send term sid' (ChaChaCodec_new key sid') start overlay t1 = Inr c"
    and "(rumsh_step (chacha_codec L) G (pty_bridge os) F B overlay_text addr)\<^sup>*\<^sup>* \<lparr>rm_server = n, rm_client = c\<rparr> r"
  shows "\<exists>cols' rows' y. reachable (chacha_codec L) G (pty_bridge os) F
      (sys_init (sn_session n) (MirrorSession_new F sid (ChaChaCodec_new key sid) 1 cols' rows' overlay t1)) y
    \<and> sy_server y = sn_session (rm_server r) \<and> sy_client y = cn_session (rm_client r)
    \<and> (\<forall>(q, g) \<in> set (ms_state_history (cn_session (rm_client r))). sy_frames y q = Some g)"
proof -
  have "wire_lib L" using assms(1) by (simp add: wire_lib_small_def)
  from wire_lib.agreement [OF this assms(3-5), of later] assms(6)
  have hs: "hr_session_id res = sid" "sid' = sid" "start = 1" by auto
  obtain s0 pty where s0: "n = server_node_new s0" "AuthoritativeSession_new G sid (ChaChaCodec_new key sid) (hr_client_start_seq res)
      (hr_client_addr res) (hr_cols res) (hr_rows res) pty t0 = Inr s0"
    using server_start_session [OF assms(7)] hs(1) by auto
  let ?C = "chacha_codec L" and ?P = "pty_bridge os"
  obtain cols' rows' where c0: "client_event ?C F {} (MirrorSession_new F sid (ChaChaCodec_new key sid) 1 cols' rows' overlay t1) (cn_session c)"
    using client_start_event(1) [OF assms(8), of "{}"] hs(2,3) by blast
  let ?c0 = "MirrorSession_new F sid (ChaChaCodec_new key sid) 1 cols' rows' overlay t1"
  have "(client_event ?C F (fst ` set (ex_sent (sn_exec n)))) \<^sup>*\<^sup>* ?c0 (cn_session c)"
    using client_event_mono [OF c0] by blast
  from client_events_program [OF this, of G ?P] rumsh_run_program [OF assms(9)]
  have "(program_step ?C G ?P F)\<^sup>*\<^sup>* \<lparr>pg_node = server_node_new s0, pg_client = ?c0\<rparr> (program_of r)"
    by (simp add: program_of_def s0(1))
  from program_implements [OF this] obtain y where y: "reachable ?C G ?P F (sys_init s0 ?c0) y" "implements (program_of r) y" by blast
  have "sy_server y = sn_session (rm_server r)" "sy_client y = cn_session (rm_client r)" using y(2) by (simp_all add: implements_def program_of_def)
  moreover have "sn_session n = s0" by (simp add: s0(1) server_node_new_def)
  ultimately show ?thesis using wire_lib_small.client_history_recorded [OF assms(1) s0(2) y(1)] y(1) by auto
qed

text \<open>A run: the fourth handshake is answered; the server's first tick queues a frame, the diff task seals and sends
  it, and the client receives it.\<close>

definition working_system :: "tty_device pty_system" where
  "working_system = \<lparr>sys_openpty = (\<lambda>rows cols. Inr (tty_open cols rows)), sys_spawn_command = (\<lambda>m _ _. Inr m),
     sys_take_writer = Inr, sys_clone_reader = Inr\<rparr>"

definition tiny_handshake :: HandshakeResult where
  "tiny_handshake = \<lparr>hr_client_addr = ([127, 0, 0, 1], 4000), hr_session_id = 9, hr_client_start_seq = 4, hr_cols = 1, hr_rows = 1\<rparr>"

lemma tiny_server_start: "server_start working_system tiny_vt (str ''sh'') [1, 2] tiny_handshake 0 = Inr (server_node_new sample_session)"
proof -
  have "split_whitespace (str ''sh'') \<noteq> []" by code_simp
  then have "PtyBridge_spawn working_system 1 1 (str ''sh'') = Inr (PtyBridge_new (tty_open 1 1))" by (simp add: PtyBridge_spawn_Inr working_system_def)
  then show ?thesis using sample_session_wf(1) by (simp add: server_start_def tiny_handshake_def)
qed

lemma tiny_client_start:
  "\<exists>c. client_start (chacha_codec ref_lib) unit_f32 fake_backend (\<lambda>_. Inr ()) (fake_new 1 1) 9 (ChaChaCodec_new [1, 2] 9) 1 False 0 = Inr c
    \<and> ms_codec (cn_session c) = ChaChaCodec_new [1, 2] 9 \<and> ms_ack_seq_num (cn_session c) = 0 \<and> ms_state_history (cn_session c) = []
    \<and> tf_rows (ti_frame (ms_mirror (cn_session c))) = 1 \<and> pending (cn_session c) = [] \<and> \<not> cn_exited c"
  by (simp add: client_start_def with_backend_def fake_backend_def fake_new_def on_winch_def prepare_resize_def seal_reliable_def
      with_mirror_def Let_def chacha_codec_def chacha_seal_client_def serialize_def MirrorSession_new_def set_overlay_enabled_def
      ClientTerminal_new_def TerminalFrame_new_def LocalEchoEngine_new_def abort_prediction_def with_echo_def abort_def mark_dirty_def packets_of_def)

lemma tiny_node_run:
  "\<exists>n b t echo. ex_sent (sn_exec n) = [(b, t)]
    \<and> seal_server (chacha_codec ref_lib) (ChaChaCodec_new [1, 2] 9) 1 4 (Frame (tiny_update_frame echo)) = Inr [b]
    \<and> (rumsh_step (chacha_codec ref_lib) tiny_vt (pty_bridge sample_tty) F B overlay addr)\<^sup>*\<^sup>*
        \<lparr>rm_server = server_node_new sample_session, rm_client = c\<rparr> \<lparr>rm_server = n, rm_client = c\<rparr>"
proof -
  let ?C = "chacha_codec ref_lib" and ?P = "pty_bridge sample_tty" and ?n0 = "server_node_new sample_session"
  let ?step = "rumsh_step ?C tiny_vt ?P F B overlay addr"
  obtain s job t where tick: "server_on_tick tiny_vt ?P sample_session 0 = (s, Inr [OffloadDiffJob job t])"
    and job: "job_seq job = 1" "job_ack_seq job = 4" "job_ref_seq job = 0" "job_ref_state job = None"
      "job_current_state job = grid_of (tiny_snapshot 32)" "job_codec job = ChaChaCodec_new [1, 2] 9"
    using sample_tick by blast
  obtain b where b: "seal_server ?C (ChaChaCodec_new [1, 2] 9) 1 4 (Frame (tiny_update_frame (job_is_echo_recommended job))) = Inr [b]"
    using tiny_sealed by blast
  have run: "UpdateJob_run ?C job = Inr [b]" using b by (simp add: UpdateJob_run_def job tiny_diff)
  have fits: "grid_fits (job_current_state job)" by (simp add: job grid_fits_def grid_of_def tiny_snapshot_def)
  have n1: "ex_task (sn_exec tiny_node) = Computing job t" "ex_sent (sn_exec tiny_node) = []"
    using tick by (simp_all add: tiny_node_def node_tick_def server_node_new_def after_session_def execute_actions_def executor_new_def)
  let ?n2 = "node_task ?C tiny_node" let ?n3 = "node_task ?C ?n2"
  have n2: "ex_task (sn_exec ?n2) = Sending [b] t" "ex_sent (sn_exec ?n2) = []" using n1 run by (simp_all add: node_task_def task_step_def)
  have n3: "ex_sent (sn_exec ?n3) = [(b, t)]" using n2 by (simp add: node_task_def [of _ "node_task _ _"] task_step_def)
  have "seq_room sample_session"
    by (simp add: seq_room_def sample_session_def AuthoritativeSession_new_def ServerTerminalState_new_def tiny_vt_def)
  moreover have "node_step ?C tiny_vt ?P ?n0 tiny_node"
    unfolding tiny_node_def by (rule ns_tick) (simp add: server_node_new_def)
  ultimately have 1: "?step \<lparr>rm_server = ?n0, rm_client = c\<rparr> \<lparr>rm_server = tiny_node, rm_client = c\<rparr>"
    using rs_server [of ?C tiny_vt ?P "\<lparr>rm_server = ?n0, rm_client = c\<rparr>" tiny_node F B overlay addr]
    by (simp add: server_node_new_def task_fits_def executor_new_def)
  have 2: "?step \<lparr>rm_server = tiny_node, rm_client = c\<rparr> \<lparr>rm_server = ?n2, rm_client = c\<rparr>"
    using rs_server [of ?C tiny_vt ?P "\<lparr>rm_server = tiny_node, rm_client = c\<rparr>" ?n2 F B overlay addr]
      n1 run fits tiny_node_props(2,3) ns_task [of tiny_node ?C tiny_vt ?P] by (simp add: task_fits_def)
  have 3: "?step \<lparr>rm_server = ?n2, rm_client = c\<rparr> \<lparr>rm_server = ?n3, rm_client = c\<rparr>"
    using rs_server [of ?C tiny_vt ?P "\<lparr>rm_server = ?n2, rm_client = c\<rparr>" ?n3 F B overlay addr]
      n2 tiny_node_props(2,3) ns_task [of ?n2 ?C tiny_vt ?P] by (simp add: task_fits_def node_task_def)
  have "?step\<^sup>*\<^sup>* \<lparr>rm_server = ?n0, rm_client = c\<rparr> \<lparr>rm_server = ?n3, rm_client = c\<rparr>"
    using 1 2 3 by (meson converse_rtranclp_into_rtranclp rtranclp.rtrancl_refl)
  with n3 b show ?thesis by blast
qed

text \<open>Events without a packet leave what the client holds of the server alone.\<close>

lemma silent_events_sync:
  assumes "(client_event C F {})\<^sup>*\<^sup>* s s'" "client_wf s"
  shows "sync_view s' = sync_view s"
proof -
  have "sync_view s' = sync_view s \<and> client_wf s'"
    using assms
  proof (induction rule: rtranclp_induct)
    case (step s1 s2)
    then show ?case using client_event_other [OF step.hyps(2)] by auto
  qed simp
  then show ?thesis ..
qed

lemma tiny_client_turn:
  assumes "client_wf (cn_session c)" "ms_codec (cn_session c) = ChaChaCodec_new [1, 2] 9" "ms_ack_seq_num (cn_session c) = 0"
    and "tf_rows (ti_frame (ms_mirror (cn_session c))) = 1" "pending (cn_session c) = []"
    and "seal_server (chacha_codec ref_lib) (ChaChaCodec_new [1, 2] 9) 1 4 (Frame (tiny_update_frame echo)) = Inr [b]"
  shows "\<exists>c'. loop_turn (chacha_codec ref_lib) F B overlay addr (Ev_recv b addr, ck) c = Some c'
    \<and> (1, grid_of (tiny_snapshot 32)) \<in> set (ms_state_history (cn_session c'))"
proof -
  let ?C = "chacha_codec ref_lib" and ?s = "cn_session c" and ?g = "grid_of (tiny_snapshot 32)"
  have "cc_fragment_buffer (ChaChaCodec_new [1, 2] 9) = []" by (simp add: ChaChaCodec_new_def)
  with ref.single_delivered [OF assms(6) refl] obtain c1 pkt stats where
    o: "open_server ?C (ms_codec ?s) b = (c1, Inr (Some (pkt, Frame (tiny_update_frame echo), stats)))" "esp_seq_num pkt = 1"
    using assms(2) by auto
  have base: "update_base ?s (tiny_update_frame echo) = Some (empty_grid_for (tiny_update_frame echo))"
    by (simp add: update_base_def tiny_update_frame_def)
  define s1 where "s1 = fst (feed_packet ?C F ?s b (ck_now ck))"
  obtain acks h where f: "snd (feed_packet ?C F ?s b (ck_now ck)) = Inr (Paint # acks)" "ms_state_history s1 = h @ [(1, ?g)]" "displays (ms_mirror s1) ?g"
    using apply_new_frame [OF assms(1) o(1) _ _ _ base tiny_patch, of F "ck_now ck"] o(2) assms(3-5) by (auto simp: Let_def s1_def)
  have "unat (mirror_cols (cn_session (c\<lparr>cn_session := s1\<rparr>))) < 65535"
    using f(3) by (simp add: displays_def grid_of_def tiny_snapshot_def)
  then obtain c' where c': "client_actions ?C B overlay ck (Paint # acks) (c\<lparr>cn_session := s1\<rparr>) = Some c'"
    using client_actions_return by blast
  have "feed_packet ?C F ?s b (ck_now ck) = (s1, Inr (Paint # acks))" using f(1) s1_def by (metis prod.collapse)
  then have t: "loop_turn ?C F B overlay addr (Ev_recv b addr, ck) c = Some c'"
    using c' by (simp add: loop_turn_def session_event_def)
  have "(client_event ?C F {})\<^sup>*\<^sup>* s1 (cn_session c')" using client_actions_drives [OF c', of F "{}"] by (simp add: drives_def)
  from silent_events_sync [OF this] feed_packet_wf [OF assms(1)] have "sync_view (cn_session c') = sync_view s1" by (simp add: s1_def)
  then have "ms_state_history (cn_session c') = ms_state_history s1" by (simp add: sync_view_def)
  with t f(2) show ?thesis by simp
qed

text \<open>The whole run from a started client \<open>c\<close>.\<close>

lemma tiny_run:
  assumes "client_start (chacha_codec ref_lib) F B send term 9 (ChaChaCodec_new [1, 2] 9) 1 False 0 = Inr c"
    and "ms_codec (cn_session c) = ChaChaCodec_new [1, 2] 9" "ms_ack_seq_num (cn_session c) = 0"
    and "tf_rows (ti_frame (ms_mirror (cn_session c))) = 1" "pending (cn_session c) = []" "\<not> cn_exited c"
  shows "\<exists>r. (rumsh_step (chacha_codec ref_lib) tiny_vt (pty_bridge sample_tty) F B overlay addr)\<^sup>*\<^sup>*
      \<lparr>rm_server = server_node_new sample_session, rm_client = c\<rparr> r
    \<and> (1, grid_of (tiny_snapshot 32)) \<in> set (ms_state_history (cn_session (rm_client r)))"
proof -
  let ?C = "chacha_codec ref_lib" and ?ck = "\<lparr>ck_now = 5, ck_later = 5, ck_paint = 0, ck_io = None, ck_key = []\<rparr>"
  obtain n b t echo where n: "ex_sent (sn_exec n) = [(b, t)]"
    "seal_server ?C (ChaChaCodec_new [1, 2] 9) 1 4 (Frame (tiny_update_frame echo)) = Inr [b]"
    "(rumsh_step ?C tiny_vt (pty_bridge sample_tty) F B overlay addr)\<^sup>*\<^sup>* \<lparr>rm_server = server_node_new sample_session, rm_client = c\<rparr>
      \<lparr>rm_server = n, rm_client = c\<rparr>"
    using tiny_node_run by blast
  have "client_wf (cn_session c)" using client_start_event(1) [OF assms(1), of "{}"] client_event_wf client_wf_new by meson
  from tiny_client_turn [OF this assms(2-5) n(2), of F B overlay addr ?ck] obtain c' where
    c': "loop_turn ?C F B overlay addr (Ev_recv b addr, ?ck) c = Some c'" "(1, grid_of (tiny_snapshot 32)) \<in> set (ms_state_history (cn_session c'))" by blast
  have "rumsh_step ?C tiny_vt (pty_bridge sample_tty) F B overlay addr \<lparr>rm_server = n, rm_client = c\<rparr> \<lparr>rm_server = n, rm_client = c'\<rparr>"
    using rs_client [of "\<lparr>rm_server = n, rm_client = c\<rparr>" ?C F B overlay addr "Ev_recv b addr" ?ck c' tiny_vt "pty_bridge sample_tty"] c'(1) n(1) assms(6) by simp
  with n(3) c'(2) show ?thesis by (intro exI [of _ "\<lparr>rm_server = n, rm_client = c'\<rparr>"]) simp
qed

theorem session_mirrors_server_witness:
  "\<exists>sent reply c r y cols rows. client_handshake ref_lib (CryptoManager_new [1, 2] 0) 1 1 1 [Reply_timeout, Reply_timeout, Reply_timeout] = (sent, Inr None)
    \<and> wait_for_client_handshake ref_lib (CryptoManager_new [1, 2] 0) 9 [Wait_datagram (last sent) ([127, 0, 0, 1], 4000)] = Some (Inr (tiny_handshake, Some reply))
    \<and> client_start (chacha_codec ref_lib) unit_f32 fake_backend (\<lambda>_. Inr ()) (fake_new 1 1) 9 (ChaChaCodec_new [1, 2] 9) 1 False 0 = Inr c
    \<and> (rumsh_step (chacha_codec ref_lib) tiny_vt (pty_bridge sample_tty) unit_f32 fake_backend (\<lambda>_. []) ([127, 0, 0, 1], 60000))\<^sup>*\<^sup>*
        \<lparr>rm_server = server_node_new sample_session, rm_client = c\<rparr> r
    \<and> reachable (chacha_codec ref_lib) tiny_vt (pty_bridge sample_tty) unit_f32
        (sys_init sample_session (MirrorSession_new unit_f32 9 (ChaChaCodec_new [1, 2] 9) 1 cols rows False 0)) y
    \<and> (1, grid_of (tiny_snapshot 32)) \<in> set (ms_state_history (cn_session (rm_client r)))
    \<and> sy_frames y 1 = Some (grid_of (tiny_snapshot 32))"
proof -
  let ?cm = "CryptoManager_new [1, 2] 0" and ?src = "([127, 0, 0, 1], 4000) :: socket_addr" and ?C = "chacha_codec ref_lib"
  let ?evs = "[Reply_timeout, Reply_timeout, Reply_timeout]"
  have p: "\<exists>b. handshake_packet ref_lib ?cm 1 1 h = Inr b" for h by (simp add: handshake_packet_def serialize_def)
  obtain b1 b2 b3 b4 where b: "handshake_packet ref_lib ?cm 1 1 1 = Inr b1" "handshake_packet ref_lib ?cm 1 1 2 = Inr b2"
    "handshake_packet ref_lib ?cm 1 1 3 = Inr b3" "handshake_packet ref_lib ?cm 1 1 4 = Inr b4" using p by metis
  have sent: "client_handshake ref_lib ?cm 1 1 1 ?evs = ([b1, b2, b3, b4], Inr None)" using b by (simp add: client_handshake.simps)
  obtain reply where r: "handshake_reply ref_lib ?cm 9 4 = Inr (Some reply)" by (simp add: handshake_reply_def serialize_def)
  have w: "wait_for_client_handshake ref_lib ?cm 9 ([] @ Wait_datagram (last [b1, b2, b3, b4]) ?src # []) = Some (Inr (tiny_handshake, Some reply))"
    using r ref.handshake_packet_accepted [OF b(4)] by (simp add: tiny_handshake_def)
  have acc: "accept_reply ref_lib ?cm 4 reply = Some (9, 1)" using ref.reply_accepted [OF r, of 4] by simp
  have hs: "snd (client_handshake ref_lib ?cm 1 1 1 (?evs @ Reply reply # [])) = Inr (Some (9, 1, 4))"
    using b acc by (simp add: client_handshake.simps)
  obtain c where c: "client_start ?C unit_f32 fake_backend (\<lambda>_. Inr ()) (fake_new 1 1) 9 (ChaChaCodec_new [1, 2] 9) 1 False 0 = Inr c"
    "ms_codec (cn_session c) = ChaChaCodec_new [1, 2] 9" "ms_ack_seq_num (cn_session c) = 0"
    "tf_rows (ti_frame (ms_mirror (cn_session c))) = 1" "pending (cn_session c) = []" "\<not> cn_exited c" using tiny_client_start by blast
  obtain q where q: "(rumsh_step ?C tiny_vt (pty_bridge sample_tty) unit_f32 fake_backend (\<lambda>_. []) ([127, 0, 0, 1], 60000))\<^sup>*\<^sup>*
      \<lparr>rm_server = server_node_new sample_session, rm_client = c\<rparr> q"
    "(1, grid_of (tiny_snapshot 32)) \<in> set (ms_state_history (cn_session (rm_client q)))" using tiny_run [OF c] by blast
  obtain cols rows y where y: "reachable ?C tiny_vt (pty_bridge sample_tty) unit_f32
      (sys_init (sn_session (server_node_new sample_session)) (MirrorSession_new unit_f32 9 (ChaChaCodec_new [1, 2] 9) 1 cols rows False 0)) y"
    "\<forall>(k, g) \<in> set (ms_state_history (cn_session (rm_client q))). sy_frames y k = Some g"
    using session_mirrors_server [OF ref_small.wire_lib_small_axioms refl sent _ w hs tiny_server_start c(1) q(1)] by auto
  have "sn_session (server_node_new sample_session) = sample_session" by (simp add: server_node_new_def)
  with y q(2) have "reachable ?C tiny_vt (pty_bridge sample_tty) unit_f32
      (sys_init sample_session (MirrorSession_new unit_f32 9 (ChaChaCodec_new [1, 2] 9) 1 cols rows False 0)) y"
    "sy_frames y 1 = Some (grid_of (tiny_snapshot 32))" by auto
  with sent w c(1) q show ?thesis unfolding append_Nil by blast
qed

text \<open>C11: Every state of the two processes is well formed: the server's grids have the size they claim and its history at
  most 200 of them, its packets wait in order, at most one diff task exists and the fragment cache is
  bounded; the client's history is sorted, at most 200 long and not ahead of its acknowledgement, its
  frame and the renderer's back buffer match their dimensions, and the timer stays within 16 to 100 ms.\<close>

theorem all_states_well_formed:
  assumes "server_start S G shell_cmd key h t0 = Inr n" "client_start (chacha_codec L) F B send term sid codec start overlay t1 = Inr c"
    and "(rumsh_step (chacha_codec L) G (pty_bridge os) F B overlay_text addr)\<^sup>*\<^sup>* \<lparr>rm_server = n, rm_client = c\<rparr> r"
  shows "rumsh_wf r"
  using assms(3)
proof (induction rule: rtranclp_induct)
  case base
  then show ?case using rumsh_start_wf [OF assms(1,2)] .
next
  case (step r1 r2)
  then show ?case using rumsh_step_wf by blast
qed

theorem all_states_well_formed_witness:
  "\<exists>c r. client_start (chacha_codec ref_lib) unit_f32 fake_backend (\<lambda>_. Inr ()) (fake_new 1 1) 9 (ChaChaCodec_new [1, 2] 9) 1 False 0 = Inr c
    \<and> (rumsh_step (chacha_codec ref_lib) tiny_vt (pty_bridge sample_tty) unit_f32 fake_backend (\<lambda>_. []) ([127, 0, 0, 1], 60000))\<^sup>*\<^sup>*
        \<lparr>rm_server = server_node_new sample_session, rm_client = c\<rparr> r
    \<and> ms_state_history (cn_session (rm_client r)) \<noteq> [] \<and> rumsh_wf r"
proof -
  obtain c where c: "client_start (chacha_codec ref_lib) unit_f32 fake_backend (\<lambda>_. Inr ()) (fake_new 1 1) 9 (ChaChaCodec_new [1, 2] 9) 1 False 0 = Inr c"
    "ms_codec (cn_session c) = ChaChaCodec_new [1, 2] 9" "ms_ack_seq_num (cn_session c) = 0"
    "tf_rows (ti_frame (ms_mirror (cn_session c))) = 1" "pending (cn_session c) = []" "\<not> cn_exited c" using tiny_client_start by blast
  obtain r where r: "(rumsh_step (chacha_codec ref_lib) tiny_vt (pty_bridge sample_tty) unit_f32 fake_backend (\<lambda>_. []) ([127, 0, 0, 1], 60000))\<^sup>*\<^sup>*
      \<lparr>rm_server = server_node_new sample_session, rm_client = c\<rparr> r"
    "(1, grid_of (tiny_snapshot 32)) \<in> set (ms_state_history (cn_session (rm_client r)))" using tiny_run [OF c] by blast
  from all_states_well_formed [OF tiny_server_start c(1) r(1)] c(1) r show ?thesis by fastforce
qed

end
