(* ===== verification/Rumsh_Bootstrap.thy ===== *)
theory Rumsh_Bootstrap
  imports Rumsh_Text
begin

text \<open>
  Starting up: the server subcommand of \<open>src/main.rs\<close>, \<open>src/client/bootstrap.rs\<close> and the address and port selection
  of \<open>src/server/network.rs\<close>.  The operating system is a set of parameters: binding a UDP socket, running
  \<open>ssh\<close>, resolving a host name, environment variables and the random key are arguments.  Strings are
  UTF-8 byte lists (\<open>Rumsh_Text\<close>), an IP address is the list of its 4 or 16 octets.
\<close>

section \<open>Parsing an IP address\<close>

text \<open>The parser of \<open>std::net\<close>: digits are read greedily, at most \<open>width\<close> of them.\<close>

fun read_digits :: "nat \<Rightarrow> bytes \<Rightarrow> nat list \<times> bytes" where
  "read_digits radix [] = ([], [])"
| "read_digits radix (b # bs) =
     (case digit_of radix b of
        None \<Rightarrow> ([], b # bs)
      | Some v \<Rightarrow> (case read_digits radix bs of (vs, r) \<Rightarrow> (v # vs, r)))"

definition read_number :: "nat \<Rightarrow> nat \<Rightarrow> nat \<Rightarrow> bool \<Rightarrow> bytes \<Rightarrow> (nat \<times> bytes) option" where
  "read_number radix width hi zero_prefix s =
     (case read_digits radix s of (vs, r) \<Rightarrow>
        (let n = foldl (\<lambda>a v. a * radix + v) 0 vs in
         if vs = [] \<or> length vs > width \<or> \<not> zero_prefix \<and> hd vs = 0 \<and> length vs > 1 \<or> n > hi then None
         else Some (n, r)))"

definition read_char :: "u8 \<Rightarrow> bytes \<Rightarrow> bytes option" where
  "read_char c s = (case s of [] \<Rightarrow> None | b # r \<Rightarrow> if b = c then Some r else None)"

fun read_octets :: "nat \<Rightarrow> bool \<Rightarrow> bytes \<Rightarrow> (bytes \<times> bytes) option" where
  "read_octets 0 sep s = Some ([], s)"
| "read_octets (Suc k) sep s =
     Option.bind (if sep then read_char 46 s else Some s) (\<lambda>s1.
     Option.bind (read_number 10 3 255 False s1) (\<lambda>(n, s2).
     Option.bind (read_octets k True s2) (\<lambda>(os, s3). Some (of_nat n # os, s3))))"

definition read_ipv4 :: "bytes \<Rightarrow> (bytes \<times> bytes) option" where
  "read_ipv4 s = read_octets 4 False s"

text \<open>\<open>read_groups\<close>: up to \<open>limit\<close> groups of two octets, the last two of them possibly written as an IPv4
  address; the octets read, whether an IPv4 address ended them, and the rest.\<close>

fun read_groups :: "nat \<Rightarrow> bool \<Rightarrow> bytes \<Rightarrow> bytes \<times> bool \<times> bytes" where
  "read_groups 0 sep s = ([], False, s)"
| "read_groups (Suc k) sep s =
     (case (if k = 0 then None else Option.bind (if sep then read_char 58 s else Some s) read_ipv4) of
        Some (v4, r) \<Rightarrow> (v4, True, r)
      | None \<Rightarrow>
          (case Option.bind (if sep then read_char 58 s else Some s) (read_number 16 4 65535 True) of
             None \<Rightarrow> ([], False, s)
           | Some (n, r) \<Rightarrow>
               (case read_groups k True r of (os, v4, r') \<Rightarrow> (of_nat (n div 256) # of_nat (n mod 256) # os, v4, r'))))"

definition read_ipv6 :: "bytes \<Rightarrow> (bytes \<times> bytes) option" where
  "read_ipv6 s =
     (case read_groups 8 False s of (front, v4, r) \<Rightarrow>
        if length front = 16 then Some (front, r)
        else if v4 then None
        else Option.bind (read_char 58 r) (\<lambda>r1. Option.bind (read_char 58 r1) (\<lambda>r2.
          (case read_groups (7 - length front div 2) False r2 of (back, _, r3) \<Rightarrow>
             Some (front @ replicate (16 - length front - length back) 0 @ back, r3)))))"

definition parse_ip :: "bytes \<Rightarrow> bytes res" where
  "parse_ip s =
     (case (case read_ipv4 s of Some x \<Rightarrow> Some x | None \<Rightarrow> read_ipv6 s) of
        Some (ip, []) \<Rightarrow> Inr ip
      | _ \<Rightarrow> Inl ParseAddrError)"

section \<open>The server's address and port\<close>

definition any_ip :: bytes where
  "any_ip = [0, 0, 0, 0]"

definition determine_bind_address :: "bytes option \<Rightarrow> bytes option \<Rightarrow> bool \<Rightarrow> bytes" where
  "determine_bind_address ssh_connection bind_ip_override bind_any =
     (case bind_ip_override of
        Some ip \<Rightarrow> ip
      | None \<Rightarrow>
          if bind_any then any_ip
          else (case ssh_connection of
              Some ssh_conn \<Rightarrow>
                (let parts = split_whitespace ssh_conn in
                 if length parts \<ge> 3 then (case parse_ip (parts ! 2) of Inr server_ip \<Rightarrow> server_ip | Inl _ \<Rightarrow> any_ip)
                 else any_ip)
            | None \<Rightarrow> any_ip))"

definition parse_port_range :: "bytes \<Rightarrow> (u16 \<times> u16) res" where
  "parse_port_range range_str =
     and_then (if 58 \<in> set range_str then Inr (split_on 58 range_str)
               else if 45 \<in> set range_str then Inr (split_on 45 range_str) else Inl PortFormat) (\<lambda>parts.
     if length parts \<noteq> 2 then Inl PortFormat
     else and_then (parse_u16 (parts ! 0)) (\<lambda>start.
          and_then (parse_u16 (parts ! 1)) (\<lambda>stop.
          if start > stop then Inl PortOrder else Inr (start, stop))))"

text \<open>The inclusive range of ports, which ends after 65535 without wrapping.\<close>

definition ports_of :: "u16 \<times> u16 \<Rightarrow> u16 list" where
  "ports_of r = map of_nat [unat (fst r)..<Suc (unat (snd r))]"

fun bind_scan :: "(bytes \<Rightarrow> u16 \<Rightarrow> 'sock option) \<Rightarrow> bytes \<Rightarrow> u16 list \<Rightarrow> ('sock \<times> u16) res" where
  "bind_scan udp_bind ip [] = Inl BindError"
| "bind_scan udp_bind ip (port # ports) =
     (case udp_bind ip port of Some socket \<Rightarrow> Inr (socket, port) | None \<Rightarrow> bind_scan udp_bind ip ports)"

definition bind_to_available_port_sync ::
    "(bytes \<Rightarrow> u16 \<Rightarrow> 'sock option) \<Rightarrow> bytes \<Rightarrow> u16 \<times> u16 \<Rightarrow> ('sock \<times> u16) res" where
  "bind_to_available_port_sync udp_bind bind_ip port_range = bind_scan udp_bind bind_ip (ports_of port_range)"

section \<open>The session key as text\<close>

definition key_hex :: "bytes \<Rightarrow> bytes" where
  "key_hex key = concat (map hex_byte key)"

text \<open>One turn of the loop slices two bytes, which panics inside a multi-byte character.\<close>

fun hex_pairs :: "bytes \<Rightarrow> bytes res" where
  "hex_pairs (a # b # r) =
     (if cont a \<or> r \<noteq> [] \<and> cont (hd r) then Inl CharBoundaryPanic
      else and_then (ok_or ParseIntError (from_str_radix 16 255 [a, b])) (\<lambda>v.
           and_then (hex_pairs r) (\<lambda>key. Inr (of_nat v # key))))"
| "hex_pairs _ = Inr []"

definition parse_hex_key :: "bytes \<Rightarrow> bytes res" where
  "parse_hex_key s = (if length s \<noteq> 64 then Inl KeyLength else hex_pairs s)"

section \<open>The server subcommand\<close>

text \<open>Up to the point where the process detaches: the socket, the port and key, and what was printed.\<close>

definition connect_token :: "u16 \<Rightarrow> bytes \<Rightarrow> bytes" where
  "connect_token bound_port key_str = str ''RUMSH CONNECT '' @ dec_digits (unat bound_port) @ str '' '' @ key_str"

definition server_output :: "u16 \<Rightarrow> bytes \<Rightarrow> bytes" where
  "server_output bound_port key_str =
     connect_token bound_port key_str @ [10]
     @ str ''RUMSH_PORT='' @ dec_digits (unat bound_port) @ [10]
     @ str ''RUMSH_KEY='' @ key_str @ [10]"

record environment =
  env_rumsh_key :: "bytes option"
  env_ssh_connection :: "bytes option"
  env_shell :: "bytes option"
  env_random_key :: bytes

definition run_server_subcommand ::
    "environment \<Rightarrow> (bytes \<Rightarrow> u16 \<Rightarrow> 'sock option) \<Rightarrow> bytes option \<Rightarrow> u16 option \<Rightarrow> bytes \<Rightarrow> bool
      \<Rightarrow> ('sock \<times> u16 \<times> bytes \<times> bytes) res" where
  "run_server_subcommand env udp_bind bind_opt port port_range bind_any =
     and_then (case env_rumsh_key env of Some key_str \<Rightarrow> parse_hex_key key_str | None \<Rightarrow> Inr (env_random_key env)) (\<lambda>key.
     and_then (case bind_opt of Some ip_str \<Rightarrow> and_then (parse_ip ip_str) (\<lambda>ip. Inr (Some ip)) | None \<Rightarrow> Inr None)
       (\<lambda>bind_ip_override.
     let bind_ip = determine_bind_address (env_ssh_connection env) bind_ip_override bind_any in
     and_then (case port of Some p \<Rightarrow> Inr (p, p) | None \<Rightarrow> parse_port_range port_range) (\<lambda>range.
     and_then (bind_to_available_port_sync udp_bind bind_ip range) (\<lambda>(socket, bound_port).
       Inr (socket, bound_port, key, server_output bound_port (key_hex key))))))"

section \<open>The client's bootstrap\<close>

record SessionBootstrapper =
  sb_remote_binary :: bytes
  sb_port_range :: bytes
  sb_remote_bind :: "bytes option"
  sb_remote_log_file :: "bytes option"

definition SessionBootstrapper_new ::
    "bytes \<Rightarrow> bytes \<Rightarrow> bytes option \<Rightarrow> bytes option \<Rightarrow> SessionBootstrapper" where
  "SessionBootstrapper_new binary ports bind_ip log_file =
     \<lparr>sb_remote_binary = binary, sb_port_range = ports, sb_remote_bind = bind_ip, sb_remote_log_file = log_file\<rparr>"

definition extract_host_from_ssh_target :: "bytes \<Rightarrow> bytes" where
  "extract_host_from_ssh_target target =
     (if 64 \<in> set target then tl (dropWhile (\<lambda>b. b \<noteq> 64) target) else target)"

fun token_from_lines :: "bytes list \<Rightarrow> (u16 \<times> bytes) res" where
  "token_from_lines [] = Inl TokenMissing"
| "token_from_lines (line # rest) =
     (if \<not> utf8_valid line then Inl IoError
      else if starts_with (str ''RUMSH CONNECT '') line \<and> length (split_whitespace line) = 4 then
        and_then (parse_u16 (split_whitespace line ! 2)) (\<lambda>port. Inr (port, split_whitespace line ! 3))
      else token_from_lines rest)"

definition parse_token :: "bytes \<Rightarrow> (u16 \<times> bytes) res" where
  "parse_token reader = token_from_lines (reader_lines reader)"

definition remote_cmd :: "SessionBootstrapper \<Rightarrow> bytes" where
  "remote_cmd self =
     sb_remote_binary self @ str '' server --port-range '' @ sb_port_range self
     @ (case sb_remote_bind self of Some ip \<Rightarrow> str '' --bind '' @ ip | None \<Rightarrow> [])
     @ (case sb_remote_log_file self of Some log_file \<Rightarrow> str '' --log-file '' @ log_file | None \<Rightarrow> [])"

text \<open>\<open>ssh target cmd\<close> is what the child process writes and whether it exits with success (\<open>None\<close>: it cannot
  be started); \<open>resolve\<close> is \<open>to_socket_addrs\<close>.\<close>

definition bootstrap ::
    "(bytes \<Rightarrow> bytes \<Rightarrow> (bytes \<times> bool) option) \<Rightarrow> (bytes \<Rightarrow> 'addr list option)
      \<Rightarrow> SessionBootstrapper \<Rightarrow> bytes \<Rightarrow> ('addr \<times> bytes) res" where
  "bootstrap ssh resolve self target_str =
     (let host = extract_host_from_ssh_target target_str in
      and_then (ok_or SshFailed (ssh target_str (remote_cmd self))) (\<lambda>(stdout, success).
      and_then (parse_token stdout) (\<lambda>(port, key_str).
      and_then (parse_hex_key key_str) (\<lambda>key_bytes.
      if \<not> success then Inl SshFailed
      else
        (let connect_host = (case sb_remote_bind self of Some ip \<Rightarrow> ip | None \<Rightarrow> host) in
         and_then (ok_or ResolveFailed (resolve (connect_host @ str '':'' @ dec_digits (unat port)))) (\<lambda>addrs.
           (case addrs of [] \<Rightarrow> Inl ResolveFailed | addr # _ \<Rightarrow> Inr (addr, key_bytes))))))))"

section \<open>The key round trip\<close>

lemma length_key_hex [simp]: "length (key_hex key) = 2 * length key"
  by (induction key) (simp_all add: key_hex_def hex_byte_def)

lemma hex_byte_props:
  "\<forall>c \<in> set (hex_byte b). visible c \<and> c < 0x80 \<and> \<not> cont c"
proof -
  have b: "unat b < 256" using unsigned_less [of b, where 'a = nat] by simp
  then have "unat b div 16 < 16" "unat b mod 16 < 16" by auto
  then have "visible c \<and> c < 0x80" if "c \<in> set (hex_byte b)" for c
    using that hex_digit_props by (auto simp: hex_byte_def)
  then show ?thesis by (meson cont_def leD)
qed

lemma key_hex_props: "c \<in> set (key_hex key) \<Longrightarrow> visible c \<and> c < 0x80 \<and> \<not> cont c"
  using hex_byte_props by (auto simp: key_hex_def)

lemma hex_pairs_key_hex: "hex_pairs (key_hex key) = Inr key"
proof (induction key)
  case (Cons b key)
  have "\<not> cont c" if "c \<in> set (hex_byte b)" for c using that hex_byte_props by blast
  moreover have "\<not> cont (hd (key_hex key))" if "key_hex key \<noteq> []" using that key_hex_props hd_in_set by blast
  ultimately have "hex_pairs (hex_byte b @ key_hex key) =
      and_then (ok_or ParseIntError (from_str_radix 16 255 (hex_byte b))) (\<lambda>v. and_then (hex_pairs (key_hex key)) (\<lambda>k. Inr (of_nat v # k)))"
    by (auto simp: hex_byte_def)
  then show ?case using Cons.IH by (simp add: key_hex_def from_str_radix_hex)
qed (simp add: key_hex_def)

lemma parse_key_hex: "length key = 32 \<Longrightarrow> parse_hex_key (key_hex key) = Inr key"
  by (simp add: parse_hex_key_def hex_pairs_key_hex)

lemma length_hex_pairs: "hex_pairs s = Inr key \<Longrightarrow> length key = length s div 2"
  by (induction s arbitrary: key rule: hex_pairs.induct) (auto split: if_splits)

lemma length_parsed_key: "parse_hex_key s = Inr key \<Longrightarrow> length key = 32"
  by (auto simp: parse_hex_key_def dest: length_hex_pairs split: if_splits)

section \<open>The token\<close>

lemma split_on_lines: "\<forall>l \<in> set ls. c \<notin> set l \<Longrightarrow> split_on c (concat (map (\<lambda>l. l @ [c]) ls) @ rest) = ls @ split_on c rest"
  by (induction ls) (simp_all add: split_on_append)

lemma reader_lines_cons:
  assumes "\<forall>l \<in> set ls. 10 \<notin> set l"
  shows "reader_lines (concat (map (\<lambda>l. l @ [10]) ls) @ rest) = map strip_cr ls @ reader_lines rest"
proof -
  obtain p ps where "split_on 10 rest = p # ps" by (metis neq_Nil_conv split_on_nonempty)
  then show ?thesis using assms by (simp add: reader_lines_def split_on_lines Let_def butlast_append)
qed

lemma token_skips_noise:
  assumes "\<forall>l \<in> set ls. utf8_valid l \<and> \<not> starts_with (str ''RUMSH CONNECT '') l"
  shows "token_from_lines (ls @ rest) = token_from_lines rest"
  using assms by (induction ls) auto

lemma visible_ascii: "visible b \<Longrightarrow> b < 0x80"
  by (auto simp: visible_def word_le_nat_alt word_less_nat_alt)

lemma visible_not_nl: "visible b \<Longrightarrow> b \<noteq> 10" "visible b \<Longrightarrow> b \<noteq> 13"
  by (auto simp: visible_def word_le_nat_alt)

lemma dec_digits_visible: "b \<in> set (dec_digits n) \<Longrightarrow> visible b"
  using dec_digits_range [of b n] by (auto simp: visible_def word_le_nat_alt)

lemma str_token: "str ''RUMSH CONNECT '' = [82, 85, 77, 83, 72, 32, 67, 79, 78, 78, 69, 67, 84, 32]"
  by (simp add: str_def)

lemma token_line_fields:
  assumes "key_str \<noteq> []" "\<forall>b \<in> set key_str. visible b" "port_str \<noteq> []" "\<forall>b \<in> set port_str. visible b"
  shows "token_from_lines ((str ''RUMSH CONNECT '' @ port_str @ str '' '' @ key_str) # rest)
    = and_then (parse_u16 port_str) (\<lambda>port. Inr (port, key_str))"
proof -
  let ?line = "str ''RUMSH CONNECT '' @ port_str @ str '' '' @ key_str"
  have line: "?line = [82, 85, 77, 83, 72, 32, 67, 79, 78, 78, 69, 67, 84, 32] @ port_str @ [32] @ key_str"
    by (simp add: str_token) (simp add: str_def)
  have "\<forall>b \<in> set ?line. b < 0x80"
    using assms(2,4) visible_ascii unfolding line by (auto simp: word_less_nat_alt)
  then have u: "utf8_valid ?line" using utf8_valid_ascii [of ?line "[]"] by simp
  have "split_whitespace ?line = words_from [] (concat (map (\<lambda>w. w @ [32])
      [[82, 85, 77, 83, 72], [67, 79, 78, 78, 69, 67, 84], port_str]) @ key_str)"
    unfolding line by (simp add: split_whitespace_def)
  also have "\<dots> = [[82, 85, 77, 83, 72], [67, 79, 78, 78, 69, 67, 84], port_str, key_str]"
    using assms words_from_visible [of port_str] words_from_visible [of key_str "[]" "[]"] by (simp add: visible_def ws_len.simps)
  finally have w: "split_whitespace ?line = [[82, 85, 77, 83, 72], [67, 79, 78, 78, 69, 67, 84], port_str, key_str]" .
  have "starts_with (str ''RUMSH CONNECT '') ?line" by (simp add: starts_with_def)
  then show ?thesis unfolding token_from_lines.simps using u by (simp only: w) simp
qed

lemma token_line:
  assumes "key_str \<noteq> []" "\<forall>b \<in> set key_str. visible b"
  shows "token_from_lines (connect_token port key_str # rest) = Inr (port, key_str)"
proof -
  have "dec_digits (unat port) \<noteq> []" by (subst dec_digits.simps) simp
  then show ?thesis using token_line_fields [OF assms, of "dec_digits (unat port)" rest] dec_digits_visible
    by (simp add: connect_token_def)
qed

lemma parse_token_output:
  assumes "\<forall>l \<in> set ls. 10 \<notin> set l \<and> utf8_valid (strip_cr l) \<and> \<not> starts_with (str ''RUMSH CONNECT '') (strip_cr l)"
    and "key_str \<noteq> []" "\<forall>b \<in> set key_str. visible b"
  shows "parse_token (concat (map (\<lambda>l. l @ [10]) ls) @ server_output port key_str @ rest) = Inr (port, key_str)"
proof -
  let ?t = "connect_token port key_str"
  have t: "10 \<notin> set ?t" "strip_cr ?t = ?t"
  proof -
    have "\<forall>b \<in> set key_str. b \<noteq> 10 \<and> b \<noteq> 13" "\<forall>b \<in> set (dec_digits (unat port)). b \<noteq> 10 \<and> b \<noteq> 13"
      using assms(3) visible_not_nl dec_digits_visible by blast+
    then show "10 \<notin> set ?t" "strip_cr ?t = ?t"
      using assms(2) last_in_set [OF assms(2)] by (auto simp: connect_token_def str_token strip_cr_def str_def)
  qed
  have "\<forall>l \<in> set ls. 10 \<notin> set l" using assms(1) by simp
  then have "reader_lines (concat (map (\<lambda>l. l @ [10]) (ls @ [?t])) @ tail) = map strip_cr ls @ ?t # reader_lines tail" for tail
    using t by (subst reader_lines_cons) auto
  then have "parse_token (concat (map (\<lambda>l. l @ [10]) ls) @ ?t @ [10] @ tail) = Inr (port, key_str)" for tail
    using assms token_skips_noise [of "map strip_cr ls"] token_line by (simp add: parse_token_def)
  then show ?thesis by (simp add: server_output_def)
qed

section \<open>Ports\<close>

lemma parse_port_range_dec:
  assumes "a \<le> b" "sep \<in> {58, 45}"
  shows "parse_port_range (dec_digits (unat a) @ sep # dec_digits (unat b)) = Inr (a, b)"
proof -
  have "58 \<notin> set (dec_digits n)" "45 \<notin> set (dec_digits n)" for n
    using dec_digits_range [of _ n] by (fastforce simp: word_le_nat_alt)+
  then show ?thesis using assms by (auto simp: parse_port_range_def split_on_append split_on_none)
qed

lemma bind_scan_first:
  "case bind_scan udp_bind ip ports of
     Inr (sock, p) \<Rightarrow> \<exists>us vs. ports = us @ p # vs \<and> udp_bind ip p = Some sock \<and> (\<forall>q \<in> set us. udp_bind ip q = None)
   | Inl e \<Rightarrow> e = BindError \<and> (\<forall>q \<in> set ports. udp_bind ip q = None)"
proof (induction ports)
  case (Cons port ports)
  show ?case
  proof (cases "udp_bind ip port")
    case None
    with Cons show ?thesis by (auto split: sum.splits) (metis append_Cons set_ConsD)
  next
    case (Some sock)
    then show ?thesis by (auto intro: exI [of _ "[]"])
  qed
qed simp

lemma set_ports_of: "q \<in> set (ports_of (a, b)) \<longleftrightarrow> a \<le> q \<and> q \<le> b"
proof -
  have "k \<le> unat b \<Longrightarrow> unat (of_nat k :: u16) = k" for k
    using unsigned_less [of b, where 'a = nat] by (simp add: unat_of_nat)
  then show ?thesis
    by (auto simp: ports_of_def word_le_nat_alt image_iff intro!: bexI [of _ "unat q"])
qed

lemma sorted_ports_of: "sorted_wrt (<) (ports_of (a, b))"
proof -
  have "k \<le> unat b \<Longrightarrow> unat (of_nat k :: u16) = k" for k
    using unsigned_less [of b, where 'a = nat] by (simp add: unat_of_nat)
  then have "sorted_wrt (\<lambda>i j. (of_nat i :: u16) < of_nat j) [unat a..<Suc (unat b)]"
    by (intro sorted_wrt_mono_rel [OF _ sorted_wrt_upt]) (simp del: upt_Suc add: word_less_nat_alt)
  then show ?thesis by (simp only: ports_of_def fst_conv snd_conv sorted_wrt_map)
qed

text \<open>Keys that are not 64 hexadecimal digits: a sign is accepted, and a character of several bytes across the border of
  two digits panics.\<close>

lemma parse_hex_key_signs: "parse_hex_key (concat (replicate 32 (str ''+f''))) = Inr (replicate 32 15)"
  by code_simp

lemma parse_hex_key_panics: "parse_hex_key (97 # 0xC3 # 0xA9 # replicate 61 97) = Inl CharBoundaryPanic"
  by code_simp

section \<open>Properties\<close>

text \<open>C29: The port the server binds.  For a range written \<open>a:b\<close> or \<open>a-b\<close> with \<open>a\<close> at most \<open>b\<close> the scan returns the lowest
  port of the range the system lets it bind, with its socket, and fails only when no port of the
  range can be bound; the scan ends also for a range that ends at 65535.\<close>

theorem port_selection:
  assumes "a \<le> b" "sep \<in> {58, 45}"
  shows "case and_then (parse_port_range (dec_digits (unat a) @ sep # dec_digits (unat b))) (bind_to_available_port_sync udp_bind ip) of
      Inr (sock, p) \<Rightarrow> a \<le> p \<and> p \<le> b \<and> udp_bind ip p = Some sock \<and> (\<forall>q. a \<le> q \<and> q < p \<longrightarrow> udp_bind ip q = None)
    | Inl e \<Rightarrow> e = BindError \<and> (\<forall>q. a \<le> q \<and> q \<le> b \<longrightarrow> udp_bind ip q = None)"
proof (cases "bind_scan udp_bind ip (ports_of (a, b))")
  case (Inl e)
  with bind_scan_first [where udp_bind = udp_bind and ip = ip and ports = "ports_of (a, b)"] show ?thesis
    by (simp add: parse_port_range_dec [OF assms] bind_to_available_port_sync_def set_ports_of)
next
  case (Inr r)
  obtain sock p where r: "r = (sock, p)" by (cases r)
  with Inr bind_scan_first [where udp_bind = udp_bind and ip = ip and ports = "ports_of (a, b)"] obtain us vs where
    uv: "ports_of (a, b) = us @ p # vs" "udp_bind ip p = Some sock" "\<forall>q \<in> set us. udp_bind ip q = None" by auto
  have p: "a \<le> p" "p \<le> b" using set_ports_of [of p a b] uv(1) by auto
  have "udp_bind ip q = None" if "a \<le> q" "q < p" for q
  proof -
    have "q \<in> set (ports_of (a, b))" using that p by (simp add: set_ports_of)
    moreover have "\<forall>v \<in> set vs. p < v" using sorted_ports_of [of a b] uv(1) by (simp add: sorted_wrt_append)
    ultimately have "q \<in> set us" using uv(1) that by auto
    with uv(3) show ?thesis by blast
  qed
  then show ?thesis using p uv(2) Inr r by (simp add: parse_port_range_dec [OF assms] bind_to_available_port_sync_def)
qed

text \<open>A machine on which the first two ports of the range are taken.\<close>

definition busy_ports :: "bytes \<Rightarrow> u16 \<Rightarrow> unit option" where
  "busy_ports ip p = (if p \<le> 60001 then None else Some ())"

lemma busy_scan: "bind_to_available_port_sync busy_ports any_ip (60000, 60003) = Inr ((), 60002)"
  by (simp add: bind_to_available_port_sync_def ports_of_def busy_ports_def upt_rec numeral_eq_Suc [symmetric])

theorem port_selection_witness:
  "and_then (parse_port_range (str ''60000:60003'')) (bind_to_available_port_sync busy_ports any_ip) = Inr ((), 60002)
   \<and> busy_ports any_ip 60000 = None \<and> busy_ports any_ip 60001 = None"
proof -
  have t: "str ''60000:60003'' = dec_digits (unat (60000 :: u16)) @ 58 # dec_digits (unat (60003 :: u16))"
    by (simp add: str_def dec_digits.simps)
  have e: "and_then (parse_port_range (dec_digits (unat (60000 :: u16)) @ 58 # dec_digits (unat (60003 :: u16))))
      (bind_to_available_port_sync busy_ports any_ip) = Inr ((), 60002)"
    using parse_port_range_dec [of 60000 60003 58] busy_scan by simp
  have "\<forall>q. 60000 \<le> q \<and> q < 60002 \<longrightarrow> busy_ports any_ip q = None"
    using port_selection [of 60000 60003 58 busy_ports any_ip, unfolded e] by simp
  then have "busy_ports any_ip 60000 = None" "busy_ports any_ip 60001 = None" by auto
  with e show ?thesis unfolding t by blast
qed

text \<open>The SSH bootstrap agrees with the server it starts.  When the remote command runs the server subcommand, whatever
  complete lines (none of them a token) precede its output and whatever follows it, the client
  connects to the port the server bound, at the host it was asked for, with the server's key.\<close>

theorem bootstrap_agrees:
  assumes "run_server_subcommand env udp_bind bind_opt port ports bind_any = Inr (sock, bound_port, key, out)"
    and "length (env_random_key env) = 32"
    and "\<forall>l \<in> set ls. 10 \<notin> set l \<and> utf8_valid (strip_cr l) \<and> \<not> starts_with (str ''RUMSH CONNECT '') (strip_cr l)"
    and "ssh target (remote_cmd self) = Some (concat (map (\<lambda>l. l @ [10]) ls) @ out @ rest, True)"
    and "host = (case sb_remote_bind self of Some ip \<Rightarrow> ip | None \<Rightarrow> extract_host_from_ssh_target target)"
    and "resolve (host @ str '':'' @ dec_digits (unat bound_port)) = Some (addr # addrs)"
  shows "bootstrap ssh resolve self target = Inr (addr, key) \<and> (\<exists>ip. udp_bind ip bound_port = Some sock)"
proof -
  have k: "length key = 32"
    using assms(1,2) length_parsed_key by (auto simp: run_server_subcommand_def Let_def split: option.splits prod.splits)
  have out: "out = server_output bound_port (key_hex key)"
    using assms(1) by (auto simp: run_server_subcommand_def Let_def split: option.splits prod.splits)
  have "key_hex key \<noteq> []" using k length_key_hex [of key] by (metis length_0_conv numeral_neq_zero mult_eq_0_iff)
  then have "parse_token (concat (map (\<lambda>l. l @ [10]) ls) @ out @ rest) = Inr (bound_port, key_hex key)"
    unfolding out using parse_token_output [OF assms(3)] key_hex_props by blast
  moreover obtain ip r where "bind_scan udp_bind ip (ports_of r) = Inr (sock, bound_port)"
    using assms(1) by (auto simp: run_server_subcommand_def Let_def bind_to_available_port_sync_def split: option.splits prod.splits)
  ultimately show ?thesis
    using assms(4-6) parse_key_hex [OF k] bind_scan_first [where udp_bind = udp_bind and ip = ip and ports = "ports_of r"]
    by (auto simp: bootstrap_def Let_def)
qed

text \<open>The server picks its third port; the login shell prints a greeting first.\<close>

definition sample_env :: environment where
  "sample_env = \<lparr>env_rumsh_key = None, env_ssh_connection = Some (str ''10.0.0.7 50022 10.0.0.1 22''), env_shell = None,
     env_random_key = map of_nat [0..<32]\<rparr>"

definition sample_ssh :: "bytes \<Rightarrow> bytes \<Rightarrow> (bytes \<times> bool) option" where
  "sample_ssh target cmd = Some (str ''Welcome'' @ [13, 10] @ server_output 60002 (key_hex (map of_nat [0..<32])), True)"

definition sample_resolve :: "bytes \<Rightarrow> bytes list option" where
  "sample_resolve name = Some [name]"

lemma sample_server_run:
  "run_server_subcommand sample_env busy_ports None None (str ''60000:60003'') False
     = Inr ((), 60002, map of_nat [0..<32], server_output 60002 (key_hex (map of_nat [0..<32])))"
proof -
  have t: "str ''60000:60003'' = dec_digits (unat (60000 :: u16)) @ 58 # dec_digits (unat (60003 :: u16))"
    by (simp add: str_def dec_digits.simps)
  have "bind_to_available_port_sync busy_ports ip (60000, 60003) = Inr ((), 60002)" for ip
    using busy_scan by (simp add: bind_to_available_port_sync_def ports_of_def busy_ports_def upt_rec numeral_eq_Suc [symmetric])
  then show ?thesis
    unfolding t using parse_port_range_dec [of 60000 60003 58] by (simp add: run_server_subcommand_def sample_env_def Let_def)
qed

lemma sample_noise:
  "\<forall>l \<in> set [str ''Welcome'' @ [13]]. 10 \<notin> set l \<and> utf8_valid (strip_cr l) \<and> \<not> starts_with (str ''RUMSH CONNECT '') (strip_cr l)"
  by (simp add: str_def strip_cr_def starts_with_def)

theorem bootstrap_agrees_witness:
  "bootstrap sample_ssh sample_resolve (SessionBootstrapper_new (str ''rumsh'') (str ''60000:60003'') None None) (str ''me@host'')
     = Inr (str ''host:60002'', map of_nat [0..<32])"
proof -
  let ?self = "SessionBootstrapper_new (str ''rumsh'') (str ''60000:60003'') None None"
  let ?key = "map of_nat [0..<32] :: bytes"
  have host: "extract_host_from_ssh_target (str ''me@host'') @ str '':'' @ dec_digits (unat (60002 :: u16)) = str ''host:60002''"
    by (simp add: extract_host_from_ssh_target_def str_def dec_digits.simps [of 60002] dec_digits.simps [of 6000] dec_digits.simps [of 600]
      dec_digits.simps [of 60] dec_digits.simps [of 6])
  have len: "length (env_random_key sample_env) = 32" by (simp add: sample_env_def)
  have ssh: "sample_ssh (str ''me@host'') (remote_cmd ?self)
      = Some (concat (map (\<lambda>l. l @ [10]) [str ''Welcome'' @ [13]]) @ server_output 60002 (key_hex ?key) @ [], True)"
    by (simp add: sample_ssh_def)
  have res: "sample_resolve (extract_host_from_ssh_target (str ''me@host'') @ str '':'' @ dec_digits (unat (60002 :: u16))) = Some (str ''host:60002'' # [])"
    unfolding host sample_resolve_def ..
  have eq: "extract_host_from_ssh_target (str ''me@host'') =
      (case sb_remote_bind ?self of Some ip \<Rightarrow> ip | None \<Rightarrow> extract_host_from_ssh_target (str ''me@host''))"
    by (simp add: SessionBootstrapper_new_def)
  show ?thesis using bootstrap_agrees [where ssh = sample_ssh and resolve = sample_resolve and udp_bind = busy_ports, OF sample_server_run len sample_noise ssh eq res] ..
qed

end
