(* ===== verification/Rumsh_Main.thy ===== *)
theory Rumsh_Main
  imports Rumsh_Bootstrap
begin

text \<open>
  The command line, \<open>src/main.rs\<close>: what \<open>main\<close> does with the parsed arguments, up to the call of \<open>run_server\<close> or
  \<open>run_client\<close>.  Parsing the arguments is the work of clap, so a \<open>Cli\<close> is given; the operating system (binding a
  socket, opening the log, detaching from the terminal, ssh, the resolver) is the record \<open>system\<close>.
\<close>

section \<open>Arguments\<close>

datatype Commands =
  Server (srv_bind: "bytes option") (srv_port: "u16 option") (srv_port_range: bytes) (srv_bind_any: bool)
    (srv_no_daemonize: bool) (srv_shell: "bytes option")

record Cli =
  cli_log_file :: "bytes option"
  cli_debug :: bool
  cli_target :: "bytes option"
  cli_key :: "bytes option"
  cli_port_range :: bytes
  cli_remote_bind :: "bytes option"
  cli_remote_binary :: bytes
  cli_remote_log_file :: "bytes option"
  cli_overlay :: bool
  cli_command :: "Commands option"

text \<open>What the process goes on to be.\<close>

datatype ('sock, 'addr) role =
    Run_server 'sock bytes bytes
  | Run_client 'addr bytes bool

record ('sock, 'addr) system =
  sys_udp_bind :: "bytes \<Rightarrow> u16 \<Rightarrow> 'sock option"
  sys_daemonize :: bool
  sys_ssh :: "bytes \<Rightarrow> bytes \<Rightarrow> (bytes \<times> bool) option"
  sys_resolve :: "bytes \<Rightarrow> 'addr list option"
  sys_open_log :: "bytes \<Rightarrow> bool"
  sys_current_dir :: "bytes option"
  sys_help :: bytes

section \<open>The server subcommand\<close>

definition shell_path :: "environment \<Rightarrow> bytes option \<Rightarrow> bytes" where
  "shell_path env shell =
     (case shell of Some s \<Rightarrow> s | None \<Rightarrow> (case env_shell env of Some s \<Rightarrow> s | None \<Rightarrow> str ''/bin/bash''))"

text \<open>What the process prints and how it goes on.  The token is printed before the process detaches, so it is there
  also when detaching fails and the process exits with status 1.\<close>

definition server_mode ::
    "environment \<Rightarrow> ('sock, 'addr) system \<Rightarrow> Commands \<Rightarrow> bytes \<times> ('sock, 'addr) role res" where
  "server_mode env sys cmd =
     (case run_server_subcommand env (sys_udp_bind sys) (srv_bind cmd) (srv_port cmd) (srv_port_range cmd) (srv_bind_any cmd) of
        Inl e \<Rightarrow> ([], Inl e)
      | Inr (socket, bound_port, key, out) \<Rightarrow>
          if \<not> srv_no_daemonize cmd \<and> \<not> sys_daemonize sys then (out, Inl ExitFailure)
          else (out, Inr (Run_server socket (shell_path env (srv_shell cmd)) key)))"

section \<open>The client mode\<close>

definition remote_log :: "Cli \<Rightarrow> bytes option" where
  "remote_log cli =
     (case cli_remote_log_file cli of
        Some path \<Rightarrow> Some path
      | None \<Rightarrow> if cli_debug cli then Some (str ''/tmp/rumsh-server.log'') else None)"

definition run_client_mode ::
    "(bytes \<Rightarrow> bytes \<Rightarrow> (bytes \<times> bool) option) \<Rightarrow> (bytes \<Rightarrow> 'addr list option)
      \<Rightarrow> Cli \<Rightarrow> ('addr \<times> bytes \<times> bool) res" where
  "run_client_mode ssh resolve cli =
     and_then (ok_or TargetMissing (cli_target cli)) (\<lambda>target_str.
     and_then
       (case cli_key cli of
          Some key_str \<Rightarrow>
            and_then (ok_or ResolveFailed (resolve target_str)) (\<lambda>addrs.
              (case addrs of
                 [] \<Rightarrow> Inl ResolveFailed
               | addr # _ \<Rightarrow> and_then (parse_hex_key key_str) (\<lambda>key_bytes. Inr (addr, key_bytes))))
        | None \<Rightarrow>
            bootstrap ssh resolve
              (SessionBootstrapper_new (cli_remote_binary cli) (cli_port_range cli) (cli_remote_bind cli) (remote_log cli))
              target_str)
       (\<lambda>(addr, key_bytes). Inr (addr, key_bytes, cli_overlay cli)))"

section \<open>The dispatch\<close>

definition path_join :: "bytes \<Rightarrow> bytes \<Rightarrow> bytes" where
  "path_join dir name = (if dir \<noteq> [] \<and> last dir = 47 then dir @ name else dir @ str ''/'' @ name)"

definition log_path :: "bytes option \<Rightarrow> Cli \<Rightarrow> bytes option" where
  "log_path cwd cli =
     (case cli_log_file cli of
        Some path \<Rightarrow> Some path
      | None \<Rightarrow>
          if \<not> cli_debug cli then None
          else (case cli_command cli of
              Some (Server _ _ _ _ _ _) \<Rightarrow> Some (str ''/tmp/rumsh-server.log'')
            | None \<Rightarrow> Some (path_join (case cwd of Some d \<Rightarrow> d | None \<Rightarrow> str ''.'') (str ''rumsh-client.log''))))"

definition init_log :: "('sock, 'addr) system \<Rightarrow> Cli \<Rightarrow> unit res" where
  "init_log sys cli =
     (case log_path (sys_current_dir sys) cli of
        None \<Rightarrow> Inr ()
      | Some path \<Rightarrow> if sys_open_log sys path then Inr () else Inl IoError)"

definition rumsh_main :: "environment \<Rightarrow> ('sock, 'addr) system \<Rightarrow> Cli \<Rightarrow> bytes \<times> ('sock, 'addr) role res" where
  "rumsh_main env sys cli =
     (case init_log sys cli of
        Inl e \<Rightarrow> ([], Inl e)
      | Inr _ \<Rightarrow>
          (case cli_command cli of
             Some cmd \<Rightarrow> server_mode env sys cmd
           | None \<Rightarrow>
               (if cli_target cli = None then sys_help sys @ [10] else [],
                and_then (run_client_mode (sys_ssh sys) (sys_resolve sys) cli) (\<lambda>(addr, key_bytes, overlay).
                  Inr (Run_client addr key_bytes overlay)))))"

section \<open>Both ends\<close>

lemma server_mode_cases:
  assumes "server_mode env sys cmd = (out, r)"
  obtains (failed) e where "r = Inl e"
  | (serves) sock bound_port key where "r = Inr (Run_server sock (shell_path env (srv_shell cmd)) key)"
      "run_server_subcommand env (sys_udp_bind sys) (srv_bind cmd) (srv_port cmd) (srv_port_range cmd) (srv_bind_any cmd)
        = Inr (sock, bound_port, key, out)"
  using assms by (auto simp: server_mode_def split: sum.splits if_splits)

lemma rumsh_main_server:
  "cli_command cli = Some cmd \<Longrightarrow> rumsh_main env sys cli = (out, r) \<Longrightarrow> (\<exists>e. r = Inl e) \<or> server_mode env sys cmd = (out, r)"
  by (auto simp: rumsh_main_def split: sum.splits)

definition bootstrapper_of :: "Cli \<Rightarrow> SessionBootstrapper" where
  "bootstrapper_of cli =
     SessionBootstrapper_new (cli_remote_binary cli) (cli_port_range cli) (cli_remote_bind cli) (remote_log cli)"

lemma rumsh_main_bootstraps:
  assumes "cli_command cli = None" "cli_target cli = Some target" "cli_key cli = None" "init_log sys cli = Inr ()"
  shows "rumsh_main env sys cli = ([], and_then (bootstrap (sys_ssh sys) (sys_resolve sys) (bootstrapper_of cli) target)
    (\<lambda>(addr, key). Inr (Run_client addr key (cli_overlay cli))))"
  using assms by (cases "bootstrap (sys_ssh sys) (sys_resolve sys) (bootstrapper_of cli) target")
    (auto simp: rumsh_main_def run_client_mode_def bootstrapper_of_def)

lemma bootstrap_failed_ssh:
  "ssh target (remote_cmd self) = Some (out, False) \<Longrightarrow> \<exists>e. bootstrap ssh resolve self target = Inl e"
  by (auto simp: bootstrap_def Let_def and_then_def split: sum.splits)

text \<open>C28: The two command lines agree.  The client's \<open>main\<close>, started with a target and no key, runs the server's \<open>main\<close> over
  ssh, whatever its arguments and environment; ssh passes its output on, among other lines, returns when the
  server has detached or ended (an argument that keeps it in the foreground keeps the client waiting as
  well), and reports whether it succeeded.  If the server
  process goes on to serve, the client goes on to connect to the host it was asked for at the port the
  server bound, with the server's key; if the server fails anywhere, also after it has printed its token,
  the client fails, because it waits for ssh and checks its exit status.  (The architecture document has
  the server started with \<open>--no-daemonize\<close> and ssh killed once the token is read; the code does neither.)\<close>

theorem mains_agree:
  assumes "rumsh_main renv rsys rcli = (out, r)" "cli_command rcli = Some cmd" "length (env_random_key renv) = 32"
    and "\<forall>l \<in> set ls. 10 \<notin> set l \<and> utf8_valid (strip_cr l) \<and> \<not> starts_with (str ''RUMSH CONNECT '') (strip_cr l)"
    and "cli_command cli = None" "cli_target cli = Some target" "cli_key cli = None" "init_log sys cli = Inr ()"
    and "sys_ssh sys target (remote_cmd (bootstrapper_of cli))
      = Some (concat (map (\<lambda>l. l @ [10]) ls) @ out @ rest, \<not> (\<exists>e. r = Inl e))"
    and "host = (case cli_remote_bind cli of Some ip \<Rightarrow> ip | None \<Rightarrow> extract_host_from_ssh_target target)"
    and "\<forall>port. \<exists>addrs. sys_resolve sys (host @ str '':'' @ dec_digits (unat port)) = Some (addr_of port # addrs)"
  shows "case r of
      Inr (Run_server sock shell key) \<Rightarrow> shell = shell_path renv (srv_shell cmd)
        \<and> (\<exists>ip port. sys_udp_bind rsys ip port = Some sock
            \<and> rumsh_main env sys cli = ([], Inr (Run_client (addr_of port) key (cli_overlay cli))))
    | Inr (Run_client _ _ _) \<Rightarrow> False
    | Inl _ \<Rightarrow> \<exists>e. rumsh_main env sys cli = ([], Inl e)"
proof -
  note client = rumsh_main_bootstraps [OF assms(5-8), of env]
  show ?thesis
  proof (cases "\<exists>e. r = Inl e")
    case True
    with assms(9) have "sys_ssh sys target (remote_cmd (bootstrapper_of cli)) = Some (concat (map (\<lambda>l. l @ [10]) ls) @ out @ rest, False)" by simp
    from bootstrap_failed_ssh [of "sys_ssh sys", OF this, of "sys_resolve sys"] True client show ?thesis by auto
  next
    case False
    then have "server_mode renv rsys cmd = (out, r)" using rumsh_main_server [OF assms(2,1)] by blast
    then obtain sock port key where r: "r = Inr (Run_server sock (shell_path renv (srv_shell cmd)) key)"
      "run_server_subcommand renv (sys_udp_bind rsys) (srv_bind cmd) (srv_port cmd) (srv_port_range cmd) (srv_bind_any cmd) = Inr (sock, port, key, out)"
      using False by (elim server_mode_cases) auto
    obtain addrs where "sys_resolve sys (host @ str '':'' @ dec_digits (unat port)) = Some (addr_of port # addrs)" using assms(11) by blast
    moreover have "host = (case sb_remote_bind (bootstrapper_of cli) of Some ip \<Rightarrow> ip | None \<Rightarrow> extract_host_from_ssh_target target)"
      using assms(10) by (simp add: bootstrapper_of_def SessionBootstrapper_new_def)
    ultimately have "bootstrap (sys_ssh sys) (sys_resolve sys) (bootstrapper_of cli) target = Inr (addr_of port, key)
        \<and> (\<exists>ip. sys_udp_bind rsys ip port = Some sock)"
      using bootstrap_agrees [OF r(2) assms(3,4), of "sys_ssh sys" target "bootstrapper_of cli" rest host] assms(9) False by simp
    with client r(1) show ?thesis by auto
  qed
qed

text \<open>The server binds the third port of its range; its login shell prints a greeting first.\<close>

definition sample_server_cli :: Cli where
  "sample_server_cli = \<lparr>cli_log_file = None, cli_debug = False, cli_target = None, cli_key = None, cli_port_range = str ''60000:61000'',
     cli_remote_bind = None, cli_remote_binary = str ''rumsh'', cli_remote_log_file = None, cli_overlay = False,
     cli_command = Some (Server None None (str ''60000:60003'') False False None)\<rparr>"

definition sample_client_cli :: Cli where
  "sample_client_cli = \<lparr>cli_log_file = None, cli_debug = False, cli_target = Some (str ''me@host''), cli_key = None,
     cli_port_range = str ''60000:60003'', cli_remote_bind = None, cli_remote_binary = str ''rumsh'', cli_remote_log_file = None,
     cli_overlay = True, cli_command = None\<rparr>"

definition sample_system :: "bool \<Rightarrow> (unit, bytes) system" where
  "sample_system detaches = \<lparr>sys_udp_bind = busy_ports, sys_daemonize = detaches, sys_ssh = (\<lambda>target cmd.
       map_option (apsnd (\<lambda>ok. ok \<and> detaches)) (sample_ssh target cmd)), sys_resolve = sample_resolve,
     sys_open_log = (\<lambda>_. True), sys_current_dir = None, sys_help = []\<rparr>"

lemma sample_server_main:
  "rumsh_main sample_env (sample_system detaches) sample_server_cli = (server_output 60002 (key_hex (map of_nat [0..<32])),
     if detaches then Inr (Run_server () (str ''/bin/bash'') (map of_nat [0..<32])) else Inl ExitFailure)"
  using sample_server_run
  by (simp add: rumsh_main_def init_log_def log_path_def sample_server_cli_def server_mode_def sample_system_def shell_path_def sample_env_def)

theorem mains_agree_witness:
  "(\<exists>port. rumsh_main sample_env (sample_system True) sample_client_cli
      = ([], Inr (Run_client (str ''host:'' @ dec_digits (unat (port :: u16))) (map of_nat [0..<32]) True)))
   \<and> (\<exists>e. rumsh_main sample_env (sample_system False) sample_client_cli = ([], Inl e))"
proof -
  let ?key = "map of_nat [0..<32] :: bytes"
  have log: "init_log (sample_system d) sample_client_cli = Inr ()" for d
    by (simp add: init_log_def log_path_def sample_client_cli_def)
  have len: "length (env_random_key sample_env) = 32" by (simp add: sample_env_def)
  have ssh: "sys_ssh (sample_system d) (str ''me@host'') (remote_cmd (bootstrapper_of sample_client_cli))
      = Some (concat (map (\<lambda>l. l @ [10]) [str ''Welcome'' @ [13]]) @ server_output 60002 (key_hex ?key) @ [],
          \<not> (\<exists>e. (if d then Inr (Run_server () (str ''/bin/bash'') ?key) else Inl ExitFailure) = (Inl e :: (unit, bytes) role res)))" for d
    by (simp add: sample_system_def sample_ssh_def)
  have res: "\<forall>port. \<exists>addrs. sys_resolve (sample_system d) (str ''host'' @ str '':'' @ dec_digits (unat port))
      = Some ((str ''host:'' @ dec_digits (unat (port :: u16))) # addrs)" for d
    by (simp add: sample_system_def sample_resolve_def str_def)
  have host: "str ''host'' = (case cli_remote_bind sample_client_cli of Some ip \<Rightarrow> ip | None \<Rightarrow> extract_host_from_ssh_target (str ''me@host''))"
    by (simp add: sample_client_cli_def extract_host_from_ssh_target_def str_def)
  have cli: "cli_command sample_server_cli = Some (Server None None (str ''60000:60003'') False False None)"
    "cli_command sample_client_cli = None" "cli_target sample_client_cli = Some (str ''me@host'')" "cli_key sample_client_cli = None"
    "cli_overlay sample_client_cli = True" by (simp_all add: sample_server_cli_def sample_client_cli_def)
  note agree = mains_agree [where env = sample_env, OF sample_server_main cli(1) len sample_noise cli(2-4) log ssh host res]
  show ?thesis using agree [of True] agree [of False] cli(5) by auto
qed

end
