(* ===== verification/Rumsh_Input.thy ===== *)
theory Rumsh_Input
  imports Rumsh_Delivery Rumsh_Client_Arq
begin

text \<open>
  Input from the keyboard to the shell.  \<open>Rumsh_Delivery\<close> follows a stream of numbered payloads through the server; here
  the stream is what a client session really sends: \<open>talk\<close> runs the session over any events and collects the
  payloads it numbers and the datagrams it hands out, and both ends are put together.
\<close>

section \<open>A client and what it says\<close>

datatype 'f client_input =
    In_packet bytes
  | In_stdin bytes
  | In_winch u16 u16
  | In_tick
  | In_paint "'f TerminalFrame"

definition client_acts :: "ClientAction list res \<Rightarrow> ClientAction list" where
  "client_acts r = (case r of Inl _ \<Rightarrow> [] | Inr acts \<Rightarrow> acts)"

definition client_in ::
    "'c PacketCodec \<Rightarrow> 'f f32_ops \<Rightarrow> ('c, 'f) MirrorSession \<Rightarrow> 'f client_input \<Rightarrow> instant \<Rightarrow> ('c, 'f) MirrorSession \<times> ClientAction list" where
  "client_in C F s ev now =
     (case ev of
        In_packet b \<Rightarrow> apsnd client_acts (feed_packet C F s b now)
      | In_stdin buf \<Rightarrow> apsnd client_acts (feed_stdin C s buf now)
      | In_winch cols rows \<Rightarrow> apsnd client_acts (on_winch C s cols rows now)
      | In_tick \<Rightarrow> apsnd client_acts (on_tick C F s now)
      | In_paint dest \<Rightarrow> (fst (fst (copy_frame_if_dirty s dest)), []))"

text \<open>The payload an event gives the next sequence number to.\<close>

definition numbered :: "('c, 'f) MirrorSession \<Rightarrow> 'f client_input \<Rightarrow> instant \<Rightarrow> ClientPayload list" where
  "numbered s ev now =
     (case ev of
        In_stdin buf \<Rightarrow>
          (let rs = snd (handle_bytes (ms_interpreter s) buf) in
           if Command Disconnect \<in> set rs \<or> sent_bytes rs = [] then [] else [Keystrokes (sent_bytes rs)])
      | In_winch cols rows \<Rightarrow> [Resize cols rows]
      | In_tick \<Rightarrow> if duration_since now (ms_last_keepalive_sent s) \<ge> ms_keepalive_interval s then [C_KeepAlive] else []
      | _ \<Rightarrow> [])"

definition packets_in :: "ClientAction list \<Rightarrow> bytes set" where
  "packets_in acts = {b. SendPacket b \<in> set acts}"

lemma packets_in_simps [simp]:
  "packets_in [] = {}" "packets_in (acts @ acts2) = packets_in acts \<union> packets_in acts2" "packets_in (SendPacket b # acts) = insert b (packets_in acts)"
  "packets_in (Paint # acts) = packets_in acts" "packets_in (Disconnect_action # acts) = packets_in acts"
  by (auto simp: packets_in_def)

lemma client_acts_simps [simp]: "client_acts (Inl e) = []" "client_acts (Inr acts) = acts"
  by (simp_all add: client_acts_def)

fun talk ::
    "'c PacketCodec \<Rightarrow> 'f f32_ops \<Rightarrow> ('f client_input \<times> instant) list \<Rightarrow> ('c, 'f) MirrorSession \<times> ClientPayload list \<times> bytes set
      \<Rightarrow> ('c, 'f) MirrorSession \<times> ClientPayload list \<times> bytes set" where
  "talk C F [] t = t"
| "talk C F ((ev, now) # evs) (s, log, sent) =
     (case client_in C F s ev now of (s', acts) \<Rightarrow> talk C F evs (s', log @ numbered s ev now, sent \<union> packets_in acts))"

section \<open>Events that number nothing\<close>

definition queued :: "(u64 \<times> bytes \<times> instant) list \<Rightarrow> (u64 \<times> bytes) set" where
  "queued m = {(q, b). \<exists>t. (q, b, t) \<in> set m}"

definition unacked :: "('c, 'f) MirrorSession \<Rightarrow> (u64 \<times> bytes) set" where
  "unacked s = queued (ms_unacked_packets s)"

lemma queued_mono: "set m \<subseteq> set m' \<Longrightarrow> queued m \<subseteq> queued m'"
  by (auto simp: queued_def)

lemma queued_update: "queued (AList.update q (b, t) m) \<subseteq> insert (q, b) (queued m)" "(q, b) \<in> queued (AList.update q (b, t) m)"
  by (induction m) (auto simp: queued_def)

lemma queued_resend: "queued (fold (\<lambda>(k, v, _) m. AList.update k (v, now) m) xs m) \<subseteq> queued xs \<union> queued m"
proof (induction xs arbitrary: m)
  case (Cons x xs)
  obtain k v t where x: "x = (k, v, t)" by (cases x)
  have "queued (x # xs) = insert (k, v) (queued xs)" by (auto simp: queued_def x)
  with Cons.IH [of "AList.update k (v, now) m"] queued_update(1) [of k v now m] show ?case unfolding x by auto
qed simp

definition out_same :: "('c, 'f) MirrorSession \<Rightarrow> ('c, 'f) MirrorSession \<Rightarrow> bool" where
  "out_same s s' \<longleftrightarrow> ms_codec s' = ms_codec s \<and> ms_session_id s' = ms_session_id s \<and> ms_seq_num s' = ms_seq_num s \<and> unacked s' \<subseteq> unacked s"

definition transient_packets :: "'c PacketCodec \<Rightarrow> 'c \<Rightarrow> u64 \<Rightarrow> bytes set" where
  "transient_packets C c sid = {b. \<exists>n ack p. seal_client C c sid (transient_seq n) ack p = Inr b}"

text \<open>A step that numbers nothing and sends, besides what is queued already, only transient packets.\<close>

definition sayable :: "'c PacketCodec \<Rightarrow> ('c, 'f) MirrorSession \<Rightarrow> bytes set" where
  "sayable C s = transient_packets C (ms_codec s) (ms_session_id s) \<union> snd ` unacked s"

definition silent :: "'c PacketCodec \<Rightarrow> ('c, 'f) MirrorSession \<Rightarrow> ('c, 'f) MirrorSession \<times> ClientAction list \<Rightarrow> bool" where
  "silent C s r \<longleftrightarrow> out_same s (fst r) \<and> packets_in (snd r) \<subseteq> sayable C s"

lemma out_same_refl [simp]: "out_same s s"
  by (simp add: out_same_def)

lemma out_same_trans: "out_same s s1 \<Longrightarrow> out_same s1 s2 \<Longrightarrow> out_same s s2"
  by (auto simp: out_same_def)

lemma sayable_mono: "out_same s s1 \<Longrightarrow> sayable C s1 \<subseteq> sayable C s"
  unfolding out_same_def sayable_def by (intro Un_mono image_mono) simp_all

lemma silent_none: "out_same s s' \<Longrightarrow> packets_in acts = {} \<Longrightarrow> silent C s (s', acts)"
  by (simp add: silent_def)

lemma silent_trans: "out_same s s1 \<Longrightarrow> silent C s1 r \<Longrightarrow> silent C s r"
  using sayable_mono out_same_trans unfolding silent_def by blast

lemma silent_then:
  assumes "silent C s (s1, acts)" "silent C s1 (s2, acts')" "packets_in acts'' \<subseteq> packets_in acts \<union> packets_in acts'"
  shows "silent C s (s2, acts'')"
  using assms sayable_mono [of s s1 C] out_same_trans unfolding silent_def fst_conv snd_conv by blast

lemma with_mirror_same [simp]: "out_same s (fst (with_mirror s op))"
  by (simp add: fst_with_mirror out_same_def unacked_def)

lemma silent_st_then:
  assumes "out_same s (fst m)" "\<And>x. snd m = Inr x \<Longrightarrow> silent C (fst m) (apsnd client_acts (k (fst m) x))"
  shows "silent C s (apsnd client_acts (st_then m k))"
proof (cases m)
  case (Pair s1 r)
  show ?thesis
  proof (cases r)
    case (Inr x)
    then have "silent C s (apsnd client_acts (k s1 x))" using assms Pair by (intro silent_trans [of s s1]) simp_all
    then show ?thesis using Pair Inr by simp
  qed (use assms(1) Pair in \<open>simp add: silent_none\<close>)
qed

lemma try_ack_silent: "silent C s (try_ack C s now)"
  by (auto simp: try_ack_def prepare_ack_def Let_def silent_def sayable_def out_same_def unacked_def transient_packets_def split: sum.split)

lemma push_history_silent:
  "silent C s (apsnd client_acts
     (if duration_since now (ms_last_ack_sent (push_history s seq g)) \<ge> from_millis 30
      then (case try_ack C (push_history s seq g) now of (s4, acks) \<Rightarrow> (s4, Inr (Paint # acks)))
      else (push_history s seq g, Inr [Paint])))"
proof -
  have h: "out_same s (push_history s seq g)" by (simp add: out_same_def push_history_def Let_def unacked_def)
  obtain s4 acks where t: "try_ack C (push_history s seq g) now = (s4, acks)" by force
  have "silent C s (s4, acks)" using silent_trans [OF h try_ack_silent] t by metis
  then show ?thesis using h t by (simp add: silent_def)
qed

lemma apply_update_silent: "silent C s (apsnd client_acts (apply_update C s seq u now))"
proof -
  let ?ref = "if fu_ref_seq u = 0 then None else map_of (ms_state_history s) (fu_ref_seq u)"
  show ?thesis
  proof (cases "?ref = None \<and> fu_ref_seq u \<noteq> 0")
    case True
    obtain s1 acts where "try_ack C s now = (s1, acts)" by force
    then show ?thesis using try_ack_silent [of C s now] unfolding apply_update_def Let_def if_P [OF True] by simp
  next
    case False
    obtain g r where d: "apply_diff (case ?ref of Some g \<Rightarrow> g | None \<Rightarrow> empty_grid_for u) u = (g, r)" by force
    have upd: "out_same s (fst (with_mirror (s\<lparr>ms_is_echo_enabled := e\<rparr>) op))" for e op
      by (simp add: fst_with_mirror out_same_def unacked_def)
    show ?thesis
    proof (cases r)
      case (Inl e)
      then show ?thesis using False d unfolding apply_update_def Let_def by (simp only: if_False) (simp add: silent_none)
    next
      case (Inr x)
      show ?thesis
        unfolding apply_update_def Let_def if_not_P [OF False] d Inr
        by (simp only: prod.case sum.case, intro silent_st_then upd push_history_silent) simp
    qed
  qed
qed

lemma handle_payload_silent: "silent C s (apsnd client_acts (handle_payload C s seq payload now))"
  by (cases payload) (simp_all add: handle_payload_def apply_update_silent silent_none)

lemma note_packet_same:
  "ms_codec (fst (note_packet F s seq ack stats now)) = ms_codec s \<and> out_same s (fst (note_packet F s seq ack stats now))"
proof -
  define s3 where "s3 = update_loss_window (prune_acked (reset_after_outage (s\<lparr>ms_bytes_recv_acc := ms_bytes_recv_acc s + wire_len stats,
    ms_comp_acc := ms_comp_acc s + comp_len stats, ms_decomp_acc := ms_decomp_acc s + decomp_len stats\<rparr>) seq now) ack) seq"
  have "out_same s s3"
    using queued_mono [of "map_retain (\<lambda>k _. k > ack) (ms_unacked_packets s)" "ms_unacked_packets s"]
    by (auto simp: s3_def update_loss_window_def push_arrival_def prune_acked_def reset_after_outage_def Let_def out_same_def unacked_def map_retain_def)
  then show ?thesis
    unfolding note_packet_def Let_def s3_def [symmetric]
    by (auto simp: st_then_def with_mirror_def out_same_def unacked_def split: prod.splits sum.splits)
qed

lemma accept_packet_same: "out_same s (fst (accept_packet s seq now))"
  by (simp add: accept_packet_def Let_def fst_with_mirror out_same_def unacked_def)

text \<open>A packet may change the codec, but only its buffer.\<close>

lemma feed_packet_silent:
  "silent C (s\<lparr>ms_codec := fst (open_server C (ms_codec s) b)\<rparr>) (apsnd client_acts (feed_packet C F s b now))"
proof -
  obtain codec r where o: "open_server C (ms_codec s) b = (codec, r)" by force
  let ?s = "s\<lparr>ms_codec := codec\<rparr>"
  show ?thesis
  proof (cases r)
    case (Inr x)
    show ?thesis
    proof (cases x)
      case (Some y)
      obtain pkt payload stats where y: "y = (pkt, payload, stats)" by (cases y)
      have acc: "silent C t (apsnd client_acts (st_then (accept_packet t (esp_seq_num pkt) now) (\<lambda>s2 _. handle_payload C s2 (esp_seq_num pkt) payload now)))" for t
        by (rule silent_st_then [OF accept_packet_same]) (rule handle_payload_silent)
      have "silent C ?s (apsnd client_acts (st_then (note_packet F ?s (esp_seq_num pkt) (esp_ack_seq_num pkt) stats now) (\<lambda>s1 _.
          if esp_seq_num pkt \<le> ms_ack_seq_num s1 then (s1, Inr [])
          else st_then (accept_packet s1 (esp_seq_num pkt) now) (\<lambda>s2 _. handle_payload C s2 (esp_seq_num pkt) payload now))))"
        by (rule silent_st_then) (simp_all add: note_packet_same acc silent_none)
      then show ?thesis using o Inr Some y by (simp add: feed_packet_def Let_def)
    qed (use o Inr in \<open>simp add: feed_packet_def silent_none\<close>)
  qed (use o in \<open>simp add: feed_packet_def silent_none\<close>)
qed

lemma tick_arq_silent: "silent C s (tick_arq s now)"
proof -
  have due: "queued (due_packets s now) \<subseteq> unacked s" unfolding unacked_def by (rule queued_mono) (auto simp: due_packets_def)
  then have "out_same s (fst (tick_arq s now))"
    using queued_resend [of now "due_packets s now" "ms_unacked_packets s"] by (auto simp: out_same_def unacked_def tick_arq_def Let_def)
  moreover have "packets_in (snd (tick_arq s now)) \<subseteq> snd ` queued (due_packets s now)"
  proof
    fix b assume "b \<in> packets_in (snd (tick_arq s now))"
    then obtain q t where "(q, b, t) \<in> set (due_packets s now)" by (auto simp: packets_in_def tick_arq_def Let_def split: if_splits)
    then have "(q, b) \<in> queued (due_packets s now)" by (auto simp: queued_def)
    then show "b \<in> snd ` queued (due_packets s now)" by force
  qed
  ultimately show ?thesis using image_mono [OF due, of snd] by (auto simp: silent_def sayable_def)
qed

lemma tick_banner_silent: "silent C s (apsnd client_acts (tick_banner s now))"
  unfolding tick_banner_def Let_def
  by (auto simp: silent_none out_same_def unacked_def fst_with_mirror intro!: silent_st_then)

lemma tick_telemetry_silent: "silent C s (tick_telemetry F s now)"
  by (simp add: tick_telemetry_def Let_def silent_none out_same_def unacked_def)

lemma nack_loop_silent: "silent C s (apsnd client_acts (nack_loop C s incomplete now))"
proof (induction incomplete arbitrary: s)
  case (Cons x incomplete)
  obtain fseq rmask where x: "x = (fseq, rmask)" by (cases x)
  let ?s = "s\<lparr>ms_nacked_frames := AList.update fseq now (ms_nacked_frames s)\<rparr>"
  let ?p = "prepare_fragment_nack C ?s fseq rmask"
  have p: "out_same s (fst ?p)" by (simp add: prepare_fragment_nack_def Let_def out_same_def unacked_def)
  have "silent C (fst ?p) (apsnd client_acts (st_then (nack_loop C (fst ?p) incomplete now) (\<lambda>s2 acts. (s2, Inr (SendPacket b # acts)))))"
    if "snd ?p = Inr b" for b
  proof -
    have "b \<in> sayable C (fst ?p)" using that by (auto simp: prepare_fragment_nack_def Let_def sayable_def transient_packets_def)
    moreover obtain s2 r where "nack_loop C (fst ?p) incomplete now = (s2, r)" by force
    ultimately show ?thesis using Cons.IH [of "fst ?p"] by (cases r) (auto simp: silent_def)
  qed
  then have "silent C s (apsnd client_acts (st_then ?p (\<lambda>s1 b. st_then (nack_loop C s1 incomplete now) (\<lambda>s2 acts. (s2, Inr (SendPacket b # acts))))))"
    by (rule silent_st_then [OF p])
  with Cons.IH [of s] show ?case by (simp add: x Let_def)
qed (simp add: silent_none)

lemma tick_nack_silent: "silent C s (apsnd client_acts (tick_nack C s now))"
proof -
  obtain s1 r where n: "nack_loop C (s\<lparr>ms_last_nack_check := now\<rparr>) (incomplete_frames C (ms_codec s)) now = (s1, r)" by force
  have "silent C s (apsnd client_acts (nack_loop C (s\<lparr>ms_last_nack_check := now\<rparr>) (incomplete_frames C (ms_codec s)) now))"
    by (rule silent_trans [OF _ nack_loop_silent]) (simp add: out_same_def unacked_def)
  then have "silent C s (s1, client_acts r)" using n by simp
  then show ?thesis by (cases r) (auto simp: tick_nack_def n silent_def out_same_def unacked_def)
qed

section \<open>Events that number a payload\<close>

text \<open>The payload takes the next number; if it can be sealed, the packet joins the queue.\<close>

definition numbers :: "'c PacketCodec \<Rightarrow> ('c, 'f) MirrorSession \<Rightarrow> ClientPayload \<Rightarrow> ('c, 'f) MirrorSession \<Rightarrow> bool" where
  "numbers C s p s' \<longleftrightarrow> ms_codec s' = ms_codec s \<and> ms_session_id s' = ms_session_id s \<and> ms_seq_num s' = ms_seq_num s + 1
     \<and> unacked s' \<subseteq> unacked s \<union> {(ms_seq_num s + 1, b) | b. \<exists>ack. seal_client C (ms_codec s) (ms_session_id s) (ms_seq_num s + 1) ack p = Inr b}"

text \<open>An event numbers the payloads of \<open>new\<close> (at most one) and sends what is queued or transient afterwards.\<close>

definition speaks ::
    "'c PacketCodec \<Rightarrow> ('c, 'f) MirrorSession \<Rightarrow> ClientPayload list \<Rightarrow> ('c, 'f) MirrorSession \<times> ClientAction list \<Rightarrow> bool" where
  "speaks C s new r \<longleftrightarrow> (\<exists>s1. (case new of [] \<Rightarrow> out_same s s1 | p # ps \<Rightarrow> ps = [] \<and> numbers C s p s1)
     \<and> out_same s1 (fst r) \<and> packets_in (snd r) \<subseteq> sayable C s1)"

lemma speaks_silent: "silent C s r \<Longrightarrow> speaks C s [] r"
  by (auto simp: speaks_def silent_def intro!: exI [of _ s])

lemma speaks_numbers:
  "numbers C s p s1 \<Longrightarrow> out_same s1 s2 \<Longrightarrow> packets_in acts \<subseteq> sayable C s1 \<Longrightarrow> speaks C s [p] (s2, acts)"
  by (auto simp: speaks_def)

text \<open>The session after sealing, whatever else an event has already done to it.\<close>

lemma seal_reliable_numbers:
  assumes "ms_codec t = ms_codec s" "ms_session_id t = ms_session_id s" "ms_seq_num t = ms_seq_num s + 1" "unacked t = unacked s"
  shows "numbers C s p (fst (seal_reliable C t (ms_seq_num s + 1) p now))"
    and "snd (seal_reliable C t (ms_seq_num s + 1) p now) = Inr b \<Longrightarrow> b \<in> sayable C (fst (seal_reliable C t (ms_seq_num s + 1) p now))"
proof -
  have "unacked (t\<lparr>ms_unacked_packets := AList.update q (b, now) (ms_unacked_packets t)\<rparr>) \<subseteq> insert (q, b) (unacked t)" for q b
    using queued_update(1) by (auto simp: unacked_def)
  then show "numbers C s p (fst (seal_reliable C t (ms_seq_num s + 1) p now))"
    using assms by (fastforce simp: numbers_def seal_reliable_def split: sum.split)
  have "b \<in> snd ` queued (AList.update q (b, now) m)" for q m using queued_update(2) [of q b now m] by force
  then show "snd (seal_reliable C t (ms_seq_num s + 1) p now) = Inr b \<Longrightarrow> b \<in> sayable C (fst (seal_reliable C t (ms_seq_num s + 1) p now))"
    by (auto simp: seal_reliable_def sayable_def unacked_def split: sum.splits)
qed

lemma on_winch_speaks: "speaks C s [Resize cols rows] (apsnd client_acts (on_winch C s cols rows now))"
proof -
  let ?t = "s\<lparr>ms_seq_num := ms_seq_num s + 1, ms_sent_packets := AList.update (ms_seq_num s + 1) now (ms_sent_packets s)\<rparr>"
  obtain s1 r where p: "seal_reliable C ?t (ms_seq_num s + 1) (Resize cols rows) now = (s1, r)" by force
  then have n: "numbers C s (Resize cols rows) s1" "\<And>b. r = Inr b \<Longrightarrow> b \<in> sayable C s1"
    using seal_reliable_numbers [of ?t s C "Resize cols rows" now] by (simp_all add: unacked_def)
  obtain m r2 where m: "abort_prediction (ms_mirror s1) = (m, r2)" by force
  have "out_same s1 (s1\<lparr>ms_mirror := m'\<rparr>)" for m' by (simp add: out_same_def unacked_def)
  then show ?thesis using p n m
    by (cases r; cases r2) (auto simp: on_winch_def prepare_resize_def Let_def with_mirror_def intro!: speaks_numbers)
qed

lemma tick_keepalive_speaks:
  "speaks C s (if duration_since now (ms_last_keepalive_sent s) \<ge> ms_keepalive_interval s then [C_KeepAlive] else []) (apsnd client_acts (tick_keepalive C s now))"
proof -
  let ?t = "s\<lparr>ms_seq_num := ms_seq_num s + 1, ms_sent_packets := AList.update (ms_seq_num s + 1) now (ms_sent_packets s), ms_last_keepalive_sent := now\<rparr>"
  obtain s1 r where p: "seal_reliable C ?t (ms_seq_num s + 1) C_KeepAlive now = (s1, r)" by force
  then have "numbers C s C_KeepAlive s1" "\<And>b. r = Inr b \<Longrightarrow> b \<in> sayable C s1"
    using seal_reliable_numbers [of ?t s C C_KeepAlive now] by (simp_all add: unacked_def)
  then show ?thesis using p
    by (cases r) (auto simp: tick_keepalive_def prepare_keepalive_def Let_def speaks_silent silent_none intro!: speaks_numbers)
qed

text \<open>What comes after an event that speaks.\<close>

lemma speaks_then:
  assumes "speaks C s new (s1, acts)" "silent C s1 (s2, acts')" "packets_in acts'' \<subseteq> packets_in acts \<union> packets_in acts'"
  shows "speaks C s new (s2, acts'')"
proof -
  obtain t where t: "case new of [] \<Rightarrow> out_same s t | p # ps \<Rightarrow> ps = [] \<and> numbers C s p t" "out_same t s1" "packets_in acts \<subseteq> sayable C t"
    using assms(1) unfolding speaks_def by auto
  have "out_same t s2" using t(2) assms(2) out_same_trans by (auto simp: silent_def)
  moreover have "packets_in acts'' \<subseteq> sayable C t" using sayable_mono [OF t(2), of C] t(3) assms(2,3) unfolding silent_def by auto
  ultimately show ?thesis using t(1) unfolding speaks_def by auto
qed

lemma speaks_st_then:
  assumes "speaks C s new (apsnd client_acts m)" "\<And>s1 acts. m = (s1, Inr acts) \<Longrightarrow> \<exists>acts'. silent C s1 (fst (k s1 acts), acts')
      \<and> packets_in (client_acts (snd (k s1 acts))) \<subseteq> packets_in acts \<union> packets_in acts'"
  shows "speaks C s new (apsnd client_acts (st_then m k))"
proof (cases m)
  case (Pair s1 r)
  show ?thesis
  proof (cases r)
    case (Inr acts)
    then obtain acts' where "silent C s1 (fst (k s1 acts), acts')" "packets_in (client_acts (snd (k s1 acts))) \<subseteq> packets_in acts \<union> packets_in acts'"
      using assms(2) Pair by blast
    then have "speaks C s new (fst (k s1 acts), client_acts (snd (k s1 acts)))"
      using assms(1) Pair Inr speaks_then [of C s new s1 acts] by simp
    then show ?thesis using Pair Inr by (cases "k s1 acts") simp
  qed (use assms(1) Pair in simp)
qed

lemma on_tick_speaks:
  fixes s :: "('c, 'f) MirrorSession" and F :: "'f f32_ops"
  shows "speaks C s (numbered s In_tick now) (apsnd client_acts (on_tick C F s now))"
  unfolding on_tick_def numbered_def client_input.case
proof (rule speaks_st_then [OF tick_keepalive_speaks])
  fix s1 :: "('c, 'f) MirrorSession" and a1
  obtain s2 a2 where 2: "tick_arq s1 now = (s2, a2)" by force
  obtain s3 r3 where 3: "tick_banner s2 now = (s3, r3)" by force
  obtain s4 a4 where 4: "tick_telemetry F s3 now = (s4, a4)" by force
  obtain s5 r5 where 5: "tick_nack C s4 now = (s5, r5)" by force
  have "silent C s1 (s2, a2)" "silent C s2 (s3, client_acts r3)" "silent C s3 (s4, a4)" "silent C s4 (s5, client_acts r5)"
    using tick_arq_silent [of C s1 now] tick_banner_silent [of C s2 now] tick_telemetry_silent [of C s3 F now] tick_nack_silent [of C s4 now]
    by (simp_all add: 2 3 4 5)
  note silent = this
  have s3: "silent C s1 (s3, a2 @ client_acts r3)" by (rule silent_then [OF silent(1,2)]) simp
  have "silent C s1 (s4, (a2 @ client_acts r3) @ a4)" by (rule silent_then [OF s3 silent(3)]) auto
  then have s5: "silent C s1 (s5, ((a2 @ client_acts r3) @ a4) @ client_acts r5)" by (rule silent_then [OF _ silent(4)]) auto
  show "\<exists>acts'. silent C s1 (fst (case tick_arq s1 now of (s2, a2) \<Rightarrow> st_then (tick_banner s2 now) (\<lambda>s3 a3.
      case tick_telemetry F s3 now of (s4, a4) \<Rightarrow> st_then (tick_nack C s4 now) (\<lambda>s5 a5. (s5, Inr (a1 @ a2 @ a3 @ a4 @ a5))))), acts')
    \<and> packets_in (client_acts (snd (case tick_arq s1 now of (s2, a2) \<Rightarrow> st_then (tick_banner s2 now) (\<lambda>s3 a3.
      case tick_telemetry F s3 now of (s4, a4) \<Rightarrow> st_then (tick_nack C s4 now) (\<lambda>s5 a5. (s5, Inr (a1 @ a2 @ a3 @ a4 @ a5)))))))
      \<subseteq> packets_in a1 \<union> packets_in acts'"
  proof (cases r3)
    case (Inl e)
    with s3 show ?thesis by (intro exI) (auto simp: 2 3)
  next
    case (Inr a3)
    with s5 show ?thesis by (cases r5; intro exI) (auto simp: 2 3 4 5)
  qed
qed

lemma packets_in_input_actions [simp]: "packets_in (input_actions rs) = {}"
  by (induction rs rule: input_actions.induct) (auto simp: packets_in_def command_action_def split: EscapeCommand.splits)

lemma feed_stdin_speaks: "speaks C s (numbered s (In_stdin buf) now) (apsnd client_acts (feed_stdin C s buf now))"
proof -
  define rs where "rs = snd (handle_bytes (ms_interpreter s) buf)"
  obtain s1 where l: "stdin_loop s buf [] [] = (s1, sent_bytes (upto_disconnect rs), input_actions rs, Command Disconnect \<in> set rs)"
    "out_view s1 = out_view s"
    using stdin_loop_spec [of s buf "[]" "[]"] rs_def by auto
  have same: "out_same s s1" using l(2) by (simp add: out_same_def out_view_def unacked_def)
  show ?thesis
  proof (cases "Command Disconnect \<in> set rs \<or> sent_bytes rs = []")
    case True
    then have "feed_stdin C s buf now = (s1, Inr (input_actions rs))"
    proof (cases "Command Disconnect \<in> set rs")
      case False
      then have "upto_disconnect rs = rs" by (auto simp: upto_disconnect_def takeWhile_eq_all_conv)
      then show ?thesis using True False l(1) by (simp add: feed_stdin_def)
    qed (simp add: feed_stdin_def l(1))
    then show ?thesis using True same by (simp add: numbered_def rs_def [symmetric] speaks_silent silent_none)
  next
    case False
    then have up: "upto_disconnect rs = rs" by (auto simp: upto_disconnect_def takeWhile_eq_all_conv)
    let ?p = "Keystrokes (sent_bytes rs)" and ?q = "ms_seq_num s + 1"
    let ?t = "s1\<lparr>ms_seq_num := ?q, ms_sent_packets := AList.update ?q now (ms_sent_packets s1)\<rparr>"
    obtain s2 r where r: "seal_reliable C ?t ?q ?p now = (s2, r)" by force
    have n: "numbers C s ?p s2" "\<And>b. r = Inr b \<Longrightarrow> b \<in> sayable C s2"
      using seal_reliable_numbers [of ?t s C ?p now] l(2) r by (simp_all add: unacked_def out_view_def)
    have pk: "prepare_keystrokes C s1 (sent_bytes rs) now = (case r of Inl e \<Rightarrow> (s2, Inl e) | Inr b \<Rightarrow> (s2, Inr (b, ?q)))"
      using r l(2) by (simp add: prepare_keystrokes_def Let_def out_view_def split: sum.split)
    obtain m r3 where m: "predict_input (ms_mirror s2) (sent_bytes rs) ?q = (m, r3)" by force
    have mirror: "out_same s2 (s2\<lparr>ms_mirror := m'\<rparr>)" for m' by (simp add: out_same_def unacked_def)
    have "speaks C s [?p] (apsnd client_acts (feed_stdin C s buf now))"
    proof (cases r)
      case (Inl e)
      then show ?thesis using False pk n(1) unfolding feed_stdin_def l(1) up by (simp add: speaks_numbers)
    next
      case (Inr b)
      then show ?thesis using False pk n m mirror unfolding feed_stdin_def l(1) up
        by (cases r3) (auto simp: with_mirror_def intro!: speaks_numbers)
    qed
    then show ?thesis using False by (simp add: numbered_def rs_def [symmetric])
  qed
qed

text \<open>Every event: only a packet can change the codec, and then only as opening a packet does.\<close>

lemma client_in_speaks:
  "\<exists>c. (c = ms_codec s \<or> (\<exists>b. c = fst (open_server C (ms_codec s) b)))
    \<and> speaks C (s\<lparr>ms_codec := c\<rparr>) (numbered s ev now) (client_in C F s ev now)"
proof (cases ev)
  case (In_packet b)
  then show ?thesis using speaks_silent [OF feed_packet_silent [of C s b F now]] by (auto simp: client_in_def numbered_def)
next
  case (In_paint dest)
  have "out_same s (fst (fst (copy_frame_if_dirty s dest)))"
    by (auto simp: copy_frame_if_dirty_def out_same_def unacked_def split: prod.splits bool.splits)
  then show ?thesis using In_paint by (intro exI [of _ "ms_codec s"]) (simp add: client_in_def numbered_def speaks_silent silent_none)
next
  case (In_stdin buf)
  then show ?thesis using feed_stdin_speaks [of C s buf now] by (intro exI [of _ "ms_codec s"]) (simp add: client_in_def)
next
  case (In_winch cols rows)
  then show ?thesis using on_winch_speaks [of C s cols rows now] by (intro exI [of _ "ms_codec s"]) (simp add: client_in_def numbered_def)
next
  case In_tick
  then show ?thesis using on_tick_speaks [of C s now F] by (intro exI [of _ "ms_codec s"]) (simp add: client_in_def)
qed

section \<open>The packets of a talking client\<close>

text \<open>A datagram with number \<open>q\<close> carries the payload at position \<open>q\<close> of the log, whenever it was sealed.\<close>

definition logged :: "'c PacketCodec \<Rightarrow> ('c \<Rightarrow> 'k) \<Rightarrow> 'k \<Rightarrow> u64 \<Rightarrow> ClientPayload list \<Rightarrow> u64 \<Rightarrow> bytes \<Rightarrow> bool" where
  "logged C cfg k sid log q b \<longleftrightarrow> 1 \<le> unat q \<and> unat q \<le> length log
     \<and> (\<exists>c ack. cfg c = k \<and> seal_client C c sid q ack (log ! (unat q - 1)) = Inr b)"

definition said :: "'c PacketCodec \<Rightarrow> ('c \<Rightarrow> 'k) \<Rightarrow> 'k \<Rightarrow> u64 \<Rightarrow> ClientPayload list \<Rightarrow> bytes set" where
  "said C cfg k sid log = {b. (\<exists>q. logged C cfg k sid log q b) \<or> (\<exists>c. cfg c = k \<and> b \<in> transient_packets C c sid)}"

definition talk_inv ::
    "'c PacketCodec \<Rightarrow> ('c \<Rightarrow> 'k) \<Rightarrow> 'k \<Rightarrow> u64 \<Rightarrow> ('c, 'f) MirrorSession \<Rightarrow> ClientPayload list \<Rightarrow> bool" where
  "talk_inv C cfg k sid s log \<longleftrightarrow> cfg (ms_codec s) = k \<and> ms_session_id s = sid \<and> unat (ms_seq_num s) = length log
     \<and> (\<forall>p \<in> set log. reliable_payload p) \<and> (\<forall>(q, b) \<in> unacked s. logged C cfg k sid log q b)"

lemma logged_append: "logged C cfg k sid log q b \<Longrightarrow> logged C cfg k sid (log @ new) q b"
  by (auto simp: logged_def nth_append)

lemma said_append: "said C cfg k sid log \<subseteq> said C cfg k sid (log @ new)"
  using logged_append unfolding said_def by fast

lemma numbered_reliable: "p \<in> set (numbered s ev now) \<Longrightarrow> reliable_payload p" "length (numbered s ev now) \<le> 1"
  by (auto simp: numbered_def Let_def reliable_payload_def split: client_input.splits if_splits)

lemma talk_inv_same: "talk_inv C cfg k sid s log \<Longrightarrow> out_same s s' \<Longrightarrow> talk_inv C cfg k sid s' log"
  by (auto simp: talk_inv_def out_same_def)

lemma talk_inv_numbers:
  assumes "talk_inv C cfg k sid s log" "numbers C s p s'" "reliable_payload p" "Suc (length log) < 2 ^ 63"
  shows "talk_inv C cfg k sid s' (log @ [p])"
proof -
  have q: "unat (ms_seq_num s + 1) = Suc (length log)"
    using assms(1,4) by (subst reliable_succ) (auto simp: talk_inv_def)
  have "logged C cfg k sid (log @ [p]) (ms_seq_num s + 1) b"
    if "seal_client C (ms_codec s) (ms_session_id s) (ms_seq_num s + 1) ack p = Inr b" for ack b
    using that assms(1) unfolding logged_def q by (auto simp: talk_inv_def)
  moreover have "\<forall>(q, b) \<in> unacked s. logged C cfg k sid (log @ [p]) q b"
    using assms(1) logged_append by (fastforce simp: talk_inv_def)
  ultimately have "\<forall>(q, b) \<in> unacked s'. logged C cfg k sid (log @ [p]) q b"
    using assms(2) unfolding numbers_def by fast
  then show ?thesis using assms(1-3) q by (auto simp: talk_inv_def numbers_def)
qed

lemma talk_inv_sayable: "talk_inv C cfg k sid s log \<Longrightarrow> sayable C s \<subseteq> said C cfg k sid log"
  by (fastforce simp: talk_inv_def sayable_def said_def)

lemma talk_inv_speaks:
  assumes "talk_inv C cfg k sid s log" "speaks C s new r" "\<forall>p \<in> set new. reliable_payload p" "length log + length new < 2 ^ 63"
  shows "talk_inv C cfg k sid (fst r) (log @ new) \<and> packets_in (snd r) \<subseteq> said C cfg k sid (log @ new)"
proof -
  obtain s1 where s1: "case new of [] \<Rightarrow> out_same s s1 | p # ps \<Rightarrow> ps = [] \<and> numbers C s p s1"
    "out_same s1 (fst r)" "packets_in (snd r) \<subseteq> sayable C s1"
    using assms(2) unfolding speaks_def by blast
  have "talk_inv C cfg k sid s1 (log @ new)"
    using s1(1) assms(1,3,4) by (cases new) (auto intro: talk_inv_same talk_inv_numbers)
  from talk_inv_same [OF this s1(2)] talk_inv_sayable [OF this] s1(3) show ?thesis by auto
qed

context packet_codec
begin

lemma client_in_talks:
  assumes "talk_inv C cfg k session s log" "length log + length (numbered s ev now) < 2 ^ 63"
  shows "talk_inv C cfg k session (fst (client_in C F s ev now)) (log @ numbered s ev now)
    \<and> packets_in (snd (client_in C F s ev now)) \<subseteq> said C cfg k session (log @ numbered s ev now)"
proof -
  obtain c where c: "c = ms_codec s \<or> (\<exists>b. c = fst (open_server C (ms_codec s) b))"
    "speaks C (s\<lparr>ms_codec := c\<rparr>) (numbered s ev now) (client_in C F s ev now)"
    using client_in_speaks [of s C ev now F] by metis
  have "cfg c = cfg (ms_codec s)" using c(1) open_server_cfg by auto
  then have "talk_inv C cfg k session (s\<lparr>ms_codec := c\<rparr>) log" using assms(1) by (simp add: talk_inv_def unacked_def)
  then show ?thesis using c(2) assms(2) by (intro talk_inv_speaks) (simp_all add: numbered_reliable)
qed

lemma talk_said:
  assumes "talk_inv C cfg k session s log" "sent \<subseteq> said C cfg k session log" "length log + length evs < 2 ^ 63"
    and "talk C F evs (s, log, sent) = (s', log', sent')"
  shows "talk_inv C cfg k session s' log' \<and> sent' \<subseteq> said C cfg k session log' \<and> length log' \<le> length log + length evs"
  using assms
proof (induction evs arbitrary: s log sent)
  case (Cons x evs)
  obtain ev now where x: "x = (ev, now)" by (cases x)
  let ?new = "numbered s ev now"
  obtain s1 acts where 1: "client_in C F s ev now = (s1, acts)" by force
  have len: "length ?new \<le> 1" by (rule numbered_reliable(2))
  then have "talk_inv C cfg k session s1 (log @ ?new) \<and> packets_in acts \<subseteq> said C cfg k session (log @ ?new)"
    using client_in_talks [OF Cons.prems(1), of ev now F] Cons.prems(3) 1 by simp
  moreover have "sent \<union> packets_in acts \<subseteq> said C cfg k session (log @ ?new)"
    using calculation Cons.prems(2) said_append [of C cfg k session log ?new] by auto
  moreover have "talk C F evs (s1, log @ ?new, sent \<union> packets_in acts) = (s', log', sent')"
    using Cons.prems(4) 1 x by simp
  ultimately have "talk_inv C cfg k session s' log' \<and> sent' \<subseteq> said C cfg k session log' \<and> length log' \<le> length (log @ ?new) + length evs"
    using Cons.prems(3) len by (intro Cons.IH) auto
  with len show ?case by auto
qed simp

end

section \<open>At the server\<close>

definition message :: "ClientPayload list \<Rightarrow> u64 \<Rightarrow> ClientPayload" where
  "message log q = (if 1 \<le> unat q \<and> unat q \<le> length log then log ! (unat q - 1) else C_KeepAlive)"

text \<open>A datagram that opens as a transient packet of the session.\<close>

definition transient_at :: "'c PacketCodec \<Rightarrow> 'c \<Rightarrow> u64 \<Rightarrow> bytes \<Rightarrow> bool" where
  "transient_at C c sid b \<longleftrightarrow>
     (\<exists>pkt p st. open_client C c b = Inr (pkt, p, st) \<and> ecp_session_id pkt = sid \<and> bit (ecp_seq_num pkt) 63)"

definition arrived :: "'c PacketCodec \<Rightarrow> 'c \<Rightarrow> u64 \<Rightarrow> (u64 \<Rightarrow> ClientPayload) \<Rightarrow> (bytes \<times> socket_addr \<times> instant) list \<Rightarrow> u64 set" where
  "arrived C c sid M xs = {q. \<exists>(b, _, _) \<in> set xs. carries C c sid M b q}"

lemma transient_seq_bit [simp]: "bit (transient_seq n) 63"
  by (simp add: transient_seq_def bit_or_iff bit_push_bit_iff)

lemma top_bit_transient:
  assumes "bit q 63"
  shows "is_transient q p"
proof -
  have "bit (q AND push_bit 63 1) 63" using assms by (simp add: bit_and_iff bit_push_bit_iff)
  then have "q AND push_bit 63 1 \<noteq> 0" by (metis bit_0_eq bot_apply bot_bool_def)
  then show ?thesis by (simp add: is_transient_def)
qed

lemma message_reliable: "\<forall>p \<in> set log. reliable_payload p \<Longrightarrow> reliable_payload (message log q)"
  by (auto simp: message_def) (simp_all add: reliable_payload_def)

lemma transient_carries: "transient_at C c sid b \<Longrightarrow> \<not> carries C c sid M b q"
  using reliable_top_bit by (auto simp: transient_at_def carries_def)

lemma carries_unique: "carries C c sid M b q \<Longrightarrow> carries C c sid M b q' \<Longrightarrow> q' = q"
  by (auto simp: carries_def)

lemma arrived_Cons: "arrived C c sid M ((b, a, t) # xs) = {q. carries C c sid M b q} \<union> arrived C c sid M xs"
  by (auto simp: arrived_def)

context packet_codec
begin

text \<open>Everything the client said opens at a server with the same keys.\<close>

lemma said_arrives:
  assumes "b \<in> said C cfg (cfg c) (sid c) log" "length log < 2 ^ 63"
  shows "(\<exists>q. carries C c (sid c) (message log) b q \<and> unat q \<le> length log) \<or> transient_at C c (sid c) b"
  using assms(1) unfolding said_def mem_Collect_eq
proof (elim disjE exE conjE)
  fix q assume "logged C cfg (cfg c) (sid c) log q b"
  then obtain c' ack where l: "1 \<le> unat q" "unat q \<le> length log" "cfg c' = cfg c"
    "seal_client C c' (sid c) q ack (log ! (unat q - 1)) = Inr b" unfolding logged_def by blast
  then have "carries C c (sid c) (message log) b q"
    using open_seal_client [OF l(4), of c] assms(2) by (auto simp: carries_def message_def)
  with l(2) show ?thesis by blast
next
  fix c' assume "cfg c' = cfg c" "b \<in> transient_packets C c' (sid c)"
  then obtain n ack p where "cfg c' = cfg c" "seal_client C c' (sid c) (transient_seq n) ack p = Inr b"
    unfolding transient_packets_def by blast
  then show ?thesis using open_seal_client [of c' "sid c" "transient_seq n" ack p b c] by (auto simp: transient_at_def)
qed

end

context pty_log
begin

lemma feed_transient:
  assumes "server_wf s" "as_session_id s \<noteq> 0" "transient_at C (as_codec s) (as_session_id s) b"
  shows "stream_view (fst (server_feed_packet C G P s b addr now)) = stream_view s
    \<and> input (as_pty (fst (server_feed_packet C G P s b addr now))) = input (as_pty s)"
proof -
  obtain pkt p st where o: "open_client C (as_codec s) b = Inr (pkt, p, st)" "ecp_session_id pkt = as_session_id s"
    "bit (ecp_seq_num pkt) 63" using assms(3) unfolding transient_at_def by blast
  let ?s = "s\<lparr>as_last_recv_time := now, as_current_client_addr := addr\<rparr>"
  have wf: "server_wf ?s" using assms(1) by (simp add: server_wf_def)
  have "server_feed_packet C G P s b addr now = handle_transient G P ?s (ecp_ack_seq_num pkt) p now"
    using o assms(2) top_bit_transient by (simp add: server_feed_packet_def Let_def)
  moreover have "input (as_pty (fst (handle_transient G P ?s (ecp_ack_seq_num pkt) p now))) = input (as_pty s)"
    using wf by (auto simp: handle_transient_def Let_def then_sync_input server_wf_def)
  moreover have "stream_view ?s = stream_view s" by (simp add: stream_view_def)
  ultimately show ?thesis using handle_transient_wf [OF wf, of G P "ecp_ack_seq_num pkt" p now] by simp
qed

text \<open>\<open>feed_all_stream\<close> with transient packets among the arrivals.\<close>

lemma feed_all_mixed:
  assumes "keepalive_ok C" "\<forall>q. reliable_payload (M q)"
    and "server_wf s" "sid \<noteq> 0" "\<forall>(b, _, _) \<in> set xs. (\<exists>q. carries C c sid M b q) \<or> transient_at C c sid b"
    and "as_codec s = c" "as_session_id s = sid"
    and "stream_inv M e0 A (as_expected_client_seq s) (as_out_of_order_packets s)"
    and "input (as_pty s) = i0 @ concat (map (\<lambda>q. keys_of (M q)) (seqs e0 (as_expected_client_seq s)))"
  shows "stream_inv M e0 (arrived C c sid M xs \<union> A) (as_expected_client_seq (feed_all C G P s xs)) (as_out_of_order_packets (feed_all C G P s xs))
    \<and> input (as_pty (feed_all C G P s xs)) =
        i0 @ concat (map (\<lambda>q. keys_of (M q)) (seqs e0 (as_expected_client_seq (feed_all C G P s xs))))"
  using assms(3,5-)
proof (induction xs arbitrary: s A)
  case (Cons x xs)
  obtain b addr now where x: "x = (b, addr, now)" by (cases x)
  define s' where "s' = fst (server_feed_packet C G P s b addr now)"
  have wf: "server_wf s'" unfolding s'_def using Cons.prems(1) by (rule server_feed_packet_wf)
  have rest: "\<forall>(b, _, _) \<in> set xs. (\<exists>q. carries C c sid M b q) \<or> transient_at C c sid b" using Cons.prems(2) by auto
  have feed: "feed_all C G P s (x # xs) = feed_all C G P s' xs" by (simp add: x s'_def)
  have "transient_at C c sid b \<or> (\<exists>q. carries C c sid M b q)" using Cons.prems(2) x by auto
  then show ?case
  proof (elim disjE exE)
    assume t: "transient_at C c sid b"
    then have v: "stream_view s' = stream_view s" "input (as_pty s') = input (as_pty s)"
      unfolding s'_def using feed_transient [OF Cons.prems(1)] Cons.prems(3,4) assms(4) by auto
    have "arrived C c sid M (x # xs) = arrived C c sid M xs"
      using transient_carries [OF t] by (simp add: arrived_Cons x)
    with Cons.IH [OF wf rest, of A] Cons.prems(3-6) v show ?thesis unfolding feed by (auto simp: stream_view_def)
  next
    fix q assume q: "carries C c sid M b q"
    with Cons.prems(3,4) have "carries C (as_codec s) (as_session_id s) M b q" by simp
    note f = feed_carries [OF assms(1,2) Cons.prems(1) _ this Cons.prems(5,6) s'_def]
    moreover have "{q. carries C c sid M b q} = {q}" using carries_unique [OF q] q by blast
    then have "arrived C c sid M (x # xs) \<union> A = arrived C c sid M xs \<union> insert q A" by (simp add: arrived_Cons x)
    ultimately show ?thesis using Cons.IH [OF wf rest, of "insert q A"] Cons.prems(3,4) assms(4) unfolding feed by simp
  qed
qed (simp add: arrived_def)

end

section \<open>From the keyboard to the shell\<close>

text \<open>The keys of the logged payloads \<open>h + 1\<close> to \<open>e - 1\<close>.\<close>

definition typed :: "ClientPayload list \<Rightarrow> nat \<Rightarrow> nat \<Rightarrow> bytes" where
  "typed log h e = concat (map keys_of (take (e - 1 - h) (drop h log)))"

lemma seqs_typed:
  assumes "unat (h + 1) = Suc (unat h)" "unat e \<le> Suc (max (length log) (unat h))"
  shows "concat (map (\<lambda>q. keys_of (message log q)) (seqs (h + 1) e)) = typed log (unat h) (unat e)"
proof -
  have "map (\<lambda>q. keys_of (message log q)) (seqs (h + 1) e) = map keys_of (take (unat e - 1 - unat h) (drop (unat h) log))"
  proof (rule nth_equalityI)
    show "length (map (\<lambda>q. keys_of (message log q)) (seqs (h + 1) e)) = length (map keys_of (take (unat e - 1 - unat h) (drop (unat h) log)))"
      using assms by (auto simp: seqs_def)
  next
    fix i assume "i < length (map (\<lambda>q. keys_of (message log q)) (seqs (h + 1) e))"
    then have i: "i < unat e - Suc (unat h)" using assms(1) by (simp add: seqs_def)
    then have "Suc (unat h) + i < 2 ^ LENGTH(64)" using unsigned_less [of e, where 'a = nat] by linarith
    then have "unat (of_nat (Suc (unat h) + i) :: u64) = Suc (unat h) + i" unfolding unat_of_nat by (rule mod_less)
    with i assms show "map (\<lambda>q. keys_of (message log q)) (seqs (h + 1) e) ! i = map keys_of (take (unat e - 1 - unat h) (drop (unat h) log)) ! i"
      by (auto simp: seqs_def message_def)
  qed
  then show ?thesis by (simp add: typed_def)
qed

context wire_lib
begin

lemma client_datagrams:
  assumes "talk (chacha_codec L) F evs (MirrorSession_new F session client_codec start cols rows overlay t1, [], {}) = (c, log, sent)"
    and "chacha_cfg client_codec = chacha_cfg codec" "cc_session_id codec = session" "length evs < 2 ^ 63"
  shows "(\<forall>p \<in> set log. reliable_payload p)
    \<and> (\<forall>b \<in> sent. (\<exists>q. carries (chacha_codec L) codec session (message log) b q \<and> unat q \<le> length log)
         \<or> transient_at (chacha_codec L) codec session b)"
proof -
  have "talk_inv (chacha_codec L) chacha_cfg (chacha_cfg codec) session (MirrorSession_new F session client_codec start cols rows overlay t1) []"
    using assms(2) by (simp add: talk_inv_def MirrorSession_new_def unacked_def queued_def)
  from chacha.talk_said [OF this _ _ assms(1)] assms(4)
  have t: "talk_inv (chacha_codec L) chacha_cfg (chacha_cfg codec) session c log" "length log < 2 ^ 63"
    "sent \<subseteq> said (chacha_codec L) chacha_cfg (chacha_cfg codec) session log" by auto
  have "\<forall>p \<in> set log. reliable_payload p" using t(1) by (simp add: talk_inv_def)
  moreover have "(\<exists>q. carries (chacha_codec L) codec session (message log) b q \<and> unat q \<le> length log) \<or> transient_at (chacha_codec L) codec session b"
    if "b \<in> sent" for b
    using chacha.said_arrives [of b codec log] t(2,3) that assms(3) by blast
  ultimately show ?thesis by blast
qed

end

text \<open>The stream ends within the log.\<close>

lemma stream_within:
  assumes "stream_inv M e0 A e buf" "\<forall>q \<in> A. unat q \<le> n" "unat e0 \<le> Suc n"
  shows "unat e \<le> Suc n"
proof (rule ccontr)
  assume "\<not> unat e \<le> Suc n"
  then have "e \<noteq> 0" "Suc n \<le> unat e - 1" by auto
  then have "unat (e - 1) = unat e - 1" "Suc n \<le> unat e - 1" using unat_minus_one by blast+
  then have "e0 \<le> e - 1" "e - 1 < e" using assms(3) by (auto simp: word_le_nat_alt word_less_nat_alt)
  then have "e - 1 \<in> A" using assms(1) by (simp add: stream_inv_def)
  with assms(2) \<open>unat (e - 1) = unat e - 1\<close> \<open>Suc n \<le> unat e - 1\<close> show False by fastforce
qed

text \<open>C3: What is typed reaches the shell.  Whatever a client session goes through (packets from anywhere, reads from
  standard input, resizes, ticks) and whatever part of the datagrams it ever sent reaches the server, in whatever order
  and however often, acknowledgements and fragment reports among them: the bytes the shell has been given are the
  keystrokes the session numbered, once each and in the order they were typed, beginning after the number \<open>h\<close> the
  server took from the handshake and ending before the first packet that has not arrived.\<close>

theorem typed_bytes_reach_shell:
  assumes "wire_lib L" "pty_log P input" "keepalive_ok (chacha_codec L)"
    and "AuthoritativeSession_new G sid codec h addr cols rows pty t0 = Inr s"
    and "sid \<noteq> 0" "cc_session_id codec = sid" "chacha_cfg client_codec = chacha_cfg codec" "reliable_seq h"
    and "talk (chacha_codec L) F evs (MirrorSession_new F sid client_codec start cols' rows' overlay t1, [], {}) = (c, log, sent)"
    and "length evs < 2 ^ 63" "\<forall>(b, _, _) \<in> set arrivals. b \<in> sent"
  shows "let s' = feed_all (chacha_codec L) G P s arrivals; e = as_expected_client_seq s' in
    h < e \<and> unat e \<le> Suc (max (length log) (unat h))
    \<and> input (as_pty s') = input pty @ typed log (unat h) (unat e)
    \<and> (\<forall>(b, _, _) \<in> set arrivals. \<not> carries (chacha_codec L) codec sid (message log) b e)"
proof -
  let ?C = "chacha_codec L" and ?M = "message log"
  define s' where "s' = feed_all ?C G P s arrivals"
  define e where "e = as_expected_client_seq s'"
  have s: "as_codec s = codec" "as_session_id s = sid" "as_expected_client_seq s = h + 1" "as_out_of_order_packets s = []" "as_pty s = pty"
    using assms(4) by (auto simp: AuthoritativeSession_new_def)
  have wf: "server_wf s" using assms(4) by (rule AuthoritativeSession_new_wf)
  note client = wire_lib.client_datagrams [OF assms(1,9,7,6,10)]
  then have arr: "(\<exists>q. carries ?C codec sid ?M b q \<and> unat q \<le> length log) \<or> transient_at ?C codec sid b" if "(b, x) \<in> set arrivals" for b x
    using that assms(11) by auto
  then have arrivals: "\<forall>(b, _, _) \<in> set arrivals. (\<exists>q. carries ?C codec sid ?M b q) \<or> transient_at ?C codec sid b" by fast
  have "stream_inv ?M (h + 1) {} (as_expected_client_seq s) (as_out_of_order_packets s)"
    using s by (auto simp: stream_inv_def stream_buf_def bt_wf_def)
  moreover have "\<forall>q. reliable_payload (?M q)" using client message_reliable by blast
  ultimately have r: "stream_inv ?M (h + 1) (arrived ?C codec sid ?M arrivals) e (as_out_of_order_packets s')"
      "input (as_pty s') = input pty @ concat (map (\<lambda>q. keys_of (?M q)) (seqs (h + 1) e))"
    using pty_log.feed_all_mixed [OF assms(2,3) _ wf assms(5) arrivals s(1,2), of "h + 1" "{}" "input pty" G] s(3,5)
    unfolding e_def s'_def by auto
  have h: "unat (h + 1) = Suc (unat h)" using assms(8) by (rule reliable_succ)
  have "unat q \<le> length log" if "q \<in> arrived ?C codec sid ?M arrivals" for q
    using that arr transient_carries carries_unique unfolding arrived_def by fast
  then have "unat e \<le> Suc (max (length log) (unat h))"
    using h by (intro stream_within [OF r(1)]) (auto simp: le_max_iff_disj)
  moreover have "\<forall>(b, _, _) \<in> set arrivals. \<not> carries ?C codec sid ?M b e"
    using r(1) by (auto simp: stream_inv_def arrived_def)
  moreover have "h < e" using r(1) h by (simp add: stream_inv_def word_le_nat_alt word_less_nat_alt)
  ultimately show ?thesis using r(2) seqs_typed [OF h] unfolding s'_def [symmetric] e_def [symmetric] Let_def by simp
qed

theorem typed_bytes_reach_shell_witness:
  "\<exists>c b s. talk (chacha_codec ref_lib) unit_f32 [(In_stdin [108, 115, 13], 5)] (sample_client, [], {}) = (c, [Keystrokes [108, 115, 13]], {b})
    \<and> AuthoritativeSession_new tiny_vt 9 (ChaChaCodec_new [1, 2] 9) 0 ([127, 0, 0, 1], 4000) 1 1 (PtyBridge_new (tty_open 1 1)) 0 = Inr s
    \<and> shell_input (as_pty (feed_all (chacha_codec ref_lib) tiny_vt (pty_bridge sample_tty) s
          [(b, ([127, 0, 0, 1], 4000), 6), (b, ([127, 0, 0, 1], 4000), 7)])) = [108, 115, 13]"
proof -
  let ?C = "chacha_codec ref_lib" and ?c = "ChaChaCodec_new [1, 2] 9" and ?ks = "Keystrokes [108, 115, 13]"
  let ?in = "[(In_stdin [108, 115, 13], 5)]"
  obtain b where b: "seal_client ?C ?c 9 1 0 ?ks = Inr b"
    by (simp add: chacha_codec_def chacha_seal_client_def serialize_def Let_def)
  obtain c where f: "feed_stdin ?C sample_client [108, 115, 13] 5 = (c, Inr [SendPacket b])"
    using b unfolding sample_client_def
    by (simp add: feed_stdin_def MirrorSession_new_def EscapeInterpreter_new_def handle_byte_def is_newline_def
        prepare_keystrokes_def seal_reliable_def Let_def is_ascii_control_def)
  have "ms_interpreter sample_client = EscapeInterpreter_new" unfolding sample_client_def by (simp add: MirrorSession_new_def)
  then have t: "talk ?C unit_f32 ?in (sample_client, [], {}) = (c, [?ks], {b})"
    using f by (simp add: client_in_def numbered_def EscapeInterpreter_new_def handle_byte_def is_newline_def)
  obtain s where s: "AuthoritativeSession_new tiny_vt 9 ?c 0 ([127, 0, 0, 1], 4000) 1 1 (PtyBridge_new (tty_open 1 1)) 0 = Inr s"
    by (simp add: AuthoritativeSession_new_def ServerTerminalState_new_def tiny_vt_def)
  have sid: "cc_session_id ?c = 9" by (simp add: ChaChaCodec_new_def)
  have "carries ?C ?c 9 (message [?ks]) b 1"
    using ref.client_delivered [OF b refl] sid by (auto simp: carries_def message_def)
  let ?xs = "[(b, ([127, 0, 0, 1], 4000), 6), (b, ([127, 0, 0, 1], 4000), 7)]"
  define e where "e = as_expected_client_seq (feed_all ?C tiny_vt (pty_bridge sample_tty) s ?xs)"
  have r: "0 < e" "unat e \<le> 2" "\<not> carries ?C ?c 9 (message [?ks]) b e"
    "shell_input (as_pty (feed_all ?C tiny_vt (pty_bridge sample_tty) s ?xs)) = typed [?ks] 0 (unat e)"
    using typed_bytes_reach_shell [OF ref.wire_lib_axioms device_log ref_keepalive_ok s _ sid refl _ t [unfolded sample_client_def], of ?xs]
    by (simp_all add: Let_def e_def PtyBridge_new_def tty_open_def shell_input_def)
  then have "e \<noteq> 1" using \<open>carries ?C ?c 9 (message [?ks]) b 1\<close> by auto
  with r(1,2) have "unat e = 2" by (simp add: word_less_nat_alt word_unat_eq_iff)
  with r(4) have "shell_input (as_pty (feed_all ?C tiny_vt (pty_bridge sample_tty) s ?xs)) = [108, 115, 13]"
    by (simp add: typed_def keys_of_def)
  with t s show ?thesis by blast
qed

end
