(* ===== verification/Rumsh_Tests.thy ===== *)
theory Rumsh_Tests
  imports Rumsh_Main Rumsh_Input Rumsh_Program
begin

text \<open>
  The repository's own unit tests, run on the model.  Each definition is the test function of that name: the same calls
  on the same values, and the conjunction of its assertions.  A test that uses floats, the emulator or the libraries of
  the wire has them as parameters; what it needs of them is a hypothesis of its lemma.
\<close>

section \<open>Escapes\<close>

definition test_normal_typing :: bool where
  "test_normal_typing \<longleftrightarrow>
     snd (handle_bytes EscapeInterpreter_new (str ''ab~a'')) = [SendBytes (str ''a''), SendBytes (str ''b''), SendBytes (str ''~''), SendBytes (str ''a'')]"

definition test_escape_trigger_and_disconnect :: bool where
  "test_escape_trigger_and_disconnect \<longleftrightarrow>
     snd (handle_bytes EscapeInterpreter_new (str ''~.'')) = [Consume, Command Disconnect]"

definition test_escape_after_newline :: bool where
  "test_escape_after_newline \<longleftrightarrow>
     (let rs = snd (handle_bytes EscapeInterpreter_new (str ''a~'' @ [10] @ str ''~o'')) in
      rs ! 1 = SendBytes (str ''~'') \<and> rs ! 3 = Consume \<and> rs ! 4 = Command ToggleOverlay)"

definition test_double_tilde :: bool where
  "test_double_tilde \<longleftrightarrow>
     snd (handle_bytes EscapeInterpreter_new (str ''~~~'')) = [Consume, SendBytes (str ''~''), SendBytes (str ''~'')]"

definition test_aborted_escape_sequence :: bool where
  "test_aborted_escape_sequence \<longleftrightarrow>
     snd (handle_bytes EscapeInterpreter_new (str ''~a'')) = [Consume, SendBytes (str ''~a'')]"

lemma escape_tests:
  "test_normal_typing" "test_escape_trigger_and_disconnect" "test_escape_after_newline" "test_double_tilde" "test_aborted_escape_sequence"
  by (code_simp)+

section \<open>Bootstrap\<close>

definition sample_key_text :: bytes where
  "sample_key_text = str ''0102030405060708090a0b0c0d0e0f101112131415161718191a1b1c1d1e1f20''"

definition test_parse_token_success :: bool where
  "test_parse_token_success \<longleftrightarrow>
     parse_token (str ''noise'' @ [10] @ str ''RUMSH CONNECT 60001 '' @ sample_key_text @ [10] @ str ''more noise'') = Inr (60001, sample_key_text)"

definition test_parse_token_missing :: bool where
  "test_parse_token_missing \<longleftrightarrow>
     parse_token (str ''noise'' @ [10] @ str ''some other connection message'' @ [10] @ str ''more noise'') = Inl TokenMissing"

definition test_parse_token_malformed :: bool where
  "test_parse_token_malformed \<longleftrightarrow> isl (parse_token (str ''RUMSH CONNECT not_a_port '' @ sample_key_text))"

definition test_parse_hex_key :: bool where
  "test_parse_hex_key \<longleftrightarrow>
     (case parse_hex_key sample_key_text of Inr key \<Rightarrow> key ! 0 = 0x01 \<and> key ! 31 = 0x20 | Inl _ \<Rightarrow> False)
     \<and> isl (parse_hex_key (str ''0102'')) \<and> isl (parse_hex_key (str ''z'' @ tl sample_key_text))"

definition test_extract_host :: bool where
  "test_extract_host \<longleftrightarrow> extract_host_from_ssh_target (str ''user@myhost.com'') = str ''myhost.com''
     \<and> extract_host_from_ssh_target (str ''myhost.com'') = str ''myhost.com''"

lemma sample_key_visible: "sample_key_text \<noteq> []" "\<forall>b \<in> set sample_key_text. visible b"
  by (simp_all add: sample_key_text_def str_def visible_def)

lemma reader_lines_line: "10 \<notin> set l \<Longrightarrow> l \<noteq> [] \<Longrightarrow> last l \<noteq> 13 \<Longrightarrow> reader_lines (l @ 10 # rest) = l # reader_lines rest"
  "10 \<notin> set l \<Longrightarrow> l \<noteq> [] \<Longrightarrow> reader_lines l = [l]"
  by (simp_all add: reader_lines_def split_on_append split_on_none Let_def strip_cr_def)

lemma bootstrap_tests:
  "test_parse_token_success" "test_parse_token_missing" "test_parse_token_malformed" "test_parse_hex_key" "test_extract_host"
proof -
  show "test_parse_token_missing" "test_parse_hex_key" "test_extract_host" by code_simp+
  define good bad where "good = str ''RUMSH CONNECT '' @ str ''60001'' @ str '' '' @ sample_key_text"
    and "bad = str ''RUMSH CONNECT '' @ str ''not_a_port'' @ str '' '' @ sample_key_text"
  have l: "10 \<notin> set good" "good \<noteq> []" "last good \<noteq> 13" "10 \<notin> set bad" "bad \<noteq> []"
    unfolding good_def bad_def sample_key_text_def by (simp_all add: str_def)
  have n: "10 \<notin> set (str ''noise'')" "str ''noise'' \<noteq> []" "last (str ''noise'') \<noteq> 13" "utf8_valid (str ''noise'')"
    "\<not> starts_with (str ''RUMSH CONNECT '') (str ''noise'')" by (simp_all add: str_def starts_with_def)
  have p: "str ''60001'' \<noteq> []" "\<forall>b \<in> set (str ''60001''). visible b" "str ''not_a_port'' \<noteq> []" "\<forall>b \<in> set (str ''not_a_port''). visible b"
    by (simp_all add: str_def visible_def)
  have port: "parse_u16 (str ''60001'') = Inr 60001" "isl (parse_u16 (str ''not_a_port''))"
    by (simp_all add: parse_u16_def from_str_radix_def digit_of_def str_def Let_def)
  have whole: "str ''noise'' @ [10] @ str ''RUMSH CONNECT 60001 '' @ sample_key_text @ [10] @ str ''more noise'' = str ''noise'' @ 10 # good @ 10 # str ''more noise''"
    unfolding good_def by (simp add: str_def)
  have "reader_lines (str ''noise'' @ 10 # good @ 10 # str ''more noise'') = [str ''noise''] @ good # reader_lines (str ''more noise'')"
    using n l(1-3) by (simp add: reader_lines_line)
  moreover have "token_from_lines (good # rest) = Inr (60001, sample_key_text)" for rest
    using token_line_fields [OF sample_key_visible p(1,2)] port(1) unfolding good_def by simp
  ultimately show "test_parse_token_success"
    using n(4,5) token_skips_noise [of "[str ''noise'']"] unfolding test_parse_token_success_def parse_token_def whole by simp
  have "str ''RUMSH CONNECT not_a_port '' @ sample_key_text = bad" by (simp add: bad_def) (simp add: str_def)
  moreover have "isl (token_from_lines [bad])"
    using token_line_fields [OF sample_key_visible p(3,4)] port(2) by (cases "parse_u16 (str ''not_a_port'')") (simp_all add: bad_def)
  ultimately show "test_parse_token_malformed" using l(4,5) by (simp add: test_parse_token_malformed_def parse_token_def reader_lines_line)
qed

section \<open>Lifecycle\<close>

definition test_lifecycle_raii_guard :: bool where
  "test_lifecycle_raii_guard \<longleftrightarrow>
     (case with_backend fake_backend (fake_new 80 24) of
        (t, Inr (cols, rows)) \<Rightarrow> cols = 80 \<and> rows = 24 \<and> fk_raw_mode t \<and> fk_alt_screen t
          \<and> \<not> fk_raw_mode (drop_lifecycle fake_backend t) \<and> \<not> fk_alt_screen (drop_lifecycle fake_backend t)
      | (t, Inl _) \<Rightarrow> False)"

definition test_lifecycle_suspend_resumption :: bool where
  "test_lifecycle_suspend_resumption \<longleftrightarrow>
     (case suspend fake_backend (fst (with_backend fake_backend (fake_new 80 24))) of
        (t, resumed_size) \<Rightarrow> fk_sigtstp_count t = 1 \<and> fk_raw_mode t \<and> fk_alt_screen t \<and> resumed_size = Some (80, 24))"

lemma lifecycle_tests: "test_lifecycle_raii_guard" "test_lifecycle_suspend_resumption"
  by (code_simp)+

section \<open>Local echo\<close>

abbreviation text_at :: "'f TerminalFrame \<Rightarrow> nat \<Rightarrow> bytes res" where
  "text_at f i \<equiv> as_str (graphemes (tf_cell_cache f ! i))"

definition set_text :: "bytes \<Rightarrow> LocalCellData \<Rightarrow> LocalCellData" where
  "set_text s c = c\<lparr>graphemes := CompactGrapheme_new s\<rparr>"

definition test_echo_engine_apply_and_reconcile :: "'f f32_ops \<Rightarrow> bool" where
  "test_echo_engine_apply_and_reconcile F \<longleftrightarrow>
     (let frame = TerminalFrame_new F 80 24;
          (engine1, frame1) = fst (apply_keystrokes (LocalEchoEngine_new, frame) (str ''abc'') 1);
          (engine2, frame2) = fst (apply_keystrokes (engine1, frame1) (str ''d'') 2);
          cells = tf_cell_cache frame;
          server_frame = frame\<lparr>tf_cursor_x := 3, tf_cell_cache := cells[0 := set_text (str ''a'') (cells ! 0),
            1 := set_text (str ''b'') (cells ! 1), 2 := set_text (str ''c'') (cells ! 2)]\<rparr>;
          (engine3, server_frame1) = fst (reconcile_frame (engine2, server_frame) 1)
      in tf_cursor_x frame1 = 3 \<and> text_at frame1 0 = Inr (str ''a'') \<and> text_at frame1 1 = Inr (str ''b'') \<and> text_at frame1 2 = Inr (str ''c'')
       \<and> length (unconfirmed_inputs engine1) = 1
       \<and> tf_cursor_x frame2 = 4 \<and> length (unconfirmed_inputs engine2) = 2
       \<and> tf_cursor_x server_frame1 = 4 \<and> text_at server_frame1 3 = Inr (str ''d'')
       \<and> length (unconfirmed_inputs engine3) = 1 \<and> pe_seq_num (unconfirmed_inputs engine3 ! 0) = 2)"

definition test_echo_engine_abort_rollback :: "'f f32_ops \<Rightarrow> bool" where
  "test_echo_engine_abort_rollback F \<longleftrightarrow>
     (let (engine1, frame1) = fst (apply_keystrokes (LocalEchoEngine_new, TerminalFrame_new F 80 24) (str ''xyz'') 1);
          (engine2, frame2) = fst (abort (engine1, frame1))
      in tf_cursor_x frame1 = 3 \<and> text_at frame1 0 = Inr (str ''x'') \<and> length (unconfirmed_inputs engine1) = 1
       \<and> tf_cursor_x frame2 = 0 \<and> text_at frame2 0 = Inr (str '' '') \<and> length (unconfirmed_inputs engine2) = 0 \<and> current_epoch engine2 = 1)"

definition test_echo_engine_backspace_and_newline :: "'f f32_ops \<Rightarrow> bool" where
  "test_echo_engine_backspace_and_newline F \<longleftrightarrow>
     (let (engine1, frame1) = fst (apply_keystrokes (LocalEchoEngine_new, TerminalFrame_new F 80 24) [97, 10, 98, 8] 1)
      in tf_cursor_x frame1 = 0 \<and> tf_cursor_y frame1 = 1 \<and> text_at frame1 0 = Inr (str ''a'') \<and> text_at frame1 80 = Inr (str '' ''))"

lemmas echo_eval = TerminalFrame_new_def LocalEchoEngine_new_def apply_keystrokes_def predict_byte_def predict_cell_def vec_get_def vec_set_def
  frame_index_def advance_cursor_def next_row_def Let_def

lemma text_simps [simp]:
  "as_str (graphemes (char_cell b)) = Inr [b]" "as_str (graphemes default_cell) = Inr [32]"
  "as_str (graphemes (set_text [b] c)) = Inr [b]"
  by (simp_all add: char_cell_def default_cell_def set_text_def as_str_def CompactGrapheme_new_def)

lemma small_words: "\<not> (80 :: u16) \<le> 1" "\<not> (2 :: u64) \<le> 1" "\<not> (10 :: u64) \<le> 1"
  by (simp_all add: word_le_nat_alt)

lemma echo_tests:
  "test_echo_engine_apply_and_reconcile F" "test_echo_engine_abort_rollback F" "test_echo_engine_backspace_and_newline F"
proof -
  have [simp]: "xs[0 := a, Suc 0 := b, Suc (Suc 0) := c] ! 2 = c" if "2 < length xs" for xs :: "LocalCellData list" and a b c
    using that by (simp add: numeral_2_eq_2)
  show "test_echo_engine_apply_and_reconcile F" "test_echo_engine_abort_rollback F" "test_echo_engine_backspace_and_newline F"
    unfolding test_echo_engine_apply_and_reconcile_def test_echo_engine_abort_rollback_def test_echo_engine_backspace_and_newline_def
    by (simp_all add: echo_eval str_def abort_def reconcile_frame_def confirmed_def saturating_sub_def small_words)
qed

section \<open>Grids\<close>

definition filled_grid :: "u16 \<Rightarrow> u16 \<Rightarrow> u16 \<Rightarrow> u16 \<Rightarrow> bool \<Rightarrow> bytes \<Rightarrow> GridState" where
  "filled_grid cols rows x y vis s =
     \<lparr>gs_cols = cols, gs_rows = rows, gs_cursor_x = x, gs_cursor_y = y, gs_cursor_visible = vis,
      gs_cells = replicate (unat cols * unat rows) \<lparr>graphemes = CompactGrapheme_new s, fg = None, bg = None, style_flags = 0\<rparr>,
      gs_row_wrapped = replicate (unat rows) False\<rparr>"

definition test_grid_diff_and_patch_roundtrip :: bool where
  "test_grid_diff_and_patch_roundtrip \<longleftrightarrow>
     (let grid1 = filled_grid 80 24 0 0 True (str ''a'');
          grid2 = grid1\<lparr>gs_cursor_x := 5, gs_cells := (gs_cells grid1)[10 := (gs_cells grid1 ! 10)\<lparr>graphemes := CompactGrapheme_new (str ''z''), style_flags := STYLE_BOLD\<rparr>]\<rparr>
      in case diff_from grid2 (Some grid1) 1 True of
           Inr d \<Rightarrow> length (fu_row_updates d) = 1 \<and> length (ru_cells (fu_row_updates d ! 0)) = 1 \<and> patch grid1 d = (grid2, Inr ())
         | Inl _ \<Rightarrow> False)"

definition test_grid_diff_from_none :: bool where
  "test_grid_diff_from_none \<longleftrightarrow>
     (let grid0 = filled_grid 80 24 10 5 True (str '' '');
          grid = grid0\<lparr>gs_cells := (gs_cells grid0)[0 := (gs_cells grid0 ! 0)\<lparr>graphemes := CompactGrapheme_new (str ''X'')\<rparr>]\<rparr>
      in case diff_from grid None 0 False of
           Inr d \<Rightarrow> fu_ref_seq d = 0 \<and> length (fu_row_updates d) = 1
             \<and> as_str (graphemes (cu_cell (ru_cells (fu_row_updates d ! 0) ! 0))) = Inr (str ''X'')
         | Inl _ \<Rightarrow> False)"

definition test_grid_diff_dimension_mismatch :: bool where
  "test_grid_diff_dimension_mismatch \<longleftrightarrow>
     (let grid1 = filled_grid 80 24 0 0 False (str '' ''); grid2 = filled_grid 100 30 5 5 True (str ''y'')
      in case diff_from grid2 (Some grid1) 5 True of
           Inr d \<Rightarrow> fu_cols d = 100 \<and> fu_rows d = 30 \<and> length (fu_row_updates d) = 30 \<and> patch grid1 d = (grid2, Inr ())
         | Inl _ \<Rightarrow> False)"

definition test_grid_patch_out_of_bounds_rejection :: bool where
  "test_grid_patch_out_of_bounds_rejection \<longleftrightarrow>
     isl (snd (patch (filled_grid 80 24 0 0 False (str '' ''))
       \<lparr>fu_ref_seq = 1, fu_cols = 80, fu_rows = 24, fu_cursor_x = 0, fu_cursor_y = 0, fu_cursor_visible = False,
        fu_row_updates = [\<lparr>ru_y = 50, ru_cells = [], ru_is_wrapped = False\<rparr>], fu_is_echo_enabled = True\<rparr>))"

lemma filter_one: "distinct xs \<Longrightarrow> a \<in> set xs \<Longrightarrow> (\<And>x. x \<in> set xs \<Longrightarrow> P x \<longleftrightarrow> x = a) \<Longrightarrow> filter P xs = [a]"
  by (induction xs) (auto simp: filter_empty_conv)

text \<open>The difference of two grids that differ in one cell.\<close>

lemma frame_diff_one_cell:
  assumes "x0 < gs_cols g" "y0 < gs_rows g" "grid_wf g" "i = unat y0 * unat (gs_cols g) + unat x0" "gs_cells g ! i = c"
    and "c \<noteq> old_cell u i"
    and "\<And>j. j < length (gs_cells g) \<Longrightarrow> j \<noteq> i \<Longrightarrow> gs_cells g ! j = old_cell u j"
    and "\<And>y. y < unat (gs_rows g) \<Longrightarrow> gs_row_wrapped g ! y = old_wrapped u y"
  shows "frame_diff g u = [\<lparr>ru_y = y0, ru_cells = [\<lparr>cu_x = x0, cu_cell = c\<rparr>], ru_is_wrapped = gs_row_wrapped g ! unat y0\<rparr>]"
proof -
  have coord: "unat y * unat (gs_cols g) + unat x = i \<longleftrightarrow> y = y0 \<and> x = x0" if "x < gs_cols g" for x y
  proof
    assume eq: "unat y * unat (gs_cols g) + unat x = i"
    have lt: "unat x < unat (gs_cols g)" "unat x0 < unat (gs_cols g)" using that assms(1) by (simp_all add: word_less_nat_alt)
    have "unat y = i div unat (gs_cols g)" "unat x = i mod unat (gs_cols g)" using lt eq by auto
    moreover have "unat y0 = i div unat (gs_cols g)" "unat x0 = i mod unat (gs_cols g)" using lt assms(4) by auto
    ultimately show "y = y0 \<and> x = x0" by (simp add: word_unat_eq_iff)
  qed (use assms(4) in simp)
  have cell: "gs_cells g ! (unat y * unat (gs_cols g) + unat x) \<noteq> old_cell u (unat y * unat (gs_cols g) + unat x) \<longleftrightarrow> y = y0 \<and> x = x0"
    if "x < gs_cols g" "y < gs_rows g" for x y
    using coord [OF that(1), of y] assms(5-7) grid_cell_bound [OF assms(3) that] by metis
  have rows: "row_diff g u y = (if y = y0 then [\<lparr>cu_x = x0, cu_cell = c\<rparr>] else [])" if "y < gs_rows g" for y
  proof (cases "y = y0")
    case True
    have "filter (\<lambda>x. gs_cells g ! (unat y * unat (gs_cols g) + unat x) \<noteq> old_cell u (unat y * unat (gs_cols g) + unat x)) (u16_range (gs_cols g)) = [x0]"
      using cell [OF _ that] True assms(1) by (intro filter_one) auto
    then show ?thesis using True assms(4,5) by (simp add: row_diff_def)
  next
    case False
    then show ?thesis using cell [OF _ that] by (auto simp: row_diff_def filter_empty_conv)
  qed
  have "filter (row_changed g u) (u16_range (gs_rows g)) = [y0]"
    using rows assms(2,8) by (intro filter_one) (auto simp: row_changed_def word_less_nat_alt)
  then show ?thesis using rows [OF assms(2)] by (simp add: frame_diff_def)
qed

lemma filled_grid_wf [simp]: "grid_wf (filled_grid cols rows x y v s)"
  by (simp add: grid_wf_def filled_grid_def)

lemma text_differs:
  "CompactGrapheme_new (str ''z'') \<noteq> CompactGrapheme_new (str ''a'')" "CompactGrapheme_new (str ''X'') \<noteq> CompactGrapheme_new [32]"
  "CompactGrapheme_new (str ''y'') \<noteq> CompactGrapheme_new [32]"
  by (simp_all add: CompactGrapheme_new_def str_def)

lemma str_space: "str '' '' = [32]"
  by (simp add: str_def)

lemma test_grid_diff_and_patch_roundtrip_passes: "test_grid_diff_and_patch_roundtrip"
proof -
  define grid1 where "grid1 = filled_grid 80 24 0 0 True (str ''a'')"
  define grid2 where "grid2 = grid1\<lparr>gs_cursor_x := 5, gs_cells := (gs_cells grid1)[10 := (gs_cells grid1 ! 10)\<lparr>graphemes := CompactGrapheme_new (str ''z''), style_flags := STYLE_BOLD\<rparr>]\<rparr>"
  have wf: "grid_wf grid1" "grid_wf grid2" "grid_fits grid2" by (simp_all add: grid1_def grid2_def filled_grid_def grid_wf_def grid_fits_def)
  obtain d where d: "diff_from grid2 (Some grid1) 1 True = Inr d" "patch grid1 d = (grid2, Inr ())"
    using diff_patch [OF wf(2,3), of "Some grid1" 1 True] wf(1) by (auto simp: diff_base_def)
  have "fu_row_updates d = frame_diff grid2 (Some grid1)"
    using d(1) diff_from_ok [OF wf(2,3), of "Some grid1" 1 True] wf(1) by (auto simp: use_ref_of_def grid2_def)
  also have "\<dots> = [\<lparr>ru_y = 0, ru_cells = [\<lparr>cu_x = 10, cu_cell = (gs_cells grid1 ! 10)\<lparr>graphemes := CompactGrapheme_new (str ''z''), style_flags := STYLE_BOLD\<rparr>\<rparr>],
      ru_is_wrapped = gs_row_wrapped grid2 ! unat (0 :: u16)\<rparr>]"
    by (rule frame_diff_one_cell [OF _ _ wf(2), where i = 10])
       (simp_all add: grid2_def grid1_def filled_grid_def old_cell_def old_wrapped_def text_differs)
  finally show ?thesis using d by (simp add: test_grid_diff_and_patch_roundtrip_def grid1_def [symmetric] grid2_def [symmetric] Let_def)
qed

lemma test_grid_diff_from_none_passes: "test_grid_diff_from_none"
proof -
  define grid0 where "grid0 = filled_grid 80 24 10 5 True (str '' '')"
  define grid where "grid = grid0\<lparr>gs_cells := (gs_cells grid0)[0 := (gs_cells grid0 ! 0)\<lparr>graphemes := CompactGrapheme_new (str ''X'')\<rparr>]\<rparr>"
  have wf: "grid_wf grid" "grid_fits grid" by (simp_all add: grid0_def grid_def filled_grid_def grid_wf_def grid_fits_def)
  have "frame_diff grid None = [\<lparr>ru_y = 0, ru_cells = [\<lparr>cu_x = 0, cu_cell = (gs_cells grid0 ! 0)\<lparr>graphemes := CompactGrapheme_new (str ''X'')\<rparr>\<rparr>],
      ru_is_wrapped = gs_row_wrapped grid ! unat (0 :: u16)\<rparr>]"
    by (rule frame_diff_one_cell [OF _ _ wf(1), where i = 0])
       (simp_all add: grid_def grid0_def filled_grid_def old_cell_def old_wrapped_def default_cell_def text_differs str_space)
  then show ?thesis
    using diff_from_ok [OF wf, of None 0 False]
    unfolding test_grid_diff_from_none_def grid0_def [symmetric] Let_def grid_def [symmetric]
    by (simp add: use_ref_of_def as_str_new stored_len_def) (simp add: str_def)
qed

lemma test_grid_diff_dimension_mismatch_passes: "test_grid_diff_dimension_mismatch"
proof -
  define grid1 grid2 where "grid1 = filled_grid 80 24 0 0 False (str '' '')" and "grid2 = filled_grid 100 30 5 5 True (str ''y'')"
  have wf: "grid_wf grid1" "grid_wf grid2" "grid_fits grid2" by (simp_all add: grid1_def grid2_def grid_fits_def) (simp add: filled_grid_def)
  obtain d where d: "diff_from grid2 (Some grid1) 5 True = Inr d" "patch grid1 d = (grid2, Inr ())" "fu_cols d = 100" "fu_rows d = 30"
    using diff_patch [OF wf(2,3), of "Some grid1" 5 True] wf(1) by (auto simp: diff_base_def grid2_def filled_grid_def)
  have sel: "gs_cols grid2 = 100" "gs_rows grid2 = 30" "\<And>i. i < 3000 \<Longrightarrow> gs_cells grid2 ! i \<noteq> default_cell"
    by (simp_all add: grid2_def filled_grid_def default_cell_def text_differs)
  have "row_diff grid2 None y \<noteq> []" if "y < 30" for y
  proof -
    have "unat y < 30" using that by (simp add: word_less_nat_alt)
    then have "gs_cells grid2 ! (unat y * 100 + unat (0 :: u16)) \<noteq> default_cell" by (intro sel(3)) simp
    then show ?thesis by (auto simp: row_diff_def sel filter_empty_conv old_cell_def intro!: exI [of _ 0])
  qed
  then have "length (frame_diff grid2 None) = 30" by (simp add: frame_diff_def row_changed_def sel)
  moreover have "fu_row_updates d = frame_diff grid2 None"
    using d(1) diff_from_ok [OF wf(2,3), of "Some grid1" 5 True] wf(1) by (auto simp: use_ref_of_def grid2_def grid1_def filled_grid_def)
  ultimately show ?thesis using d by (simp add: test_grid_diff_dimension_mismatch_def grid1_def [symmetric] grid2_def [symmetric] Let_def)
qed

lemma test_grid_patch_out_of_bounds_rejection_passes: "test_grid_patch_out_of_bounds_rejection"
  by (simp add: test_grid_patch_out_of_bounds_rejection_def patch_def resize_for_def filled_grid_def)

section \<open>The mirror\<close>

definition test_initialization :: "'f f32_ops \<Rightarrow> bool" where
  "test_initialization F \<longleftrightarrow>
     (let f = ti_frame (ClientTerminal_new F 80 24)
      in tf_cols f = 80 \<and> tf_rows f = 24 \<and> length (tf_cell_cache f) = 80 * 24 \<and> tf_dirty f \<and> list_all (\<lambda>d. d) (tf_row_dirty f))"

definition test_apply_frame_and_resize :: "'f f32_ops \<Rightarrow> bool" where
  "test_apply_frame_and_resize F \<longleftrightarrow>
     (let grid = filled_grid 80 24 10 5 True (str ''a''); (m1, r1) = apply_frame (ClientTerminal_new F 80 24) grid 1;
          grid' = filled_grid 90 30 10 5 True (str ''b''); (m2, r2) = apply_frame m1 grid' 2
      in r1 = Inr False
       \<and> tf_cursor_x (ti_frame m1) = 10 \<and> tf_cursor_y (ti_frame m1) = 5 \<and> tf_cursor_visible (ti_frame m1)
       \<and> tf_last_seq (ti_frame m1) = 1 \<and> text_at (ti_frame m1) 0 = Inr (str ''a'')
       \<and> r2 = Inr True
       \<and> tf_cols (ti_frame m2) = 90 \<and> tf_rows (ti_frame m2) = 30 \<and> length (tf_cell_cache (ti_frame m2)) = 90 * 30
       \<and> text_at (ti_frame m2) 0 = Inr (str ''b'') \<and> tf_clear_requested (ti_frame m2))"

definition test_local_echo_and_pruning :: "'f f32_ops \<Rightarrow> bool" where
  "test_local_echo_and_pruning F \<longleftrightarrow>
     (let m1 = fst (predict_input (ClientTerminal_new F 80 24) (str ''abc'') 10);
          grid = filled_grid 80 24 0 0 True (str ''.''); (m2, r2) = apply_frame m1 grid 1;
          m3 = fst (acknowledge m2 10); cells = gs_cells grid;
          grid2 = grid\<lparr>gs_cells := cells[0 := set_text (str ''x'') (cells ! 0), 1 := set_text (str ''y'') (cells ! 1), 2 := set_text (str ''z'') (cells ! 2)]\<rparr>;
          (m4, r4) = apply_frame m3 grid2 2
      in tf_cursor_x (ti_frame m1) = 3 \<and> tf_cursor_y (ti_frame m1) = 0 \<and> length (unconfirmed_inputs (ti_echo_engine m1)) = 1
       \<and> text_at (ti_frame m1) 0 = Inr (str ''a'') \<and> text_at (ti_frame m1) 1 = Inr (str ''b'') \<and> text_at (ti_frame m1) 2 = Inr (str ''c'')
       \<and> tf_row_dirty (ti_frame m1) ! 0
       \<and> \<not> isl r2
       \<and> text_at (ti_frame m2) 0 = Inr (str ''a'') \<and> text_at (ti_frame m2) 1 = Inr (str ''b'') \<and> text_at (ti_frame m2) 2 = Inr (str ''c'')
       \<and> text_at (ti_frame m2) 3 = Inr (str ''.'')
       \<and> length (unconfirmed_inputs (ti_echo_engine m3)) = 0
       \<and> \<not> isl r4
       \<and> text_at (ti_frame m4) 0 = Inr (str ''x'') \<and> text_at (ti_frame m4) 1 = Inr (str ''y'') \<and> text_at (ti_frame m4) 2 = Inr (str ''z''))"

definition test_double_buffer_consumption :: "'f f32_ops \<Rightarrow> bool" where
  "test_double_buffer_consumption F \<longleftrightarrow>
     (let ((m1, dest1), b1) = consume_updates (ClientTerminal_new F 80 24) (TerminalFrame_new F 80 24);
          ((m2, dest2), b2) = consume_updates m1 dest1;
          m3 = fst (set_reconnecting m2 True);
          ((m4, dest4), b4) = consume_updates m3 dest2;
          ((m5, dest5), b5) = consume_updates m4 dest4
      in b1 \<and> tf_cols dest1 = 80 \<and> tf_rows dest1 = 24 \<and> \<not> b2 \<and> b4 \<and> tf_reconnecting dest4 \<and> \<not> b5)"

text \<open>A frame before its predictions are applied again.\<close>

lemma apply_frame_update:
  assumes "mirror_wf m" "grid_wf g"
  obtains rd d where "\<And>s. apply_frame m g s = st_then (with_echo (m\<lparr>ti_frame := (fst (resize_frame (ti_frame m) g))\<lparr>tf_cell_cache := gs_cells g,
      tf_row_dirty := rd, tf_cursor_x := gs_cursor_x g, tf_cursor_y := gs_cursor_y g, tf_cursor_visible := gs_cursor_visible g,
      tf_dirty := d, tf_last_seq := s\<rparr>\<rparr>) (\<lambda>st. reconcile_frame st s))
    (\<lambda>m1 _. (m1, Inr (tf_cols (ti_frame m) \<noteq> gs_cols g \<or> tf_rows (ti_frame m) \<noteq> gs_rows g)))"
  using update_from_grid_state_ok [OF assms] by (force simp: apply_frame_def)

lemma apply_frame_quiet:
  assumes "mirror_wf m" "grid_wf g" "\<forall>e \<in> set (unconfirmed_inputs (ti_echo_engine m)). pe_seq_num e \<le> s"
  obtains rd d where "apply_frame m g s = (m\<lparr>ti_frame := (fst (resize_frame (ti_frame m) g))\<lparr>tf_cell_cache := gs_cells g,
      tf_row_dirty := rd, tf_cursor_x := gs_cursor_x g, tf_cursor_y := gs_cursor_y g, tf_cursor_visible := gs_cursor_visible g,
      tf_dirty := d, tf_last_seq := s\<rparr>, ti_echo_engine := (ti_echo_engine m)\<lparr>unconfirmed_inputs := []\<rparr>\<rparr>,
    Inr (tf_cols (ti_frame m) \<noteq> gs_cols g \<or> tf_rows (ti_frame m) \<noteq> gs_rows g))"
proof -
  from apply_frame_update [OF assms(1,2)] obtain rd d where "apply_frame m g s = st_then (with_echo (m\<lparr>ti_frame := (fst (resize_frame (ti_frame m) g))\<lparr>tf_cell_cache := gs_cells g,
      tf_row_dirty := rd, tf_cursor_x := gs_cursor_x g, tf_cursor_y := gs_cursor_y g, tf_cursor_visible := gs_cursor_visible g,
      tf_dirty := d, tf_last_seq := s\<rparr>\<rparr>) (\<lambda>st. reconcile_frame st s))
    (\<lambda>m1 _. (m1, Inr (tf_cols (ti_frame m) \<noteq> gs_cols g \<or> tf_rows (ti_frame m) \<noteq> gs_rows g)))" by metis
  then show thesis by (intro that) (simp add: with_echo_def reconcile_all_confirmed [OF assms(3)])
qed

lemma filled_grid_sel [simp]:
  "gs_cols (filled_grid cols rows x y v s) = cols" "gs_rows (filled_grid cols rows x y v s) = rows"
  "gs_cursor_x (filled_grid cols rows x y v s) = x" "gs_cursor_y (filled_grid cols rows x y v s) = y"
  "gs_cursor_visible (filled_grid cols rows x y v s) = v"
  "gs_cells (filled_grid cols rows x y v s) = replicate (unat cols * unat rows) \<lparr>graphemes = CompactGrapheme_new s, fg = None, bg = None, style_flags = 0\<rparr>"
  by (simp_all add: filled_grid_def)

lemma typed_byte:
  assumes "tf_cols f = 80" "tf_rows f = 24" "tf_cursor_y f = 0" "length (tf_cell_cache f) = 80 * 24" "32 \<le> b" "b < 127"
    and "unat (tf_cursor_x f) < 79"
  shows "predict_byte (f, old) b = ((f\<lparr>tf_cell_cache := (tf_cell_cache f)[unat (tf_cursor_x f) := char_cell b], tf_cursor_x := tf_cursor_x f + 1\<rparr>,
    if \<exists>(ox, oy, _) \<in> set old. ox = tf_cursor_x f \<and> oy = 0 then old else old @ [(tf_cursor_x f, 0, tf_cell_cache f ! unat (tf_cursor_x f))]), Inr ())"
proof -
  have b: "b \<noteq> 13" "b \<noteq> 10" "b \<noteq> 8" "b \<noteq> 127" using assms(5,6) by (auto simp: word_le_nat_alt)
  have "unat (tf_cursor_x f + 1) = Suc (unat (tf_cursor_x f))" using assms(7) by (simp add: unat_word_ariths)
  then have x: "tf_cursor_x f < 80" "\<not> 80 \<le> tf_cursor_x f + 1" using assms(7) by (simp_all add: word_less_nat_alt word_le_nat_alt)
  show ?thesis using assms(1-6) assms(7) b x
    by (simp add: predict_byte_def predict_cell_def vec_get_def frame_index_def advance_cursor_def Let_def)
qed

lemma typed_abc:
  assumes "tf_cols f = 80" "tf_rows f = 24" "tf_cursor_x f = 0" "tf_cursor_y f = 0" "length (tf_cell_cache f) = 80 * 24"
  shows "\<exists>cells. apply_keystrokes (eng, f) (str ''abc'') seq = ((eng\<lparr>unconfirmed_inputs := unconfirmed_inputs eng @
      [\<lparr>pe_seq_num = seq, pe_bytes = str ''abc'', pe_epoch = current_epoch eng, pe_old_cursor_x = 0, pe_old_cursor_y = 0,
        pe_old_cells = cells\<rparr>]\<rparr>,
    f\<lparr>tf_cell_cache := (tf_cell_cache f)[0 := char_cell 97, 1 := char_cell 98, 2 := char_cell 99], tf_cursor_x := 3\<rparr>), Inr ())"
proof -
  have abc: "str ''abc'' = [97, 98, 99]" by (simp add: str_def)
  show ?thesis using assms unfolding abc by (simp add: apply_keystrokes_def typed_byte) blast
qed

lemma abc_cells:
  assumes "3 < length cs"
  shows "cs[0 := x, 1 := y, 2 := z] ! 0 = x" "cs[0 := x, 1 := y, 2 := z] ! 1 = y" "cs[0 := x, 1 := y, 2 := z] ! 2 = z"
    "cs[0 := x, 1 := y, 2 := z] ! 3 = cs ! 3"
proof -
  have "cs \<noteq> []" using assms by auto
  with assms show "cs[0 := x, 1 := y, 2 := z] ! 0 = x" "cs[0 := x, 1 := y, 2 := z] ! 1 = y" "cs[0 := x, 1 := y, 2 := z] ! 2 = z"
    "cs[0 := x, 1 := y, 2 := z] ! 3 = cs ! 3" by simp_all
qed

lemma test_initialization_passes: "test_initialization F"
  by (simp add: test_initialization_def ClientTerminal_new_def TerminalFrame_new_def list_all_iff)

lemma test_double_buffer_consumption_passes: "test_double_buffer_consumption F"
  by (simp add: test_double_buffer_consumption_def consume_updates_def ClientTerminal_new_def TerminalFrame_new_def copy_to_def set_reconnecting_def)

lemma test_apply_frame_and_resize_passes: "test_apply_frame_and_resize F"
proof -
  define m0 where "m0 = ClientTerminal_new F 80 24"
  let ?grid = "filled_grid 80 24 10 5 True (str ''a'')" and ?grid' = "filled_grid 90 30 10 5 True (str ''b'')"
  have m0: "mirror_wf m0" "unconfirmed_inputs (ti_echo_engine m0) = []" "tf_cols (ti_frame m0) = 80" "tf_rows (ti_frame m0) = 24"
    by (simp_all add: m0_def frame_wf_def ClientTerminal_new_def TerminalFrame_new_def LocalEchoEngine_new_def)
  obtain m1 r1 where m1: "apply_frame m0 ?grid 1 = (m1, r1)" by force
  obtain m2 r2 where m2: "apply_frame m1 ?grid' 2 = (m2, r2)" by force
  have c1: "\<forall>e \<in> set (unconfirmed_inputs (ti_echo_engine m0)). pe_seq_num e \<le> 1" using m0(2) by simp
  obtain rd d where "apply_frame m0 ?grid 1 = (m0\<lparr>ti_frame := (ti_frame m0)\<lparr>tf_cell_cache := gs_cells ?grid, tf_row_dirty := rd, tf_cursor_x := 10, tf_cursor_y := 5,
      tf_cursor_visible := True, tf_dirty := d, tf_last_seq := 1\<rparr>, ti_echo_engine := (ti_echo_engine m0)\<lparr>unconfirmed_inputs := []\<rparr>\<rparr>, Inr False)"
    by (rule apply_frame_quiet [OF m0(1) filled_grid_wf [of 80 24 10 5 True "str ''a''"] c1]) (simp add: resize_frame_def m0(3,4))
  with m1 have "r1 = Inr False" and f1: "tf_cursor_x (ti_frame m1) = 10" "tf_cursor_y (ti_frame m1) = 5" "tf_cursor_visible (ti_frame m1)" "tf_last_seq (ti_frame m1) = 1"
    "text_at (ti_frame m1) 0 = Inr (str ''a'')" "unconfirmed_inputs (ti_echo_engine m1) = []" "tf_cols (ti_frame m1) = 80" "tf_rows (ti_frame m1) = 24"
    by (auto simp: m0 as_str_new stored_len_def str_def)
  moreover have wf1: "mirror_wf m1" using apply_frame_ok(2) [OF m0(1) filled_grid_wf, of 80 24 10 5 True "str ''a''" 1] m1 by simp
  have c2: "\<forall>e \<in> set (unconfirmed_inputs (ti_echo_engine m1)). pe_seq_num e \<le> 2" using f1(6) by simp
  obtain rd' d' where "apply_frame m1 ?grid' 2 = (m1\<lparr>ti_frame := (fst (resize_frame (ti_frame m1) ?grid'))\<lparr>tf_cell_cache := gs_cells ?grid', tf_row_dirty := rd', tf_cursor_x := 10, tf_cursor_y := 5,
      tf_cursor_visible := True, tf_dirty := d', tf_last_seq := 2\<rparr>, ti_echo_engine := (ti_echo_engine m1)\<lparr>unconfirmed_inputs := []\<rparr>\<rparr>, Inr True)"
    by (rule apply_frame_quiet [OF wf1 filled_grid_wf [of 90 30 10 5 True "str ''b''"] c2]) (simp add: f1)
  with m2 have "r2 = Inr True" "tf_cols (ti_frame m2) = 90" "tf_rows (ti_frame m2) = 30" "length (tf_cell_cache (ti_frame m2)) = 90 * 30"
     "text_at (ti_frame m2) 0 = Inr (str ''b'')" "tf_clear_requested (ti_frame m2)"
    by (auto simp: resize_frame_def as_str_new stored_len_def str_def f1(7,8))
  ultimately show ?thesis using m1 m2 by (simp add: test_apply_frame_and_resize_def m0_def [symmetric] Let_def)
qed

lemma test_local_echo_and_pruning_passes: "test_local_echo_and_pruning F"
proof -
  let ?grid = "filled_grid 80 24 0 0 True (str ''.'')"
  define m1 where "m1 = fst (predict_input (ClientTerminal_new F 80 24) (str ''abc'') 10)"
  have wf: "mirror_wf m1" unfolding m1_def by (intro predict_input_ok ClientTerminal_new_wf)
  obtain cells where e1: "unconfirmed_inputs (ti_echo_engine m1) = [\<lparr>pe_seq_num = 10, pe_bytes = str ''abc'', pe_epoch = current_epoch (ti_echo_engine m1),
      pe_old_cursor_x = 0, pe_old_cursor_y = 0, pe_old_cells = cells\<rparr>]"
    and f1: "ti_frame m1 = (TerminalFrame_new F 80 24)\<lparr>tf_cell_cache := (replicate (80 * 24) default_cell)[0 := char_cell 97, 1 := char_cell 98, 2 := char_cell 99], tf_cursor_x := 3\<rparr>"
    using typed_abc [of "TerminalFrame_new F 80 24" LocalEchoEngine_new 10]
    by (auto simp: m1_def predict_input_def with_echo_def ClientTerminal_new_def TerminalFrame_new_def LocalEchoEngine_new_def)
  define f where "f rd d = (ti_frame m1)\<lparr>tf_cell_cache := gs_cells ?grid, tf_row_dirty := rd, tf_cursor_x := 0, tf_cursor_y := 0, tf_cursor_visible := True,
    tf_dirty := d, tf_last_seq := 1\<rparr>" for rd d
  have f: "tf_cols (f rd d) = 80" "tf_rows (f rd d) = 24" "tf_cursor_x (f rd d) = 0" "tf_cursor_y (f rd d) = 0" "length (tf_cell_cache (f rd d)) = 80 * 24"
    "tf_cell_cache (f rd d) = gs_cells ?grid" for rd d
    by (simp_all add: f_def f1 TerminalFrame_new_def)
  obtain rd d where u: "apply_frame m1 ?grid 1 = st_then (with_echo (m1\<lparr>ti_frame := f rd d\<rparr>) (\<lambda>st. reconcile_frame st 1)) (\<lambda>m1 _. (m1, Inr False))"
    by (rule apply_frame_update [OF wf filled_grid_wf [of 80 24 0 0 True "str ''.''"]]) (simp add: resize_frame_def f1 f_def TerminalFrame_new_def)
  obtain m2 r2 where m2: "apply_frame m1 ?grid 1 = (m2, r2)" by force
  have f2: "ti_frame m2 = (f rd d)\<lparr>tf_cell_cache := (gs_cells ?grid)[0 := char_cell 97, 1 := char_cell 98, 2 := char_cell 99], tf_cursor_x := 3\<rparr>"
    "map pe_seq_num (unconfirmed_inputs (ti_echo_engine m2)) = [10]" "\<not> isl r2"
    using m2 typed_abc [OF f(1-5), where eng = "(ti_echo_engine m1)\<lparr>unconfirmed_inputs := []\<rparr>" and seq = 10 and rd1 = rd and d1 = d]
    by (auto simp: u with_echo_def reconcile_frame_def e1 confirmed_def f(6) small_words)
  define m3 where "m3 = fst (acknowledge m2 10)"
  have c2: "\<forall>e \<in> set (unconfirmed_inputs (ti_echo_engine m2)). pe_seq_num e \<le> 10" using f2(2) by auto
  then have m3: "m3 = m2\<lparr>ti_echo_engine := (ti_echo_engine m2)\<lparr>unconfirmed_inputs := []\<rparr>\<rparr>"
    by (simp add: m3_def acknowledge_def with_echo_def reconcile_all_confirmed)
  have wf3: "mirror_wf m3" using apply_frame_ok(2) [OF wf filled_grid_wf, of 80 24 0 0 True "str ''.''" 1] m2 by (simp add: m3)
  define grid2 where "grid2 = (let cells = gs_cells ?grid in ?grid\<lparr>gs_cells := cells[0 := set_text (str ''x'') (cells ! 0), 1 := set_text (str ''y'') (cells ! 1), 2 := set_text (str ''z'') (cells ! 2)]\<rparr>)"
  have g: "grid_wf grid2" by (simp add: grid2_def Let_def grid_wf_def) (simp add: filled_grid_def)
  have c3: "\<forall>e \<in> set (unconfirmed_inputs (ti_echo_engine m3)). pe_seq_num e \<le> 2" by (simp add: m3)
  obtain m4 r4 where m4: "apply_frame m3 grid2 2 = (m4, r4)" by force
  have f4: "tf_cell_cache (ti_frame m4) = gs_cells grid2" "\<not> isl r4"
    by (rule apply_frame_quiet [OF wf3 g c3], use m4 in auto)+
  have g2: "text_at (ti_frame m4) 0 = Inr (str ''x'')" "text_at (ti_frame m4) 1 = Inr (str ''y'')" "text_at (ti_frame m4) 2 = Inr (str ''z'')"
    unfolding f4 grid2_def Let_def by (simp_all add: abc_cells) (simp_all add: str_def)
  have "text_at (ti_frame m2) 0 = Inr (str ''a'')" "text_at (ti_frame m2) 1 = Inr (str ''b'')" "text_at (ti_frame m2) 2 = Inr (str ''c'')"
    "text_at (ti_frame m2) 3 = Inr (str ''.'')"
    unfolding f2 by (simp_all add: abc_cells as_str_new stored_len_def) (simp_all add: str_def)
  moreover have "text_at (ti_frame m1) 0 = Inr (str ''a'')" "text_at (ti_frame m1) 1 = Inr (str ''b'')" "text_at (ti_frame m1) 2 = Inr (str ''c'')"
    unfolding f1 by (simp_all add: abc_cells) (simp_all add: str_def)
  ultimately show ?thesis
    using e1 f1 m2 m4 f2(3) f4(2) g2 unfolding test_local_echo_and_pruning_def m1_def [symmetric]
    by (simp add: Let_def m3_def [symmetric] grid2_def m3 TerminalFrame_new_def)
qed

end
