(* ===== verification/Rumsh_Session_Tests.thy ===== *)
theory Rumsh_Session_Tests
  imports Rumsh_Tests
begin

text \<open>
  The unit tests of the two sessions, run on the model.  They use \<open>NullCodec\<close> and \<open>FakePty\<close>; the serialiser and the
  emulator are parameters, and so are the readings of the clock.  An \<open>unwrap\<close> of an error is \<open>None\<close> and fails the test.
\<close>

section \<open>Harness\<close>

definition passes :: "'a option \<Rightarrow> ('a \<Rightarrow> bool) \<Rightarrow> bool" where
  "passes x test = (case x of None \<Rightarrow> False | Some v \<Rightarrow> test v)"

definition unwrap :: "'s \<times> 'a res \<Rightarrow> ('s \<times> 'a) option" where
  "unwrap x = (case x of (s, Inr v) \<Rightarrow> Some (s, v) | (s, Inl _) \<Rightarrow> None)"

lemma passes_Some [simp]: "passes (Some v) test = test v" "passes None test = False"
  by (simp_all add: passes_def)

lemma unwrap_simps [simp]: "unwrap (s, Inr v) = Some (s, v)" "unwrap (s, Inl e) = None"
  by (simp_all add: unwrap_def)

text \<open>A serialiser that encodes every value, as the serde implementations derived in \<open>protocol.rs\<close> do.\<close>

locale wire_lib_total = wire_lib_small L for L :: codec_lib +
  assumes client_payload_total: "\<exists>b. enc (client_payload L) cp = Some b"
    and server_payload_total: "\<exists>b. enc (server_payload L) sp = Some b"
    and client_packet_total: "\<exists>b. enc (client_packet L) cq = Some b"
    and server_packet_total: "\<exists>b. enc (server_packet L) sq = Some b"
    and aead_total: "\<exists>c. aead_seal L k n p = Some c"

interpretation ref_total: wire_lib_total ref_lib
  by unfold_locales (simp_all add: ref_lib_def serde_of_def)

section \<open>The server session\<close>

type_synonym 'v tested = "(NullCodec, 'v, FakePty) AuthoritativeSession"

definition test_addr :: socket_addr where
  "test_addr = ([127, 0, 0, 1], 12345)"

definition make_client_packet :: "'c PacketCodec \<Rightarrow> ('c, 'v, 'p) AuthoritativeSession \<Rightarrow> u64 \<Rightarrow> ClientPayload \<Rightarrow> bytes res" where
  "make_client_packet C session seq payload = seal_client C (as_codec session) (as_session_id session) seq 0 payload"

definition new_session :: "'v ghostty \<Rightarrow> instant \<Rightarrow> 'v tested option" where
  "new_session G now =
     (case AuthoritativeSession_new G 12345 (NullCodec_new 12345) 0 test_addr 80 24 FakePty_new now of
        Inl _ \<Rightarrow> None | Inr session \<Rightarrow> Some session)"

definition feed :: "codec_lib \<Rightarrow> 'v ghostty \<Rightarrow> 'v tested \<Rightarrow> u64 \<Rightarrow> ClientPayload \<Rightarrow> instant
    \<Rightarrow> ('v tested \<times> NullCodec SessionAction list) option" where
  "feed L G session seq payload now =
     (case make_client_packet (null_codec L) session seq payload of
        Inl _ \<Rightarrow> None
      | Inr pkt \<Rightarrow> unwrap (server_feed_packet (null_codec L) G fake_pty session pkt test_addr now))"

definition test_sliding_window_ordering :: "codec_lib \<Rightarrow> 'v ghostty \<Rightarrow> instant \<times> instant \<times> instant \<times> instant \<Rightarrow> bool" where
  "test_sliding_window_ordering L G = (\<lambda>(t0, t1, t2, t3).
     passes (new_session G t0) (\<lambda>s0.
     passes (feed L G s0 1 (Keystrokes (str ''a'')) t1) (\<lambda>(s1, _).
       as_ack_seq_num s1 = 1 \<and> fp_written (as_pty s1) = [str ''a''] \<and>
     passes (feed L G s1 3 (Keystrokes (str ''c'')) t2) (\<lambda>(s2, _).
       as_ack_seq_num s2 = 1 \<and> length (as_out_of_order_packets s2) = 1 \<and>
     passes (feed L G s2 2 (Keystrokes (str ''b'')) t3) (\<lambda>(s3, _).
       as_ack_seq_num s3 = 3 \<and> as_out_of_order_packets s3 = []
       \<and> fp_written (as_pty s3) = [str ''a'', str ''b'', str ''c''])))))"

definition test_multiple_dropped_packets_recovery ::
    "codec_lib \<Rightarrow> 'v ghostty \<Rightarrow> instant \<times> instant \<times> instant \<times> instant \<times> instant \<times> instant \<Rightarrow> bool" where
  "test_multiple_dropped_packets_recovery L G = (\<lambda>(t0, t1, t2, t3, t4, t5).
     passes (new_session G t0) (\<lambda>s0.
     passes (feed L G s0 1 (Keystrokes (str ''1'')) t1) (\<lambda>(s1, _).
     passes (feed L G s1 4 (Keystrokes (str ''4'')) t2) (\<lambda>(s2, actions).
       actions = [] \<and>
     passes (feed L G s2 5 (Keystrokes (str ''5'')) t3) (\<lambda>(s3, actions).
       actions = [] \<and> as_ack_seq_num s3 = 1 \<and> length (as_out_of_order_packets s3) = 2 \<and>
     passes (feed L G s3 2 (Keystrokes (str ''2'')) t4) (\<lambda>(s4, _).
       as_ack_seq_num s4 = 2 \<and> length (as_out_of_order_packets s4) = 2 \<and>
     passes (feed L G s4 3 (Keystrokes (str ''3'')) t5) (\<lambda>(s5, _).
       as_ack_seq_num s5 = 5 \<and> as_out_of_order_packets s5 = []
       \<and> fp_written (as_pty s5) = [str ''1'', str ''2'', str ''3'', str ''4'', str ''5''])))))))"

definition test_duplicate_packet_handling :: "codec_lib \<Rightarrow> 'v ghostty \<Rightarrow> instant \<times> instant \<times> instant \<Rightarrow> bool" where
  "test_duplicate_packet_handling L G = (\<lambda>(t0, t1, t2).
     passes (new_session G t0) (\<lambda>s0.
     passes (feed L G s0 1 (Keystrokes (str ''a'')) t1) (\<lambda>(s1, _).
     passes (feed L G (s1\<lparr>as_term_state := fst (st_write G (as_term_state s1) (str ''x'')), as_dirty := True\<rparr>)
         1 (Keystrokes (str ''a'')) (t2 + from_millis 20)) (\<lambda>(s2, actions). actions = []))))"

definition test_resize_action :: "codec_lib \<Rightarrow> 'v ghostty \<Rightarrow> instant \<times> instant \<Rightarrow> bool" where
  "test_resize_action L G = (\<lambda>(t0, t1).
     passes (new_session G t0) (\<lambda>s0.
     passes (feed L G s0 1 (Resize 100 40) t1) (\<lambda>(s1, actions).
       fp_resized (as_pty s1) = [(100, 40)] \<and> (case actions of [OffloadDiffJob _ _] \<Rightarrow> True | _ \<Rightarrow> False))))"

definition test_keepalive_action :: "codec_lib \<Rightarrow> 'v ghostty \<Rightarrow> instant \<times> instant \<Rightarrow> bool" where
  "test_keepalive_action L G = (\<lambda>(t0, t1).
     passes (new_session G t0) (\<lambda>s0.
     passes (feed L G s0 1 C_KeepAlive t1) (\<lambda>(s1, actions).
       (case actions of
          [Send_packet bs target] \<Rightarrow> target = test_addr \<and>
            (case open_server (null_codec L) (as_codec s1) bs of
               (_, Inr (Some (pkt, payload, _))) \<Rightarrow>
                 esp_seq_num pkt = 1 \<and> esp_ack_seq_num pkt = 1 \<and> payload = S_KeepAlive
             | _ \<Rightarrow> False)
        | _ \<Rightarrow> False))))"

definition test_update_job_compilation_and_pruning ::
    "'v ghostty \<Rightarrow> instant \<times> instant \<times> instant \<times> instant \<times> instant \<Rightarrow> bool" where
  "test_update_job_compilation_and_pruning G = (\<lambda>(t0, t1, t2, t3, t4).
     passes (new_session G t0) (\<lambda>s0.
     passes (unwrap (server_on_tick G fake_pty (s0\<lparr>as_dirty := True\<rparr>) t1)) (\<lambda>(s1, actions1).
       length actions1 = 1 \<and> length (as_state_history s1) = 1 \<and>
     passes (unwrap (server_on_tick G fake_pty (s1\<lparr>as_dirty := True\<rparr>) t2)) (\<lambda>(s2, actions2).
       actions2 = [] \<and>
     passes (unwrap (server_on_tick G fake_pty (on_pty_bytes G fake_pty s2 (str ''x'') (t3 + from_millis 20)) (t4 + from_millis 20)))
       (\<lambda>(s3, actions3). length actions3 = 1 \<and> length (as_state_history s3) = 2)))))"

definition test_flood_mode_throttling :: "'v ghostty \<Rightarrow> instant \<times> instant \<Rightarrow> bool" where
  "test_flood_mode_throttling G = (\<lambda>(t0, start).
     passes (new_session G t0) (\<lambda>s0.
     passes (unwrap (server_on_tick G fake_pty (s0\<lparr>as_dirty := True\<rparr>) start)) (\<lambda>(s1, actions).
       length actions = 1 \<and>
     passes (unwrap (server_on_tick G fake_pty (on_pty_bytes G fake_pty s1 (replicate 4096 97) (start + from_millis 10)) (start + from_millis 25)))
       (\<lambda>(s2, actions_throttled). actions_throttled = [] \<and>
     passes (unwrap (server_on_tick G fake_pty s2 (start + from_millis 165))) (\<lambda>(s3, actions_flooded). length actions_flooded = 1)))))"

definition test_transient_packet_does_not_stall_reliable_packets ::
    "codec_lib \<Rightarrow> 'v ghostty \<Rightarrow> instant \<times> instant \<times> instant \<times> instant \<Rightarrow> bool" where
  "test_transient_packet_does_not_stall_reliable_packets L G = (\<lambda>(t0, t1, t2, t3).
     passes (new_session G t0) (\<lambda>s0.
     passes (feed L G s0 1 (Keystrokes (str ''hello'')) t1) (\<lambda>(s1, _).
       as_ack_seq_num s1 = 1 \<and> as_expected_client_seq s1 = 2 \<and>
     passes (feed L G s1 (push_bit 63 1 OR 1) (FragmentNack 10 [1]) t2) (\<lambda>(s2, actions).
       (case actions of [ResendFragments _ _ _] \<Rightarrow> True | _ \<Rightarrow> False)
       \<and> as_expected_client_seq s2 = 2 \<and> as_out_of_order_packets s2 = [] \<and>
     passes (feed L G s2 2 (Keystrokes (str ''world'')) t3) (\<lambda>(s3, _).
       as_ack_seq_num s3 = 2 \<and> as_expected_client_seq s3 = 3 \<and> as_out_of_order_packets s3 = []
       \<and> fp_written (as_pty s3) = [str ''hello'', str ''world''])))))"

section \<open>Running the server tests\<close>

text \<open>What the emulator does in the tests: it can be created and read.\<close>

definition readable :: "'v ghostty \<Rightarrow> bool" where
  "readable G \<longleftrightarrow> (\<exists>ts. ServerTerminalState_new G 80 24 = Inr ts) \<and> (\<forall>ts. st_wf ts \<longrightarrow> (\<exists>g. snd (update_and_get_state G ts) = Inr g))"

definition tested_ok :: "'v tested \<Rightarrow> bool" where
  "tested_ok s \<longleftrightarrow> server_wf s \<and> as_codec s = NullCodec_new 12345 \<and> as_session_id s = 12345"

text \<open>The state the tests look at.\<close>

definition stream_at :: "'v tested \<Rightarrow> u64 \<Rightarrow> (u64 \<times> ClientPayload) list \<Rightarrow> bytes list \<Rightarrow> bool" where
  "stream_at s expected buf written \<longleftrightarrow> tested_ok s \<and> as_ack_seq_num s = expected - 1 \<and> as_expected_client_seq s = expected
     \<and> as_out_of_order_packets s = buf \<and> fp_written (as_pty s) = written"

text \<open>Whether a look at the screen sends a frame.\<close>

lemma check_sync_waits:
  "as_seq_num s > 0 \<Longrightarrow> duration_since now (as_last_sync_time s) < min_interval s now \<Longrightarrow> check_sync G P s now = (s, Inr [])"
  by (simp add: check_sync_def)

lemma check_sync_sends:
  assumes "\<not> (as_seq_num s > 0 \<and> duration_since now (as_last_sync_time s) < min_interval s now)"
    and "as_dirty s \<or> as_ack_seq_num s > as_last_sent_ack_seq s" "update_and_get_state G (as_term_state s) = (ts, Inr g)"
    and "as_state_history s = [] \<or> snd (last (as_state_history s)) \<noteq> g \<or> as_ack_seq_num s > as_last_sent_ack_seq s"
  shows "\<exists>acc \<le> as_pty_bytes_acc s. check_sync G P s now = apsnd Inr (queue_frame P (s\<lparr>as_pty_bytes_acc := acc, as_term_state := ts\<rparr>) g now)"
proof -
  define acc where "acc = (if duration_since now (as_last_pty_bytes_time s) \<ge> from_millis 50 then 0 else as_pty_bytes_acc s)"
  have "(if duration_since now (as_last_pty_bytes_time s) \<ge> from_millis 50 then s\<lparr>as_pty_bytes_acc := 0\<rparr> else s) = s\<lparr>as_pty_bytes_acc := acc\<rparr>"
    by (simp add: acc_def)
  note sync = check_sync_def [of G P s now, unfolded this if_not_P [OF assms(1)]]
  have busy: "\<not> (\<not> as_dirty s \<and> as_ack_seq_num s \<le> as_last_sent_ack_seq s)"
    "\<not> ((as_state_history s \<noteq> [] \<and> snd (last (as_state_history s)) = g) \<and> \<not> as_ack_seq_num s > as_last_sent_ack_seq s)"
    using assms(2,4) by auto
  show ?thesis
    using assms(3) busy unfolding sync
    by (intro exI [of _ acc]) (cases "queue_frame P (s\<lparr>as_pty_bytes_acc := acc, as_term_state := ts\<rparr>) g now"; auto simp: Let_def acc_def)
qed

lemma new_session_ok:
  assumes "readable G"
  obtains s where "new_session G t0 = Some s" "tested_ok s" "as_seq_num s = 0" "as_ack_seq_num s = 0" "as_expected_client_seq s = 1"
    "as_out_of_order_packets s = []" "as_last_sent_ack_seq s = 0" "as_state_history s = []" "as_last_sync_time s = t0"
    "as_last_pty_bytes_time s = t0" "as_pty s = FakePty_new" "as_pty_bytes_acc s = 0" "ServerTerminalState_new G 80 24 = Inr (as_term_state s)"
proof -
  from assms obtain ts where "ServerTerminalState_new G 80 24 = Inr ts" by (auto simp: readable_def)
  moreover from this have "st_wf ts" by (rule ServerTerminalState_new_wf)
  ultimately show thesis
    by (intro that [of "the (new_session G t0)"]) (simp_all add: new_session_def AuthoritativeSession_new_def tested_ok_def server_wf_def)
qed

lemma readable_no_panic:
  assumes "readable G" "server_wf s"
  shows "\<exists>s1 more. check_sync G P s now = (s1, Inr more)"
  using assms by (auto simp: readable_def server_wf_def check_sync_def Let_def split: prod.splits)

lemma then_sync_fake:
  assumes "readable G" "server_wf s"
  obtains s1 more where "then_sync G fake_pty s now actions = (s1, Inr (actions @ more))" "server_wf s1" "stream_view s1 = stream_view s" "as_pty s1 = as_pty s"
proof -
  obtain s1 more where c: "check_sync G fake_pty s now = (s1, Inr more)" using readable_no_panic [OF assms] by blast
  have "as_pty s1 = as_pty s"
    by (rule check_sync_cases [OF assms(2), of G fake_pty now]) (use c in \<open>auto simp: queue_frame_eq Let_def fake_pty_def\<close>)
  with c check_sync_wf [OF assms(2), of G fake_pty now] show thesis by (intro that [of s1 more]) (auto simp: then_sync_def)
qed

lemma drain_stops: "map_of buf e = None \<Longrightarrow> drain buf e = (buf, e, [])"
  by (simp add: drain.simps)

lemma drain_goes_on: "map_of buf e = Some p \<Longrightarrow> drain (map_remove e buf) (e + 1) = (b, x, r) \<Longrightarrow> drain buf e = (b, x, (e, p) # r)"
  by (subst drain.simps) simp

context wire_lib_total
begin

lemma feed_eq:
  assumes "tested_ok s"
  shows "feed L G s seq payload now = unwrap
    (let s1 = s\<lparr>as_last_recv_time := now, as_current_client_addr := test_addr\<rparr>
     in if is_transient seq payload then handle_transient G fake_pty s1 0 payload now
        else if seq < as_expected_client_seq s1 then (s1, Inr [])
        else if seq > as_expected_client_seq s1 then
          (s1\<lparr>as_out_of_order_packets := bt_insert seq payload (as_out_of_order_packets s1)\<rparr>, Inr [])
        else handle_in_order (null_codec L) G fake_pty s1 seq 0 payload now)"
proof -
  have c: "as_codec s = NullCodec_new 12345" "as_session_id s = 12345" using assms by (simp_all add: tested_ok_def)
  obtain b where "enc (client_payload L) payload = Some b" using client_payload_total by blast
  moreover obtain pkt where "enc (client_packet L) \<lparr>ecp_session_id = 12345, ecp_seq_num = seq, ecp_ack_seq_num = 0, ecp_ciphertext = b\<rparr> = Some pkt"
    using client_packet_total by blast
  ultimately have seal: "seal_client (null_codec L) (as_codec s) (as_session_id s) seq 0 payload = Inr pkt"
    by (simp add: null_codec_def null_seal_client_def serialize_def c)
  from null.open_seal_client [OF seal refl] c obtain cpkt stats where "open_client (null_codec L) (as_codec s) pkt = Inr (cpkt, payload, stats)"
    "ecp_session_id cpkt = 12345" "ecp_seq_num cpkt = seq" "ecp_ack_seq_num cpkt = 0" by (auto simp: NullCodec_new_def)
  then show ?thesis using seal c by (simp add: feed_def make_client_packet_def server_feed_packet_def Let_def)
qed

lemma feed_early:
  assumes "tested_ok s" "reliable_seq seq" "as_expected_client_seq s < seq"
  shows "\<exists>s1. feed L G s seq (Keystrokes keys) now = Some (s1, []) \<and> tested_ok s1 \<and> as_ack_seq_num s1 = as_ack_seq_num s
    \<and> as_expected_client_seq s1 = as_expected_client_seq s \<and> as_pty s1 = as_pty s
    \<and> as_out_of_order_packets s1 = bt_insert seq (Keystrokes keys) (as_out_of_order_packets s)"
  using assms by (auto simp: feed_eq reliable_not_transient reliable_payload_def tested_ok_def server_wf_def Let_def
      btree.invar_insert)

lemma feed_old:
  assumes "tested_ok s" "reliable_seq seq" "seq < as_expected_client_seq s"
  shows "\<exists>s1. feed L G s seq (Keystrokes keys) now = Some (s1, [])"
  using assms by (auto simp: feed_eq reliable_not_transient reliable_payload_def Let_def)

lemma feed_in_order:
  assumes "tested_ok s" "readable G" "reliable_seq seq" "seq = as_expected_client_seq s"
    and "drain (as_out_of_order_packets s) (seq + 1) = (buf, expected, map (\<lambda>(q, keys). (q, Keystrokes keys)) rest)"
  shows "\<exists>s1 actions. feed L G s seq (Keystrokes keys) now = Some (s1, actions) \<and> tested_ok s1 \<and> as_ack_seq_num s1 = expected - 1
    \<and> as_expected_client_seq s1 = expected \<and> as_out_of_order_packets s1 = buf
    \<and> fp_written (as_pty s1) = fp_written (as_pty s) @ keys # map snd rest"
proof -
  let ?s0 = "s\<lparr>as_last_recv_time := now, as_current_client_addr := test_addr\<rparr>"
  define s1 where "s1 = ?s0\<lparr>as_out_of_order_packets := buf, as_expected_client_seq := expected, as_ack_seq_num := expected - 1, as_client_ack_seq := 0\<rparr>"
  have wf0: "server_wf ?s0" "server_wf s1"
    using assms(1) drain_wf [of "as_out_of_order_packets s" "seq + 1"] assms(5) by (auto simp: s1_def tested_ok_def server_wf_def)
  have written: "process_payloads (null_codec L) G fake_pty t (map (\<lambda>(q, keys). (q, Keystrokes keys)) ks)
      = (t\<lparr>as_pty := (as_pty t)\<lparr>fp_written := fp_written (as_pty t) @ map snd ks\<rparr>\<rparr>, Inr [])" for t ks
    by (induction ks arbitrary: t) (auto simp: process_payload_def fake_pty_def)
  define s2 where "s2 = s1\<lparr>as_pty := (as_pty s1)\<lparr>fp_written := fp_written (as_pty s1) @ keys # map snd rest\<rparr>\<rparr>"
  have p: "process_payloads (null_codec L) G fake_pty s1 ((seq, Keystrokes keys) # map (\<lambda>(q, keys). (q, Keystrokes keys)) rest) = (s2, Inr [])"
    using written [of s1 "(seq, keys) # rest"] by (simp add: s2_def)
  have "server_wf s2" using wf0(2) by (simp add: s2_def server_wf_def)
  then obtain s3 more where sync: "then_sync G fake_pty s2 now [] = (s3, Inr ([] @ more))" "server_wf s3" "stream_view s3 = stream_view s2" "as_pty s3 = as_pty s2"
    by (rule then_sync_fake [OF assms(2)])
  have "feed L G s seq (Keystrokes keys) now = unwrap (handle_in_order (null_codec L) G fake_pty ?s0 seq 0 (Keystrokes keys) now)"
    using assms(1,3,4) by (simp add: feed_eq reliable_not_transient reliable_payload_def Let_def)
  also have "\<dots> = Some (s3, more)" using assms(4,5) p sync(1) by (simp add: handle_in_order_def s1_def Let_def del: process_payloads.simps)
  finally show ?thesis using sync(2-4) assms(1) by (simp add: s2_def s1_def stream_view_def tested_ok_def)
qed

lemma stream_early:
  assumes "stream_at s expected buf written" "expected < seq" "reliable_seq seq" "bt_insert seq (Keystrokes keys) buf = buf'"
  obtains s1 where "feed L G s seq (Keystrokes keys) now = Some (s1, [])" "stream_at s1 expected buf' written"
  using assms feed_early [of s seq G keys now] unfolding stream_at_def by metis

lemma stream_in_order:
  assumes "readable G" "stream_at s expected buf written" "reliable_seq expected"
    and "drain buf (expected + 1) = (buf', expected', map (\<lambda>(q, keys). (q, Keystrokes keys)) rest)" "written' = written @ keys # map snd rest"
  obtains s1 actions where "feed L G s expected (Keystrokes keys) now = Some (s1, actions)" "stream_at s1 expected' buf' written'"
  using assms feed_in_order [of s G expected buf' expected' rest keys now] unfolding stream_at_def by metis

lemma stream_starts:
  assumes "readable G"
  obtains s where "new_session G t0 = Some s" "stream_at s 1 [] []"
  by (rule new_session_ok [OF assms, of t0]) (auto intro: that simp: stream_at_def FakePty_new_def)

lemma sliding_window_test:
  assumes "readable G"
  shows "test_sliding_window_ordering L G ts"
proof -
  obtain t0 t1 t2 t3 where ts: "ts = (t0, t1, t2, t3)" by (metis prod_cases4)
  obtain s0 where s0: "new_session G t0 = Some s0" "stream_at s0 1 [] []" by (rule stream_starts [OF assms])
  obtain s1 a1 where s1: "feed L G s0 1 (Keystrokes (str ''a'')) t1 = Some (s1, a1)" "stream_at s1 2 [] [str ''a'']"
    by (rule stream_in_order [OF assms s0(2), of "[]" 2 "[]"]) (simp_all add: drain_stops)
  obtain s2 where s2: "feed L G s1 3 (Keystrokes (str ''c'')) t2 = Some (s2, [])" "stream_at s2 2 [(3, Keystrokes (str ''c''))] [str ''a'']"
    by (rule stream_early [OF s1(2), of 3]) simp_all
  have d: "drain [(3, Keystrokes (str ''c''))] 3 = ([], 4, [(3, Keystrokes (str ''c''))])"
    by (rule drain_goes_on) (simp_all add: drain_stops map_remove_def)
  obtain s3 a3 where s3: "feed L G s2 2 (Keystrokes (str ''b'')) t3 = Some (s3, a3)" "stream_at s3 4 [] [str ''a'', str ''b'', str ''c'']"
    by (rule stream_in_order [OF assms s2(2), of "[]" 4 "[(3, str ''c'')]"]) (simp_all add: d)
  show ?thesis using s0(1) s1 s2 s3 by (simp add: test_sliding_window_ordering_def ts stream_at_def)
qed

lemma dropped_packets_test:
  assumes "readable G"
  shows "test_multiple_dropped_packets_recovery L G ts"
proof -
  obtain t0 t1 t2 t3 t4 t5 where ts: "ts = (t0, t1, t2, t3, t4, t5)" by (metis prod_cases6)
  let ?k = "\<lambda>c. Keystrokes (str c)"
  obtain s0 where s0: "new_session G t0 = Some s0" "stream_at s0 1 [] []" by (rule stream_starts [OF assms])
  obtain s1 a1 where s1: "feed L G s0 1 (?k ''1'') t1 = Some (s1, a1)" "stream_at s1 2 [] [str ''1'']"
    by (rule stream_in_order [OF assms s0(2), of "[]" 2 "[]"]) (simp_all add: drain_stops)
  obtain s2 where s2: "feed L G s1 4 (?k ''4'') t2 = Some (s2, [])" "stream_at s2 2 [(4, ?k ''4'')] [str ''1'']"
    by (rule stream_early [OF s1(2), of 4]) simp_all
  obtain s3 where s3: "feed L G s2 5 (?k ''5'') t3 = Some (s3, [])" "stream_at s3 2 [(4, ?k ''4''), (5, ?k ''5'')] [str ''1'']"
    by (rule stream_early [OF s2(2), of 5]) simp_all
  obtain s4 a4 where s4: "feed L G s3 2 (?k ''2'') t4 = Some (s4, a4)" "stream_at s4 3 [(4, ?k ''4''), (5, ?k ''5'')] [str ''1'', str ''2'']"
    by (rule stream_in_order [OF assms s3(2), of "[(4, ?k ''4''), (5, ?k ''5'')]" 3 "[]"]) (simp_all add: drain_stops)
  have "drain [(5, ?k ''5'')] 5 = ([], 6, [(5, ?k ''5'')])" by (rule drain_goes_on) (simp_all add: drain_stops map_remove_def)
  then have d: "drain [(4, ?k ''4''), (5, ?k ''5'')] 4 = ([], 6, [(4, ?k ''4''), (5, ?k ''5'')])"
    by (intro drain_goes_on) (simp_all add: map_remove_def)
  obtain s5 a5 where s5: "feed L G s4 3 (?k ''3'') t5 = Some (s5, a5)" "stream_at s5 6 [] [str ''1'', str ''2'', str ''3'', str ''4'', str ''5'']"
    by (rule stream_in_order [OF assms s4(2), of "[]" 6 "[(4, str ''4''), (5, str ''5'')]"]) (simp_all add: d)
  show ?thesis using s0(1) s1 s2 s3 s4 s5 by (simp add: test_multiple_dropped_packets_recovery_def ts stream_at_def)
qed

lemma duplicate_test:
  assumes "readable G"
  shows "test_duplicate_packet_handling L G ts"
proof -
  obtain t0 t1 t2 where ts: "ts = (t0, t1, t2)" by (metis prod_cases3)
  obtain s0 where s0: "new_session G t0 = Some s0" "stream_at s0 1 [] []" by (rule stream_starts [OF assms])
  obtain s1 a1 where s1: "feed L G s0 1 (Keystrokes (str ''a'')) t1 = Some (s1, a1)" "stream_at s1 2 [] [str ''a'']"
    by (rule stream_in_order [OF assms s0(2), of "[]" 2 "[]"]) (simp_all add: drain_stops)
  let ?s = "s1\<lparr>as_term_state := fst (st_write G (as_term_state s1) (str ''x'')), as_dirty := True\<rparr>"
  have ok: "tested_ok ?s" "as_expected_client_seq ?s = 2"
    using s1(2) by (simp_all add: stream_at_def tested_ok_def server_wf_def st_write_wf)
  from feed_old [OF this(1), of 1 G "str ''a''" "t2 + from_millis 20"] this(2) s0(1) s1(1) show ?thesis
    by (auto simp: test_duplicate_packet_handling_def ts)
qed

text \<open>The next packet in order, with nothing buffered behind it.\<close>

lemma feed_next:
  assumes "tested_ok s" "reliable_seq seq" "reliable_payload payload" "as_expected_client_seq s = seq" "as_out_of_order_packets s = []"
  shows "feed L G s seq payload now = unwrap (st_then (process_payload (null_codec L) G fake_pty
      (s\<lparr>as_last_recv_time := now, as_current_client_addr := test_addr, as_out_of_order_packets := [], as_expected_client_seq := seq + 1,
         as_ack_seq_num := seq, as_client_ack_seq := 0\<rparr>) payload) (\<lambda>s1 actions. then_sync G fake_pty s1 now actions))"
  using assms by (simp add: feed_eq reliable_not_transient handle_in_order_def drain_stops Let_def)
    (simp add: st_then_def split: prod.splits sum.splits)

lemma resize_test:
  assumes "readable G"
  shows "test_resize_action L G ts"
proof -
  obtain t0 t1 where ts: "ts = (t0, t1)" by force
  obtain s0 where s0: "new_session G t0 = Some s0" "tested_ok s0" "as_seq_num s0 = 0" "as_expected_client_seq s0 = 1"
    "as_out_of_order_packets s0 = []" "as_state_history s0 = []" "as_pty s0 = FakePty_new"
    by (rule new_session_ok [OF assms])
  define s1 where "s1 = s0\<lparr>as_last_recv_time := t1, as_current_client_addr := test_addr, as_out_of_order_packets := [], as_expected_client_seq := 2,
         as_ack_seq_num := 1, as_client_ack_seq := 0, as_pty := \<lparr>fp_written = [], fp_resized = [(100, 40)], fp_echo_recommended = False\<rparr>,
         as_term_state := fst (st_resize G (as_term_state s0) 100 40), as_dirty := True\<rparr>"
  have "st_wf (as_term_state s1)" using s0(2) by (simp add: s1_def tested_ok_def server_wf_def st_resize_wf)
  then obtain ts' g where g: "update_and_get_state G (as_term_state s1) = (ts', Inr g)" using assms unfolding readable_def by (metis prod.collapse)
  have "feed L G s0 1 (Resize 100 40) t1 = unwrap (then_sync G fake_pty s1 t1 [])"
    by (simp add: feed_next [OF s0(2) _ _ s0(4,5)] reliable_payload_def process_payload_def fake_pty_def s1_def s0(7) FakePty_new_def)
  moreover obtain acc where "check_sync G fake_pty s1 t1 = apsnd Inr (queue_frame fake_pty (s1\<lparr>as_pty_bytes_acc := acc, as_term_state := ts'\<rparr>) g t1)"
    using check_sync_sends [OF _ _ g, of t1 fake_pty] s0(3,6) by (auto simp: s1_def)
  ultimately show ?thesis using s0(1)
    by (simp add: test_resize_action_def ts then_sync_def queue_frame_eq Let_def fake_pty_def) (simp add: s1_def)
qed

lemma null_single:
  assumes "is_control_msg p"
  obtains b where "seal_server (null_codec L) c seq ack p = Inr [b]"
    "\<And>c'. \<exists>stats. open_server (null_codec L) c' b = (c', Inr (Some (\<lparr>esp_seq_num = seq, esp_ack_seq_num = ack, esp_frag_idx = 0, esp_total_frags = 1,
       esp_ciphertext = the (enc (server_payload L) p)\<rparr>, p, stats)))
       \<and> comp_len stats = decomp_len stats"
proof -
  obtain pb where pb: "enc (server_payload L) p = Some pb" using server_payload_total by blast
  let ?pkt = "\<lparr>esp_seq_num = seq, esp_ack_seq_num = ack, esp_frag_idx = 0, esp_total_frags = 1, esp_ciphertext = pb\<rparr>"
  have small: "length pb \<le> FRAGMENT_PAYLOAD_SIZE" using control_small [OF assms pb] by (simp add: FRAGMENT_PAYLOAD_SIZE_def)
  obtain b where b: "enc (server_packet L) ?pkt = Some b" using server_packet_total by blast
  show thesis
  proof (rule that [of b])
    show "seal_server (null_codec L) c seq ack p = Inr [b]"
      using pb b small by (simp add: null_codec_def null_seal_server_def serialize_def fragment_packets_small)
    show "\<exists>stats. open_server (null_codec L) c' b = (c', Inr (Some (\<lparr>esp_seq_num = seq, esp_ack_seq_num = ack, esp_frag_idx = 0, esp_total_frags = 1,
       esp_ciphertext = the (enc (server_payload L) p)\<rparr>, p, stats)))
       \<and> comp_len stats = decomp_len stats" for c'
      using pb b by (cases c') (simp add: null_codec_def null_open_server_def server_packet_ok server_payload_ok FragmentBuffer_insert_def)
  qed
qed

lemma keepalive_test:
  assumes "readable G" "t1 < t0 + from_millis 16"
  shows "test_keepalive_action L G (t0, t1)"
proof -
  obtain s0 where s0: "new_session G t0 = Some s0" "tested_ok s0" "as_seq_num s0 = 0" "as_expected_client_seq s0 = 1"
    "as_out_of_order_packets s0 = []" "as_last_sync_time s0 = t0" "as_pty_bytes_acc s0 = 0"
    by (rule new_session_ok [OF assms(1)])
  define s1 where "s1 = s0\<lparr>as_last_recv_time := t1, as_current_client_addr := test_addr, as_out_of_order_packets := [], as_expected_client_seq := 2,
         as_ack_seq_num := 1, as_client_ack_seq := 0, as_seq_num := 1\<rparr>"
  obtain b where b: "seal_server (null_codec L) (as_codec s0) 1 1 S_KeepAlive = Inr [b]"
    "\<And>c'. \<exists>stats. open_server (null_codec L) c' b = (c', Inr (Some (\<lparr>esp_seq_num = 1, esp_ack_seq_num = 1, esp_frag_idx = 0, esp_total_frags = 1,
       esp_ciphertext = the (enc (server_payload L) S_KeepAlive)\<rparr>, S_KeepAlive, stats))) \<and> comp_len stats = decomp_len stats"
    by (rule null_single [of S_KeepAlive "as_codec s0" 1 1]) (simp_all add: is_control_msg_def)
  have "feed L G s0 1 C_KeepAlive t1 = unwrap (then_sync G fake_pty s1 t1 [Send_packet b test_addr])"
    using b(1) by (simp add: feed_next [OF s0(2) _ _ s0(4,5)] reliable_payload_def process_payload_def s0(3) s1_def send_all_def Let_def)
  moreover have "check_sync G fake_pty s1 t1 = (s1, Inr [])"
    using assms(2) s0(6,7) by (intro check_sync_waits) (simp_all add: s1_def min_interval_def is_flooding_def duration_since_def from_millis_def)
  ultimately show ?thesis using s0(1) b(2) [of "as_codec s1"] by (auto simp: test_keepalive_action_def then_sync_def)
qed

lemma check_sync_idle:
  assumes "\<not> as_dirty s" "as_ack_seq_num s \<le> as_last_sent_ack_seq s"
  shows "\<exists>acc. check_sync G P s now = (s\<lparr>as_pty_bytes_acc := acc\<rparr>, Inr [])"
proof (cases "as_seq_num s > 0 \<and> duration_since now (as_last_sync_time s) < min_interval s now")
  case True
  then show ?thesis by (intro exI [of _ "as_pty_bytes_acc s"]) (simp add: check_sync_def)
next
  case False
  show ?thesis
  proof (cases "duration_since now (as_last_pty_bytes_time s) \<ge> from_millis 50")
    case True
    with False assms show ?thesis by (intro exI [of _ 0]) (auto simp: check_sync_def Let_def)
  next
    case late: False
    with False assms show ?thesis by (intro exI [of _ "as_pty_bytes_acc s"]) (auto simp: check_sync_def Let_def)
  qed
qed

lemma transient_test:
  assumes "readable G"
  shows "test_transient_packet_does_not_stall_reliable_packets L G ts"
proof -
  obtain t0 t1 t2 t3 where ts: "ts = (t0, t1, t2, t3)" by (metis prod_cases4)
  obtain s0 where s0: "new_session G t0 = Some s0" "tested_ok s0" "as_seq_num s0 = 0" "as_expected_client_seq s0 = 1"
    "as_out_of_order_packets s0 = []" "as_last_sent_ack_seq s0 = 0" "as_pty s0 = FakePty_new"
    by (rule new_session_ok [OF assms])
  define s where "s = s0\<lparr>as_last_recv_time := t1, as_current_client_addr := test_addr, as_out_of_order_packets := [], as_expected_client_seq := 2,
         as_ack_seq_num := 1, as_client_ack_seq := 0, as_pty := FakePty_new\<lparr>fp_written := [str ''hello'']\<rparr>\<rparr>"
  have wf: "server_wf s" using s0(2) by (simp add: s_def tested_ok_def server_wf_def)
  then obtain ts' g where g: "update_and_get_state G (as_term_state s) = (ts', Inr g)"
    using assms unfolding readable_def server_wf_def by (metis prod.collapse)
  obtain acc where c: "check_sync G fake_pty s t1 = apsnd Inr (queue_frame fake_pty (s\<lparr>as_pty_bytes_acc := acc, as_term_state := ts'\<rparr>) g t1)"
    using check_sync_sends [OF _ _ g, of t1 fake_pty] s0(3,6) by (auto simp: s_def)
  define s1 where "s1 = fst (queue_frame fake_pty (s\<lparr>as_pty_bytes_acc := acc, as_term_state := ts'\<rparr>) g t1)"
  have view: "stream_view s1 = stream_view s" "server_wf s1" using check_sync_wf [OF wf, of G fake_pty t1] c by (simp_all add: s1_def)
  have s1: "stream_at s1 2 [] [str ''hello'']" "\<not> as_dirty s1" "as_last_sent_ack_seq s1 = 1" "as_client_ack_seq s1 = 0"
    using view s0(2) by (simp_all add: stream_at_def tested_ok_def stream_view_def s_def) (simp_all add: s1_def queue_frame_eq Let_def fake_pty_def s_def)
  have "feed L G s0 1 (Keystrokes (str ''hello'')) t1 = unwrap (then_sync G fake_pty s t1 [])"
    by (simp add: feed_next [OF s0(2) _ _ s0(4,5)] reliable_payload_def process_payload_def fake_pty_def s_def s0(7) FakePty_new_def)
  then have f1: "\<exists>a. feed L G s0 1 (Keystrokes (str ''hello'')) t1 = Some (s1, a)" using c
    by (cases "queue_frame fake_pty (s\<lparr>as_pty_bytes_acc := acc, as_term_state := ts'\<rparr>) g t1") (simp add: then_sync_def s1_def)
  define s2 where "s2 = s1\<lparr>as_last_recv_time := t2, as_current_client_addr := test_addr\<rparr>"
  obtain acc2 where "check_sync G fake_pty s2 t2 = (s2\<lparr>as_pty_bytes_acc := acc2\<rparr>, Inr [])"
    using check_sync_idle [of s2 G fake_pty t2] s1 by (auto simp: s2_def stream_at_def)
  then have f2: "feed L G s1 (push_bit 63 1 OR 1) (FragmentNack 10 [1]) t2 = Some (s2\<lparr>as_pty_bytes_acc := acc2\<rparr>, [ResendFragments 10 [1] test_addr])"
    using s1 by (simp add: feed_eq stream_at_def is_transient_def handle_transient_def Let_def then_sync_def s2_def)
  have st2: "stream_at (s2\<lparr>as_pty_bytes_acc := acc2\<rparr>) 2 [] [str ''hello'']" using s1(1) by (simp add: s2_def stream_at_def tested_ok_def server_wf_def)
  obtain s3 a3 where s3: "feed L G (s2\<lparr>as_pty_bytes_acc := acc2\<rparr>) 2 (Keystrokes (str ''world'')) t3 = Some (s3, a3)" "stream_at s3 3 [] [str ''hello'', str ''world'']"
    by (rule stream_in_order [OF assms st2, of "[]" 3 "[]"]) (simp_all add: drain_stops)
  show ?thesis using s0(1) f1 s1(1) f2 st2 s3
    by (auto simp: test_transient_packet_does_not_stall_reliable_packets_def ts stream_at_def)
qed

end

text \<open>A tick that sends a frame.\<close>

lemma tick_sends:
  assumes "\<not> (as_seq_num s > 0 \<and> duration_since now (as_last_sync_time s) < min_interval s now)" "as_dirty s"
    and "update_and_get_state G (as_term_state s) = (ts, Inr g)" "as_state_history s = [] \<or> snd (last (as_state_history s)) \<noteq> g"
  shows "\<exists>s1 a. server_on_tick G P s now = (s1, Inr [a]) \<and> as_seq_num s1 = as_seq_num s + 1 \<and> as_last_sync_time s1 = now \<and> as_term_state s1 = ts
    \<and> (length (as_state_history s) < 100 \<longrightarrow> as_state_history s1 = as_state_history s @ [(as_seq_num s + 1, g)])
    \<and> as_pty_bytes_acc s1 \<le> as_pty_bytes_acc s"
proof -
  obtain acc where "acc \<le> as_pty_bytes_acc s" "check_sync G P s now = apsnd Inr (queue_frame P (s\<lparr>as_pty_bytes_acc := acc, as_term_state := ts\<rparr>) g now)"
    using check_sync_sends [OF assms(1) _ assms(3), of P] assms(2,4) by blast
  moreover have "trim_history a h = h" if "length h < 100" for a h
    using that by (cases h) auto
  ultimately show ?thesis by (simp add: server_on_tick_def queue_frame_eq Let_def)
qed

text \<open>The emulator shows what is written: the first write changes the grid that was read before.\<close>

definition displays :: "'v ghostty \<Rightarrow> bytes \<Rightarrow> bool" where
  "displays G data \<longleftrightarrow> (\<forall>ts ts' g. ServerTerminalState_new G 80 24 = Inr ts \<and> update_and_get_state G ts = (ts', Inr g) \<longrightarrow> snd (update_and_get_state G (fst (st_write G ts' data))) \<noteq> Inr g)"

lemma readableD: "readable G \<Longrightarrow> st_wf ts \<Longrightarrow> \<exists>ts' g. update_and_get_state G ts = (ts', Inr g) \<and> st_wf ts'"
  unfolding readable_def by (metis prod.collapse update_and_get_state_wf(1))

text \<open>The first frame of a session, and the frame after a write.\<close>

lemma first_tick:
  assumes "readable G"
  obtains s0 s1 a g where "new_session G t0 = Some s0" "server_on_tick G fake_pty (s0\<lparr>as_dirty := True\<rparr>) now = (s1, Inr [a])"
    "as_seq_num s1 = 1" "as_last_sync_time s1 = now" "as_state_history s1 = [(1, g)]" "st_wf (as_term_state s1)"
    "\<exists>ts. ServerTerminalState_new G 80 24 = Inr ts \<and> update_and_get_state G ts = (as_term_state s1, Inr g)" "as_pty_bytes_acc s1 = 0"
proof -
  obtain s0 where s0: "new_session G t0 = Some s0" "tested_ok s0" "as_seq_num s0 = 0" "as_state_history s0 = []" "as_pty_bytes_acc s0 = 0"
    "ServerTerminalState_new G 80 24 = Inr (as_term_state s0)"
    by (rule new_session_ok [OF assms])
  then obtain ts g where g: "update_and_get_state G (as_term_state s0) = (ts, Inr g)" "st_wf ts"
    using readableD [OF assms, of "as_term_state s0"] by (auto simp: tested_ok_def server_wf_def)
  show thesis
    using tick_sends [of "s0\<lparr>as_dirty := True\<rparr>" now G ts g fake_pty] s0 g by (auto intro!: that [of s0])
qed

lemma tick_after_write:
  assumes "readable G" "displays G data" "st_wf (as_term_state s)"
    and "\<exists>ts. ServerTerminalState_new G 80 24 = Inr ts \<and> update_and_get_state G ts = (as_term_state s, Inr g)"
    and "as_state_history s = [(1, g)]" "as_seq_num s = 1"
    and "\<not> duration_since now (as_last_sync_time s) < min_interval s1 now" "s1 = on_pty_bytes G fake_pty s data t"
  shows "\<exists>s2 a. server_on_tick G fake_pty s1 now = (s2, Inr [a]) \<and> length (as_state_history s2) = 2"
proof -
  let ?ts = "fst (st_write G (as_term_state s) data)"
  obtain ts1 g1 where g1: "update_and_get_state G ?ts = (ts1, Inr g1)" using readableD [OF assms(1) st_write_wf [OF assms(3)]] by blast
  moreover have "g1 \<noteq> g" using assms(2,4) g1 unfolding displays_def by (metis snd_conv)
  moreover have "as_term_state s1 = ?ts" "as_dirty s1" "as_state_history s1 = [(1, g)]" "as_seq_num s1 = 1" "as_last_sync_time s1 = as_last_sync_time s"
    using assms(5,6,8) by (simp_all add: on_pty_bytes_def split: prod.splits)
  ultimately show ?thesis using tick_sends [of s1 now G ts1 g1 fake_pty] assms(7) by auto
qed

lemma update_job_test:
  assumes "readable G" "displays G (str ''x'')" "t2 < t1 + from_millis 16" "t1 \<le> t4"
  shows "test_update_job_compilation_and_pruning G (t0, t1, t2, t3, t4)"
proof -
  obtain s0 s1 a g where s1: "new_session G t0 = Some s0" "server_on_tick G fake_pty (s0\<lparr>as_dirty := True\<rparr>) t1 = (s1, Inr [a])"
    "as_seq_num s1 = 1" "as_last_sync_time s1 = t1" "as_state_history s1 = [(1, g)]" "st_wf (as_term_state s1)"
    "\<exists>ts. ServerTerminalState_new G 80 24 = Inr ts \<and> update_and_get_state G ts = (as_term_state s1, Inr g)" "as_pty_bytes_acc s1 = 0"
    by (rule first_tick [OF assms(1)])
  define s2 where "s2 = s1\<lparr>as_dirty := True\<rparr>"
  have t2: "server_on_tick G fake_pty s2 t2 = (s2, Inr [])"
    using assms(3) unfolding server_on_tick_def
    by (intro check_sync_waits) (simp_all add: s2_def s1(3,4,8) min_interval_def is_flooding_def duration_since_def from_millis_def)
  define s3 where "s3 = on_pty_bytes G fake_pty s2 (str ''x'') (t3 + from_millis 20)"
  have "as_pty_bytes_acc s3 = 1" by (simp add: s3_def on_pty_bytes_def s2_def s1(8) str_def split: prod.splits)
  then have "\<not> duration_since (t4 + from_millis 20) (as_last_sync_time s2) < min_interval s3 (t4 + from_millis 20)"
    using assms(4) by (simp add: s2_def s1(4) min_interval_def is_flooding_def duration_since_def from_millis_def)
  then have "\<exists>s4 a. server_on_tick G fake_pty s3 (t4 + from_millis 20) = (s4, Inr [a]) \<and> length (as_state_history s4) = 2"
    using s1(3-7) by (intro tick_after_write [OF assms(1,2), of s2]) (simp_all add: s2_def s3_def)
  with s1(1,2,5) t2 show ?thesis by (auto simp: test_update_job_compilation_and_pruning_def s2_def s3_def)
qed

lemma flood_test:
  assumes "readable G" "displays G (replicate 4096 97)"
  shows "test_flood_mode_throttling G (t0, start)"
proof -
  obtain s0 s1 a g where s1: "new_session G t0 = Some s0" "server_on_tick G fake_pty (s0\<lparr>as_dirty := True\<rparr>) start = (s1, Inr [a])"
    "as_seq_num s1 = 1" "as_last_sync_time s1 = start" "as_state_history s1 = [(1, g)]" "st_wf (as_term_state s1)"
    "\<exists>ts. ServerTerminalState_new G 80 24 = Inr ts \<and> update_and_get_state G ts = (as_term_state s1, Inr g)"
    by (rule first_tick [OF assms(1)])
  define s where "s = on_pty_bytes G fake_pty s1 (replicate 4096 97) (start + from_millis 10)"
  have s: "as_last_pty_bytes_time s = start + from_millis 10" "as_pty_bytes_acc s > 2048" "as_seq_num s = 1" "as_last_sync_time s = start"
    by (simp_all add: s_def on_pty_bytes_def s1 split: prod.splits)
  have t2: "server_on_tick G fake_pty s (start + from_millis 25) = (s, Inr [])"
    unfolding server_on_tick_def by (rule check_sync_waits) (simp_all add: s min_interval_def is_flooding_def duration_since_def from_millis_def)
  have "\<not> duration_since (start + from_millis 165) (as_last_sync_time s1) < min_interval s (start + from_millis 165)"
    by (simp add: s s1(4) min_interval_def is_flooding_def duration_since_def from_millis_def)
  then have "\<exists>s2 a. server_on_tick G fake_pty s (start + from_millis 165) = (s2, Inr [a]) \<and> length (as_state_history s2) = 2"
    using s1(3-7) by (intro tick_after_write [OF assms, of s1]) (simp_all add: s_def)
  with s1(1,2) t2 show ?thesis by (auto simp: test_flood_mode_throttling_def s_def)
qed

section \<open>The client session\<close>

definition mirror_session :: "'f f32_ops \<Rightarrow> instant \<Rightarrow> (NullCodec, 'f) MirrorSession" where
  "mirror_session F now = MirrorSession_new F 12345 (NullCodec_new 12345) 1 80 24 False now"

definition is_send :: "ClientAction \<Rightarrow> bool" where
  "is_send a = (case a of SendPacket _ \<Rightarrow> True | _ \<Rightarrow> False)"

definition sealed_keepalive :: "codec_lib \<Rightarrow> (NullCodec, 'f) MirrorSession \<Rightarrow> u64 \<Rightarrow> u64 \<Rightarrow> bytes list option" where
  "sealed_keepalive L session seq ack =
     (case seal_server (null_codec L) (ms_codec session) seq ack S_KeepAlive of Inl _ \<Rightarrow> None | Inr pkts \<Rightarrow> Some pkts)"

definition make_packet :: "codec_lib \<Rightarrow> (NullCodec, 'f) MirrorSession \<Rightarrow> u64 \<Rightarrow> bytes option" where
  "make_packet L session seq =
     Option.bind (sealed_keepalive L session seq 0) (\<lambda>pkts. if pkts = [] then None else Some (last pkts))"

definition test_rtt_calculation :: "codec_lib \<Rightarrow> 'f f32_ops \<Rightarrow> instant \<Rightarrow> bool" where
  "test_rtt_calculation L F now \<longleftrightarrow>
     passes (unwrap (feed_stdin (null_codec L) (mirror_session F now) (str ''a'') now)) (\<lambda>(s1, actions).
       list_ex is_send actions \<and> length (ms_sent_packets s1) = 1 \<and>
     passes (sealed_keepalive L s1 1 1) (\<lambda>ack_bytes.
     passes (unwrap (feed_packet (null_codec L) F s1 (ack_bytes ! 0) (now + from_millis 50))) (\<lambda>(s2, _).
       rtt_ms (ms_mirror s2) \<ge> 45 \<and> rtt_ms (ms_mirror s2) < 150 \<and> ms_sent_packets s2 = [] \<and> ms_unacked_packets s2 = [])))"

definition test_packet_loss_and_late_correction :: "codec_lib \<Rightarrow> 'f f32_ops \<Rightarrow> instant \<Rightarrow> bool" where
  "test_packet_loss_and_late_correction L F now \<longleftrightarrow>
     (let feed_keepalive = (\<lambda>s seq. Option.bind (make_packet L s seq) (\<lambda>pkt. unwrap (feed_packet (null_codec L) F s pkt now)))
      in passes (feed_keepalive (mirror_session F now) 1) (\<lambda>(s1, _).
           ms_expected_server_seq s1 = 2 \<and> length (ms_loss_window s1) = 1 \<and> ms_loss_window s1 ! 0 \<and>
         passes (feed_keepalive s1 3) (\<lambda>(s2, _).
           ms_expected_server_seq s2 = 4 \<and> length (ms_loss_window s2) = 3 \<and> \<not> ms_loss_window s2 ! 1 \<and> ms_loss_window s2 ! 2 \<and>
         passes (feed_keepalive s2 2) (\<lambda>(s3, _).
           length (ms_loss_window s3) = 3 \<and> ms_loss_window s3 ! 1))))"

definition test_arq_retransmission_and_pruning :: "codec_lib \<Rightarrow> 'f f32_ops \<Rightarrow> instant \<Rightarrow> bool" where
  "test_arq_retransmission_and_pruning L F now \<longleftrightarrow>
     passes (unwrap (feed_stdin (null_codec L) (mirror_session F now) (str ''a'') now)) (\<lambda>(s1, _).
       length (ms_unacked_packets s1) = 1 \<and>
     passes (unwrap (on_tick (null_codec L) F s1 (now + from_millis 50))) (\<lambda>(s2, actions).
       \<not> list_ex is_send actions \<and>
     passes (unwrap (on_tick (null_codec L) F s2 (now + from_millis 300))) (\<lambda>(s3, actions).
       length (filter is_send actions) = 1 \<and>
     passes (sealed_keepalive L s3 1 1) (\<lambda>ack_bytes.
     passes (unwrap (feed_packet (null_codec L) F s3 (ack_bytes ! 0) (now + from_millis 350))) (\<lambda>(s4, _).
       ms_unacked_packets s4 = [])))))"

definition test_escape_disconnect_action :: "codec_lib \<Rightarrow> 'f f32_ops \<Rightarrow> instant \<Rightarrow> bool" where
  "test_escape_disconnect_action L F now \<longleftrightarrow>
     passes (unwrap (feed_stdin (null_codec L) (mirror_session F now) (str ''~.'') now)) (\<lambda>(s1, actions).
       Disconnect_action \<in> set actions)"

definition test_escape_overlay_action :: "codec_lib \<Rightarrow> 'f f32_ops \<Rightarrow> instant \<Rightarrow> bool" where
  "test_escape_overlay_action L F now \<longleftrightarrow>
     passes (unwrap (feed_stdin (null_codec L) (mirror_session F now) (str ''~o'') now)) (\<lambda>(s1, actions).
       Paint \<in> set actions \<and> tf_overlay_enabled (ti_frame (ms_mirror s1)))"

lemma escape_action_tests: "test_escape_disconnect_action L F now" "test_escape_overlay_action L F now"
  by (simp_all add: test_escape_disconnect_action_def test_escape_overlay_action_def feed_stdin_def mirror_session_def MirrorSession_new_def
      EscapeInterpreter_new_def handle_byte_def str_def toggle_overlay_def set_overlay_enabled_def ClientTerminal_new_def TerminalFrame_new_def)

lemma push_arrival_times [simp]:
  "ms_last_recv_time (push_arrival s seq) = ms_last_recv_time s" "ms_is_reconnecting (push_arrival s seq) = ms_is_reconnecting s"
  by (simp_all add: push_arrival_def Let_def)

lemma arrival_view:
  assumes "ms_loss_window s = ms_loss_window t" "ms_expected_server_seq s = ms_expected_server_seq t"
  shows "ms_loss_window (push_arrival s seq) = ms_loss_window (push_arrival t seq)"
    "ms_expected_server_seq (push_arrival s seq) = ms_expected_server_seq (push_arrival t seq)"
  using assms by (auto simp: push_arrival_def Let_def)

text \<open>A keep-alive that confirms everything predicted so far.\<close>

lemma null_codec_tick:
  assumes "duration_since now (ms_last_keepalive_sent s) < ms_keepalive_interval s" "\<not> ms_is_reconnecting s"
    and "duration_since now (ms_last_recv_time s) \<le> from_millis 5000" "duration_since now (ms_last_telemetry_calc s) < from_secs 1"
    and "ms_codec s = NullCodec_new 12345" "ms_nacked_frames s = []"
  shows "\<exists>t. on_tick (null_codec L) F s now = (case tick_arq s now of (s1, actions) \<Rightarrow> (s1\<lparr>ms_last_nack_check := t\<rparr>, Inr actions))"
proof -
  obtain s1 actions where a: "tick_arq s now = (s1, actions)" by force
  have s1: "ms_is_reconnecting s1 = ms_is_reconnecting s" "ms_last_recv_time s1 = ms_last_recv_time s" "ms_last_telemetry_calc s1 = ms_last_telemetry_calc s"
    "ms_codec s1 = ms_codec s" "ms_nacked_frames s1 = ms_nacked_frames s" using a by (auto simp: tick_arq_def Let_def split: if_splits)
  have "incomplete_frames (null_codec L) (ms_codec s1) = []" using s1(4) assms(5) by (simp add: null_codec_def NullCodec_new_def)
  then have nack: "tick_nack (null_codec L) s1 now = (s1\<lparr>ms_last_nack_check := (if duration_since now (ms_last_nack_check s1) \<ge> from_millis 40 then now else ms_last_nack_check s1)\<rparr>, Inr [])"
    using s1(5) assms(6) by (simp add: tick_nack_def map_retain_def)
  have "tick_banner s1 now = (s1, Inr [])" using assms(2,3) s1(1,2) by (simp add: tick_banner_def Let_def)
  moreover have "tick_telemetry F s1 now = (s1, [])" using assms(4) s1(3) by (simp add: tick_telemetry_def Let_def)
  moreover have "tick_keepalive (null_codec L) s now = (s, Inr [])" using assms(1) by (simp add: tick_keepalive_def)
  ultimately show ?thesis
    by (intro exI [of _ "if duration_since now (ms_last_nack_check s1) \<ge> from_millis 40 then now else ms_last_nack_check s1"]) (simp add: on_tick_def a nack)
qed

context wire_lib_total
begin

lemma feed_keepalive:
  assumes "\<forall>e \<in> set (unconfirmed_inputs (ti_echo_engine (ms_mirror s))). pe_seq_num e \<le> ack" "\<not> ms_is_reconnecting s" "\<not> is_recovering s now"
  obtains b s1 where "sealed_keepalive L s seq ack = Some [b]" "feed_packet (null_codec L) F s b now = (s1, Inr [])"
    "ms_sent_packets s1 = map_retain (\<lambda>k _. k > ack) (map_remove ack (ms_sent_packets s))"
    "ms_unacked_packets s1 = map_retain (\<lambda>k _. k > ack) (ms_unacked_packets s)"
    "ms_loss_window s1 = ms_loss_window (update_loss_window s seq)" "ms_expected_server_seq s1 = ms_expected_server_seq (push_arrival s seq)"
    "unconfirmed_inputs (ti_echo_engine (ms_mirror s1)) = []" "ms_last_recv_time s1 \<in> {ms_last_recv_time s, now}" "\<not> ms_is_reconnecting s1"
    "\<exists>loss m. ms_mirror s1 = record_rtt_loss F m (rtt_sample s ack now) loss \<and> ti_frame m = ti_frame (ms_mirror s)"
proof -
  obtain b where b: "seal_server (null_codec L) (ms_codec s) seq ack S_KeepAlive = Inr [b]"
    "\<And>c'. \<exists>stats. open_server (null_codec L) c' b = (c', Inr (Some (\<lparr>esp_seq_num = seq, esp_ack_seq_num = ack, esp_frag_idx = 0, esp_total_frags = 1,
       esp_ciphertext = the (enc (server_payload L) S_KeepAlive)\<rparr>, S_KeepAlive, stats))) \<and> comp_len stats = decomp_len stats"
    by (rule null_single [of S_KeepAlive "ms_codec s" seq ack]) (simp_all add: is_control_msg_def)
  obtain stats where o: "open_server (null_codec L) (ms_codec s) b = (ms_codec s, Inr (Some (\<lparr>esp_seq_num = seq, esp_ack_seq_num = ack, esp_frag_idx = 0, esp_total_frags = 1,
       esp_ciphertext = the (enc (server_payload L) S_KeepAlive)\<rparr>, S_KeepAlive, stats)))" using b(2) by blast
  define s0 where "s0 = s\<lparr>ms_bytes_recv_acc := ms_bytes_recv_acc s + wire_len stats, ms_comp_acc := ms_comp_acc s + comp_len stats,
    ms_decomp_acc := ms_decomp_acc s + decomp_len stats\<rparr>"
  define s3 where "s3 = update_loss_window (prune_acked s0 ack) seq"
  define m where "m = (ms_mirror s)\<lparr>ti_echo_engine := (ti_echo_engine (ms_mirror s))\<lparr>unconfirmed_inputs := []\<rparr>\<rparr>"
  define s4 where "s4 = s3\<lparr>ms_mirror := record_rtt_loss F m (rtt_sample s ack now) (loss_pct_of F (ms_loss_window s3))\<rparr>"
  define s5 where "s5 = (if seq \<le> ms_ack_seq_num s4 then s4
    else s4\<lparr>ms_last_recv_time := now, ms_ack_seq_num := seq, ms_keepalive_interval := from_secs 2\<rparr>)"
  have s3: "ms_mirror s3 = ms_mirror s" "ms_sent_packets s3 = map_retain (\<lambda>k _. k > ack) (map_remove ack (ms_sent_packets s))"
    "ms_unacked_packets s3 = map_retain (\<lambda>k _. k > ack) (ms_unacked_packets s)" "ms_last_recv_time s3 = ms_last_recv_time s"
    "ms_is_reconnecting s3 = ms_is_reconnecting s"
    by (simp_all add: s3_def s0_def prune_acked_def update_loss_window_def Let_def)
  have w: "ms_loss_window s3 = ms_loss_window (update_loss_window s seq)" "ms_expected_server_seq s3 = ms_expected_server_seq (push_arrival s seq)"
    using arrival_view [of "prune_acked s0 ack" s seq] by (simp_all add: s3_def s0_def prune_acked_def update_loss_window_def Let_def)
  have rec: "is_recovering s0 now = is_recovering s now" by (simp add: s0_def is_recovering_def)
  have "reset_after_outage s0 seq now = s0" using assms(3) by (simp add: reset_after_outage_def rec)
  moreover have "rtt_sample s0 ack now = rtt_sample s ack now" unfolding rtt_sample_def rec by (simp add: s0_def)
  moreover have "with_mirror s3 (\<lambda>m. acknowledge m ack) = (s3\<lparr>ms_mirror := m\<rparr>, Inr ())"
    by (simp add: with_mirror_def s3(1) acknowledge_def with_echo_def reconcile_all_confirmed [OF assms(1)] m_def)
  ultimately have "note_packet F s seq ack stats now = (s4, Inr ())"
    unfolding note_packet_def s0_def [symmetric] Let_def s4_def by (simp add: s3_def)
  then have feed: "feed_packet (null_codec L) F s b now = (s5, Inr [])"
    using s3(5) assms(2) by (simp add: feed_packet_def o s5_def accept_packet_def handle_payload_def s4_def)
  have engine: "ti_echo_engine (record_rtt_loss F m r l) = ti_echo_engine m" for r l
    by (auto simp: record_rtt_loss_def Let_def split: prod.splits option.splits)
  have m: "unconfirmed_inputs (ti_echo_engine m) = []" "ti_frame m = ti_frame (ms_mirror s)" by (simp_all add: m_def)
  have m5: "ms_mirror s5 = record_rtt_loss F m (rtt_sample s ack now) (loss_pct_of F (ms_loss_window s3))" by (simp add: s5_def s4_def)
  show thesis
  proof (rule that [OF _ feed])
    show "\<exists>loss m. ms_mirror s5 = record_rtt_loss F m (rtt_sample s ack now) loss \<and> ti_frame m = ti_frame (ms_mirror s)" using m5 m(2) by blast
    show "ms_last_recv_time s5 \<in> {ms_last_recv_time s, now}" "\<not> ms_is_reconnecting s5"
      using s3 assms(2) by (simp_all add: s5_def s4_def)
    show "sealed_keepalive L s seq ack = Some [b]" "unconfirmed_inputs (ti_echo_engine (ms_mirror s5)) = []"
      using b(1) m(1) by (simp_all add: sealed_keepalive_def m5 engine)
  qed (simp_all add: s5_def s4_def s3 w)
qed

lemma packet_loss_test: "test_packet_loss_and_late_correction L F now"
proof -
  let ?quiet = "\<lambda>s :: (NullCodec, 'f) MirrorSession. unconfirmed_inputs (ti_echo_engine (ms_mirror s)) = [] \<and> \<not> ms_is_reconnecting s \<and> ms_last_recv_time s = now"
  have step: "\<exists>b s1. make_packet L s seq = Some b \<and> feed_packet (null_codec L) F s b now = (s1, Inr []) \<and> ?quiet s1
      \<and> ms_loss_window s1 = ms_loss_window (update_loss_window s seq) \<and> ms_expected_server_seq s1 = ms_expected_server_seq (push_arrival s seq)"
    if "?quiet s" for s seq
  proof -
    have "\<forall>e \<in> set (unconfirmed_inputs (ti_echo_engine (ms_mirror s))). pe_seq_num e \<le> 0" "\<not> ms_is_reconnecting s" "\<not> is_recovering s now"
      using that by (simp_all add: is_recovering_def)
    then show ?thesis by (rule feed_keepalive [where seq = seq and F = F]) (use that in \<open>auto simp: make_packet_def\<close>)
  qed
  let ?s0 = "mirror_session F now"
  have q0: "?quiet ?s0" "ms_loss_window ?s0 = []" "ms_expected_server_seq ?s0 = 1"
    by (simp_all add: mirror_session_def MirrorSession_new_def set_overlay_enabled_def ClientTerminal_new_def LocalEchoEngine_new_def)
  obtain b1 s1 where s1: "make_packet L ?s0 1 = Some b1" "feed_packet (null_codec L) F ?s0 b1 now = (s1, Inr [])" "?quiet s1"
    "ms_loss_window s1 = [True]" "ms_expected_server_seq s1 = 2"
    using step [OF q0(1), of 1] q0(2,3) by (auto simp: update_loss_window_def push_arrival_def)
  obtain b2 s2 where s2: "make_packet L s1 3 = Some b2" "feed_packet (null_codec L) F s1 b2 now = (s2, Inr [])" "?quiet s2"
    "ms_loss_window s2 = [True, False, True]" "ms_expected_server_seq s2 = 4"
    using step [OF s1(3), of 3] s1(4,5) by (auto simp: update_loss_window_def push_arrival_def)
  obtain b3 s3 where s3: "make_packet L s2 2 = Some b3" "feed_packet (null_codec L) F s2 b3 now = (s3, Inr [])"
    "ms_loss_window s3 = [True, True, True]"
    using step [OF s2(3), of 2] s2(4,5) by (auto simp: update_loss_window_def push_arrival_def)
  show ?thesis using s1 s2 s3 by (simp add: test_packet_loss_and_late_correction_def Let_def)
qed

text \<open>The first keystroke of a session.\<close>

lemma first_keystroke:
  obtains b s1 where "feed_stdin (null_codec L) (mirror_session F now) (str ''a'') now = (s1, Inr [Paint, SendPacket b])"
    "ms_sent_packets s1 = [(1, now)]" "ms_unacked_packets s1 = [(1, b, now)]" "rtt_ms (ms_mirror s1) = 0"
    "\<forall>e \<in> set (unconfirmed_inputs (ti_echo_engine (ms_mirror s1))). pe_seq_num e \<le> 1" "\<not> ms_is_reconnecting s1" "ms_last_recv_time s1 = now"
    "ms_last_keepalive_sent s1 = now" "ms_keepalive_interval s1 = from_secs 2" "ms_last_arq_check s1 = now" "ms_last_telemetry_calc s1 = now"
    "ms_codec s1 = NullCodec_new 12345" "ms_nacked_frames s1 = []"
proof -
  obtain pb where "enc (client_payload L) (Keystrokes [97]) = Some pb" using client_payload_total by blast
  moreover obtain b where "enc (client_packet L) \<lparr>ecp_session_id = 12345, ecp_seq_num = 1, ecp_ack_seq_num = 0, ecp_ciphertext = pb\<rparr> = Some b"
    using client_packet_total by blast
  ultimately have seal: "seal_client (null_codec L) (NullCodec_new 12345) 12345 1 0 (Keystrokes [97]) = Inr b"
    by (simp add: null_codec_def null_seal_client_def serialize_def)
  define s0 where "s0 = mirror_session F now"
  define f where "f = ti_frame (ms_mirror s0)"
  have f: "tf_cols f = 80" "tf_rows f = 24" "tf_cursor_y f = 0" "length (tf_cell_cache f) = 80 * 24" "tf_cursor_x f = 0" "tf_rtt_ms f = 0"
    by (simp_all add: f_def s0_def mirror_session_def MirrorSession_new_def set_overlay_enabled_def ClientTerminal_new_def TerminalFrame_new_def)
  have s0: "ms_interpreter s0 = EscapeInterpreter_new" "ms_seq_num s0 = 0" "ms_sent_packets s0 = []" "ms_unacked_packets s0 = []" "ms_codec s0 = NullCodec_new 12345"
    "ms_session_id s0 = 12345" "ms_ack_seq_num s0 = 0" "ms_is_echo_enabled s0" "unconfirmed_inputs (ti_echo_engine (ms_mirror s0)) = []"
    "\<not> ms_is_reconnecting s0" "ms_last_recv_time s0 = now" "ms_last_keepalive_sent s0 = now" "ms_keepalive_interval s0 = from_secs 2" "ms_last_arq_check s0 = now"
    "ms_last_telemetry_calc s0 = now" "ms_nacked_frames s0 = []"
    by (simp_all add: s0_def mirror_session_def MirrorSession_new_def set_overlay_enabled_def ClientTerminal_new_def LocalEchoEngine_new_def)
  define s1 where "s1 = s0\<lparr>ms_interpreter := \<lparr>esc_state = Normal False\<rparr>, ms_seq_num := 1, ms_sent_packets := [(1, now)], ms_unacked_packets := [(1, b, now)]\<rparr>"
  have prep: "prepare_keystrokes (null_codec L) (s0\<lparr>ms_interpreter := \<lparr>esc_state = Normal False\<rparr>\<rparr>) [97] now = (s1, Inr (b, 1))"
    using seal by (simp add: prepare_keystrokes_def seal_reliable_def s0 s1_def)
  have byte: "handle_byte (ms_interpreter s0) 97 = (\<lparr>esc_state = Normal False\<rparr>, SendBytes [97])"
    by (simp add: s0 EscapeInterpreter_new_def handle_byte_def is_newline_def)
  define m where "m = fst (predict_input (ms_mirror s1) [97] 1)"
  have m: "predict_input (ms_mirror s1) [97] 1 = (m, Inr ())" "rtt_ms m = 0" "\<forall>e \<in> set (unconfirmed_inputs (ti_echo_engine m)). pe_seq_num e \<le> 1"
    using f s0(9) by (simp_all add: m_def predict_input_def with_echo_def apply_keystrokes_def s1_def f_def [symmetric] typed_byte rtt_ms_def)
  have "feed_stdin (null_codec L) s0 (str ''a'') now = (s1\<lparr>ms_mirror := m\<rparr>, Inr [Paint, SendPacket b])"
    using m(1) by (simp add: feed_stdin_def str_def byte prep with_mirror_def is_ascii_control_def) (simp add: s1_def s0)
  then show thesis using m s0 by (intro that [of "s1\<lparr>ms_mirror := m\<rparr>" b]) (simp_all add: s1_def s0_def [symmetric])
qed

lemma rtt_test: "test_rtt_calculation L F now"
proof -
  obtain b s1 where s1: "feed_stdin (null_codec L) (mirror_session F now) (str ''a'') now = (s1, Inr [Paint, SendPacket b])"
    "ms_sent_packets s1 = [(1, now)]" "ms_unacked_packets s1 = [(1, b, now)]" "rtt_ms (ms_mirror s1) = 0"
    "\<forall>e \<in> set (unconfirmed_inputs (ti_echo_engine (ms_mirror s1))). pe_seq_num e \<le> 1" "\<not> ms_is_reconnecting s1" "ms_last_recv_time s1 = now"
    by (rule first_keystroke)
  have "\<not> is_recovering s1 (now + from_millis 50)"
    by (simp add: is_recovering_def s1(7) duration_since_def from_millis_def from_secs_def)
  from s1(5,6) this obtain b2 s2 where s2: "sealed_keepalive L s1 1 1 = Some [b2]" "feed_packet (null_codec L) F s1 b2 (now + from_millis 50) = (s2, Inr [])"
    "ms_sent_packets s2 = []" "ms_unacked_packets s2 = []"
    "\<exists>loss m. ms_mirror s2 = record_rtt_loss F m (rtt_sample s1 1 (now + from_millis 50)) loss \<and> ti_frame m = ti_frame (ms_mirror s1)"
    by (rule feed_keepalive) (simp_all add: s1(2,3) map_retain_def map_remove_def)
  have "rtt_sample s1 1 (now + from_millis 50) = Some 50"
    by (simp add: rtt_sample_def s1(2) is_recovering_def s1(7) duration_since_def from_millis_def from_secs_def as_millis_def)
  with s2(5) s1(4) have "rtt_ms (ms_mirror s2) = 50"
    by (auto simp: record_rtt_loss_def rtt_ms_def Let_def split: option.splits)
  with s1(1,2) s2(1-4) show ?thesis by (simp add: test_rtt_calculation_def is_send_def)
qed

lemma arq_test: "test_arq_retransmission_and_pruning L F now"
proof -
  obtain b s1 where s1: "feed_stdin (null_codec L) (mirror_session F now) (str ''a'') now = (s1, Inr [Paint, SendPacket b])"
    "ms_sent_packets s1 = [(1, now)]" "ms_unacked_packets s1 = [(1, b, now)]" "rtt_ms (ms_mirror s1) = 0"
    "\<forall>e \<in> set (unconfirmed_inputs (ti_echo_engine (ms_mirror s1))). pe_seq_num e \<le> 1" "\<not> ms_is_reconnecting s1" "ms_last_recv_time s1 = now"
    "ms_last_keepalive_sent s1 = now" "ms_keepalive_interval s1 = from_secs 2" "ms_last_arq_check s1 = now" "ms_last_telemetry_calc s1 = now"
    "ms_codec s1 = NullCodec_new 12345" "ms_nacked_frames s1 = []"
    by (rule first_keystroke)
  obtain n2 where t2: "on_tick (null_codec L) F s1 (now + from_millis 50) = (s1\<lparr>ms_last_nack_check := n2\<rparr>, Inr [])"
    using null_codec_tick [of "now + from_millis 50" s1 L F] s1
    by (auto simp: tick_arq_def duration_since_def from_millis_def from_secs_def)
  define s2 where "s2 = s1\<lparr>ms_last_nack_check := n2\<rparr>"
  define s3 where "s3 = s2\<lparr>ms_last_arq_check := now + from_millis 300, ms_unacked_packets := [(1, b, now + from_millis 300)]\<rparr>"
  have "tick_arq s2 (now + from_millis 300) = (s3, [SendPacket b])"
    using s1 by (simp add: tick_arq_def due_packets_def rtt_limit_def s2_def s3_def duration_since_def from_millis_def)
  then obtain n3 where t3: "on_tick (null_codec L) F s2 (now + from_millis 300) = (s3\<lparr>ms_last_nack_check := n3\<rparr>, Inr [SendPacket b])"
    using null_codec_tick [of "now + from_millis 300" s2 L F] s1
    by (auto simp: s2_def duration_since_def from_millis_def from_secs_def)
  define s4 where "s4 = s3\<lparr>ms_last_nack_check := n3\<rparr>"
  have s4: "\<forall>e \<in> set (unconfirmed_inputs (ti_echo_engine (ms_mirror s4))). pe_seq_num e \<le> 1" "\<not> ms_is_reconnecting s4"
    "\<not> is_recovering s4 (now + from_millis 350)" "ms_unacked_packets s4 = [(1, b, now + from_millis 300)]"
    using s1 by (simp_all add: s4_def s3_def s2_def is_recovering_def duration_since_def from_millis_def from_secs_def)
  from s4(1-3) obtain b5 s5 where "sealed_keepalive L s4 1 1 = Some [b5]" "feed_packet (null_codec L) F s4 b5 (now + from_millis 350) = (s5, Inr [])"
    "ms_unacked_packets s5 = []"
    by (rule feed_keepalive) (simp add: s4(4) map_retain_def)
  with s1(1,3) t2 t3 show ?thesis
    by (simp add: test_arq_retransmission_and_pruning_def s2_def [symmetric] s4_def [symmetric] is_send_def)
qed

end

section \<open>The codecs\<close>

text \<open>The two round trip tests differ in the codec and in what they ask of the sizes.\<close>

definition codec_roundtrip :: "'c PacketCodec \<Rightarrow> 'c \<Rightarrow> (CodecStats \<Rightarrow> bool) \<Rightarrow> bool" where
  "codec_roundtrip C codec sizes \<longleftrightarrow>
     (let client_payload = Keystrokes (str ''hello'') in
      (case seal_client C codec 12345 1 0 client_payload of
         Inl _ \<Rightarrow> False
       | Inr sealed_client \<Rightarrow>
           (case open_client C codec sealed_client of
              Inl _ \<Rightarrow> False
            | Inr (pkt, opened_client, stats) \<Rightarrow> ecp_seq_num pkt = 1 \<and> opened_client = client_payload \<and> sizes stats))
      \<and> (case seal_server C codec 1 1 S_KeepAlive of
           Inl _ \<Rightarrow> False
         | Inr sealed_server \<Rightarrow> length sealed_server = 1 \<and>
             (case open_server C codec (sealed_server ! 0) of
                (_, Inr (Some (pkt_srv, opened_server, stats_srv))) \<Rightarrow> esp_seq_num pkt_srv = 1 \<and> opened_server = S_KeepAlive \<and> sizes stats_srv
              | _ \<Rightarrow> False)))"

definition test_chacha_codec_roundtrip :: "codec_lib \<Rightarrow> bool" where
  "test_chacha_codec_roundtrip L \<longleftrightarrow> codec_roundtrip (chacha_codec L) (ChaChaCodec_new (replicate 32 1) 12345) (\<lambda>stats. wire_len stats > 0)"

definition test_null_codec_roundtrip :: "codec_lib \<Rightarrow> bool" where
  "test_null_codec_roundtrip L \<longleftrightarrow> codec_roundtrip (null_codec L) (NullCodec_new 12345) (\<lambda>stats. comp_len stats = decomp_len stats)"

text \<open>No packet is encoded as no bytes, since every byte string would decode as it.\<close>

lemma enc_nonempty:
  assumes "serde_ok S" "\<And>x. \<exists>b. enc S x = Some b" "x \<noteq> y" "enc S x = Some b"
  shows "b \<noteq> []"
proof
  assume "b = []"
  obtain b' where b': "enc S y = Some b'" using assms(2) by blast
  with assms(1) have "dec S (b' @ []) = Some (y, length b')" unfolding serde_ok_def by blast
  moreover have "dec S ([] @ b') = Some (x, length ([] :: bytes))" using assms(1,4) \<open>b = []\<close> unfolding serde_ok_def by blast
  ultimately show False using assms(3) by simp
qed

context wire_lib_total
begin

lemma null_codec_test: "test_null_codec_roundtrip L"
proof -
  obtain pb where pb: "enc (client_payload L) (Keystrokes (str ''hello'')) = Some pb" using client_payload_total by blast
  obtain cb where cb: "enc (client_packet L) \<lparr>ecp_session_id = 12345, ecp_seq_num = 1, ecp_ack_seq_num = 0, ecp_ciphertext = pb\<rparr> = Some cb"
    using client_packet_total by blast
  have c: "seal_client (null_codec L) (NullCodec_new 12345) 12345 1 0 (Keystrokes (str ''hello'')) = Inr cb"
    using pb cb by (simp add: null_codec_def null_seal_client_def serialize_def)
  have o: "open_client (null_codec L) (NullCodec_new 12345) cb = Inr (\<lparr>ecp_session_id = 12345, ecp_seq_num = 1, ecp_ack_seq_num = 0, ecp_ciphertext = pb\<rparr>,
      Keystrokes (str ''hello''), \<lparr>wire_len = length cb, comp_len = length pb, decomp_len = length pb\<rparr>)"
    using pb cb by (simp add: null_codec_def null_open_client_def client_packet_ok client_payload_ok NullCodec_new_def)
  obtain b where b: "seal_server (null_codec L) (NullCodec_new 12345) 1 1 S_KeepAlive = Inr [b]"
    "\<And>c'. \<exists>stats. open_server (null_codec L) c' b = (c', Inr (Some (\<lparr>esp_seq_num = 1, esp_ack_seq_num = 1, esp_frag_idx = 0, esp_total_frags = 1,
       esp_ciphertext = the (enc (server_payload L) S_KeepAlive)\<rparr>, S_KeepAlive, stats))) \<and> comp_len stats = decomp_len stats"
    by (rule null_single [of S_KeepAlive "NullCodec_new 12345" 1 1]) (simp_all add: is_control_msg_def)
  then obtain stats where "open_server (null_codec L) (NullCodec_new 12345) b = (NullCodec_new 12345, Inr (Some (\<lparr>esp_seq_num = 1, esp_ack_seq_num = 1, esp_frag_idx = 0, esp_total_frags = 1,
       esp_ciphertext = the (enc (server_payload L) S_KeepAlive)\<rparr>, S_KeepAlive, stats)))" "comp_len stats = decomp_len stats" by blast
  with b(1) c o show ?thesis by (simp add: test_null_codec_roundtrip_def codec_roundtrip_def Let_def)
qed

lemma chacha_codec_test: "test_chacha_codec_roundtrip L"
proof -
  let ?c = "ChaChaCodec_new (replicate 32 1) 12345"
  obtain pb where pb: "enc (client_payload L) (Keystrokes (str ''hello'')) = Some pb" using client_payload_total by blast
  obtain ct where ct: "encrypt L (cc_crypto ?c) 1 pb = Inr ct" unfolding encrypt_def using aead_total by fastforce
  let ?pkt = "\<lparr>ecp_session_id = 12345, ecp_seq_num = 1, ecp_ack_seq_num = 0, ecp_ciphertext = ct\<rparr>"
  obtain cb where cb: "enc (client_packet L) ?pkt = Some cb" using client_packet_total by blast
  have c: "seal_client (chacha_codec L) ?c 12345 1 0 (Keystrokes (str ''hello'')) = Inr cb"
    using pb cb ct by (simp add: chacha_codec_def chacha_seal_client_def serialize_def)
  from ct have "decrypt L (cc_crypto ?c) 1 ct = Inr pb" by (simp add: decrypt_iff)
  then have o: "\<exists>stats. open_client (chacha_codec L) ?c cb = Inr (?pkt, Keystrokes (str ''hello''), stats) \<and> wire_len stats = length cb"
    using pb cb by (simp add: chacha_codec_def chacha_open_client_def client_packet_ok client_payload_ok ChaChaCodec_new_def)
  have "cb \<noteq> []" by (rule enc_nonempty [OF client_packet_ok client_packet_total _ cb, of "?pkt\<lparr>ecp_seq_num := 2\<rparr>"]) simp
  obtain sb where sb: "enc (server_payload L) S_KeepAlive = Some sb" "length sb < 256"
    using server_payload_total [of S_KeepAlive] control_small [of S_KeepAlive] by (auto simp: is_control_msg_def)
  obtain st where st: "encrypt L (cc_crypto ?c) 1 (0 # sb) = Inr st" "length st \<le> length (0 # sb) + 16"
    unfolding encrypt_def using aead_total [of "cm_key (cc_crypto ?c)" "make_nonce (cc_crypto ?c) 1" "0 # sb"] aead_overhead by fastforce
  let ?spkt = "\<lparr>esp_seq_num = 1, esp_ack_seq_num = 1, esp_frag_idx = 0, esp_total_frags = 1, esp_ciphertext = st\<rparr>"
  obtain b where b: "enc (server_packet L) ?spkt = Some b" using server_packet_total by blast
  have s: "seal_server (chacha_codec L) ?c 1 1 S_KeepAlive = Inr [b]"
    using sb st b by (simp add: chacha_codec_def chacha_seal_server_def serialize_compressed_def serialize_def fragment_packets_small FRAGMENT_PAYLOAD_SIZE_def)
  from st(1) have "decrypt L (cc_crypto ?c) 1 st = Inr (0 # sb)" by (simp add: decrypt_iff)
  then have os: "\<exists>c1 stats. open_server (chacha_codec L) ?c b = (c1, Inr (Some (?spkt, S_KeepAlive, stats))) \<and> wire_len stats = length b"
    using sb b by (simp add: chacha_codec_def chacha_open_server_def server_packet_ok server_payload_ok FragmentBuffer_insert_def deserialize_compressed_get_sizes_def)
  have "b \<noteq> []" by (rule enc_nonempty [OF server_packet_ok server_packet_total _ b, of "?spkt\<lparr>esp_seq_num := 2\<rparr>"]) simp
  with \<open>cb \<noteq> []\<close> c o s os show ?thesis by (auto simp: test_chacha_codec_roundtrip_def codec_roundtrip_def Let_def)
qed

end

section \<open>An instance\<close>

text \<open>The assumptions on the serialiser and the emulator can hold together.\<close>

lemma tiny_reads:
  assumes "st_wf ts"
  shows "snd (update_and_get_state tiny_vt ts) = Inr (grid_of (tiny_snapshot (st_terminal ts)))"
    "st_terminal (fst (update_and_get_state tiny_vt ts)) = st_terminal ts"
proof -
  have one: "length cs = 1 \<Longrightarrow> cs[0 := c] = [c]" for cs :: "'b list" and c by (cases cs) auto
  have "length (gs_cells (st_grid_state ts)) = 1" "length (gs_row_wrapped (st_grid_state ts)) = 1" "gs_cols (st_grid_state ts) = 1" "gs_rows (st_grid_state ts) = 1"
    if "st_cols ts = 1" "st_rows ts = 1" using that assms by (simp_all add: st_wf_def grid_wf_def)
  then show "snd (update_and_get_state tiny_vt ts) = Inr (grid_of (tiny_snapshot (st_terminal ts)))"
    "st_terminal (fst (update_and_get_state tiny_vt ts)) = st_terminal ts"
    by (auto simp: update_and_get_state_def tiny_vt_def tiny_snapshot_def set_dimensions_def read_row_def set_cells_def set_wrapped_def set_cursor_def Let_def
       grid_of_def row_cells_def row_wrap_def one vec_set_def)
qed

lemma server_session_tests:
  "test_sliding_window_ordering ref_lib tiny_vt (t0, t1, t2, t3)" "test_multiple_dropped_packets_recovery ref_lib tiny_vt (t0, t1, t2, t3, t4, t5)"
  "test_duplicate_packet_handling ref_lib tiny_vt (t0, t1, t2)" "test_resize_action ref_lib tiny_vt (t0, t1)" "test_keepalive_action ref_lib tiny_vt (t0, t0)"
  "test_transient_packet_does_not_stall_reliable_packets ref_lib tiny_vt (t0, t1, t2, t3)"
  "test_update_job_compilation_and_pruning tiny_vt (t0, t0, t0, t0, t0)" "test_flood_mode_throttling tiny_vt (t0, t1)"
proof -
  have r: "readable tiny_vt" unfolding readable_def using tiny_reads by (auto simp: ServerTerminalState_new_def tiny_vt_def)
  have d: "displays tiny_vt data" if "data \<noteq> []" "grid_of (tiny_snapshot (last data)) \<noteq> grid_of (tiny_snapshot 32)" for data
  proof -
    have "snd (update_and_get_state tiny_vt (fst (st_write tiny_vt ts' data))) \<noteq> Inr g"
      if "ServerTerminalState_new tiny_vt 80 24 = Inr ts" "update_and_get_state tiny_vt ts = (ts', Inr g)" for ts ts' g
    proof -
      have ts: "st_wf ts" "st_terminal ts = 32" using that(1) ServerTerminalState_new_wf [OF that(1)] by (auto simp: ServerTerminalState_new_def tiny_vt_def)
      then have "st_wf ts'" "g = grid_of (tiny_snapshot 32)" using tiny_reads [OF ts(1)] update_and_get_state_wf(1) [OF ts(1), of tiny_vt] that(2) by auto
      moreover have "st_terminal (fst (st_write tiny_vt ts' data)) = last data" using \<open>data \<noteq> []\<close> by (simp add: st_write_def tiny_vt_def)
      ultimately show ?thesis using tiny_reads(1) [OF st_write_wf, of ts' tiny_vt data] that(2) \<open>grid_of _ \<noteq> _\<close> by simp
    qed
    then show ?thesis by (auto simp: displays_def)
  qed
  show "test_sliding_window_ordering ref_lib tiny_vt (t0, t1, t2, t3)" "test_multiple_dropped_packets_recovery ref_lib tiny_vt (t0, t1, t2, t3, t4, t5)"
    "test_duplicate_packet_handling ref_lib tiny_vt (t0, t1, t2)" "test_resize_action ref_lib tiny_vt (t0, t1)" "test_keepalive_action ref_lib tiny_vt (t0, t0)"
    "test_transient_packet_does_not_stall_reliable_packets ref_lib tiny_vt (t0, t1, t2, t3)"
    by (rule ref_total.sliding_window_test ref_total.dropped_packets_test ref_total.duplicate_test ref_total.resize_test ref_total.keepalive_test
        ref_total.transient_test; simp add: r from_millis_def)+
  have g: "grid_of (tiny_snapshot b) \<noteq> grid_of (tiny_snapshot 32)" if "b = 120 \<or> b = 97" for b
    using that by (auto simp: grid_of_def tiny_snapshot_def row_cells_def tiny_cell_def cell_data_of_def cell_graphemes_def encode_utf8_def
        clean_char_def is_control_def CompactGrapheme_new_def)
  show "test_update_job_compilation_and_pruning tiny_vt (t0, t0, t0, t0, t0)"
    by (rule update_job_test [OF r d]) (simp_all add: str_def g from_millis_def)
  show "test_flood_mode_throttling tiny_vt (t0, t1)"
    by (rule flood_test [OF r d]) (simp_all add: g)
qed

end
