(* ===== verification/Spec2Isabelle.thy ===== *)
theory Spec2Isabelle
  imports Rumsh_Program Rumsh_Main Rumsh_Input Rumsh_Tests Rumsh_Session_Tests
begin

text \<open>
  \<^bold>\<open>Rumsh, verified.\<close>  Rumsh is a mobile shell: a server runs a shell in a terminal emulator and sends what the
  terminal shows as differences of cell grids over UDP; a client keeps a mirror of the grid, paints it,
  and sends keystrokes.  Packets are sealed with ChaCha20-Poly1305, frames that do not fit a datagram are
  fragmented, keystrokes are retransmitted until acknowledged.  The program starts over SSH, which
  delivers port and key.  Sources are under \<open>src/src\<close>.

  \<^bold>\<open>Theories and sources.\<close>  Names of definitions are those of the code; a part of a long function has a definition
  of its own (for example \<open>note_packet\<close>, \<open>accept_packet\<close> and \<open>handle_payload\<close> for \<open>MirrorSession::feed_packet\<close>).

  \<^item> \<open>Rumsh_Prelude\<close>, \<open>Rumsh_Maps\<close>, \<open>Rumsh_Text\<close>: results (\<open>err + 'a\<close>, panics are errors), vectors, hash and tree maps,
    Rust's strings and numbers.
  \<^item> \<open>Rumsh_Grid\<close>: \<open>protocol/grid.rs\<close>, the grid, \<open>diff_from\<close> and \<open>patch\<close>.
  \<^item> \<open>Rumsh_Protocol\<close>, \<open>Rumsh_Crypto\<close>, \<open>Rumsh_Codec\<close>: \<open>protocol.rs\<close>, \<open>crypto.rs\<close>, \<open>protocol/codec.rs\<close>.  The trait \<open>PacketCodec\<close>
    is a record of functions and its contract the locale \<open>packet_codec\<close>; \<open>Rumsh_Wire\<close> interprets it for both codecs, with a
    concrete serialisation, and \<open>Rumsh_Wire_Props\<close> has the properties of the wire.
  \<^item> \<open>Rumsh_Terminal\<close>, \<open>Rumsh_Echo\<close>, \<open>Rumsh_Mirror\<close>, \<open>Rumsh_Renderer\<close>: \<open>client/terminal.rs\<close> and \<open>client/echo.rs\<close>, the mirrored
    frame, the predictions, the mirror with its lock released, and \<open>paint\<close> as the list of terminal commands.
  \<^item> \<open>Rumsh_Escape\<close>, \<open>Rumsh_Client_Session\<close>, \<open>Rumsh_Client_Props\<close>, \<open>Rumsh_Client_Arq\<close>: \<open>client/escape.rs\<close> and
    \<open>client/session.rs\<close>, every event of \<open>MirrorSession\<close> as a function on its state.
  \<^item> \<open>Rumsh_Server_State\<close>, \<open>Rumsh_Server_Session\<close>, \<open>Rumsh_Server_Out\<close>, \<open>Rumsh_Delivery\<close>: \<open>server/state.rs\<close> and
    \<open>server/session.rs\<close>; \<open>Rumsh_Pty\<close> and \<open>Rumsh_Shell\<close>: \<open>server/pty.rs\<close>, with the locale \<open>pty_log\<close> for what a PTY is given
    and \<open>accepting_tty\<close> for a device under which the bridge is one.
  \<^item> \<open>Rumsh_Input\<close>: the client session as a sender (\<open>talk\<close>: what it numbers and what it hands to the socket) and the server
    as its receiver.
  \<^item> \<open>Rumsh_System\<close>: both sessions and the network as a step relation, with the set of datagrams ever sent.
  \<^item> \<open>Rumsh_Handshake\<close>, \<open>Rumsh_Server_Net\<close>: \<open>server/network.rs\<close>; \<open>Rumsh_Handshake\<close>, \<open>Rumsh_Client_Net\<close>, \<open>Rumsh_Client_Screen\<close>:
    \<open>client/network.rs\<close>; \<open>Rumsh_Lifecycle\<close>: \<open>client/lifecycle.rs\<close>, with locales for the backend and for crossterm.
  \<^item> \<open>Rumsh_Bootstrap\<close>: \<open>client/bootstrap.rs\<close>, the server subcommand of \<open>main.rs\<close> up to its output and the binding of
    \<open>server/network.rs\<close>; \<open>Rumsh_Main\<close>: the rest of \<open>main.rs\<close>, what the process does with its parsed arguments.
  \<^item> \<open>Rumsh_Program\<close>: the two processes together.
  \<^item> \<open>Rumsh_Tests\<close>, \<open>Rumsh_Session_Tests\<close>: the unit tests of the modules as definitions, each shown to pass on the model, over
    any serialiser, emulator, float arithmetic and clock with the laws the test needs.

  \<^bold>\<open>How the parts meet.\<close>  The sessions are pure: an event gives a new state and a list of actions.  \<open>Rumsh_Server_Net\<close>
  and \<open>Rumsh_Client_Net\<close> execute the actions as the two \<open>network.rs\<close> do, and refine the steps of \<open>Rumsh_System\<close>: a run of the
  program is a run of the system with the same sessions whose wire has every datagram the socket got
  (\<open>program_implements\<close>, \<open>client_loop_drives\<close>).  The invariant of the system (\<open>sync_inv\<close>) relates the jobs the server queued,
  a log of what it sealed and what the client's fragment buffer and history hold; it is proved once for any codec
  that satisfies \<open>codec_net\<close> and reaches the program through the interpretation for \<open>ChaChaCodec\<close>.

  \<^bold>\<open>What is shown.\<close>
  \<^item> Synchronisation: what the client holds under a number is what the server queued under it, from the sessions alone
    up to the two processes with their handshake (\<open>client_mirrors_server\<close>, \<open>session_mirrors_server\<close>); a diff applied to its
    reference gives the newer grid and lists only changes; reading only the rows the emulator reports
    dirty gives its whole screen (\<open>dirty_emulator\<close>, \<open>incremental_read_faithful\<close>); a frame is applied,
    shown by the mirror, and painted with its text, colours and attributes.
  \<^item> The wire: fragments in any order and number reassemble to their frame; a fragment report names exactly the held
    ones and the server resends exactly the others, after which the frame arrives; the buffer is bounded whatever
    arrives; client packets are authentic in everything but the acknowledgement.
  \<^item> Input: the escape interpreter implements its line-oriented specification; what a client session numbers
    reaches the PTY once and in order, over any loss, order and repetition (\<open>typed_bytes_reach_shell\<close>); unacknowledged packets are sent again; predictions can be undone.
  \<^item> States: every state of the two processes is well formed; at most one diff task exists; a turn of the client's loop
    returns; the tick interval stays in its bounds; the terminal is restored.
  \<^item> Start: the bound port is the lowest free one, the bootstrap finds it and the key, a client process goes on with the port and key of
    the server process it started and fails when that one fails (\<open>mains_agree\<close>), the handshake agrees.
  \<^item> Deviations, proved of the model and listed as findings: a lost handshake reply, the lost first resize, the
    dropped diff job, a missing reference, an address taken from a replayed packet, the blank screen after a suspension, predictions that are not painted,
    a process name that stays cached after the process has executed another program, a client that waits for ssh where the
    architecture document has it killed, and predictions a frame drops although the server has not acknowledged them,
    nonces shared by both directions, and index and parser corner cases.

  \<^bold>\<open>Bounds and partiality.\<close>  Machine integers are words of their width; \<open>+\<close> wraps as in a release build, and where it
  matters a theorem has the bound as a hypothesis or a guard of the step: the server's 64 bit sequence number does not
  run out (\<open>seq_room\<close>), a frame has at most 65536 cells and fewer than 65536 fragments (\<open>grid_fits\<close>, \<open>task_fits\<close>; above
  that \<open>u16\<close> arithmetic wraps), the frame has at most 65534 columns for \<open>paint\<close> to return.  \<open>paint_row\<close> is a
  \<open>partial_function\<close> whose \<open>None\<close> is a loop that does not end; all other loops are total functions.  No fuel is used.
  An instant is a natural number of nanoseconds; a mutex is always free, since a session runs on one thread.

  \<^bold>\<open>Parameters.\<close>  Code outside the repository is an argument: the serialiser, LZ4 and the AEAD (\<open>codec_lib\<close>, laws in
  \<open>wire_lib\<close> and \<open>wire_lib_small\<close>: decoding inverts encoding, opening inverts sealing and only that, sealing adds at most 16
  bytes; where the handshake needs it, a session's messages are rejected under a nonce they were not sealed with), the emulator
  (\<open>ghostty\<close>; its dirty flags in \<open>dirty_emulator\<close>), the operating system's terminals (\<open>os_tty\<close>, \<open>pty_system\<close>, \<open>crossterm_lib\<close>), single
  floats (\<open>f32_ops\<close>), ssh and the resolver.  The state of a PTY device is passed through every system call on it, so calls may
  fail and the processes behind it may change at any time.  Witnesses use concrete instances (\<open>ref_lib\<close>, \<open>tiny_vt\<close>, \<open>pair_vt\<close>, \<open>sample_tty\<close>, \<open>fake_backend\<close>).

  \<^bold>\<open>Not modelled.\<close>  Sockets, timers, threads and channels appear as the events they deliver; a failing send is
  not distinguished from success where the code drops the result (the start of the client, which does not, has the error).
  \<open>paint\<close> itself writes to a terminal that takes everything; what an error of standard output leaves is \<open>paint_cut\<close>, and
  the client's loop goes on from there.  \<open>println\<close> of the help text does not fail.  Argument
  parsing is the work of clap, so \<open>Rumsh_Main\<close> starts from the parsed arguments; detaching from the terminal and opening
  the log succeed or fail, and log messages are left out.  The formatted text of the overlay is a parameter.
  Of the unit tests, the tamper test and the fragmentation test of \<open>codec.rs\<close> are left out: they depend on the bytes the
  serialiser and LZ4 produce (the properties of the wire show both behaviours for every library with the laws).
  The integration driver \<open>bin/test_integration.rs\<close> is a test, not the program; \<open>lib.rs\<close> and the \<open>mod.rs\<close> files
  only declare modules.
\<close>

end
